(* ===== verification/XM_Prelude.thy ===== *)
theory XM_Prelude
  imports Main "HOL-Library.Word" "HOL-Library.Sublist"
begin

text \<open>
  Shared vocabulary of the x-monitor development: the C integer types as words, C strings as
  lists of bytes, the libc string routines the sources call (\<^verbatim>\<open>strstr\<close>, \<^verbatim>\<open>strncmp\<close>,
  \<^verbatim>\<open>isdigit\<close>), and the generic list lemmas the component theories use.

  A C string is the \<open>string\<close> of the bytes before its NUL; a buffer with a capacity is a
  \<open>string\<close> of that length, NULs included.
\<close>

unbundle bit_operations_syntax

type_synonym u8 = "8 word"
type_synonym u16 = "16 word"
type_synonym u32 = "32 word"
type_synonym u64 = "64 word"

text \<open>Signed C integers are words too; \<^const>\<open>sint\<close> reads them.\<close>

type_synonym i16 = "16 word"
type_synonym i32 = "32 word"
type_synonym i64 = "64 word"

named_theorems xm_inv "an operation of a component keeps the component's invariant"
named_theorems xm_frame "a field that an operation does not write"

abbreviation NUL :: char where
  "NUL \<equiv> CHR 0x00"

abbreviation code_of :: "char \<Rightarrow> nat" where
  "code_of \<equiv> of_char"

text \<open>The string that C reads in a buffer: the bytes before the first NUL.\<close>

definition cstr :: "string \<Rightarrow> string" where
  "cstr b = takeWhile (\<lambda>c. c \<noteq> NUL) b"

definition is_digit :: "char \<Rightarrow> bool" where
  "is_digit c = (48 \<le> code_of c \<and> code_of c \<le> 57)"

definition digit_val :: "char \<Rightarrow> nat" where
  "digit_val c = code_of c - 48"

text \<open>\<^verbatim>\<open>strncmp(s, p, strlen(p)) == 0\<close>, for strings without NUL.\<close>

fun has_prefix :: "string \<Rightarrow> string \<Rightarrow> bool" where
  "has_prefix [] s = True"
| "has_prefix (p # ps) [] = False"
| "has_prefix (p # ps) (c # cs) = (p = c \<and> has_prefix ps cs)"

text \<open>\<^verbatim>\<open>strstr(s, p)\<close>: the text before the first occurrence and the text from it on.\<close>

fun strstr :: "string \<Rightarrow> string \<Rightarrow> (string \<times> string) option" where
  "strstr s p =
     (if has_prefix p s then Some ([], s)
      else case s of [] \<Rightarrow> None
           | c # cs \<Rightarrow> (case strstr cs p of None \<Rightarrow> None | Some (b, r) \<Rightarrow> Some (c # b, r)))"

declare strstr.simps [simp del]

lemma has_prefix_iff: "has_prefix p s \<longleftrightarrow> prefix p s"
  by (induction p s rule: has_prefix.induct) auto

lemma strstr_Nil [simp]: "strstr [] p = (if p = [] then Some ([], []) else None)"
  by (simp add: strstr.simps has_prefix_iff)

lemma strstr_Cons:
  "strstr (c # cs) p =
     (if prefix p (c # cs) then Some ([], c # cs)
      else map_option (\<lambda>(b, r). (c # b, r)) (strstr cs p))"
  by (subst strstr.simps) (auto simp: has_prefix_iff split: option.split)

lemma strstr_empty [simp]: "strstr s [] = Some ([], s)"
  by (subst strstr.simps) simp

text \<open>A hit splits the text: what follows starts with the pattern and comes back whole.\<close>

lemma strstr_Some:
  "strstr s p = Some (b, r) \<Longrightarrow> s = b @ r \<and> prefix p r"
proof (induction s arbitrary: b r)
  case Nil
  then show ?case by (auto split: if_splits)
next
  case (Cons c cs)
  then show ?case by (auto simp: strstr_Cons split: if_splits)
qed

lemma strstr_None_iff: "strstr s p = None \<longleftrightarrow> \<not> sublist p s"
  by (induction s) (auto simp: strstr_Cons sublist_Cons_right split: if_splits)

lemma strstr_iff_sublist: "(\<exists>br. strstr s p = Some br) \<longleftrightarrow> sublist p s"
  using strstr_None_iff [of s p] by auto

text \<open>The hit is the first one: the pattern does not begin at any earlier position.\<close>

lemma strstr_first:
  "strstr s p = Some (b, r) \<Longrightarrow> i < length b \<Longrightarrow> \<not> prefix p (drop i s)"
proof (induction s arbitrary: b r i)
  case Nil
  then show ?case by (auto split: if_splits)
next
  case (Cons c cs)
  then show ?case by (cases i) (auto simp: strstr_Cons split: if_splits)
qed

subsection \<open>Decimal numbers\<close>

text \<open>The number that a run of decimal digits denotes.\<close>

fun dec_value :: "nat \<Rightarrow> string \<Rightarrow> nat" where
  "dec_value acc [] = acc"
| "dec_value acc (c # cs) = dec_value (acc * 10 + digit_val c) cs"

lemma dec_value_append: "dec_value acc (xs @ ys) = dec_value (dec_value acc xs) ys"
  by (induction xs arbitrary: acc) simp_all

lemma dec_value_shift: "dec_value acc xs = acc * 10 ^ length xs + dec_value 0 xs"
proof (induction xs arbitrary: acc)
  case Nil
  then show ?case by simp
next
  case (Cons c cs)
  have "dec_value acc (c # cs) = (acc * 10 + digit_val c) * 10 ^ length cs + dec_value 0 cs"
    using Cons.IH [of "acc * 10 + digit_val c"] by simp
  moreover have "dec_value 0 (c # cs) = digit_val c * 10 ^ length cs + dec_value 0 cs"
    using Cons.IH [of "digit_val c"] by simp
  ultimately show ?case by (simp add: algebra_simps)
qed

text \<open>The C expression \<^verbatim>\<open>'0' + d\<close> for a digit \<open>d\<close>.\<close>

definition digit_char :: "nat \<Rightarrow> char" where
  "digit_char d = char_of (48 + d)"

lemma code_of_digit_char [simp]: "d < 10 \<Longrightarrow> code_of (digit_char d) = 48 + d"
  by (simp add: digit_char_def)

lemma is_digit_digit_char [simp]: "d < 10 \<Longrightarrow> is_digit (digit_char d)"
  by (simp add: is_digit_def)

lemma digit_val_digit_char [simp]: "d < 10 \<Longrightarrow> digit_val (digit_char d) = d"
  by (simp add: digit_val_def)

lemma digit_char_neq_NUL [simp]: "d < 10 \<Longrightarrow> digit_char d \<noteq> NUL"
proof
  assume d: "d < 10" and "digit_char d = NUL"
  then have "code_of (digit_char d) = 0" by simp
  with d show False by simp
qed

lemma is_digit_cases: "is_digit c \<Longrightarrow> c \<in> set ''0123456789''"
proof -
  assume "is_digit c"
  then have "code_of c \<in> {48, 49, 50, 51, 52, 53, 54, 55, 56, 57 :: nat}"
    unfolding is_digit_def insert_iff empty_iff by presburger
  then have "char_of (code_of c :: nat) \<in> char_of ` {48, 49, 50, 51, 52, 53, 54, 55, 56, 57 :: nat}" by (rule imageI)
  then show ?thesis by (simp only: char_of_char) (simp add: char_of_def bit_0)
qed

text \<open>The reference: the decimal representation of a number, most significant digit first.\<close>

fun decimal :: "nat \<Rightarrow> string" where
  "decimal n = (if n < 10 then [digit_char n] else decimal (n div 10) @ [digit_char (n mod 10)])"

declare decimal.simps [simp del]

lemma decimal_digits: "list_all is_digit (decimal n)"
proof (induction n rule: decimal.induct)
  case (1 n)
  then show ?case by (subst decimal.simps) auto
qed

lemma dec_value_decimal: "dec_value 0 (decimal n) = n"
proof (induction n rule: decimal.induct)
  case (1 n)
  show ?case
  proof (cases "n < 10")
    case True
    then show ?thesis by (subst decimal.simps) simp
  next
    case False
    with 1 show ?thesis by (subst decimal.simps) (simp add: dec_value_append)
  qed
qed

lemma decimal_not_Nil [simp]: "decimal n \<noteq> []"
  by (subst decimal.simps) simp

lemma length_decimal_bounds:
  "(n \<noteq> 0 \<longrightarrow> 10 ^ (length (decimal n) - 1) \<le> n) \<and> n < 10 ^ length (decimal n)"
proof (induction n rule: decimal.induct)
  case (1 n)
  show ?case
  proof (cases "n < 10")
    case True
    then show ?thesis by (subst (1 2) decimal.simps) auto
  next
    case False
    let ?m = "n div 10" and ?L = "length (decimal (n div 10))"
    have IH: "10 ^ (?L - 1) \<le> ?m" "?m < 10 ^ ?L" using False 1 by auto
    have L: "length (decimal n) = Suc ?L" using False by (subst decimal.simps) simp
    have pos: "0 < ?L" by simp
    have "10 ^ ?L = 10 * (10::nat) ^ (?L - 1)" using pos by (cases ?L) simp_all
    also have "\<dots> \<le> 10 * ?m" using IH(1) by simp
    also have "\<dots> \<le> n" by simp
    finally have lo: "10 ^ ?L \<le> n" .
    have "Suc ?m \<le> 10 ^ ?L" using IH(2) by simp
    then have "10 * Suc ?m \<le> 10 ^ Suc ?L" by simp
    moreover have "n < 10 * Suc ?m" by simp
    ultimately have "n < 10 ^ Suc ?L" by linarith
    with lo L show ?thesis by simp
  qed
qed

text \<open>The length of the representation is fixed by the powers of ten around the number.\<close>

lemma length_decimal_eq:
  assumes "n < 10 ^ k" and "k = 1 \<or> 10 ^ (k - 1) \<le> n" and "0 < k"
  shows "length (decimal n) = k"
proof (cases "n = 0")
  case True
  with assms have "k = 1" by auto
  with True show ?thesis by (simp add: decimal.simps)
next
  case False
  let ?L = "length (decimal n)"
  have b: "10 ^ (?L - 1) \<le> n" "n < 10 ^ ?L" using length_decimal_bounds [of n] False by auto
  have "(10::nat) ^ (?L - 1) < 10 ^ k" using b(1) assms(1) by (rule le_less_trans)
  then have le: "?L \<le> k" by (simp add: power_strict_increasing_iff)
  have lo: "10 ^ (k - 1) \<le> n" using assms(2) False by auto
  have "(10::nat) ^ (k - 1) < 10 ^ ?L" using lo b(2) by (rule le_less_trans)
  then have "k \<le> ?L" by (simp add: power_strict_increasing_iff)
  with le show ?thesis by simp
qed

subsection \<open>Lists\<close>

lemma takeWhile_append_stop:
  "list_all P xs \<Longrightarrow> (ys = [] \<or> \<not> P (hd ys)) \<Longrightarrow> takeWhile P (xs @ ys) = xs"
  by (induction xs) (auto simp: takeWhile_eq_Nil_iff)

lemma subseq_distinct: "subseq xs ys \<Longrightarrow> distinct ys \<Longrightarrow> distinct xs"
  by (auto simp: subseq_conv_nths)

lemma list_update_at_length:
  "length xs = i \<Longrightarrow> (xs @ y # ys)[i := v] = xs @ v # ys"
  by (induction xs arbitrary: i) (auto split: nat.split)

lemma cstr_append_NUL [simp]: "NUL \<notin> set s \<Longrightarrow> cstr (s @ NUL # r) = s"
  unfolding cstr_def by (rule takeWhile_append_stop) (auto simp: list_all_iff)

lemma cstr_no_NUL [simp]: "NUL \<notin> set (cstr b)"
  unfolding cstr_def by (auto dest: set_takeWhileD)

subsection \<open>Maps\<close>

lemma ran_upd_in: "ran (m(k \<mapsto> a)) = insert a (ran (m(k := None)))"
  by (auto simp: ran_def)

lemma ran_remove_inj:
  assumes "inj_on m (dom m)" and "m k = Some b"
  shows "ran (m(k := None)) = ran m - {b}"
proof -
  have b: "m k' \<noteq> Some b" if "k' \<noteq> k" for k'
    using inj_onD [OF assms(1), of k' k] assms(2) that by auto
  have "(m(k := None)) k' = Some a \<longleftrightarrow> m k' = Some a \<and> a \<noteq> b" for k' a
    by (cases "k' = k") (use assms(2) b [of k'] in auto)
  then show ?thesis unfolding ran_def by blast
qed

lemma ran_delete_value: "ran (\<lambda>k. if m k = Some a then None else m k) = ran m - {a}"
proof -
  have "(if m k = Some a then None else m k) = Some b \<longleftrightarrow> m k = Some b \<and> b \<noteq> a" for k b by auto
  then show ?thesis unfolding ran_def by blast
qed

end
