(* ===== verification/XM_Strings.thy ===== *)
theory XM_Strings
  imports XM_Prelude
begin

text \<open>
  \<^verbatim>\<open>utils/strings.c\<close>: number parsing, number printing, the two string hashes, the bounded copy
  and the two splitters. Signed accumulators are two's complement words; the theorems about
  them are stated where the accumulated value is in range, which is where C defines the result.
\<close>

section \<open>Parsing numbers\<close>

text \<open>The loop every parser shares: \<^verbatim>\<open>for (c = *s; c >= '0' && c <= '9'; c = *(++s))\<close>.
  It returns the accumulator and the text at the final position of \<^verbatim>\<open>s\<close>.\<close>

fun str2num_loop :: "'a::len word \<Rightarrow> string \<Rightarrow> 'a word \<times> string" where
  "str2num_loop n [] = (n, [])"
| "str2num_loop n (c # s) =
     (if is_digit c then str2num_loop (n * 10 + of_nat (digit_val c)) s else (n, c # s))"

definition str2int32_t :: "string \<Rightarrow> i32" where
  "str2int32_t s =
     (let negative = (s \<noteq> [] \<and> hd s = CHR ''-'');
          n = fst (str2num_loop 0 (if negative then tl s else s))
      in if negative then - n else n)"

definition str2uint32_t :: "string \<Rightarrow> u32" where
  "str2uint32_t s = fst (str2num_loop 0 s)"

definition str2uint64_t :: "string \<Rightarrow> u64" where
  "str2uint64_t s = fst (str2num_loop 0 s)"

definition str2ul :: "string \<Rightarrow> u64" where
  "str2ul s = fst (str2num_loop 0 s)"

definition str2ull :: "string \<Rightarrow> u64" where
  "str2ull s = fst (str2num_loop 0 s)"

text \<open>\<^verbatim>\<open>str2int64_t(s, &endptr)\<close>: the value and the text at \<^verbatim>\<open>*endptr\<close>.\<close>

definition str2int64_t :: "string \<Rightarrow> i64 \<times> string" where
  "str2int64_t s =
     (let negative = (s \<noteq> [] \<and> hd s = CHR ''-'');
          s1 = (if s \<noteq> [] \<and> (hd s = CHR ''-'' \<or> hd s = CHR ''+'') then tl s else s);
          (n, rest) = str2num_loop 0 s1
      in (if negative then - n else n, rest))"

section \<open>Printing numbers\<close>

definition trunc_div :: "int \<Rightarrow> int \<Rightarrow> int" where
  "trunc_div a b = sgn a * sgn b * (\<bar>a\<bar> div \<bar>b\<bar>)"

definition itoa_table :: string where
  "itoa_table = ''zyxwvutsrqponmlkjihgfedcba9876543210123456789abcdefghijklmnopqrstuvwxyz''"

lemma trunc_div_less:
  assumes "trunc_div v b \<noteq> 0" and "2 \<le> b"
  shows "\<bar>trunc_div v b\<bar> < \<bar>v\<bar>"
proof -
  have "v \<noteq> 0" using assms by (auto simp: trunc_div_def)
  have "\<bar>trunc_div v b\<bar> = \<bar>v\<bar> div b"
    using assms(2) \<open>v \<noteq> 0\<close> by (simp add: trunc_div_def abs_mult sgn_if pos_imp_zdiv_nonneg_iff)
  also have "\<dots> < \<bar>v\<bar>"
    using int_div_less_self [of "\<bar>v\<bar>" b] \<open>v \<noteq> 0\<close> assms(2) by simp
  finally show ?thesis .
qed

text \<open>The \<^verbatim>\<open>do ... while (value)\<close> loop: the digits in the order they are stored and the last
  \<^verbatim>\<open>tmp_value\<close>. The guard on \<open>base\<close> is the check that \<^verbatim>\<open>itoa\<close> makes first.\<close>

function itoa_loop :: "int \<Rightarrow> int \<Rightarrow> string \<Rightarrow> string \<times> int" where
  "itoa_loop base value out =
     (let tmp_value = value;
          value' = trunc_div value base;
          out' = out @ [itoa_table ! nat (35 + (tmp_value - value' * base))]
      in if value' \<noteq> 0 \<and> 2 \<le> base then itoa_loop base value' out' else (out', tmp_value))"
  by pat_completeness auto
termination
  by (relation "measure (\<lambda>(base, value, out). nat \<bar>value\<bar>)") (auto dest: trunc_div_less)

declare itoa_loop.simps [simp del]

text \<open>The reversal in place: \<^verbatim>\<open>while (ptr1 < ptr) swap(ptr1++, ptr--)\<close>.\<close>

function itoa_reverse :: "string \<Rightarrow> nat \<Rightarrow> nat \<Rightarrow> string" where
  "itoa_reverse buf ptr1 ptr =
     (if ptr1 < ptr
      then itoa_reverse (buf[ptr := buf ! ptr1, ptr1 := buf ! ptr]) (Suc ptr1) (ptr - 1)
      else buf)"
  by pat_completeness auto
termination
  by (relation "measure (\<lambda>(buf, ptr1, ptr). ptr - ptr1)") auto

declare itoa_reverse.simps [simp del]

definition itoa :: "int \<Rightarrow> int \<Rightarrow> string" where
  "itoa value base =
     (if base < 2 \<or> 36 < base then []
      else let (out, tmp_value) = itoa_loop base value [];
               out1 = (if tmp_value < 0 then out @ ''-'' else out)
           in itoa_reverse out1 0 (length out1 - 1))"

section \<open>Hashes\<close>

definition bkrd_hash :: "u8 list \<Rightarrow> u32" where
  "bkrd_hash key = foldl (\<lambda>hash b. hash * 131 + ucast b) 0 key"

definition name_hash :: "string \<Rightarrow> u32" where
  "name_hash name = bkrd_hash (map (\<lambda>c. of_nat (code_of c)) name)"

definition simple_hash :: "string \<Rightarrow> u32" where
  "simple_hash name =
     foldl (\<lambda>hval c. (hval * 16777619) XOR of_nat (code_of c)) 0x811c9dc5 name"

section \<open>Bounded copy\<close>

text \<open>The copy loop: the destination, the positions of \<^verbatim>\<open>d\<close> and \<^verbatim>\<open>s\<close>, and \<^verbatim>\<open>n\<close> when it
  is left. The source is a string with its NUL after it.\<close>

fun strlcpy_loop :: "string \<Rightarrow> nat \<Rightarrow> nat \<Rightarrow> string \<Rightarrow> nat \<Rightarrow> string \<times> nat \<times> nat \<times> nat" where
  "strlcpy_loop src 0 s dst d = (dst, d, s, 0)"
| "strlcpy_loop src (Suc n) s dst d =
     (if n \<noteq> 0
      then let c = (src @ [NUL]) ! s; dst' = dst[d := c]
           in if c = NUL then (dst', Suc d, Suc s, n)
              else strlcpy_loop src n (Suc s) dst' (Suc d)
      else (dst, d, s, 0))"

text \<open>\<^verbatim>\<open>while (*s++);\<close>\<close>

function strlcpy_skip :: "string \<Rightarrow> nat \<Rightarrow> nat" where
  "strlcpy_skip src s = (if s < length src \<and> src ! s \<noteq> NUL then strlcpy_skip src (Suc s) else Suc s)"
  by pat_completeness auto
termination
  by (relation "measure (\<lambda>(src, s). length src - s)") auto

declare strlcpy_skip.simps [simp del]

definition strlcpy :: "string \<Rightarrow> string \<Rightarrow> nat \<Rightarrow> string \<times> nat" where
  "strlcpy dst src siz =
     (let (dst1, d, s, n) = (if siz \<noteq> 0 then strlcpy_loop src siz 0 dst 0 else (dst, 0, 0, siz));
          dst2 = (if n = 0 \<and> siz \<noteq> 0 then dst1[d := NUL] else dst1);
          s2 = (if n = 0 then strlcpy_skip src s else s)
      in (dst2, s2 - 1))"

text \<open>What a reader of the destination sees after a copy into a buffer of \<open>siz\<close> bytes.\<close>

definition strlcpy_str :: "string \<Rightarrow> nat \<Rightarrow> string" where
  "strlcpy_str src siz = cstr (fst (strlcpy (replicate siz NUL) src siz))"

section \<open>Splitting\<close>

text \<open>\<^verbatim>\<open>_strsplit\<close> scans twice with \<^verbatim>\<open>strstr\<close>: once to count, once to cut. With an empty
  delimiter both scans stay where they are and never end, so both are partial.\<close>

partial_function (option) strsplit_count_loop :: "string \<Rightarrow> string \<Rightarrow> nat \<Rightarrow> nat option" where
  "strsplit_count_loop delim s nbWords =
     (case strstr s delim of
        None \<Rightarrow> Some nbWords
      | Some (b, r) \<Rightarrow> strsplit_count_loop delim (drop (length delim) r) (Suc nbWords))"

declare strsplit_count_loop.simps [code]

partial_function (option) strsplit_cut_loop :: "string \<Rightarrow> string \<Rightarrow> string list \<Rightarrow> string list option" where
  "strsplit_cut_loop delim s ptrs =
     (case strstr s delim of
        None \<Rightarrow> Some (ptrs @ [s])
      | Some (b, r) \<Rightarrow> strsplit_cut_loop delim (drop (length delim) r) (ptrs @ [b]))"

declare strsplit_cut_loop.simps [code]

text \<open>The words (or \<open>None\<close> for a failed \<^verbatim>\<open>malloc\<close>) and the count stored through \<^verbatim>\<open>nb\<close>.\<close>

definition strsplit_impl :: "bool \<Rightarrow> string \<Rightarrow> string \<Rightarrow> (string list option \<times> nat) option" where
  "strsplit_impl malloc_ok s delim =
     (case strsplit_count_loop delim s 1 of
        None \<Rightarrow> None
      | Some nbWords \<Rightarrow>
          if malloc_ok
          then (if nbWords > 1
                then (case strsplit_cut_loop delim s [] of
                        None \<Rightarrow> None | Some ws \<Rightarrow> Some (Some ws, nbWords))
                else Some (Some [s], nbWords))
          else Some (None, 0))"

definition strsplit :: "bool \<Rightarrow> string \<Rightarrow> string \<Rightarrow> string list option option" where
  "strsplit malloc_ok s delim = map_option fst (strsplit_impl malloc_ok s delim)"

definition strsplit_count :: "bool \<Rightarrow> string \<Rightarrow> string \<Rightarrow> (string list option \<times> nat) option" where
  "strsplit_count malloc_ok s delim = strsplit_impl malloc_ok s delim"

text \<open>libc \<^verbatim>\<open>strtok\<close>: skip delimiter bytes, cut at the next one; \<open>None\<close> is NULL.\<close>

definition strtok :: "string \<Rightarrow> string \<Rightarrow> (string \<times> string) option" where
  "strtok delim s =
     (let s1 = dropWhile (\<lambda>c. c \<in> set delim) s
      in if s1 = [] then None
         else Some (takeWhile (\<lambda>c. c \<notin> set delim) s1, tl (dropWhile (\<lambda>c. c \<notin> set delim) s1)))"

definition is_space :: "char \<Rightarrow> bool" where
  "is_space c = (code_of c = 32 \<or> 9 \<le> code_of c \<and> code_of c \<le> 13)"

text \<open>libc \<^verbatim>\<open>strtoull(tok, NULL, 10)\<close>: blanks, a sign, digits; clamped at the largest value.\<close>

definition strtoull :: "string \<Rightarrow> u64" where
  "strtoull tok =
     (let s = dropWhile is_space tok;
          negative = (s \<noteq> [] \<and> hd s = CHR ''-'');
          s1 = (if s \<noteq> [] \<and> (hd s = CHR ''-'' \<or> hd s = CHR ''+'') then tl s else s);
          v = dec_value 0 (takeWhile is_digit s1)
      in if 2 ^ 64 \<le> v then - 1 else if negative then - of_nat v else of_nat v)"

lemma strtok_shorter: "strtok delim s = Some (tok, rest) \<Longrightarrow> length rest < length s"
proof -
  assume a: "strtok delim s = Some (tok, rest)"
  let ?s1 = "dropWhile (\<lambda>c. c \<in> set delim) s"
  let ?r = "dropWhile (\<lambda>c. c \<notin> set delim) ?s1"
  have ne: "?s1 \<noteq> []" and rest: "rest = tl ?r"
    using a by (auto simp: strtok_def Let_def split: if_splits)
  have le: "length ?r \<le> length ?s1" "length ?s1 \<le> length s"
    by (rule length_dropWhile_le)+
  show "length rest < length s"
  proof (cases ?r)
    case Nil
    then show ?thesis using rest ne le by (cases ?s1) auto
  next
    case (Cons a list)
    then show ?thesis using rest le by simp
  qed
qed

text \<open>The loop of \<^verbatim>\<open>strsplit_to_nums\<close>: the array and the count when it is left.\<close>

function strsplit_to_nums_loop :: "string \<Rightarrow> nat \<Rightarrow> string \<Rightarrow> u64 list \<Rightarrow> nat \<Rightarrow> u64 list \<times> nat" where
  "strsplit_to_nums_loop delim nums_max_size s nums count =
     (case strtok delim s of
        None \<Rightarrow> (nums, count)
      | Some (tok, rest) \<Rightarrow>
          if count < nums_max_size
          then strsplit_to_nums_loop delim nums_max_size rest (nums[count := strtoull tok]) (Suc count)
          else (nums, count))"
  by pat_completeness auto
termination
  by (relation "measure (\<lambda>(delim, m, s, nums, count). length s)") (auto dest: strtok_shorter)

declare strsplit_to_nums_loop.simps [simp del]

text \<open>\<open>None\<close> arguments are NULL pointers; the result is the array and the return value,
  \<open>-22\<close> being \<^verbatim>\<open>-EINVAL\<close>.\<close>

definition strsplit_to_nums ::
  "string option \<Rightarrow> string option \<Rightarrow> u64 list option \<Rightarrow> u16 \<Rightarrow> u64 list option \<times> int" where
  "strsplit_to_nums str delim nums nums_max_size =
     (case (str, delim, nums) of
        (Some s, Some d, Some ns) \<Rightarrow>
          if s = [] \<or> d = [] then (nums, - 22)
          else let (ns', count) = strsplit_to_nums_loop d (unat nums_max_size) s ns 0
               in (Some ns', int count)
      | _ \<Rightarrow> (nums, - 22))"

section \<open>What the parsers compute\<close>

lemma str2num_loop_eq:
  "str2num_loop n s = (of_nat (dec_value (unat n) (takeWhile is_digit s)), dropWhile is_digit s)"
proof (induction n s rule: str2num_loop.induct)
  case (1 n)
  then show ?case by simp
next
  case (2 n c s)
  have "of_nat (dec_value (unat (n * 10 + of_nat (digit_val c))) t) =
        (of_nat (dec_value (unat n * 10 + digit_val c) t) :: 'a word)" for t
    by (subst (1 2) dec_value_shift) simp
  with 2 show ?case by simp
qed

lemma str2num_value [simp]:
  "fst (str2num_loop 0 s) = of_nat (dec_value 0 (takeWhile is_digit s))"
  by (simp add: str2num_loop_eq)

lemma unat_str2uint64_t:
  "unat (str2uint64_t s) = dec_value 0 (takeWhile is_digit s) mod 2 ^ 64"
  by (simp add: str2uint64_t_def unat_of_nat)

lemma unat_str2uint32_t:
  "unat (str2uint32_t s) = dec_value 0 (takeWhile is_digit s) mod 2 ^ 32"
  by (simp add: str2uint32_t_def unat_of_nat)

lemma takeWhile_decimal [simp]: "takeWhile is_digit (decimal n) = decimal n"
  using takeWhile_append_stop [OF decimal_digits, of "[]" n] by simp

lemma str2uint64_t_decimal: "n < 2 ^ 64 \<Longrightarrow> str2uint64_t (decimal n) = of_nat n"
  by (simp add: str2uint64_t_def dec_value_decimal)

lemma hd_decimal_digit: "is_digit (hd (decimal n))"
  using decimal_digits [of n] decimal_not_Nil [of n] by (cases "decimal n") auto

lemma str2num_decimal [simp]:
  "str2uint64_t (decimal n) = of_nat n" "str2uint32_t (decimal n) = of_nat n"
  by (simp_all add: str2uint64_t_def str2uint32_t_def dec_value_decimal)

lemma str2int32_t_decimal [simp]: "str2int32_t (decimal n) = of_nat n"
proof -
  have "hd (decimal n) \<noteq> CHR ''-''" using hd_decimal_digit [of n] by (auto simp: is_digit_def)
  then show ?thesis by (simp add: str2int32_t_def dec_value_decimal)
qed

lemma sint_of_nat_small:
  assumes "n < 2 ^ (LENGTH('a::len) - 1)"
  shows "sint (of_nat n :: 'a word) = int n"
proof -
  have "int n < 2 ^ (LENGTH('a) - 1)"
    using assms by (metis of_nat_less_iff of_nat_numeral of_nat_power)
  moreover have "- (2 ^ (LENGTH('a) - 1)) \<le> int n"
    by (rule order_trans [of _ 0]) simp_all
  ultimately have "signed_take_bit (LENGTH('a) - 1) (int n) = int n"
    by (intro signed_take_bit_int_eq_self) simp_all
  then show ?thesis by (simp add: signed_of_nat)
qed

lemma sint_neg_of_nat_small:
  assumes "n < 2 ^ (LENGTH('a::len) - 1)"
  shows "sint (- (of_nat n) :: 'a word) = - int n"
proof -
  have b: "int n < 2 ^ (LENGTH('a) - 1)"
    using assms by (metis of_nat_less_iff of_nat_numeral of_nat_power)
  have "- (of_nat n) = (word_of_int (- int n) :: 'a word)" by simp
  also have "sint \<dots> = signed_take_bit (LENGTH('a) - 1) (- int n)"
    by (rule sint_sbintrunc')
  also have "\<dots> = - int n"
    using b by (intro signed_take_bit_int_eq_self) (simp_all add: le_less_trans [of "- int n" 0])
  finally show ?thesis .
qed

text \<open>An unsigned parser returns the value of the longest digit prefix modulo its width, and
  the signed 64-bit one the signed value, with the end pointer on the first byte after it.\<close>

lemma str2int64_t_unsigned:
  assumes "s = [] \<or> hd s \<noteq> CHR ''-'' \<and> hd s \<noteq> CHR ''+''"
    and "dec_value 0 (takeWhile is_digit s) < 2 ^ 63"
  shows "str2int64_t s = (of_nat (dec_value 0 (takeWhile is_digit s)), dropWhile is_digit s)"
  using assms by (auto simp: str2int64_t_def str2num_loop_eq)

section \<open>Printing a number gives its representation\<close>

lemma itoa_table_digit:
  "d < 10 \<Longrightarrow> itoa_table ! (35 + d) = digit_char d \<and> itoa_table ! (35 - d) = digit_char d"
proof -
  have "\<forall>d \<in> set [0..<10].
      itoa_table ! (35 + d) = digit_char d \<and> itoa_table ! (35 - d) = digit_char d"
    by code_simp
  then show "d < 10 \<Longrightarrow> ?thesis" by simp
qed

lemma trunc_div_nonneg: "0 \<le> v \<Longrightarrow> trunc_div v 10 = v div 10"
  by (auto simp: trunc_div_def sgn_if)

lemma trunc_div_neg: "v < 0 \<Longrightarrow> trunc_div v 10 = - ((- v) div 10)"
  by (auto simp: trunc_div_def sgn_if)

lemma int_mod_10: "int n - int (n div 10) * 10 = int (n mod 10)"
  by (simp add: zdiv_int zmod_int minus_div_mult_eq_mod)

lemma itoa_loop_nonneg:
  "fst (itoa_loop 10 (int n) out) = out @ rev (decimal n) \<and> 0 \<le> snd (itoa_loop 10 (int n) out)"
proof (induction n arbitrary: out rule: decimal.induct)
  case (1 n)
  have q: "trunc_div (int n) 10 = int (n div 10)" by (simp add: trunc_div_nonneg zdiv_int)
  have r: "nat (35 + (int n - int (n div 10) * 10)) = 35 + n mod 10"
    unfolding int_mod_10 by simp
  have d: "itoa_table ! (35 + n mod 10) = digit_char (n mod 10)"
    using itoa_table_digit [of "n mod 10"] by simp
  show ?case
  proof (cases "n < 10")
    case True
    then show ?thesis
      by (subst (1 2) itoa_loop.simps) (simp only: q r d decimal.simps [of n] Let_def, simp)
  next
    case False
    then have "int (n div 10) \<noteq> 0" by auto
    with False 1 show ?thesis
      by (subst (1 2) itoa_loop.simps) (simp only: q r d decimal.simps [of n] Let_def, simp)
  qed
qed

lemma itoa_loop_neg:
  "0 < n \<Longrightarrow> fst (itoa_loop 10 (- int n) out) = out @ rev (decimal n) \<and>
     snd (itoa_loop 10 (- int n) out) < 0"
proof (induction n arbitrary: out rule: decimal.induct)
  case (1 n)
  have q: "trunc_div (- int n) 10 = - int (n div 10)"
    using "1.prems" by (simp add: trunc_div_neg zdiv_int)
  have "- int n - - int (n div 10) * 10 = - int (n mod 10)"
    using int_mod_10 [of n] by simp
  then have r: "nat (35 + (- int n - - int (n div 10) * 10)) = 35 - n mod 10"
    by (simp add: nat_diff_distrib)
  have d: "itoa_table ! (35 - n mod 10) = digit_char (n mod 10)"
    using itoa_table_digit [of "n mod 10"] by simp
  show ?case
  proof (cases "n < 10")
    case True
    with "1.prems" show ?thesis
      by (subst (1 2) itoa_loop.simps) (simp only: q r d decimal.simps [of n] Let_def, simp)
  next
    case False
    then have "- int (n div 10) \<noteq> 0" "0 < n div 10" by auto
    with False "1.IH" show ?thesis
      by (subst (1 2) itoa_loop.simps) (simp only: q r d decimal.simps [of n] Let_def, simp)
  qed
qed

text \<open>The in-place reversal, seen through an index: positions inside the window are mirrored.\<close>

lemma itoa_reverse_nth:
  "j < length buf \<Longrightarrow> i \<le> Suc j \<Longrightarrow>
     length (itoa_reverse buf i j) = length buf \<and>
     (\<forall>k < length buf. itoa_reverse buf i j ! k =
        (if i \<le> k \<and> k \<le> j then buf ! (i + j - k) else buf ! k))"
proof (induction buf i j rule: itoa_reverse.induct)
  case (1 buf i j)
  show ?case
  proof (cases "i < j")
    case True
    let ?b = "buf[j := buf ! i, i := buf ! j]"
    have IH: "length (itoa_reverse ?b (Suc i) (j - 1)) = length ?b"
      "\<And>k. k < length ?b \<Longrightarrow> itoa_reverse ?b (Suc i) (j - 1) ! k =
        (if Suc i \<le> k \<and> k \<le> j - 1 then ?b ! (Suc i + (j - 1) - k) else ?b ! k)"
      using "1.IH" [OF True] "1.prems" True by auto
    have eq: "itoa_reverse buf i j = itoa_reverse ?b (Suc i) (j - 1)"
      using True by (simp add: itoa_reverse.simps [of buf i j])
    have "itoa_reverse buf i j ! k = (if i \<le> k \<and> k \<le> j then buf ! (i + j - k) else buf ! k)"
      if k: "k < length buf" for k
    proof -
      have s: "Suc i + (j - 1) - k = i + j - k" using True by simp
      consider "k < i \<or> j < k" | "k = i" | "k = j" | "i < k \<and> k < j" by linarith
      then show ?thesis
        using IH(2) [of k] k True "1.prems" unfolding eq s
        by cases (auto simp: nth_list_update)
    qed
    with IH(1) eq show ?thesis by simp
  next
    case False
    then have "i = j \<or> i = Suc j" using "1.prems" by auto
    with False show ?thesis by (auto simp: itoa_reverse.simps [of buf i j])
  qed
qed

lemma itoa_reverse_rev: "buf \<noteq> [] \<Longrightarrow> itoa_reverse buf 0 (length buf - 1) = rev buf"
  using itoa_reverse_nth [of "length buf - 1" buf 0]
  by (intro nth_equalityI) (auto simp: rev_nth)

lemma itoa_decimal:
  "itoa v 10 = (if v < 0 then CHR ''-'' # decimal (nat (- v)) else decimal (nat v))"
proof (cases "v < 0")
  case True
  obtain out t where l: "itoa_loop 10 v [] = (out, t)" by force
  have "v = - int (nat (- v))" "0 < nat (- v)" using True by auto
  with itoa_loop_neg [of "nat (- v)" "[]"] l have "out = rev (decimal (nat (- v)))" "t < 0"
    by auto
  with True l show ?thesis
    using itoa_reverse_rev [of "out @ ''-''"] by (simp add: itoa_def)
next
  case False
  obtain out t where l: "itoa_loop 10 v [] = (out, t)" by force
  have "v = int (nat v)" using False by auto
  with itoa_loop_nonneg [of "nat v" "[]"] l have "out = rev (decimal (nat v))" "\<not> t < 0"
    by auto
  with False l show ?thesis
    using itoa_reverse_rev [of out] by (simp add: itoa_def)
qed

section \<open>The bounded copy\<close>

lemma take_Suc_update [simp]: "i < length xs \<Longrightarrow> take (Suc i) (xs[i := v]) = take i xs @ [v]"
  by (simp add: take_Suc_conv_app_nth)

lemma strlcpy_loop_eq:
  assumes "NUL \<notin> set src"
  shows "i \<le> length src \<Longrightarrow> i + n \<le> length dst \<Longrightarrow> 0 < n \<Longrightarrow>
    strlcpy_loop src n i dst i =
      (if length src - i < n - 1
       then (take i dst @ drop i src @ NUL # drop (Suc (length src)) dst,
             Suc (length src), Suc (length src), n - 1 - (length src - i))
       else (take i dst @ take (n - 1) (drop i src) @ drop (i + n - 1) dst, i + n - 1, i + n - 1, 0))"
proof (induction n arbitrary: i dst)
  case 0
  then show ?case by simp
next
  case (Suc n)
  show ?case
  proof (cases "n = 0")
    case True
    then show ?thesis by simp
  next
    case n: False
    show ?thesis
    proof (cases "i = length src")
      case True
      with n Suc.prems show ?thesis
        by (simp add: Let_def nth_append upd_conv_take_nth_drop)
    next
      case False
      with Suc.prems have i: "i < length src" "i < length dst" by simp_all
      then have c: "(src @ [NUL]) ! i = src ! i" and ne: "src ! i \<noteq> NUL"
        using assms by (auto simp: nth_append dest: nth_mem)
      have d: "drop i src = src ! i # drop (Suc i) src" using i by (simp add: Cons_nth_drop_Suc)
      have "strlcpy_loop src (Suc n) i dst i =
          strlcpy_loop src n (Suc i) (dst[i := src ! i]) (Suc i)"
        using n c ne by (simp add: Let_def)
      also have "\<dots> = (if length src - Suc i < n - 1
         then (take i dst @ [src ! i] @ drop (Suc i) src @ NUL # drop (Suc (length src)) dst,
               Suc (length src), Suc (length src), n - 1 - (length src - Suc i))
         else (take i dst @ [src ! i] @ take (n - 1) (drop (Suc i) src) @ drop (Suc i + n - 1) dst,
               Suc i + n - 1, Suc i + n - 1, 0))"
        using Suc.IH [of "Suc i" "dst[i := src ! i]"] Suc.prems n i by simp
      finally show ?thesis
        using n i by (cases n) (auto simp: d)
    qed
  qed
qed

lemma strlcpy_skip_eq:
  "NUL \<notin> set src \<Longrightarrow> s \<le> length src \<Longrightarrow> strlcpy_skip src s = Suc (length src)"
proof (induction src s rule: strlcpy_skip.induct)
  case (1 src s)
  show ?case
  proof (cases "s < length src")
    case True
    with "1.prems" have "src ! s \<noteq> NUL" by (auto dest: nth_mem)
    with 1 True show ?thesis by (simp add: strlcpy_skip.simps [of src s])
  next
    case False
    with "1.prems" show ?thesis by (subst strlcpy_skip.simps) simp
  qed
qed

lemma strlcpy_eq:
  assumes "NUL \<notin> set src" and "siz \<le> length dst" and "0 < siz"
  shows "strlcpy dst src siz =
    (take (siz - 1) src @ NUL # drop (Suc (min (siz - 1) (length src))) dst, length src)"
proof (cases "length src < siz - 1")
  case True
  then have "\<not> siz \<le> Suc (length src)" by linarith
  with True assms show ?thesis by (simp add: strlcpy_def strlcpy_loop_eq)
next
  case False
  let ?k = "siz - 1"
  have k: "?k \<le> length src" "?k < length dst" using False assms by auto
  have "(take ?k src @ drop ?k dst)[?k := NUL] = take ?k src @ NUL # drop (Suc ?k) dst"
    using k Cons_nth_drop_Suc [of ?k dst, symmetric] by (simp add: list_update_append)
  with False assms k show ?thesis
    by (simp add: strlcpy_def strlcpy_loop_eq strlcpy_skip_eq min_def)
qed

lemma strlcpy_str_eq [simp]:
  "NUL \<notin> set src \<Longrightarrow> 0 < siz \<Longrightarrow> strlcpy_str src siz = take (siz - 1) src"
  by (auto simp: strlcpy_str_def strlcpy_eq intro!: cstr_append_NUL dest: in_set_takeD)

text \<open>Whatever the source holds, the copy is a string that fits.\<close>

lemma strlcpy_loop_ends:
  assumes "strlcpy_loop src n s dst d = (dst', d', s', n')" and "0 < n" and "d + n \<le> length dst"
  shows "length dst' = length dst \<and> (if n' = 0 then d' < length dst else NUL \<in> set dst')"
  using assms
proof (induction src n s dst d rule: strlcpy_loop.induct)
  case (2 src n s dst d)
  let ?c = "(src @ [NUL]) ! s"
  show ?case
  proof (cases "n \<noteq> 0 \<and> ?c \<noteq> NUL")
    case True
    then have c: "n \<noteq> 0" "?c \<noteq> NUL" by auto
    from 2(1) [OF c(1) refl refl c(2)] 2(2-) True show ?thesis by (simp add: Let_def split: if_splits)
  next
    case False
    with 2(2-) show ?thesis by (auto simp: Let_def set_update_memI split: if_splits)
  qed
qed simp

lemma strlcpy_str_fits:
  assumes "0 < n"
  shows "length (strlcpy_str s n) < n"
proof -
  obtain dst d s' n' where l: "strlcpy_loop s n 0 (replicate n NUL) 0 = (dst, d, s', n')" by (metis prod_cases4)
  from strlcpy_loop_ends [OF l] assms have e: "length dst = n" "if n' = 0 then d < n else NUL \<in> set dst" by auto
  define b where "b = fst (strlcpy (replicate n NUL) s n)"
  have "length b = n \<and> NUL \<in> set b"
    using e assms by (auto simp: b_def strlcpy_def l set_update_memI split: if_splits)
  moreover have "length (takeWhile (\<lambda>c. c \<noteq> NUL) xs) < length xs" if "NUL \<in> set xs" for xs
    using that by (induction xs) auto
  ultimately show ?thesis unfolding strlcpy_str_def b_def [symmetric] cstr_def by metis
qed

section \<open>Splitting and joining\<close>

fun join :: "string \<Rightarrow> string list \<Rightarrow> string" where
  "join delim [] = []"
| "join delim [w] = w"
| "join delim (w # ws) = w @ delim @ join delim ws"

lemma join_Cons: "ws \<noteq> [] \<Longrightarrow> join delim (w # ws) = w @ delim @ join delim ws"
  by (cases ws) simp_all

lemma drop_prefix: "prefix p r \<Longrightarrow> p @ drop (length p) r = r"
  by (auto simp: prefix_def)

lemma strstr_before_clean:
  assumes "strstr s delim = Some (b, r)" and "delim \<noteq> []"
  shows "\<not> sublist delim b"
proof
  assume "sublist delim b"
  then obtain x y where b: "b = x @ delim @ y" by (auto simp: sublist_def)
  have "s = b @ r" using strstr_Some [OF assms(1)] by simp
  then have "prefix delim (drop (length x) s)" using b by simp
  moreover have "length x < length b" using b assms(2) by simp
  ultimately show False using strstr_first [OF assms(1)] by blast
qed

lemma strsplit_cut_loop_total:
  assumes "delim \<noteq> []"
  shows "\<exists>ws. strsplit_cut_loop delim s acc = Some (acc @ ws) \<and> ws \<noteq> [] \<and> join delim ws = s \<and>
    (\<forall>w \<in> set ws. \<not> sublist delim w) \<and>
    strsplit_count_loop delim s n = Some (n + length ws - 1)"
proof (induction "length s" arbitrary: s acc n rule: less_induct)
  case less
  show ?case
  proof (cases "strstr s delim")
    case None
    then have "\<not> sublist delim s" by (simp add: strstr_None_iff)
    with None show ?thesis
      by (intro exI [of _ "[s]"]) (simp add: strsplit_cut_loop.simps strsplit_count_loop.simps)
  next
    case (Some br)
    then obtain b r where br: "strstr s delim = Some (b, r)" by (cases br) auto
    let ?t = "drop (length delim) r"
    have s: "s = b @ r" "prefix delim r" using strstr_Some [OF br] by auto
    have "length ?t < length s" using s assms prefix_length_le [OF s(2)] by (cases delim) auto
    then obtain ws where ws: "strsplit_cut_loop delim ?t (acc @ [b]) = Some ((acc @ [b]) @ ws)"
      "ws \<noteq> []" "join delim ws = ?t" "\<forall>w \<in> set ws. \<not> sublist delim w"
      "strsplit_count_loop delim ?t (Suc n) = Some (Suc n + length ws - 1)"
      using less by blast
    have "join delim (b # ws) = s" using ws(2,3) s drop_prefix [OF s(2)] by (simp add: join_Cons)
    with ws br strstr_before_clean [OF br assms] show ?thesis
      by (intro exI [of _ "b # ws"])
        (simp add: strsplit_cut_loop.simps [of delim s] strsplit_count_loop.simps [of delim s])
  qed
qed

lemma strsplit_total:
  assumes "delim \<noteq> []"
  obtains ws where "strsplit_impl True s delim = Some (Some ws, length ws)" and "ws \<noteq> []"
    and "join delim ws = s" and "\<forall>w \<in> set ws. \<not> sublist delim w"
proof -
  obtain ws where ws: "strsplit_cut_loop delim s [] = Some ws" "ws \<noteq> []" "join delim ws = s"
    "\<forall>w \<in> set ws. \<not> sublist delim w" "strsplit_count_loop delim s 1 = Some (length ws)"
    using strsplit_cut_loop_total [OF assms, of s "[]" 1] by auto
  have "strsplit_impl True s delim = Some (Some ws, length ws)"
  proof (cases "length ws > 1")
    case True
    with ws show ?thesis by (simp add: strsplit_impl_def)
  next
    case False
    with ws(2) have "length ws = 1" by (cases ws) auto
    with ws(3) have "ws = [s]" by (cases ws) auto
    with ws show ?thesis by (simp add: strsplit_impl_def)
  qed
  with ws that show thesis by blast
qed

lemma strsplit_count_loop_empty_delim:
  assumes "strsplit_count_loop delim s n = Some m"
  shows "delim \<noteq> []"
proof (rule strsplit_count_loop.raw_induct [where P = "\<lambda>delim s n m. delim \<noteq> []", OF _ assms])
  fix f :: "string \<Rightarrow> string \<Rightarrow> nat \<Rightarrow> nat option" and delim s n m
  assume IH: "\<And>delim s n m. f delim s n = Some m \<Longrightarrow> delim \<noteq> []"
    and eq: "(case strstr s delim of None \<Rightarrow> Some n
       | Some (b, r) \<Rightarrow> f delim (drop (length delim) r) (Suc n)) = Some m"
  show "delim \<noteq> []"
  proof
    assume "delim = []"
    then have "f [] s (Suc n) = Some m" using eq by simp
    then show False using IH by blast
  qed
qed

text \<open>The reference for \<^verbatim>\<open>strtok\<close>: cut at every delimiter byte, drop the empty fields.\<close>

fun fields :: "(char \<Rightarrow> bool) \<Rightarrow> string \<Rightarrow> string list" where
  "fields P [] = [[]]"
| "fields P (c # cs) =
     (if P c then [] # fields P cs
      else case fields P cs of [] \<Rightarrow> [[c]] | f # fs \<Rightarrow> (c # f) # fs)"

definition tokens :: "string \<Rightarrow> string \<Rightarrow> string list" where
  "tokens delim s = filter (\<lambda>t. t \<noteq> []) (fields (\<lambda>c. c \<in> set delim) s)"

lemma fields_unfold:
  "fields P s = takeWhile (\<lambda>c. \<not> P c) s #
     (case dropWhile (\<lambda>c. \<not> P c) s of [] \<Rightarrow> [] | c # r \<Rightarrow> fields P r)"
  by (induction s) (auto split: list.splits)

lemma tokens_skip: "tokens delim (dropWhile (\<lambda>c. c \<in> set delim) s) = tokens delim s"
  by (induction s) (auto simp: tokens_def)

lemma tokens_strtok:
  "tokens delim s =
     (case strtok delim s of None \<Rightarrow> [] | Some (t, r) \<Rightarrow> t # tokens delim r)"
proof (cases "dropWhile (\<lambda>c. c \<in> set delim) s")
  case Nil
  have "tokens delim s = tokens delim []" using tokens_skip [of delim s] Nil by simp
  also have "\<dots> = []" by (simp add: tokens_def)
  finally show ?thesis using Nil by (simp add: strtok_def)
next
  case (Cons c r)
  then have c: "c \<notin> set delim" using hd_dropWhile [of "\<lambda>c. c \<in> set delim" s] by simp
  have "tokens delim s = tokens delim (c # r)" using tokens_skip [of delim s] Cons by simp
  also have "\<dots> = takeWhile (\<lambda>c. c \<notin> set delim) (c # r) #
      tokens delim (tl (dropWhile (\<lambda>c. c \<notin> set delim) (c # r)))"
    using c fields_unfold [of "\<lambda>c. c \<in> set delim" "c # r"]
    by (cases "dropWhile (\<lambda>c. c \<notin> set delim) (c # r)")
      (simp_all add: tokens_def del: dropWhile_eq_Nil_conv)
  finally show ?thesis using Cons by (simp add: strtok_def)
qed

lemma strsplit_to_nums_loop_eq:
  "count \<le> m \<Longrightarrow> m \<le> length nums \<Longrightarrow>
     strsplit_to_nums_loop delim m s nums count =
       (let k = min (m - count) (length (tokens delim s))
        in (take count nums @ map strtoull (take k (tokens delim s)) @ drop (count + k) nums,
            count + k))"
proof (induction delim m s nums count rule: strsplit_to_nums_loop.induct)
  case (1 delim m s nums count)
  show ?case
  proof (cases "strtok delim s")
    case None
    then show ?thesis
      by (simp add: strsplit_to_nums_loop.simps [of delim m s] tokens_strtok [of delim s])
  next
    case (Some tr)
    then obtain t r where tr: "strtok delim s = Some (t, r)" by (cases tr) auto
    have toks: "tokens delim s = t # tokens delim r" by (simp add: tokens_strtok [of delim s] tr)
    show ?thesis
    proof (cases "count < m")
      case True
      then have k: "min (m - count) (length (tokens delim s)) =
          Suc (min (m - Suc count) (length (tokens delim r)))"
        unfolding toks by (auto simp: min_def)
      have "strsplit_to_nums_loop delim m s nums count =
          strsplit_to_nums_loop delim m r (nums[count := strtoull t]) (Suc count)"
        using True by (simp add: strsplit_to_nums_loop.simps [of delim m s nums count] tr)
      with "1.IH" [OF tr refl True] "1.prems" True show ?thesis
        unfolding k by (simp add: Let_def toks)
    next
      case False
      with tr "1.prems" show ?thesis by (subst strsplit_to_nums_loop.simps) simp
    qed
  qed
qed

section \<open>Properties\<close>

text \<open>C29: printing a 32-bit integer in base ten and parsing it back gives the integer. The
  most negative value is left out: its magnitude overflows the parser's signed accumulator.\<close>

theorem itoa_str2int32_roundtrip:
  assumes "- (2 ^ 31) < v" and "v < 2 ^ 31"
  shows "sint (str2int32_t (itoa v 10)) = v"
proof (cases "v < 0")
  case True
  have "nat (- v) < 2 ^ 31" using assms True by simp
  with True show ?thesis
    using sint_neg_of_nat_small [where 'a = 32, of "nat (- v)"]
    by (simp add: itoa_decimal str2int32_t_def dec_value_decimal)
next
  case False
  have d: "hd (decimal n) \<noteq> CHR ''-''" for n
    using decimal_digits [of n] by (cases "decimal n") (auto simp: is_digit_def)
  have "nat v < 2 ^ 31" using assms False by simp
  with False d show ?thesis
    using sint_of_nat_small [where 'a = 32, of "nat v"]
    by (simp add: itoa_decimal str2int32_t_def dec_value_decimal)
qed

theorem itoa_str2int32_roundtrip_witness:
  "sint (str2int32_t (itoa (- 2047) 10)) = - 2047"
  by (rule itoa_str2int32_roundtrip) simp_all

text \<open>C31: the bounded copy writes at most \<open>siz\<close> bytes, always ends them with a NUL, leaves the
  rest of the destination alone and returns the length of the source.\<close>

theorem strlcpy_bounded:
  assumes "NUL \<notin> set src" and "siz \<le> length dst" and "0 < siz"
  shows "length (fst (strlcpy dst src siz)) = length dst
    \<and> cstr (fst (strlcpy dst src siz)) = take (siz - 1) src
    \<and> (\<forall>i. siz \<le> i \<and> i < length dst \<longrightarrow> fst (strlcpy dst src siz) ! i = dst ! i)
    \<and> snd (strlcpy dst src siz) = length src"
proof -
  let ?k = "min (siz - 1) (length src)"
  have e: "strlcpy dst src siz = (take (siz - 1) src @ NUL # drop (Suc ?k) dst, length src)"
    using assms by (rule strlcpy_eq)
  have n: "NUL \<notin> set (take (siz - 1) src)" using assms(1) by (auto dest: in_set_takeD)
  have "(take (siz - 1) src @ NUL # drop (Suc ?k) dst) ! i = dst ! i"
    if "siz \<le> i" "i < length dst" for i
    using that assms by (auto simp: nth_append nth_Cons' min_def)
  then show ?thesis
    using assms n by (simp add: e)
qed

theorem strlcpy_bounded_witness:
  "cstr (fst (strlcpy ''......'' ''abcdef'' 4)) = ''abc'' \<and> snd (strlcpy ''......'' ''abcdef'' 4) = 6"
  using strlcpy_bounded [of "''abcdef''" 4 "''......''"] by simp

text \<open>C30: splitting at a non-empty delimiter always returns; the words contain no delimiter, the
  reported count is their number, and joining them with the delimiter gives the text back. With
  an empty delimiter the counting scan never returns.\<close>

theorem strsplit_join:
  "(delim \<noteq> [] \<longrightarrow>
      (\<exists>ws. strsplit_count True s delim = Some (Some ws, length ws) \<and> join delim ws = s \<and>
         (\<forall>w \<in> set ws. \<not> sublist delim w)))
   \<and> (delim = [] \<longrightarrow> strsplit_count True s delim = None)"
proof (cases "delim = []")
  case True
  have "strsplit_count_loop [] s 1 = None"
    using strsplit_count_loop_empty_delim [of "[]" s 1] by (cases "strsplit_count_loop [] s 1") auto
  with True show ?thesis by (simp add: strsplit_count_def strsplit_impl_def)
next
  case False
  then show ?thesis
    using strsplit_total [OF False, of s] by (auto simp: strsplit_count_def)
qed

theorem strsplit_join_witness:
  "\<exists>ws. strsplit_count True ''a,b'' '','' = Some (Some ws, length ws) \<and> join '','' ws = ''a,b''"
  using strsplit_join [of "'',''" "''a,b''"] by auto

text \<open>\<^verbatim>\<open>strsplit_to_nums\<close> stores the values of the first \<open>nums_max_size\<close> tokens, in order,
  leaves every other cell of the array alone and returns how many it stored.\<close>

lemma strsplit_to_nums_stores:
  assumes "s \<noteq> []" and "d \<noteq> []" and "unat m \<le> length ns"
  shows "strsplit_to_nums (Some s) (Some d) (Some ns) m =
    (let k = min (unat m) (length (tokens d s))
     in (Some (map strtoull (take k (tokens d s)) @ drop k ns), int k))"
  using assms by (simp add: strsplit_to_nums_def strsplit_to_nums_loop_eq Let_def)

lemma strsplit_to_nums_stores_witness:
  "strsplit_to_nums (Some ''7, 12,9'') (Some '','') (Some [1, 1]) 2 = (Some [7, 12], 2)"
proof -
  have t: "tokens '','' ''7, 12,9'' = [''7'', '' 12'', ''9'']" by (simp add: tokens_def)
  have "strtoull ''7'' = 7" "strtoull '' 12'' = 12"
    by (simp_all add: strtoull_def is_space_def is_digit_def digit_val_def)
  then show ?thesis
    using strsplit_to_nums_stores [of "''7, 12,9''" "'',''" 2 "[1, 1]"] by (simp add: t)
qed

end
