(* ===== verification/XM_Numbers.thy ===== *)
theory XM_Numbers
  imports XM_Strings
begin

text \<open>
  \<^verbatim>\<open>utils/numbers.c\<close>: the digit counts computed from the leading-zero count and a table, and
  the two-digits-at-a-time decimal printer.
\<close>

definition powers_of_10 :: "u64 list" where
  "powers_of_10 = [0, 10, 100, 1000, 10000, 100000, 1000000, 10000000, 100000000, 1000000000,
     10000000000, 100000000000, 1000000000000, 10000000000000, 100000000000000,
     1000000000000000, 10000000000000000, 100000000000000000, 1000000000000000000,
     10000000000000000000]"

definition powers_of_10_u32 :: "u32 list" where
  "powers_of_10_u32 = [0, 10, 100, 1000, 10000, 100000, 1000000, 10000000, 100000000, 1000000000]"

definition digit_pairs :: string where
  "digit_pairs = ''00010203040506070809'' @ ''10111213141516171819'' @ ''20212223242526272829''
     @ ''30313233343536373839'' @ ''40414243444546474849'' @ ''50515253545556575859''
     @ ''60616263646566676869'' @ ''70717273747576777879'' @ ''80818283848586878889''
     @ ''90919293949596979899''"

text \<open>\<^verbatim>\<open>__builtin_clz\<close> and \<^verbatim>\<open>__builtin_clzll\<close>, which the code never calls on zero.\<close>

fun bit_length :: "nat \<Rightarrow> nat" where
  "bit_length n = (if n = 0 then 0 else Suc (bit_length (n div 2)))"

declare bit_length.simps [simp del]

definition clz :: "'a::len word \<Rightarrow> nat" where
  "clz w = LENGTH('a) - bit_length (unat w)"

definition digits10_uint64 :: "u64 \<Rightarrow> u32" where
  "digits10_uint64 n =
     (let t = (64 - clz (n OR 1)) * 1233 div 2 ^ 12
      in ucast (of_nat t - (if n < powers_of_10 ! t then 1 else 0) + 1 :: u64))"

definition digits10_uint32 :: "u32 \<Rightarrow> u32" where
  "digits10_uint32 n =
     (let t = (32 - clz (n OR 1)) * 1233 div 2 ^ 12
      in of_nat t - (if n < powers_of_10_u32 ! t then 1 else 0) + 1)"

definition digits10_uint16 :: "u16 \<Rightarrow> u32" where
  "digits10_uint16 v =
     (let n = ucast v :: u32; t = (32 - clz (n OR 1)) * 1233 div 2 ^ 12
      in of_nat t - (if n < powers_of_10_u32 ! t then 1 else 0) + 1)"

definition digits10_uint8 :: "u8 \<Rightarrow> u32" where
  "digits10_uint8 v =
     (let n = ucast v :: u32; t = (32 - clz (n OR 1)) * 1233 div 2 ^ 12
      in of_nat t - (if n < powers_of_10_u32 ! t then 1 else 0) + 1)"

text \<open>\<^verbatim>\<open>memcpy(c - 1, digit_pairs + 2 * r, 2)\<close>.\<close>

definition write_pair :: "string \<Rightarrow> nat \<Rightarrow> nat \<Rightarrow> string" where
  "write_pair dst c r = dst[c - 1 := digit_pairs ! (2 * r), c := digit_pairs ! (2 * r + 1)]"

function uint64_2_str_loop :: "u64 \<Rightarrow> nat \<Rightarrow> string \<Rightarrow> u64 \<times> nat \<times> string" where
  "uint64_2_str_loop v c dst =
     (if 100 \<le> v then uint64_2_str_loop (v div 100) (c - 2) (write_pair dst c (unat (v mod 100)))
      else (v, c, dst))"
  by pat_completeness auto
termination
  by (relation "measure (\<lambda>(v, c, dst). unat v)") (auto simp: unat_div word_le_nat_alt)

declare uint64_2_str_loop.simps [simp del]

definition uint64_2_str :: "u64 \<Rightarrow> string \<Rightarrow> string \<times> u32" where
  "uint64_2_str v dst =
     (let size = digits10_uint64 v;
          (v', c, dst1) = uint64_2_str_loop v (unat size - 1) dst
      in (if v' < 10 then dst1[c := digit_char (unat v')] else write_pair dst1 c (unat v'), size))"

section \<open>The digit count is the length of the decimal representation\<close>

lemma bit_length_bounds: "0 < n \<Longrightarrow> 2 ^ (bit_length n - 1) \<le> n \<and> n < 2 ^ bit_length n \<and> 0 < bit_length n"
proof (induction n rule: bit_length.induct)
  case (1 n)
  show ?case
  proof (cases "n div 2 = 0")
    case True
    with "1.prems" have "n = 1" by linarith
    then show ?thesis by (simp add: bit_length.simps)
  next
    case False
    let ?b = "bit_length (n div 2)"
    have IH: "2 ^ (?b - 1) \<le> n div 2" "n div 2 < 2 ^ ?b" "0 < ?b" using 1 False by auto
    then have "(2::nat) ^ ?b = 2 * 2 ^ (?b - 1)" by (cases ?b) simp_all
    moreover have "2 * (n div 2) \<le> n" "n < 2 * (n div 2) + 2" by simp_all
    ultimately have "2 ^ ?b \<le> n" "n < 2 ^ Suc ?b" using IH(1,2) unfolding power_Suc by linarith+
    with "1.prems" show ?thesis by (simp add: bit_length.simps [of n])
  qed
qed

text \<open>The constant 1233/4096 approximates the logarithm of two well enough on 64 bits: with
  \<open>t = b * 1233 / 4096\<close>, a number of \<open>b\<close> bits has \<open>t\<close> or \<open>t + 1\<close> decimal digits.\<close>

lemma log_approx_64:
  "\<forall>b \<in> set [1..<65].
     (let t = b * 1233 div 2 ^ 12
      in t < 20 \<and> (t = 0 \<or> (10::nat) ^ (t - 1) \<le> 2 ^ (b - 1)) \<and> (2::nat) ^ b \<le> 10 ^ (t + 1)
         \<and> unat (powers_of_10 ! t) = (if t = 0 then 0 else 10 ^ t))"
  by (simp add: upt_conv_Cons powers_of_10_def)

lemma unat_or_1: "unat (n OR 1 :: 'a::len word) = (if even (unat n) then unat n + 1 else unat n)"
proof -
  have "unat (n OR 1) = unat n OR 1" by (simp only: unsigned_or_eq unsigned_1)
  also have "\<dots> = unat n + of_bool (even (unat n))" by (rule or_one_eq)
  finally show ?thesis by simp
qed

lemma ucast_of_nat_small: "k < 2 ^ 64 \<Longrightarrow> (ucast (of_nat k :: u64) :: u32) = of_nat k"
  by (simp add: unsigned_of_nat take_bit_nat_eq_self)

lemma digits10_uint64_eq: "digits10_uint64 n = of_nat (length (decimal (unat n)))"
proof -
  define N M b t where "N = unat n" and "M = unat (n OR 1)" and "b = bit_length M"
    and "t = b * 1233 div 2 ^ 12"
  have M: "0 < M" "M = (if even N then N + 1 else N)" "N \<le> M" "odd M"
    using unat_or_1 [of n] by (auto simp: M_def N_def intro: odd_pos)
  have b: "2 ^ (b - 1) \<le> M" "M < 2 ^ b" "0 < b"
    using bit_length_bounds [OF M(1)] by (auto simp: b_def)
  have "M < 2 ^ 64" using unsigned_less [of "n OR 1", where 'a = nat] by (simp add: M_def)
  then have "(2::nat) ^ (b - 1) < 2 ^ 64" using b(1) by linarith
  then have "b - 1 < 64" by (rule power_less_imp_less_exp [rotated]) simp
  then have b64: "b \<le> 64" by simp
  then have t: "t < 20" "t = 0 \<or> 10 ^ (t - 1) \<le> (2::nat) ^ (b - 1)" "(2::nat) ^ b \<le> 10 ^ (t + 1)"
    "unat (powers_of_10 ! t) = (if t = 0 then 0 else 10 ^ t)"
    using bspec [OF log_approx_64, of b] b(3) by (auto simp: t_def Let_def)
  have lo: "t \<le> 1 \<or> 10 ^ (t - 1) \<le> N"
  proof (cases "t \<le> 1")
    case False
    then have "even ((10::nat) ^ (t - 1))" by simp
    moreover have "10 ^ (t - 1) \<le> M" using False t(2) b(1) by linarith
    ultimately have "10 ^ (t - 1) < M" using M(4) by (metis le_neq_implies_less)
    then show ?thesis using M(2) by (auto split: if_splits)
  qed simp
  have hi: "N < 10 ^ (t + 1)" using M(3) b(2) t(3) by linarith
  have lt: "n < powers_of_10 ! t \<longleftrightarrow> t \<noteq> 0 \<and> N < 10 ^ t"
    using t(4) by (simp add: word_less_nat_alt N_def)
  have "64 - clz (n OR 1) = b" using b64 by (simp add: clz_def b_def M_def)
  then have e: "digits10_uint64 n =
      ucast (of_nat t - (if n < powers_of_10 ! t then 1 else 0) + 1 :: u64)"
    by (simp add: digits10_uint64_def t_def Let_def)
  show ?thesis
  proof (cases "t \<noteq> 0 \<and> N < 10 ^ t")
    case True
    then have "length (decimal N) = t" using lo by (intro length_decimal_eq) auto
    with True lt t(1) show ?thesis by (simp add: e N_def ucast_of_nat_small)
  next
    case False
    then have "length (decimal N) = t + 1" using hi by (intro length_decimal_eq) auto
    moreover have "(ucast (of_nat t + 1 :: u64) :: u32) = of_nat (t + 1)"
      using ucast_of_nat_small [of "t + 1"] t(1) by (simp add: add.commute)
    moreover have "\<not> n < powers_of_10 ! t" using False lt by blast
    ultimately show ?thesis by (simp add: e N_def)
  qed
qed

section \<open>The printer writes the decimal representation\<close>

lemma digit_pairs_concat:
  "digit_pairs = concat (map (\<lambda>r. [digit_char (r div 10), digit_char (r mod 10)]) [0..<100])"
  by (simp add: digit_pairs_def upt_conv_Cons digit_char_def char_of_def bit_0)

lemma concat_pairs_nth:
  "i < length xs \<Longrightarrow> concat (map (\<lambda>x. [f x, g x]) xs) ! (2 * i) = f (xs ! i) \<and>
     concat (map (\<lambda>x. [f x, g x]) xs) ! (2 * i + 1) = g (xs ! i)"
proof (induction xs arbitrary: i)
  case Nil
  then show ?case by simp
next
  case (Cons x xs)
  then show ?case by (cases i) auto
qed

lemma digit_pairs_nth:
  "r < 100 \<Longrightarrow> digit_pairs ! (2 * r) = digit_char (r div 10) \<and>
     digit_pairs ! (2 * r + 1) = digit_char (r mod 10)"
  unfolding digit_pairs_concat using concat_pairs_nth [of r "[0..<100]"] by simp

lemma decimal_100: "100 \<le> n \<Longrightarrow>
    decimal n = decimal (n div 100) @ [digit_char (n mod 100 div 10), digit_char (n mod 100 mod 10)]"
proof -
  assume a: "100 \<le> n"
  have "n div 10 div 10 = n div 100" by (simp add: div_mult2_eq [symmetric])
  moreover have "n mod 100 = 10 * (n div 10 mod 10) + n mod 10"
    using mod_mult2_eq [of n 10 10] by simp
  then have "n div 10 mod 10 = n mod 100 div 10" "n mod 10 = n mod 100 mod 10" by simp_all
  moreover have "\<not> n < 10" "\<not> n div 10 < 10" using a by linarith+
  ultimately show ?thesis by (simp add: decimal.simps [of n] decimal.simps [of "n div 10"])
qed

lemma write_pair_eq:
  assumes "r < 100" and "Suc c < length dst"
  shows "write_pair dst (Suc c) r =
    take c dst @ [digit_char (r div 10), digit_char (r mod 10)] @ drop (c + 2) dst"
proof -
  obtain x y where d: "dst = take c dst @ x # y # drop (c + 2) dst"
    using assms(2) by (metis Cons_nth_drop_Suc Suc_lessD add_2_eq_Suc' append_take_drop_id)
  have l: "length (take c dst) = c" using assms(2) by simp
  have "write_pair (take c dst @ x # y # drop (c + 2) dst) (Suc c) r =
    take c dst @ [digit_char (r div 10), digit_char (r mod 10)] @ drop (c + 2) dst"
    using digit_pairs_nth [OF assms(1)] l by (simp add: write_pair_def list_update_append)
  with d show ?thesis by simp
qed

text \<open>The loop and the last step, from a number whose last digit goes to position \<open>c\<close>.\<close>

definition uint64_2_str_tail :: "u64 \<Rightarrow> nat \<Rightarrow> string \<Rightarrow> string" where
  "uint64_2_str_tail v c dst =
     (let (v', c', dst1) = uint64_2_str_loop v c dst
      in if v' < 10 then dst1[c' := digit_char (unat v')] else write_pair dst1 c' (unat v'))"

lemma uint64_2_str_tail_eq:
  "Suc c = length (decimal (unat v)) \<Longrightarrow> c < length dst \<Longrightarrow>
     uint64_2_str_tail v c dst = decimal (unat v) @ drop (Suc c) dst"
proof (induction v c dst rule: uint64_2_str_loop.induct)
  case (1 v c dst)
  show ?case
  proof (cases "100 \<le> v")
    case True
    let ?q = "v div 100" and ?r = "unat (v mod 100)"
    have n: "100 \<le> unat v" "unat ?q = unat v div 100" "?r = unat v mod 100"
      using True by (simp_all add: word_le_nat_alt unat_div unat_mod)
    have L: "length (decimal (unat v)) = length (decimal (unat ?q)) + 2"
      using decimal_100 [OF n(1)] n(2) by simp
    moreover have "0 < length (decimal (unat ?q))" by simp
    ultimately obtain d where d: "c = Suc (Suc d)" "Suc d = length (decimal (unat ?q))"
      using "1.prems"(1) by (cases "length (decimal (unat ?q))") auto
    let ?dst = "write_pair dst c ?r"
    have w: "?dst = take (Suc d) dst @ [digit_char (?r div 10), digit_char (?r mod 10)] @ drop (Suc c) dst"
      using write_pair_eq [of ?r "Suc d" dst] "1.prems"(2) d n(3) by simp
    have "uint64_2_str_loop v c dst = uint64_2_str_loop ?q (c - 2) ?dst"
      using True by (simp add: uint64_2_str_loop.simps [of v c])
    then have "uint64_2_str_tail v c dst = uint64_2_str_tail ?q d ?dst"
      using d(1) by (simp add: uint64_2_str_tail_def)
    moreover have "c - 2 = d" "length ?dst = length dst" using d(1) by (simp_all add: write_pair_def)
    then have "uint64_2_str_tail ?q d ?dst = decimal (unat ?q) @ drop (Suc d) ?dst"
      using "1.IH" [OF True] d(2) "1.prems"(2) \<open>c = Suc (Suc d)\<close> by simp
    moreover have "drop (Suc d) ?dst =
        [digit_char (?r div 10), digit_char (?r mod 10)] @ drop (Suc c) dst"
      unfolding w using "1.prems"(2) d(1) by simp
    ultimately show ?thesis using n decimal_100 [OF n(1)] by simp
  next
    case False
    then have e: "uint64_2_str_loop v c dst = (v, c, dst)"
      by (simp add: uint64_2_str_loop.simps [of v c])
    have n: "unat v < 100" using False by (simp add: word_le_nat_alt)
    show ?thesis
    proof (cases "v < 10")
      case True
      then have "unat v < 10" by (simp add: word_less_nat_alt)
      with True "1.prems" e show ?thesis
        by (simp add: uint64_2_str_tail_def decimal.simps [of "unat v"] upd_conv_take_nth_drop)
    next
      case ge: False
      then have g: "\<not> unat v < 10" by (simp add: word_less_nat_alt)
      have "decimal (unat v) = [digit_char (unat v div 10), digit_char (unat v mod 10)]"
        using n g by (simp add: decimal.simps [of "unat v"] decimal.simps [of "unat v div 10"])
      with ge e "1.prems" n show ?thesis
        using write_pair_eq [of "unat v" 0 dst] by (simp add: uint64_2_str_tail_def)
    qed
  qed
qed

lemma length_decimal_u64: "length (decimal (unat (v :: u64))) \<le> 20"
proof (cases "unat v = 0")
  case True
  then show ?thesis by (simp add: decimal.simps [of 0])
next
  case False
  have "unat v < 2 ^ 64" using unsigned_less [of v, where 'a = nat] by simp
  also have "(2::nat) ^ 64 \<le> 10 ^ 20" by simp
  finally have "unat v < 10 ^ 20" .
  moreover have "10 ^ (length (decimal (unat v)) - 1) \<le> unat v"
    using length_decimal_bounds [of "unat v"] False by blast
  ultimately have "(10::nat) ^ (length (decimal (unat v)) - 1) < 10 ^ 20"
    by (rule le_less_trans [rotated])
  then have "length (decimal (unat v)) - 1 < 20"
    by (rule power_less_imp_less_exp [rotated]) simp
  then show ?thesis by simp
qed

section \<open>Properties\<close>

text \<open>The branch-free digit count, a multiplication by 1233/4096 corrected by a table
  lookup, is the length of the decimal representation for every 64-bit number.\<close>

lemma digits10_uint64_correct:
  "unat (digits10_uint64 n) = length (decimal (unat n))"
proof -
  have "length (decimal (unat n)) < 2 ^ 32" using length_decimal_u64 [of n] by simp
  then show ?thesis by (simp add: digits10_uint64_eq unat_of_nat take_bit_nat_eq_self)
qed

text \<open>C32: the two-digits-at-a-time printer writes exactly the decimal representation into the
  first bytes of the destination, leaves the others alone, returns the number of bytes, and the
  parser \<^verbatim>\<open>str2uint64_t\<close> reads the number back.\<close>

theorem uint64_2_str_correct:
  assumes "20 \<le> length dst"
  shows "uint64_2_str v dst =
      (decimal (unat v) @ drop (length (decimal (unat v))) dst,
       of_nat (length (decimal (unat v))))
    \<and> str2uint64_t (take (unat (snd (uint64_2_str v dst))) (fst (uint64_2_str v dst))) = v"
proof -
  let ?L = "length (decimal (unat v))"
  have L: "0 < ?L" "?L \<le> 20" using length_decimal_u64 [of v] by auto
  have u: "unat (of_nat ?L :: u32) = ?L"
    using L by (simp add: unat_of_nat)
  have "uint64_2_str v dst = (uint64_2_str_tail v (?L - 1) dst, of_nat ?L)"
    using u by (simp add: uint64_2_str_def uint64_2_str_tail_def digits10_uint64_eq Let_def
        split: prod.split)
  also have "uint64_2_str_tail v (?L - 1) dst = decimal (unat v) @ drop ?L dst"
    using uint64_2_str_tail_eq [of "?L - 1" v dst] L assms by simp
  finally have e: "uint64_2_str v dst = (decimal (unat v) @ drop ?L dst, of_nat ?L)" .
  have "unat v < 2 ^ 64" using unsigned_less [of v, where 'a = nat] by simp
  then have "str2uint64_t (decimal (unat v)) = v" by (simp add: str2uint64_t_decimal)
  with e u show ?thesis by simp
qed

theorem uint64_2_str_correct_witness:
  "fst (uint64_2_str 1234567 ''....................'') = ''1234567.............''"
proof -
  have "decimal 1234567 = ''1234567''"
    by (simp add: decimal.simps digit_char_def char_of_def bit_0)
  with uint64_2_str_correct [of "''....................''" 1234567] show ?thesis by simp
qed

end
