(* ===== verification/XM_Base64.thy ===== *)
theory XM_Base64
  imports XM_Prelude
begin

text \<open>
  \<^verbatim>\<open>utils/base64.c\<close>. The source is the memory from \<^verbatim>\<open>src\<close> on: both routines load 32-bit
  words from it, also the last one, so they read past \<^verbatim>\<open>src_len\<close>. A load that leaves the
  memory, and a lookup behind the end of the decoding table, is the value \<open>None\<close>.
\<close>

definition B0 :: "u32 \<Rightarrow> u32" where "B0 a = a AND 0xFF"
definition B1 :: "u32 \<Rightarrow> u32" where "B1 a = drop_bit 8 a AND 0xFF"
definition B2 :: "u32 \<Rightarrow> u32" where "B2 a = drop_bit 16 a AND 0xFF"
definition B3 :: "u32 \<Rightarrow> u32" where "B3 a = drop_bit 24 a AND 0xFF"

text \<open>\<^verbatim>\<open>*((uint32_t * )(src + index))\<close> on a little-endian machine.\<close>

definition le32 :: "u8 \<Rightarrow> u8 \<Rightarrow> u8 \<Rightarrow> u8 \<Rightarrow> u32" where
  "le32 a b c d = ucast a OR push_bit 8 (ucast b) OR push_bit 16 (ucast c) OR push_bit 24 (ucast d)"

definition load32 :: "u8 list \<Rightarrow> nat \<Rightarrow> u32 option" where
  "load32 mem i =
     (if i + 4 \<le> length mem
      then Some (le32 (mem ! i) (mem ! (i + 1)) (mem ! (i + 2)) (mem ! (i + 3)))
      else None)"

definition Base64EncodeTable :: string where
  "Base64EncodeTable = ''ABCDEFGHIJKLMNOPQRSTUVWXYZabcdefghijklmnopqrstuvwxyz0123456789+/=''"

definition enc :: "u32 \<Rightarrow> char" where
  "enc i = Base64EncodeTable ! unat i"

function base64_encode_loop :: "u8 list \<Rightarrow> int \<Rightarrow> nat \<Rightarrow> string \<Rightarrow> (nat \<times> string) option" where
  "base64_encode_loop src len index dest =
     (if int index < len
      then (case load32 src index of
              None \<Rightarrow> None
            | Some num \<Rightarrow>
                base64_encode_loop src len (index + 3)
                  (dest @ [enc (drop_bit 2 (B0 num) AND 0x3F),
                           enc ((push_bit 4 (B0 num) OR drop_bit 4 (B1 num)) AND 0x3F),
                           enc ((push_bit 2 (B1 num) OR drop_bit 6 (B2 num)) AND 0x3F),
                           enc (B2 num AND 0x3F)]))
      else Some (index, dest))"
  by pat_completeness auto
termination
  by (relation "measure (\<lambda>(src, len, index, dest). nat (len - int index))") auto

declare base64_encode_loop.simps [simp del]

text \<open>The bytes stored at \<^verbatim>\<open>dest\<close> and the return value; \<open>None\<close> for \<^verbatim>\<open>src\<close> is NULL.\<close>

definition base64_encode ::
  "u8 list option \<Rightarrow> int \<Rightarrow> bool \<Rightarrow> int \<Rightarrow> (string \<times> int) option" where
  "base64_encode src src_len dest_null dest_len =
     (case src of
        None \<Rightarrow> Some ([], - 1)
      | Some mem \<Rightarrow>
          if dest_null then Some ([], - 1)
          else if src_len \<le> 0 \<or> dest_len \<le> 0 then Some ([], - 1)
          else if src_len mod 3 = 0 \<and> dest_len < src_len div 3 * 4 + 1 then Some ([], - 1)
          else if src_len mod 3 \<noteq> 0 \<and> dest_len < (src_len div 3 + 1) * 4 + 1 then Some ([], - 1)
          else (case base64_encode_loop mem (src_len - 3) 0 [] of
                  None \<Rightarrow> None
                | Some (index, dest) \<Rightarrow>
                    let rest = src_len - int index
                    in if rest \<noteq> 0
                       then (case load32 mem index of
                               None \<Rightarrow> None
                             | Some num \<Rightarrow>
                                 let dest' = dest @
                                   [enc (drop_bit 2 (B0 num) AND 0x3F),
                                    enc ((push_bit 4 (B0 num) OR drop_bit 4 (B1 num)) AND 0x3F),
                                    enc (if rest > 1
                                         then (push_bit 2 (B1 num) OR drop_bit 6 (B2 num)) AND 0x3F
                                         else 64),
                                    enc (if rest > 2 then B2 num AND 0x3F else 64)]
                                 in Some (dest', int (length dest')))
                       else Some (dest, int (length dest))))"

definition Base64DecodeTable :: "u32 list" where
  "Base64DecodeTable = replicate 38 255
     @ [255, 255, 255, 255, 255, 62, 255, 255, 255, 63]
     @ [52, 53, 54, 55, 56, 57, 58, 59, 60, 61]
     @ [255, 255, 255, 0, 255, 255, 255]
     @ [0, 1, 2, 3, 4, 5, 6, 7, 8, 9, 10, 11, 12, 13, 14, 15, 16, 17, 18, 19, 20, 21, 22, 23, 24,
        25, 255, 255, 255, 255, 255, 255]
     @ [26, 27, 28, 29, 30, 31, 32, 33, 34, 35, 36, 37, 38, 39, 40, 41, 42, 43, 44, 45, 46, 47, 48,
        49, 50, 51]"

definition dec :: "u32 \<Rightarrow> u32 option" where
  "dec i = (if unat i < length Base64DecodeTable then Some (Base64DecodeTable ! unat i) else None)"

text \<open>The three bytes of a block that is not the last one, and those of the last one: there the
  third byte takes its high bits from the first character of the block.\<close>

definition dec_block :: "u32 \<Rightarrow> u8 list option" where
  "dec_block num =
     (case (dec (B0 num), dec (B1 num), dec (B2 num), dec (B3 num)) of
        (Some d0, Some d1, Some d2, Some d3) \<Rightarrow>
          Some [ucast ((push_bit 2 d0 OR drop_bit 4 d1) AND 0xFF),
                ucast ((push_bit 4 d1 OR drop_bit 2 d2) AND 0xFF),
                ucast ((push_bit 6 d2 OR d3) AND 0xFF)]
      | _ \<Rightarrow> None)"

definition dec_rest :: "u32 \<Rightarrow> u8 list option" where
  "dec_rest num =
     (case (dec (B0 num), dec (B1 num), dec (B2 num), dec (B3 num)) of
        (Some d0, Some d1, Some d2, Some d3) \<Rightarrow>
          Some [ucast ((push_bit 2 d0 OR drop_bit 4 d1) AND 0xFF),
                ucast ((push_bit 4 d1 OR drop_bit 2 d2) AND 0xFF),
                ucast ((push_bit 6 d0 OR d3) AND 0xFF)]
      | _ \<Rightarrow> None)"

function base64_decode_loop :: "u8 list \<Rightarrow> int \<Rightarrow> nat \<Rightarrow> u8 list \<Rightarrow> (nat \<times> u8 list) option" where
  "base64_decode_loop src len index dest =
     (if int index < len
      then (case load32 src index of
              None \<Rightarrow> None
            | Some num \<Rightarrow>
                (case dec_block num of
                   None \<Rightarrow> None
                 | Some bs \<Rightarrow> base64_decode_loop src len (index + 4) (dest @ bs)))
      else Some (index, dest))"
  by pat_completeness auto
termination
  by (relation "measure (\<lambda>(src, len, index, dest). nat (len - int index))") auto

declare base64_decode_loop.simps [simp del]

definition base64_decode ::
  "u8 list option \<Rightarrow> int \<Rightarrow> bool \<Rightarrow> int \<Rightarrow> (u8 list \<times> int) option" where
  "base64_decode src src_len dest_null dest_len =
     (case src of
        None \<Rightarrow> Some ([], - 1)
      | Some mem \<Rightarrow>
          if dest_null then Some ([], - 1)
          else if src_len \<le> 0 \<or> dest_len \<le> 0 then Some ([], - 1)
          else if dest_len < src_len + src_len div 4 * 3 + 1 then Some ([], - 1)
          else (case base64_decode_loop mem (src_len - 4) 0 [] of
                  None \<Rightarrow> None
                | Some (index, dest) \<Rightarrow>
                    let rest = src_len - int index
                    in if rest \<noteq> 0
                       then (case load32 mem index of
                               None \<Rightarrow> None
                             | Some num \<Rightarrow>
                                 (case dec_rest num of
                                    None \<Rightarrow> None
                                  | Some bs \<Rightarrow>
                                      let dest' = dest @ bs @ [0]
                                      in Some (dest', int (length dest'))))
                       else Some (dest @ [0], int (length (dest @ [0])))))"

section \<open>The reference: RFC 4648\<close>

text \<open>The four characters of three bytes, and of a shorter last group padded with \<open>=\<close>.\<close>

definition sextets :: "u8 \<Rightarrow> u8 \<Rightarrow> u8 \<Rightarrow> u32 list" where
  "sextets a b c =
     [drop_bit 2 (ucast a),
      (push_bit 4 (ucast a) OR drop_bit 4 (ucast b)) AND 0x3F,
      (push_bit 2 (ucast b) OR drop_bit 6 (ucast c)) AND 0x3F,
      ucast c AND 0x3F]"

fun rfc4648 :: "u8 list \<Rightarrow> string" where
  "rfc4648 [] = []"
| "rfc4648 [a] = map enc (take 2 (sextets a 0 0)) @ ''==''"
| "rfc4648 [a, b] = map enc (take 3 (sextets a b 0)) @ ''=''"
| "rfc4648 (a # b # c # bs) = map enc (sextets a b c) @ rfc4648 bs"

section \<open>Bit lemmas\<close>

lemma mask_6: "(63::u32) = mask 6" by (simp add: mask_eq_exp_minus_1)
lemma mask_8: "(255::u32) = mask 8" by (simp add: mask_eq_exp_minus_1)

lemma byte_bit_less: "bit (b :: u8) n \<Longrightarrow> n < 8"
  using bit_imp_le_length [of b n] by simp

lemma byte_bit_high [simp]: "\<not> bit (b :: u8) (8 + n)"
  using byte_bit_less [of b "8 + n"] by auto

lemma Suc2_diff: "Suc (Suc (n - 2)) = (if n < 2 then 2 else n)"
  by (simp, linarith)

lemma B_le32 [simp]:
  "B0 (le32 a b c d) = ucast a" "B1 (le32 a b c d) = ucast b"
  "B2 (le32 a b c d) = ucast c" "B3 (le32 a b c d) = ucast d"
  unfolding B0_def B1_def B2_def B3_def le32_def mask_8
  by (rule bit_word_eqI; auto simp: bit_simps dest: byte_bit_less)+

lemma sextet0 [simp]: "drop_bit 2 (ucast (a :: u8)) AND (63::u32) = drop_bit 2 (ucast a)"
  unfolding mask_6 by (rule bit_word_eqI) (auto simp: bit_simps dest: byte_bit_less)

lemma dec_byte0:
  "(push_bit 2 (drop_bit 2 (ucast a)) OR
    drop_bit 4 ((push_bit 4 (ucast a) OR drop_bit 4 (ucast (b :: u8))) AND 63)) AND 255 =
   (ucast (a :: u8) :: u32)"
  unfolding mask_6 mask_8
  by (rule bit_word_eqI) (auto simp: bit_simps Suc2_diff dest: byte_bit_less split: if_splits)

lemma dec_byte1:
  "(push_bit 4 ((push_bit 4 (ucast (a :: u8)) OR drop_bit 4 (ucast b)) AND 63) OR
    drop_bit 2 ((push_bit 2 (ucast b) OR drop_bit 6 (ucast (c :: u8))) AND 63)) AND 255 =
   (ucast (b :: u8) :: u32)"
  unfolding mask_6 mask_8
  by (rule bit_word_eqI) (auto simp: bit_simps dest: byte_bit_less)

lemma dec_byte2:
  "(push_bit 6 ((push_bit 2 (ucast (b :: u8)) OR drop_bit 6 (ucast c)) AND 63) OR (ucast c AND 63)) AND 255 =
   (ucast (c :: u8) :: u32)"
  unfolding mask_6 mask_8
  by (rule bit_word_eqI) (auto simp: bit_simps dest: byte_bit_less)

section \<open>Encoding\<close>

lemma load32_at [simp]:
  "load32 (pre @ a # b # c # d # post) (length pre) = Some (le32 a b c d)"
  by (simp add: load32_def nth_append nth_Cons')

lemma split_pad:
  assumes "3 \<le> length post"
  obtains x y z post' where "post = x # y # z # post'"
  using assms by (cases post; cases "tl post"; cases "tl (tl post)") auto

lemma enc_64: "enc 64 = CHR ''=''"
  by (simp add: enc_def Base64EncodeTable_def)

lemma rfc4648_step:
  "rfc4648 (a # b # c # bs) = map enc (sextets a b c) @ rfc4648 bs"
  by simp

text \<open>The loop encodes every group of three but the last, which may be shorter.\<close>

lemma base64_encode_loop_eq:
  "bs \<noteq> [] \<Longrightarrow> 3 \<le> length post \<Longrightarrow>
   \<exists>g lst. bs = g @ lst \<and> lst \<noteq> [] \<and> length lst \<le> 3 \<and> length g mod 3 = 0 \<and>
     rfc4648 bs = rfc4648 g @ rfc4648 lst \<and>
     base64_encode_loop (pre @ bs @ post) (int (length pre + length bs) - 3) (length pre) dest =
       Some (length pre + length g, dest @ rfc4648 g)"
proof (induction bs arbitrary: pre dest rule: rfc4648.induct)
  case (4 a b c bs)
  show ?case
  proof (cases "bs = []")
    case True
    then show ?thesis
      by (intro exI [of _ "[]"] exI [of _ "[a, b, c]"]) (simp add: base64_encode_loop.simps)
  next
    case False
    let ?dest = "dest @ map enc (sextets a b c)"
    let ?mem = "pre @ (a # b # c # bs) @ post" and ?len = "int (length pre + length (a # b # c # bs)) - 3"
    have e: "(pre @ [a, b, c]) @ bs @ post = ?mem" "length (pre @ [a, b, c]) = length pre + 3"
      "int (length pre + 3 + length bs) - 3 = ?len" by simp_all
    note IH = "4.IH" [OF False "4.prems"(2), of "pre @ [a, b, c]" ?dest, unfolded e]
    obtain g lst where gl: "bs = g @ lst" "lst \<noteq> []" "length lst \<le> 3" "length g mod 3 = 0"
      "rfc4648 bs = rfc4648 g @ rfc4648 lst"
      "base64_encode_loop ?mem ?len (length pre + 3) ?dest =
         Some (length pre + 3 + length g, ?dest @ rfc4648 g)"
      using IH by (elim exE conjE) (rule that)
    obtain d r where bs: "bs = d # r" using False by (cases bs) auto
    have "int (length pre) < ?len" by (simp add: bs)
    moreover have "load32 ?mem (length pre) = Some (le32 a b c d)" by (simp add: bs)
    ultimately have "base64_encode_loop ?mem ?len (length pre) dest =
        base64_encode_loop ?mem ?len (length pre + 3) ?dest"
      by (simp only: base64_encode_loop.simps [of ?mem ?len "length pre" dest] if_True option.case
          B_le32 sextet0 sextets_def list.map)
    with gl(6) have "base64_encode_loop ?mem ?len (length pre) dest =
        Some (length pre + length (a # b # c # g), dest @ rfc4648 (a # b # c # g))"
      by simp
    with gl(1-5) show ?thesis
      by (intro exI [of _ "a # b # c # g"] exI [of _ lst]) simp
  qed
next
  case (2 a)
  then show ?case
    by (intro exI [of _ "[]"] exI [of _ "[a]"]) (simp add: base64_encode_loop.simps)
next
  case (3 a b)
  then show ?case
    by (intro exI [of _ "[]"] exI [of _ "[a, b]"]) (simp add: base64_encode_loop.simps)
qed simp

lemma length_rfc4648: "length (rfc4648 bs) = (length bs + 2) div 3 * 4"
proof (induction bs rule: rfc4648.induct)
  case (4 a b c bs)
  have "(length (a # b # c # bs) + 2) div 3 = Suc ((length bs + 2) div 3)" by simp
  with 4 show ?case by (simp add: sextets_def)
qed (simp_all add: sextets_def)

lemma ceil_div_3: "((n::int) + 2) div 3 = (if n mod 3 = 0 then n div 3 else n div 3 + 1)"
  by presburger

lemma base64_encode_eq:
  assumes "bs \<noteq> []" and "3 \<le> length post" and "post ! 0 = 0"
    and "int (length (rfc4648 bs)) < dest_len"
  shows "base64_encode (Some (bs @ post)) (int (length bs)) False dest_len =
    Some (rfc4648 bs, int (length (rfc4648 bs)))"
proof -
  obtain y z post' where post: "post = 0 # y # z # post'"
    using assms(2,3) by (auto elim: split_pad)
  obtain g lst where gl: "bs = g @ lst" "lst \<noteq> []" "length lst \<le> 3" "length g mod 3 = 0"
    "rfc4648 bs = rfc4648 g @ rfc4648 lst"
    "base64_encode_loop (bs @ post) (int (length bs) - 3) 0 [] = Some (length g, rfc4648 g)"
    using base64_encode_loop_eq [OF assms(1,2), of "[]" "[]"] by auto
  have len: "int (length (rfc4648 bs)) = (int (length bs) + 2) div 3 * 4"
    unfolding length_rfc4648 by (simp add: zdiv_int)
  have room: "\<not> (int (length bs) mod 3 = 0 \<and> dest_len < int (length bs) div 3 * 4 + 1)"
    "\<not> (int (length bs) mod 3 \<noteq> 0 \<and> dest_len < (int (length bs) div 3 + 1) * 4 + 1)"
    using assms(4) unfolding len ceil_div_3 by auto
  have pos: "\<not> int (length g) + int (length lst) \<le> 0" "0 < dest_len"
    using assms(4) gl(2) by (cases lst; simp)+
  have E: "base64_encode (Some (bs @ post)) (int (length bs)) False dest_len =
    (case load32 (g @ lst @ post) (length g) of None \<Rightarrow> None
     | Some num \<Rightarrow>
        let dest' = rfc4648 g @
          [enc (drop_bit 2 (B0 num) AND 0x3F),
           enc ((push_bit 4 (B0 num) OR drop_bit 4 (B1 num)) AND 0x3F),
           enc (if length lst > 1
                then (push_bit 2 (B1 num) OR drop_bit 6 (B2 num)) AND 0x3F else 64),
           enc (if length lst > 2 then B2 num AND 0x3F else 64)]
        in Some (dest', int (length dest')))"
    using room pos gl by (auto simp: base64_encode_def Let_def split: option.split)
  consider a where "lst = [a]" | a b where "lst = [a, b]" | a b c where "lst = [a, b, c]"
    using gl(2,3) by (cases lst; cases "tl lst"; cases "tl (tl lst)") auto
  then show ?thesis
    unfolding E unfolding gl(5) post by cases (simp_all add: sextets_def enc_64 Let_def)
qed

section \<open>Decoding what was encoded\<close>

definition codes :: "string \<Rightarrow> u8 list" where
  "codes s = map (\<lambda>c. of_nat (code_of c)) s"

lemma dec_table: "\<forall>s \<in> set [0..<64].
    dec (ucast (of_nat (code_of (Base64EncodeTable ! s)) :: u8)) = Some (of_nat s)"
  by (simp add: upt_conv_Cons Base64EncodeTable_def Base64DecodeTable_def dec_def nth_append)

lemma codes_append [simp]: "codes (xs @ ys) = codes xs @ codes ys"
  by (simp add: codes_def)

lemma codes_Cons [simp]: "codes (x # xs) = of_nat (code_of x) # codes xs"
  by (simp add: codes_def)

lemma codes_Nil [simp]: "codes [] = []"
  by (simp add: codes_def)

lemma length_codes [simp]: "length (codes xs) = length xs"
  by (simp add: codes_def)

lemma dec_enc: "unat s < 64 \<Longrightarrow> dec (ucast (of_nat (code_of (enc s)) :: u8)) = Some s"
  using dec_table by (auto simp: enc_def)

lemma dec_pad: "dec (ucast (of_nat (code_of (CHR ''='')) :: u8)) = Some 0"
  by (simp add: dec_def Base64DecodeTable_def nth_append)

lemma unat_and_63: "unat (x AND (63::u32)) < 64"
proof -
  have "x AND 63 \<le> 63" by (rule word_and_le1)
  then show ?thesis by (simp add: word_le_nat_alt)
qed

lemma unat_sextet0: "unat (drop_bit 2 (ucast (a :: u8)) :: u32) < 64"
  using unat_and_63 [of "drop_bit 2 (ucast a)"] by simp

lemmas dec_sextets = dec_enc [OF unat_and_63] dec_enc [OF unat_sextet0]

lemma ucast_ucast_byte [simp]: "(ucast (ucast (a :: u8) :: u32) :: u8) = a"
  by (rule bit_word_eqI) (auto simp: bit_simps)

lemma dec_block_sextets:
  "map enc (sextets a b c) = [p, q, r, s] \<Longrightarrow>
   dec_block (le32 (of_nat (code_of p)) (of_nat (code_of q)) (of_nat (code_of r)) (of_nat (code_of s)))
     = Some [a, b, c]"
proof -
  assume a: "map enc (sextets a b c) = [p, q, r, s]"
  have ps: "p = enc (drop_bit 2 (ucast a))"
    "q = enc ((push_bit 4 (ucast a) OR drop_bit 4 (ucast b)) AND 63)"
    "r = enc ((push_bit 2 (ucast b) OR drop_bit 6 (ucast c)) AND 63)"
    "s = enc (ucast c AND 63)" using a by (auto simp: sextets_def)
  show ?thesis
    unfolding ps by (simp only: dec_block_def B_le32 dec_sextets prod.case option.case
        dec_byte0 dec_byte1 dec_byte2 ucast_ucast_byte)
qed

lemma base64_decode_loop_eq:
  "bs \<noteq> [] \<Longrightarrow>
   \<exists>g lst. bs = g @ lst \<and> lst \<noteq> [] \<and> length lst \<le> 3 \<and> length g mod 3 = 0 \<and>
     rfc4648 bs = rfc4648 g @ rfc4648 lst \<and>
     base64_decode_loop (pre @ codes (rfc4648 bs)) (int (length pre + length (rfc4648 bs)) - 4)
       (length pre) dest =
     Some (length pre + length (rfc4648 g), dest @ g)"
proof (induction bs arbitrary: pre dest rule: rfc4648.induct)
  case (4 a b c bs)
  show ?case
  proof (cases "bs = []")
    case True
    then show ?thesis
      by (intro exI [of _ "[]"] exI [of _ "[a, b, c]"])
        (simp add: base64_decode_loop.simps sextets_def)
  next
    case False
    obtain p q r s where ps: "map enc (sextets a b c) = [p, q, r, s]" by (simp add: sextets_def)
    let ?mem = "pre @ codes (rfc4648 (a # b # c # bs))"
      and ?len = "int (length pre + length (rfc4648 (a # b # c # bs))) - 4"
    have e: "(pre @ codes [p, q, r, s]) @ codes (rfc4648 bs) = ?mem"
      "length (pre @ codes [p, q, r, s]) = length pre + 4"
      "int (length pre + 4 + length (rfc4648 bs)) - 4 = ?len" using ps by simp_all
    note IH = "4.IH" [OF False, of "pre @ codes [p, q, r, s]" "dest @ [a, b, c]", unfolded e]
    obtain g lst where gl: "bs = g @ lst" "lst \<noteq> []" "length lst \<le> 3" "length g mod 3 = 0"
      "rfc4648 bs = rfc4648 g @ rfc4648 lst"
      "base64_decode_loop ?mem ?len (length pre + 4) (dest @ [a, b, c]) =
         Some (length pre + 4 + length (rfc4648 g), (dest @ [a, b, c]) @ g)"
      using IH by (elim exE conjE) (rule that)
    have "0 < length (rfc4648 bs)" using False by (cases bs rule: rfc4648.cases) (auto simp: sextets_def)
    then have lt: "int (length pre) < ?len" using ps by simp
    have ld: "load32 ?mem (length pre) =
        Some (le32 (of_nat (code_of p)) (of_nat (code_of q)) (of_nat (code_of r)) (of_nat (code_of s)))"
      unfolding e(1) [symmetric] by simp
    have "base64_decode_loop ?mem ?len (length pre) dest =
        base64_decode_loop ?mem ?len (length pre + 4) (dest @ [a, b, c])"
      using lt ld dec_block_sextets [OF ps]
      by (simp only: base64_decode_loop.simps [of ?mem ?len "length pre" dest] if_True option.case)
    also have "\<dots> = Some (length pre + length (rfc4648 (a # b # c # g)), dest @ a # b # c # g)"
      using gl(6) ps by simp
    finally show ?thesis
      using gl(1-5) by (intro exI [of _ "a # b # c # g"] exI [of _ lst]) simp
  qed
next
  case (2 a)
  then show ?case
    by (intro exI [of _ "[]"] exI [of _ "[a]"]) (simp add: base64_decode_loop.simps sextets_def)
next
  case (3 a b)
  then show ?case
    by (intro exI [of _ "[]"] exI [of _ "[a, b]"]) (simp add: base64_decode_loop.simps sextets_def)
qed simp

lemma dec_rest_last:
  assumes "lst \<noteq> []" and "length lst \<le> 3" and "rfc4648 lst = [p, q, r, s]"
  shows "\<exists>t. dec_rest (le32 (of_nat (code_of p)) (of_nat (code_of q)) (of_nat (code_of r))
       (of_nat (code_of s))) = Some t \<and> length t = 3 \<and> (\<forall>i < min 2 (length lst). t ! i = lst ! i)"
proof -
  note un = dec_rest_def B_le32 dec_sextets dec_pad prod.case option.case dec_byte0 dec_byte1
    ucast_ucast_byte
  consider a where "lst = [a]" | a b where "lst = [a, b]" | a b c where "lst = [a, b, c]"
    using assms(1,2) by (cases lst; cases "tl lst"; cases "tl (tl lst)") auto
  then show ?thesis
  proof cases
    case 1
    have ps: "p = enc (drop_bit 2 (ucast a))" "q = enc ((push_bit 4 (ucast a) OR drop_bit 4 (ucast (0::u8))) AND 63)"
      "r = CHR ''=''" "s = CHR ''=''" using assms(3) 1 by (auto simp: sextets_def)
    show ?thesis unfolding ps by (simp only: un) (simp add: 1)
  next
    case 2
    have ps: "p = enc (drop_bit 2 (ucast a))" "q = enc ((push_bit 4 (ucast a) OR drop_bit 4 (ucast b)) AND 63)"
      "r = enc ((push_bit 2 (ucast b) OR drop_bit 6 (ucast (0::u8))) AND 63)"
      "s = CHR ''=''" using assms(3) 2 by (auto simp: sextets_def)
    show ?thesis unfolding ps by (simp only: un) (auto simp: 2 less_Suc_eq numeral_2_eq_2)
  next
    case 3
    have ps: "p = enc (drop_bit 2 (ucast a))" "q = enc ((push_bit 4 (ucast a) OR drop_bit 4 (ucast b)) AND 63)"
      "r = enc ((push_bit 2 (ucast b) OR drop_bit 6 (ucast c)) AND 63)"
      "s = enc (ucast c AND 63)" using assms(3) 3 by (auto simp: sextets_def)
    show ?thesis unfolding ps by (simp only: un) (auto simp: 3 less_Suc_eq numeral_2_eq_2)
  qed
qed

lemma rfc4648_last4:
  assumes "lst \<noteq> []" and "length lst \<le> 3"
  obtains p q r s where "rfc4648 lst = [p, q, r, s]"
  using assms that by (cases lst; cases "tl lst"; cases "tl (tl lst)") (auto simp: sextets_def)

section \<open>Properties\<close>



text \<open>C34: decoding an encoded text gives back every byte of it, but for the last one of a text
  whose length is a multiple of three.\<close>

theorem base64_decode_encoded:
  assumes "bs \<noteq> []"
    and "int (length (rfc4648 bs)) + int (length (rfc4648 bs)) div 4 * 3 < dest_len"
  shows "\<exists>out. base64_decode (Some (codes (rfc4648 bs))) (int (length (rfc4648 bs))) False dest_len =
      Some (out, int (length out)) \<and>
    (\<forall>i < length bs. length bs mod 3 \<noteq> 0 \<or> Suc i < length bs \<longrightarrow> out ! i = bs ! i)"
proof -
  let ?E = "rfc4648 bs"
  obtain g lst where gl: "bs = g @ lst" "lst \<noteq> []" "length lst \<le> 3" "length g mod 3 = 0"
    "?E = rfc4648 g @ rfc4648 lst"
    "base64_decode_loop (codes ?E) (int (length ?E) - 4) 0 [] = Some (length (rfc4648 g), g)"
    using base64_decode_loop_eq [OF assms(1), of "[]" "[]"] by auto
  obtain p q r s where ps: "rfc4648 lst = [p, q, r, s]" using rfc4648_last4 [OF gl(2,3)] .
  obtain t where t: "dec_rest (le32 (of_nat (code_of p)) (of_nat (code_of q)) (of_nat (code_of r))
       (of_nat (code_of s))) = Some t" "length t = 3" "\<forall>i < min 2 (length lst). t ! i = lst ! i"
    using dec_rest_last [OF gl(2,3) ps] by blast
  have ld: "load32 (codes ?E) (length (rfc4648 g)) =
      Some (le32 (of_nat (code_of p)) (of_nat (code_of q)) (of_nat (code_of r)) (of_nat (code_of s)))"
    unfolding gl(5) ps using load32_at [of "codes (rfc4648 g)" _ _ _ _ "[]"] by simp
  have rest: "int (length ?E) - int (length (rfc4648 g)) = 4" unfolding gl(5) ps by simp
  have pos: "\<not> int (length ?E) \<le> 0" "\<not> dest_len \<le> 0"
    "\<not> dest_len < int (length ?E) + int (length ?E) div 4 * 3 + 1"
    using rest assms(2) by auto
  have d: "base64_decode (Some (codes ?E)) (int (length ?E)) False dest_len =
      Some (g @ t @ [0], int (length (g @ t @ [0])))"
    using pos by (simp only: base64_decode_def gl(6) ld rest t(1) option.case prod.case Let_def
        if_False if_True simp_thms) simp
  have "(g @ t @ [0]) ! i = bs ! i"
    if i: "i < length bs" "length bs mod 3 \<noteq> 0 \<or> Suc i < length bs" for i
  proof (cases "i < length g")
    case True
    then show ?thesis by (simp add: gl(1) nth_append)
  next
    case False
    have "\<not> (length lst = 3 \<and> i = length g + 2)"
      using i(2) gl(4) by (auto simp: gl(1) mod_add_eq [symmetric, of "length g"])
    then have j: "i - length g < min 2 (length lst)" using i(1) gl(1,3) False by auto
    then have "t ! (i - length g) = lst ! (i - length g)" using t(3) by blast
    then show ?thesis using False j t(2) by (simp add: gl(1) nth_append)
  qed
  with d show ?thesis by blast
qed

theorem base64_decode_encoded_witness:
  "\<exists>out. base64_decode (Some (codes (rfc4648 [104, 105]))) 4 False 8 = Some (out, int (length out)) \<and>
     out ! 0 = 104 \<and> out ! 1 = 105"
proof -
  have l: "length (rfc4648 [104, 105]) = 4" by (simp add: sextets_def)
  have "\<exists>out. base64_decode (Some (codes (rfc4648 [104, 105]))) 4 False 8 = Some (out, int (length out)) \<and>
     (\<forall>i < Suc (Suc 0). (2::nat) mod 3 \<noteq> 0 \<or> Suc i < Suc (Suc 0) \<longrightarrow> out ! i = [104, 105] ! i)"
    using base64_decode_encoded [of "[104, 105]" 8] unfolding l by simp
  then show ?thesis by force
qed


end
