(* ===== verification/XM_Backoff.thy ===== *)
theory XM_Backoff
  imports XM_Prelude
begin

text \<open>
  \<^verbatim>\<open>utils/backoff_algorithm.c\<close>: the full-jitter exponential backoff that paces the retries of
  the exporter registration.
\<close>

datatype BackoffAlgorithmStatus = BackoffAlgorithmSuccess | BackoffAlgorithmRetriesExhausted

record BackoffAlgorithmContext =
  maxBackoffDelay :: u16
  attemptsDone :: u32
  nextJitterMax :: u16
  maxRetryAttempts :: u32

definition BACKOFF_ALGORITHM_RETRY_FOREVER :: u32 where
  "BACKOFF_ALGORITHM_RETRY_FOREVER = 0xFFFFFFFF"

text \<open>The status, the context and the value of \<^verbatim>\<open>*pNextBackOff\<close>, which is written on success only.\<close>

definition BackoffAlgorithm_GetNextBackoff ::
  "BackoffAlgorithmContext \<Rightarrow> u32 \<Rightarrow> u16 \<Rightarrow> BackoffAlgorithmStatus \<times> BackoffAlgorithmContext \<times> u16" where
  "BackoffAlgorithm_GetNextBackoff ctx randomValue nextBackOff =
     (if maxRetryAttempts ctx = BACKOFF_ALGORITHM_RETRY_FOREVER
         \<or> attemptsDone ctx < maxRetryAttempts ctx
      then (BackoffAlgorithmSuccess,
            ctx\<lparr>attemptsDone := attemptsDone ctx + 1,
                nextJitterMax :=
                  (if nextJitterMax ctx < maxBackoffDelay ctx div 2
                   then nextJitterMax ctx + nextJitterMax ctx
                   else maxBackoffDelay ctx)\<rparr>,
            ucast (randomValue mod (ucast (nextJitterMax ctx) + 1)))
      else (BackoffAlgorithmRetriesExhausted, ctx, nextBackOff))"

definition BackoffAlgorithm_InitializeParams :: "u16 \<Rightarrow> u16 \<Rightarrow> u32 \<Rightarrow> BackoffAlgorithmContext" where
  "BackoffAlgorithm_InitializeParams backOffBase maxBackOff maxAttempts =
     \<lparr>maxBackoffDelay = maxBackOff, attemptsDone = 0, nextJitterMax = backOffBase,
      maxRetryAttempts = maxAttempts\<rparr>"

text \<open>A run of retries, one per random value: the statuses and the delays handed out.\<close>

fun backoff_run ::
  "BackoffAlgorithmContext \<Rightarrow> u32 list \<Rightarrow> (BackoffAlgorithmStatus \<times> u16) list" where
  "backoff_run ctx [] = []"
| "backoff_run ctx (r # rs) =
     (let (st, ctx', d) = BackoffAlgorithm_GetNextBackoff ctx r 0 in (st, d) # backoff_run ctx' rs)"

text \<open>The jitter window never exceeds the configured maximum.\<close>

definition backoff_inv :: "BackoffAlgorithmContext \<Rightarrow> bool" where
  "backoff_inv ctx \<longleftrightarrow> nextJitterMax ctx \<le> maxBackoffDelay ctx"

lemma double_below_max:
  assumes "(j :: u16) < m div 2"
  shows "j + j \<le> m \<and> unat (j + j) = 2 * unat j"
proof -
  have j: "unat j < unat m div 2" using assms by (simp add: word_less_nat_alt unat_div)
  have "unat m < 2 ^ 16" using unsigned_less [of m, where 'a = nat] by simp
  with j have "unat j + unat j < 2 ^ 16" by linarith
  then have "unat (j + j) = unat j + unat j" by (simp add: unat_word_ariths)
  with j show ?thesis by (simp add: word_le_nat_alt)
qed

lemma jitter_bounded:
  "(ucast (r mod (ucast (j :: u16) + 1) :: u32) :: u16) \<le> j"
proof -
  have j: "unat j < 2 ^ 16" using unsigned_less [of j, where 'a = nat] by simp
  have "unat (ucast j + 1 :: u32) = unat j + 1"
    using j by (simp add: unat_word_ariths unsigned_ucast_eq take_bit_nat_eq_self)
  then have "unat (r mod (ucast j + 1)) \<le> unat j"
    by (simp add: unat_mod)
  moreover from this have "unat (ucast (r mod (ucast j + 1)) :: u16) = unat (r mod (ucast j + 1))"
    using j by (simp add: unsigned_ucast_eq take_bit_nat_eq_self)
  ultimately show ?thesis by (simp add: word_le_nat_alt)
qed

lemma GetNextBackoff_inv [xm_inv]:
  "backoff_inv ctx \<Longrightarrow> backoff_inv (fst (snd (BackoffAlgorithm_GetNextBackoff ctx r d)))"
  using double_below_max [of "nextJitterMax ctx" "maxBackoffDelay ctx"]
  by (auto simp: backoff_inv_def BackoffAlgorithm_GetNextBackoff_def)

lemma GetNextBackoff_max [xm_frame]:
  "maxBackoffDelay (fst (snd (BackoffAlgorithm_GetNextBackoff ctx r d))) = maxBackoffDelay ctx"
  "maxRetryAttempts (fst (snd (BackoffAlgorithm_GetNextBackoff ctx r d))) = maxRetryAttempts ctx"
  by (simp_all add: BackoffAlgorithm_GetNextBackoff_def)

lemma GetNextBackoff_bounded:
  assumes "backoff_inv ctx"
  shows "snd (snd (BackoffAlgorithm_GetNextBackoff ctx r 0)) \<le> maxBackoffDelay ctx"
proof -
  have "(ucast (r mod (ucast (nextJitterMax ctx) + 1)) :: u16) \<le> maxBackoffDelay ctx"
    using jitter_bounded [of r "nextJitterMax ctx"] assms
    unfolding backoff_inv_def by (rule order_trans)
  then show ?thesis by (simp add: BackoffAlgorithm_GetNextBackoff_def)
qed

lemma backoff_run_bounded:
  "backoff_inv ctx \<Longrightarrow> \<forall>(st, d) \<in> set (backoff_run ctx rs). d \<le> maxBackoffDelay ctx"
proof (induction rs arbitrary: ctx)
  case Nil
  then show ?case by simp
next
  case (Cons r rs)
  obtain st ctx' d where g: "BackoffAlgorithm_GetNextBackoff ctx r 0 = (st, ctx', d)"
    by (metis prod_cases3)
  have "backoff_inv ctx'" "maxBackoffDelay ctx' = maxBackoffDelay ctx" "d \<le> maxBackoffDelay ctx"
    using GetNextBackoff_inv [OF Cons.prems, of r 0] GetNextBackoff_max [of ctx r 0]
      GetNextBackoff_bounded [OF Cons.prems, of r] by (simp_all add: g)
  with Cons.IH [of ctx'] show ?case by (simp add: g)
qed

lemma backoff_run_statuses:
  assumes "maxRetryAttempts ctx \<noteq> BACKOFF_ALGORITHM_RETRY_FOREVER"
    and "attemptsDone ctx \<le> maxRetryAttempts ctx"
  shows "map fst (backoff_run ctx rs) =
    (let n = min (length rs) (unat (maxRetryAttempts ctx) - unat (attemptsDone ctx))
     in replicate n BackoffAlgorithmSuccess @ replicate (length rs - n) BackoffAlgorithmRetriesExhausted)"
  using assms
proof (induction rs arbitrary: ctx)
  case Nil
  then show ?case by simp
next
  case (Cons r rs)
  let ?M = "maxRetryAttempts ctx" and ?A = "attemptsDone ctx"
  show ?case
  proof (cases "?A < ?M")
    case True
    obtain st ctx' d where g: "BackoffAlgorithm_GetNextBackoff ctx r 0 = (st, ctx', d)"
      by (metis prod_cases3)
    have A: "unat ?A < unat ?M" using True by (simp add: word_less_nat_alt)
    moreover have "unat ?M < 2 ^ 32" using unsigned_less [of ?M, where 'a = nat] by simp
    ultimately have S: "unat (?A + 1) = Suc (unat ?A)" by (simp add: unat_word_ariths)
    have c: "st = BackoffAlgorithmSuccess" "attemptsDone ctx' = ?A + 1" "maxRetryAttempts ctx' = ?M"
      using g True by (auto simp: BackoffAlgorithm_GetNextBackoff_def)
    have "attemptsDone ctx' \<le> maxRetryAttempts ctx'"
      using A S by (simp add: c word_le_nat_alt)
    with Cons.IH [of ctx'] Cons.prems(1) c S
    have IH: "map fst (backoff_run ctx' rs) =
        (let n = min (length rs) (unat ?M - Suc (unat ?A))
         in replicate n BackoffAlgorithmSuccess @
            replicate (length rs - n) BackoffAlgorithmRetriesExhausted)"
      by simp
    have n: "min (length (r # rs)) (unat ?M - unat ?A) =
        Suc (min (length rs) (unat ?M - Suc (unat ?A)))"
      using A by (auto simp: min_def)
    show ?thesis unfolding n Let_def by (simp add: g c(1) IH Let_def)
  next
    case False
    then have "?A = ?M" using Cons.prems by auto
    with Cons.IH [of ctx] Cons.prems show ?thesis
      by (simp add: BackoffAlgorithm_GetNextBackoff_def)
  qed
qed

section \<open>Properties\<close>



text \<open>Nothing clamps the base: with a base above the maximum the first delay can exceed the
  maximum that the interface promises.\<close>

lemma backoff_base_not_clamped:
  "backoff_run (BackoffAlgorithm_InitializeParams 9000 5000 3) [8500] = [(BackoffAlgorithmSuccess, 8500)]"
  by (simp add: BackoffAlgorithm_InitializeParams_def BackoffAlgorithm_GetNextBackoff_def)

end
