(* ===== verification/XM_Pattern.thy ===== *)
theory XM_Pattern
  imports XM_Prelude
begin

text \<open>
  \<^verbatim>\<open>utils/simple_pattern.c\<close>: the list of wildcard patterns that filters cgroups. A pattern is a
  node with a chain of children, one per piece between asterisks; the list linked through
  \<^verbatim>\<open>next\<close> is a HOL list.
\<close>

datatype SIMPLE_PREFIX_MODE =
  SIMPLE_PATTERN_EXACT | SIMPLE_PATTERN_PREFIX | SIMPLE_PATTERN_SUFFIX | SIMPLE_PATTERN_SUBSTRING

text \<open>\<open>sp_match\<close> is \<open>None\<close> for a NULL \<^verbatim>\<open>match\<close>.\<close>

datatype simple_pattern = SP
  (sp_match: "string option") (sp_len: nat) (sp_mode: SIMPLE_PREFIX_MODE) (sp_negative: bool)
  (sp_child: "simple_pattern option")

abbreviation star :: char where
  "star \<equiv> CHR ''*''"

section \<open>Parsing\<close>

text \<open>What the node of the text \<open>s\<close> (up to and with the asterisk that ends it) matches.\<close>

definition classify :: "string \<Rightarrow> SIMPLE_PREFIX_MODE \<Rightarrow> string \<times> SIMPLE_PREFIX_MODE" where
  "classify s default_mode =
     (let len = length s
      in if len \<ge> 2 \<and> hd s = star \<and> last s = star then (tl (butlast s), SIMPLE_PATTERN_SUBSTRING)
         else if len \<ge> 1 \<and> hd s = star then (tl s, SIMPLE_PATTERN_SUFFIX)
         else if len \<ge> 1 \<and> last s = star then (butlast s, SIMPLE_PATTERN_PREFIX)
         else (s, default_mode))"

lemma parse_rest_shorter:
  "dropWhile (\<lambda>c. c \<noteq> star) (dropWhile (\<lambda>c. c = star) str) \<noteq> [] \<Longrightarrow>
   length (dropWhile (\<lambda>c. c \<noteq> star) (dropWhile (\<lambda>c. c = star) str)) < length str"
proof -
  let ?a = "dropWhile (\<lambda>c. c = star) str"
  assume ne: "dropWhile (\<lambda>c. c \<noteq> star) ?a \<noteq> []"
  then obtain x xs where a: "?a = x # xs" by (cases ?a) auto
  then have "x \<noteq> star" using hd_dropWhile [of "\<lambda>c. c = star" str] by simp
  then have "length (dropWhile (\<lambda>c. c \<noteq> star) ?a) < length ?a"
    using length_dropWhile_le [of "\<lambda>c. c \<noteq> star" xs] a by simp
  also have "length ?a \<le> length str" by (rule length_dropWhile_le)
  finally show ?thesis .
qed

text \<open>The part behind the asterisk in the middle is parsed first, in place; it keeps the first
  byte of its text, so what the parent then reads is the text up to that asterisk.\<close>

function parse_pattern :: "string \<Rightarrow> SIMPLE_PREFIX_MODE \<Rightarrow> simple_pattern" where
  "parse_pattern str default_mode =
     (let stars = takeWhile (\<lambda>c. c = star) str;
          c1 = dropWhile (\<lambda>c. c = star) str;
          mid = takeWhile (\<lambda>c. c \<noteq> star) c1;
          c = dropWhile (\<lambda>c. c \<noteq> star) c1;
          middle = (c \<noteq> [] \<and> tl c \<noteq> []);
          child = (if middle then Some (parse_pattern c default_mode) else None);
          s = (if middle then stars @ mid @ [star] else str);
          (m, mode) = classify s default_mode
      in if m \<noteq> [] then SP (Some m) (length m) mode False child
         else SP None 0 SIMPLE_PATTERN_SUBSTRING False child)"
  by pat_completeness auto
termination
proof (relation "measure (\<lambda>(str, m). length str)", goal_cases)
  case (2 str default_mode stars c1 mid c middle)
  then have ne: "c \<noteq> []" by blast
  have "length c < length str"
    using ne unfolding 2(4) unfolding 2(2) by (rule parse_rest_shorter)
  then show ?case by simp
qed simp

declare parse_pattern.simps [simp del]

definition default_separators :: string where
  "default_separators = [CHR '' '', CHR 0x09, CHR 0x0D, CHR 0x0A, CHR 0x0C, CHR 0x0B]"

text \<open>The inner loop of \<^verbatim>\<open>simple_pattern_create\<close>: one word, with its escapes removed, and the
  text behind its separator.\<close>

fun read_word :: "string \<Rightarrow> bool \<Rightarrow> string \<Rightarrow> string \<Rightarrow> string \<times> string" where
  "read_word seps escape [] buf = (buf, [])"
| "read_word seps escape (c # s) buf =
     (if c = CHR 0x5C \<and> \<not> escape then read_word seps True s buf
      else if c \<in> set seps \<and> \<not> escape then (buf, s)
      else read_word seps False s (buf @ [c]))"

lemma read_word_shorter: "length (snd (read_word seps e s buf)) \<le> length s"
  by (induction seps e s buf rule: read_word.induct) auto

lemma read_word_shorter_Cons: "s \<noteq> [] \<Longrightarrow> length (snd (read_word seps False s buf)) < length s"
  using read_word_shorter [of seps True "tl s" buf] read_word_shorter [of seps False "tl s" "buf @ [hd s]"]
  by (cases s) auto

lemma create_rest_shorter:
  assumes "(buf, rest) = read_word seps False s2 []" and "s2 \<noteq> []"
    and "s2 = (if neg then tl s1 else s1)" and "s1 = dropWhile P s"
  shows "length rest < length s"
proof -
  have "length rest < length s2"
    using read_word_shorter_Cons [OF assms(2), of seps "[]"] assms(1) by (metis snd_conv)
  moreover have "length s2 \<le> length s1" by (simp add: assms(3))
  moreover have "length s1 \<le> length s" unfolding assms(4) by (rule length_dropWhile_le)
  ultimately show ?thesis by linarith
qed

function create_loop ::
  "string \<Rightarrow> SIMPLE_PREFIX_MODE \<Rightarrow> string \<Rightarrow> simple_pattern list \<Rightarrow> simple_pattern list" where
  "create_loop seps default_mode s root =
     (if s = [] then root
      else let s1 = dropWhile (\<lambda>c. c \<in> set seps) s;
               negative = (s1 \<noteq> [] \<and> hd s1 = CHR ''!'');
               s2 = (if negative then tl s1 else s1)
           in if s2 = [] then root
              else let (buf, rest) = read_word seps False s2 []
                   in if buf = [] then create_loop seps default_mode rest root
                      else case parse_pattern buf default_mode of
                             SP m l md n ch \<Rightarrow>
                               create_loop seps default_mode rest (root @ [SP m l md negative ch]))"
  by pat_completeness auto
termination
  by (relation "measure (\<lambda>(seps, m, s, root). length s)") (auto intro: create_rest_shorter)

declare create_loop.simps [simp del]

definition simple_pattern_create ::
  "string option \<Rightarrow> string option \<Rightarrow> SIMPLE_PREFIX_MODE \<Rightarrow> simple_pattern list" where
  "simple_pattern_create lst separators default_mode =
     (case lst of
        None \<Rightarrow> []
      | Some l \<Rightarrow>
          if l = [] then []
          else create_loop
                 (case separators of None \<Rightarrow> default_separators
                  | Some sp \<Rightarrow> if sp = [] then default_separators else sp)
                 default_mode l [])"

section \<open>Matching\<close>

text \<open>The buffer for the text that the asterisks matched: its bytes, the position of the pointer
  \<^verbatim>\<open>wildcarded\<close> in it and the size left; \<open>None\<close> when no buffer is given.\<close>

type_synonym wbuf = "(string \<times> nat \<times> nat) option"

text \<open>\<^verbatim>\<open>strncpy(dst, src, n)\<close>: it writes \<open>n\<close> bytes, NULs behind the end of the source, and
  no terminator of its own.\<close>

fun strncpy :: "string \<Rightarrow> nat \<Rightarrow> string \<Rightarrow> nat \<Rightarrow> string" where
  "strncpy dst pos src 0 = dst"
| "strncpy dst pos [] (Suc n) = strncpy (dst[pos := NUL]) (Suc pos) [] n"
| "strncpy dst pos (c # src) (Suc n) = strncpy (dst[pos := c]) (Suc pos) src n"

definition add_wildcarded :: "string \<Rightarrow> nat \<Rightarrow> wbuf \<Rightarrow> wbuf" where
  "add_wildcarded matched matched_size w =
     (case w of
        None \<Rightarrow> None
      | Some (buf, pos, sz) \<Rightarrow>
          if sz \<noteq> 0 \<and> matched \<noteq> [] \<and> matched_size \<noteq> 0
          then let wss = sz - 1;
                   len = (if matched_size < wss then matched_size else wss)
               in if len \<noteq> 0 then Some (strncpy buf pos matched len, pos + len, sz - len) else w
          else w)"

fun match_pattern :: "simple_pattern \<Rightarrow> string \<Rightarrow> nat \<Rightarrow> wbuf \<Rightarrow> bool \<times> wbuf" where
  "match_pattern (SP mt mlen mode neg child) str len w =
     (let m_text = (case mt of None \<Rightarrow> [] | Some t \<Rightarrow> t)
      in if mlen \<le> len
         then (case mode of
             SIMPLE_PATTERN_SUBSTRING \<Rightarrow>
               if mlen = 0 then (True, w)
               else (case strstr str m_text of
                       None \<Rightarrow> (False, w)
                     | Some (b, s) \<Rightarrow>
                         let w1 = add_wildcarded str (length b) w
                         in case child of
                              None \<Rightarrow>
                                (True, add_wildcarded (drop mlen s) (len - (length b + mlen)) w1)
                            | Some ch \<Rightarrow>
                                match_pattern ch (drop mlen s) (len - length b - mlen) w1)
           | SIMPLE_PATTERN_PREFIX \<Rightarrow>
               if has_prefix m_text str
               then (case child of
                       None \<Rightarrow> (True, add_wildcarded (drop mlen str) (len - mlen) w)
                     | Some ch \<Rightarrow> match_pattern ch (drop mlen str) (len - mlen) w)
               else (False, w)
           | SIMPLE_PATTERN_SUFFIX \<Rightarrow>
               if drop (len - mlen) str = m_text
               then (child = None, add_wildcarded str (len - mlen) w)
               else (False, w)
           | SIMPLE_PATTERN_EXACT \<Rightarrow>
               if str = m_text then (child = None, w) else (False, w))
         else (False, w))"

text \<open>The loop over the list: the buffer restarts for every pattern, its first byte cleared.\<close>

fun matches_loop ::
  "simple_pattern list \<Rightarrow> string \<Rightarrow> (string \<times> nat) option \<Rightarrow> bool \<times> string option" where
  "matches_loop [] str wildcarded = (False, map_option fst wildcarded)"
| "matches_loop (m # ms) str wildcarded =
     (let w = (case wildcarded of None \<Rightarrow> None | Some (buf, sz) \<Rightarrow> Some (buf[0 := NUL], 0, sz));
          (found, w') = match_pattern m str (length str) w
      in if found then (\<not> sp_negative m, map_option fst w')
         else matches_loop ms str
                (case w' of None \<Rightarrow> None | Some (buf, _, _) \<Rightarrow> map_option (\<lambda>(_, n). (buf, n)) wildcarded))"

definition simple_pattern_matches_extract ::
  "simple_pattern list \<Rightarrow> string option \<Rightarrow> (string \<times> nat) option \<Rightarrow> bool \<times> string option" where
  "simple_pattern_matches_extract root str wildcarded =
     (case str of
        None \<Rightarrow> (False, map_option fst wildcarded)
      | Some s \<Rightarrow>
          if root = [] \<or> s = [] then (False, map_option fst wildcarded)
          else matches_loop root s wildcarded)"

definition simple_pattern_matches :: "simple_pattern list \<Rightarrow> string option \<Rightarrow> bool" where
  "simple_pattern_matches root str = fst (simple_pattern_matches_extract root str None)"

section \<open>Potential DNS names\<close>

definition is_alpha :: "char \<Rightarrow> bool" where
  "is_alpha c = (97 \<le> code_of c \<and> code_of c \<le> 122 \<or> 65 \<le> code_of c \<and> code_of c \<le> 90)"

text \<open>The scan of one chain. A node without \<^verbatim>\<open>match\<close> leaves \<^verbatim>\<open>p\<close> where it is.\<close>

partial_function (option) scan_is_potential_name ::
  "simple_pattern option \<Rightarrow> bool \<Rightarrow> bool \<Rightarrow> bool \<Rightarrow> (bool \<times> bool \<times> bool) option" where
  "scan_is_potential_name p alpha colon wildcards =
     (case p of
        None \<Rightarrow> Some (alpha, colon, wildcards)
      | Some n \<Rightarrow>
          (case sp_match n of
             None \<Rightarrow> scan_is_potential_name p alpha colon wildcards
           | Some t \<Rightarrow>
               if sp_mode n = SIMPLE_PATTERN_EXACT \<and> t = ''localhost''
               then scan_is_potential_name (sp_child n) alpha colon wildcards
               else scan_is_potential_name (sp_child n)
                      (alpha \<or> (\<exists>c \<in> set t. is_alpha c)) (colon \<or> CHR '':'' \<in> set t)
                      (wildcards \<or> sp_mode n \<noteq> SIMPLE_PATTERN_EXACT)))"

declare scan_is_potential_name.simps [code]

fun potential_name_loop ::
  "simple_pattern list \<Rightarrow> bool \<Rightarrow> bool \<Rightarrow> bool \<Rightarrow> (bool \<times> bool \<times> bool) option" where
  "potential_name_loop [] alpha colon wildcards = Some (alpha, colon, wildcards)"
| "potential_name_loop (p # ps) alpha colon wildcards =
     (case (if sp_match p \<noteq> None then scan_is_potential_name (Some p) alpha colon wildcards
            else Some (alpha, colon, wildcards)) of
        None \<Rightarrow> None
      | Some (a, c, w) \<Rightarrow> potential_name_loop ps a c (w \<or> sp_mode p \<noteq> SIMPLE_PATTERN_EXACT))"

definition simple_pattern_is_potential_name :: "simple_pattern list \<Rightarrow> bool option" where
  "simple_pattern_is_potential_name root =
     map_option (\<lambda>(a, c, w). (a \<or> w) \<and> \<not> c) (potential_name_loop root False False False)"

text \<open>\<open>None\<close>: the list is empty and the pointer NULL.\<close>

definition simple_pattern_iterate :: "simple_pattern list \<Rightarrow> (string option \<times> simple_pattern list) option" where
  "simple_pattern_iterate p =
     (case p of [] \<Rightarrow> None | root # nxt \<Rightarrow> Some (sp_match root, nxt))"

section \<open>Trimming around the equal sign\<close>

text \<open>The outer \<open>None\<close> is an access outside a buffer: before the start of the copy when the
  text begins with \<open>=\<close>, behind the NUL of the source when it ends with \<open>=\<close>.\<close>

function trim_loop :: "string \<Rightarrow> string \<Rightarrow> string option" where
  "trim_loop src dst =
     (case src of
        [] \<Rightarrow> Some dst
      | c # cs \<Rightarrow>
          if c = CHR ''=''
          then if dst = [] then None
               else let dst1 = (if last dst = CHR '' '' then butlast dst else dst) @ [c];
                        src1 = (if cs \<noteq> [] \<and> hd cs = CHR '' '' then tl cs else cs)
                    in (case src1 of [] \<Rightarrow> None | d # ds \<Rightarrow> trim_loop ds (dst1 @ [d]))
          else trim_loop cs (dst @ [c]))"
  by pat_completeness auto
termination
proof (relation "measure (\<lambda>(src, dst). length src)", goal_cases)
  case (2 src dst c cs dst1 src1 d ds)
  then have "length (d # ds) \<le> length cs" by (metis diff_le_self length_tl order_refl)
  then show ?case using 2 by simp
qed auto

declare trim_loop.simps [simp del]

definition simple_pattern_trim_around_equal :: "bool \<Rightarrow> string \<Rightarrow> string option option" where
  "simple_pattern_trim_around_equal malloc_ok src =
     (if malloc_ok then map_option Some (trim_loop src []) else Some None)"

section \<open>The reference: wildcard semantics\<close>

function glob :: "string \<Rightarrow> string \<Rightarrow> bool" where
  "glob [] s = (s = [])"
| "glob (p # ps) s =
     (if p = star then glob ps s \<or> (case s of [] \<Rightarrow> False | c # cs \<Rightarrow> glob (p # ps) cs)
      else case s of [] \<Rightarrow> False | c # cs \<Rightarrow> p = c \<and> glob ps cs)"
  by pat_completeness auto
termination
  by (relation "measures [\<lambda>(p, s). length p + length s]") auto

lemma glob_star: "glob (star # ps) s \<longleftrightarrow> (\<exists>x y. s = x @ y \<and> glob ps y)"
proof (induction s)
  case Nil
  then show ?case by simp
next
  case (Cons c s)
  have "(\<exists>x y. c # s = x @ y \<and> glob ps y) \<longleftrightarrow> glob ps (c # s) \<or> (\<exists>x y. s = x @ y \<and> glob ps y)"
    by (auto simp: Cons_eq_append_conv)
  with Cons show ?case by simp
qed

lemma glob_char: "p \<noteq> star \<Longrightarrow> glob (p # ps) s \<longleftrightarrow> (\<exists>y. s = p # y \<and> glob ps y)"
  by (cases s) auto

declare glob.simps(2) [simp del]

lemma glob_literal: "star \<notin> set m \<Longrightarrow> glob (m @ ps) s \<longleftrightarrow> (\<exists>y. s = m @ y \<and> glob ps y)"
  by (induction m arbitrary: s) (auto simp: glob_char)

lemma glob_star_extend: "glob (star # ps) y \<Longrightarrow> glob (star # ps) (x @ y)"
  unfolding glob_star by (metis append_assoc)

lemma glob_all: "glob [star] s"
  unfolding glob_star by auto

text \<open>A piece between two asterisks is looked for at its first occurrence; since the rest starts
  with an asterisk, a later occurrence cannot succeed where the first one fails.\<close>

lemma strstr_leftmost:
  assumes "strstr s m = Some (b, r)" and "s = x @ m @ y"
  shows "\<exists>z. drop (length m) r = z @ y"
proof -
  have s: "s = b @ r" "prefix m r" using strstr_Some [OF assms(1)] by auto
  have le: "length b \<le> length x"
  proof (rule ccontr)
    assume "\<not> length b \<le> length x"
    then have "\<not> prefix m (drop (length x) s)" using strstr_first [OF assms(1)] by simp
    then show False using assms(2) by simp
  qed
  have "drop (length m) r = drop (length b + length m) s" using s(1) by simp
  also have "drop (length x - length b) \<dots> = drop (length x + length m) s"
    using le by (simp add: add.commute)
  also have "\<dots> = y" using assms(2) by simp
  finally have "drop (length x - length b) (drop (length m) r) = y" .
  then show ?thesis by (metis append_take_drop_id)
qed

lemma strstr_glob:
  assumes "star \<notin> set m"
  shows "glob (star # m @ star # ps) s \<longleftrightarrow>
    (case strstr s m of None \<Rightarrow> False | Some (b, r) \<Rightarrow> glob (star # ps) (drop (length m) r))"
proof -
  have g: "glob (star # m @ star # ps) s \<longleftrightarrow> (\<exists>x y. s = x @ m @ y \<and> glob (star # ps) y)"
    unfolding glob_star [of "m @ star # ps"] glob_literal [OF assms] by auto
  show ?thesis
  proof (cases "strstr s m")
    case None
    then have "\<not> sublist m s" by (simp add: strstr_None_iff)
    with None show ?thesis unfolding g by (auto simp: sublist_def)
  next
    case (Some br)
    then obtain b r where br: "strstr s m = Some (b, r)" by (cases br) auto
    have s: "s = b @ m @ drop (length m) r"
      using strstr_Some [OF br] by (auto simp: prefix_def)
    show ?thesis
    proof
      assume "glob (star # m @ star # ps) s"
      then obtain x y where "s = x @ m @ y" "glob (star # ps) y" unfolding g by blast
      with strstr_leftmost [OF br] show "case strstr s m of None \<Rightarrow> False
          | Some (b, r) \<Rightarrow> glob (star # ps) (drop (length m) r)"
        using br glob_star_extend by fastforce
    next
      assume "case strstr s m of None \<Rightarrow> False | Some (b, r) \<Rightarrow> glob (star # ps) (drop (length m) r)"
      then show "glob (star # m @ star # ps) s" unfolding g using br s by fastforce
    qed
  qed
qed

section \<open>The nodes of each shape of text\<close>

text \<open>Texts without two asterisks in a row, piece by piece.\<close>

fun no_double_star :: "string \<Rightarrow> bool" where
  "no_double_star (a # b # r) = (\<not> (a = star \<and> b = star) \<and> no_double_star (b # r))"
| "no_double_star _ = True"

lemma takeWhile_word [simp]:
  "star \<notin> set m \<Longrightarrow> takeWhile (\<lambda>c. c \<noteq> star) (m @ star # t) = m"
  "star \<notin> set m \<Longrightarrow> dropWhile (\<lambda>c. c \<noteq> star) (m @ star # t) = star # t"
  by (induction m) auto

lemma word_no_star [simp]:
  "star \<notin> set m \<Longrightarrow> takeWhile (\<lambda>c. c \<noteq> star) m = m"
  "star \<notin> set m \<Longrightarrow> dropWhile (\<lambda>c. c \<noteq> star) m = []"
  by (induction m) auto

lemma word_not_star [simp]:
  "star \<notin> set m \<Longrightarrow> m \<noteq> [] \<Longrightarrow> takeWhile (\<lambda>c. c = star) (m @ t) = []"
  "star \<notin> set m \<Longrightarrow> m \<noteq> [] \<Longrightarrow> dropWhile (\<lambda>c. c = star) (m @ t) = m @ t"
  by (cases m; auto)+

lemma word_ends:
  "star \<notin> set m \<Longrightarrow> m \<noteq> [] \<Longrightarrow> hd m \<noteq> star \<and> last m \<noteq> star"
  by (metis hd_in_set last_in_set)

lemma parse_shapes:
  assumes "star \<notin> set m" and "m \<noteq> []"
  shows "parse_pattern m d = SP (Some m) (length m) d False None"
    and "parse_pattern (star # m) d = SP (Some m) (length m) SIMPLE_PATTERN_SUFFIX False None"
    and "parse_pattern (m @ [star]) d = SP (Some m) (length m) SIMPLE_PATTERN_PREFIX False None"
    and "parse_pattern (star # m @ [star]) d =
           SP (Some m) (length m) SIMPLE_PATTERN_SUBSTRING False None"
    and "t \<noteq> [] \<Longrightarrow> parse_pattern (m @ star # t) d =
           SP (Some m) (length m) SIMPLE_PATTERN_PREFIX False (Some (parse_pattern (star # t) d))"
    and "t \<noteq> [] \<Longrightarrow> parse_pattern (star # m @ star # t) d =
           SP (Some m) (length m) SIMPLE_PATTERN_SUBSTRING False (Some (parse_pattern (star # t) d))"
  using assms word_ends [OF assms] word_not_star [OF assms, of "[]"]
  by (subst parse_pattern.simps; simp add: classify_def Let_def)+

lemma parse_lone_star: "parse_pattern [star] d = SP None 0 SIMPLE_PATTERN_SUBSTRING False None"
  by (subst parse_pattern.simps) (simp add: classify_def)

lemma no_double_star_suffix: "no_double_star (x @ y) \<Longrightarrow> no_double_star y"
proof (induction x)
  case (Cons a x)
  then have "no_double_star (x @ y)" by (cases "x @ y") auto
  then show ?case by (rule Cons.IH)
qed simp

lemma word_at_star:
  obtains m where "star \<notin> set m" and "w = m" | m t where "star \<notin> set m" and "w = m @ star # t"
  by (metis split_list_first)

lemma pattern_shapes:
  assumes "w \<noteq> []" and "no_double_star w"
  obtains "w = [star]"
  | m where "star \<notin> set m" "m \<noteq> []" "w = m"
  | m where "star \<notin> set m" "m \<noteq> []" "w = star # m"
  | m where "star \<notin> set m" "m \<noteq> []" "w = m @ [star]"
  | m where "star \<notin> set m" "m \<noteq> []" "w = star # m @ [star]"
  | m t where "star \<notin> set m" "m \<noteq> []" "t \<noteq> []" "w = m @ star # t" "no_double_star (star # t)"
  | m t where "star \<notin> set m" "m \<noteq> []" "t \<noteq> []" "w = star # m @ star # t" "no_double_star (star # t)"
proof (cases "hd w = star")
  case True
  with assms(1) obtain v where w: "w = star # v" by (cases w) auto
  show thesis
  proof (cases v rule: word_at_star)
    case (1 m)
    then show thesis using w that(1,3) by (cases "m = []") auto
  next
    case (2 m t)
    have "m \<noteq> []" using assms(2) w 2 by auto
    moreover have "no_double_star (star # t)"
      using no_double_star_suffix [of "star # m" "star # t"] assms(2) w 2 by simp
    ultimately show thesis using w 2 that(5,7) by (cases "t = []") auto
  qed
next
  case False
  show thesis
  proof (cases w rule: word_at_star)
    case (1 m)
    then show thesis using assms(1) that(2) by auto
  next
    case (2 m t)
    have "m \<noteq> []" using False 2 by auto
    moreover have "no_double_star (star # t)"
      using no_double_star_suffix [of m "star # t"] assms(2) 2 by simp
    ultimately show thesis using 2 that(4,6) by (cases "t = []") auto
  qed
qed

lemma suffix_drop_iff: "drop (length s - length m) s = m \<and> length m \<le> length s \<longleftrightarrow> (\<exists>x. s = x @ m)"
  by (auto simp: append_eq_conv_conj) (metis append_take_drop_id)

lemma glob_exact: "star \<notin> set m \<Longrightarrow> glob m s \<longleftrightarrow> s = m"
  using glob_literal [of m "[]" s] by auto

lemma glob_prefix: "star \<notin> set m \<Longrightarrow> glob (m @ star # t) s \<longleftrightarrow> (\<exists>y. s = m @ y \<and> glob (star # t) y)"
  by (rule glob_literal)

lemma match_parse_glob:
  "w \<noteq> [] \<Longrightarrow> no_double_star w \<Longrightarrow>
   fst (match_pattern (parse_pattern w SIMPLE_PATTERN_EXACT) s (length s) wb) = glob w s"
proof (induction "length w" arbitrary: w s wb rule: less_induct)
  case less
  from less.prems show ?case
  proof (cases rule: pattern_shapes)
    case 1
    then show ?thesis by (simp add: parse_lone_star glob_all)
  next
    case (2 m)
    then show ?thesis by (auto simp: parse_shapes(1) glob_exact)
  next
    case (3 m)
    have "glob w s \<longleftrightarrow> (\<exists>x. s = x @ m)" unfolding 3(3) glob_star by (auto simp: glob_exact 3(1))
    with 3 suffix_drop_iff [of s m] show ?thesis by (auto simp: parse_shapes(2))
  next
    case (4 m)
    have "glob w s \<longleftrightarrow> prefix m s"
      unfolding 4(3) using glob_prefix [OF 4(1), of "[]" s] glob_all by (auto simp: prefix_def)
    with 4 show ?thesis by (auto simp: parse_shapes(3) has_prefix_iff dest: prefix_length_le)
  next
    case (5 m)
    have "glob w s \<longleftrightarrow> strstr s m \<noteq> None"
      unfolding 5(3) using strstr_glob [OF 5(1), of "[]" s] glob_all by (auto split: option.splits)
    moreover have "strstr s m \<noteq> None \<Longrightarrow> length m \<le> length s"
      by (cases "strstr s m") (auto dest!: strstr_Some prefix_length_le)
    ultimately show ?thesis using 5 by (auto simp: parse_shapes(4) Let_def split: option.splits)
  next
    case (6 m t)
    have IH: "fst (match_pattern (parse_pattern (star # t) SIMPLE_PATTERN_EXACT) y (length y) wb) =
        glob (star # t) y" for y wb
      using less.hyps [of "star # t"] 6 by simp
    have "glob w s \<longleftrightarrow> prefix m s \<and> glob (star # t) (drop (length m) s)"
      unfolding 6(4) glob_prefix [OF 6(1)] by (auto simp: prefix_def)
    with 6 IH [of "drop (length m) s"] show ?thesis
      by (auto simp: parse_shapes(5) has_prefix_iff dest: prefix_length_le)
  next
    case (7 m t)
    have IH: "fst (match_pattern (parse_pattern (star # t) SIMPLE_PATTERN_EXACT) y (length y) wb) =
        glob (star # t) y" for y wb
      using less.hyps [of "star # t"] 7 by simp
    show ?thesis
    proof (cases "strstr s m")
      case None
      with 7 strstr_glob [OF 7(1), of t s] show ?thesis by (simp add: parse_shapes(6))
    next
      case (Some br)
      then obtain b r where br: "strstr s m = Some (b, r)" by (cases br) auto
      have sr: "s = b @ r" "length m \<le> length r"
        using strstr_Some [OF br] by (auto dest: prefix_length_le)
      have le: "length m \<le> length s" and l: "length s - length b - length m = length (drop (length m) r)"
        using sr by simp_all
      have "match_pattern (parse_pattern w SIMPLE_PATTERN_EXACT) s (length s) wb =
          match_pattern (parse_pattern (star # t) SIMPLE_PATTERN_EXACT) (drop (length m) r)
            (length (drop (length m) r)) (add_wildcarded s (length b) wb)"
        unfolding 7(4) parse_shapes(6) [OF 7(1,2,3)] l [symmetric] using br le 7(2) by (simp add: Let_def)
      moreover have "glob w s = glob (star # t) (drop (length m) r)"
        unfolding 7(4) strstr_glob [OF 7(1), of t s] br by simp
      ultimately show ?thesis using IH by (simp only:)
    qed
  qed
qed

section \<open>A list of patterns\<close>

text \<open>An entry of the configuration string: negated or not, and its wildcard text.\<close>

definition entry_text :: "bool \<times> string \<Rightarrow> string" where
  "entry_text e = (if fst e then CHR ''!'' # snd e else snd e)"

fun render :: "(bool \<times> string) list \<Rightarrow> string" where
  "render [] = []"
| "render [e] = entry_text e"
| "render (e # es) = entry_text e @ CHR '' '' # render es"

definition entry_ok :: "bool \<times> string \<Rightarrow> bool" where
  "entry_ok e \<longleftrightarrow> snd e \<noteq> [] \<and> no_double_star (snd e) \<and> CHR 0x5C \<notin> set (snd e) \<and>
     set (snd e) \<inter> set default_separators = {} \<and> (fst e \<or> hd (snd e) \<noteq> CHR ''!'')"

definition entry_node :: "bool \<times> string \<Rightarrow> simple_pattern" where
  "entry_node e = (case parse_pattern (snd e) SIMPLE_PATTERN_EXACT of
     SP m l md n ch \<Rightarrow> SP m l md (fst e) ch)"

lemma read_word_clean:
  assumes "CHR 0x5C \<notin> set w" and "set w \<inter> set seps = {}"
  shows "read_word seps False (w @ s) buf = read_word seps False s (buf @ w)"
  using assms by (induction w arbitrary: buf) auto

lemma entry_text_head:
  assumes "entry_ok e"
  shows "entry_text e @ s \<noteq> []" and "hd (entry_text e @ s) \<notin> set default_separators"
    and "hd (entry_text e @ s) = CHR ''!'' \<longleftrightarrow> fst e"
proof -
  have ne: "snd e \<noteq> []" and d: "set (snd e) \<inter> set default_separators = {}"
    and b: "fst e \<or> hd (snd e) \<noteq> CHR ''!''" using assms by (auto simp: entry_ok_def)
  show "entry_text e @ s \<noteq> []" using ne by (simp add: entry_text_def)
  have "hd (snd e) \<notin> set default_separators" using ne d hd_in_set by blast
  then show "hd (entry_text e @ s) \<notin> set default_separators"
    using ne by (simp add: entry_text_def default_separators_def)
  show "hd (entry_text e @ s) = CHR ''!'' \<longleftrightarrow> fst e"
    using ne b by (auto simp: entry_text_def)
qed

lemma create_loop_step:
  assumes "t = a # t'" and "a \<notin> set seps" and "s2 = (if a = CHR ''!'' then t' else t)" and "s2 \<noteq> []"
    and "read_word seps False s2 [] = (buf, rest)" and "buf \<noteq> []"
    and "parse_pattern buf d = SP m l md n ch"
  shows "create_loop seps d t root =
    create_loop seps d rest (root @ [SP m l md (a = CHR ''!'') ch])"
  using assms by (subst create_loop.simps) (auto simp: Let_def)

lemma create_loop_entry:
  assumes "entry_ok e" and "s = [] \<or> hd s = CHR '' ''"
  shows "create_loop default_separators SIMPLE_PATTERN_EXACT (entry_text e @ s) root =
    create_loop default_separators SIMPLE_PATTERN_EXACT (tl s) (root @ [entry_node e])"
proof -
  obtain a t' where t: "entry_text e @ s = a # t'"
    using entry_text_head(1) [OF assms(1), of s] by (cases "entry_text e @ s") auto
  have h: "a \<notin> set default_separators" "a = CHR ''!'' \<longleftrightarrow> fst e"
    using entry_text_head [OF assms(1), of s] t by simp_all
  have s2: "snd e @ s = (if a = CHR ''!'' then t' else entry_text e @ s)"
    using h t by (auto simp: entry_text_def split: if_splits)
  have ok: "snd e \<noteq> []" "CHR 0x5C \<notin> set (snd e)" "set (snd e) \<inter> set default_separators = {}"
    using assms(1) by (auto simp: entry_ok_def)
  have "read_word default_separators False (snd e @ s) [] = (snd e, tl s)"
    unfolding read_word_clean [OF ok(2,3)] using assms(2)
    by (cases s) (auto simp: default_separators_def)
  with create_loop_step [OF t h(1) s2] ok(1) show ?thesis
    unfolding entry_node_def
    by (cases "parse_pattern (snd e) SIMPLE_PATTERN_EXACT") (simp add: h(2))
qed

lemma create_loop_render:
  "list_all entry_ok es \<Longrightarrow>
   create_loop default_separators SIMPLE_PATTERN_EXACT (render es) root = root @ map entry_node es"
proof (induction es arbitrary: root rule: render.induct)
  case 1
  then show ?case by (simp add: create_loop.simps)
next
  case (2 e)
  then show ?case using create_loop_entry [of e "[]" root] by (simp add: create_loop.simps)
next
  case (3 e e' es)
  then show ?case using create_loop_entry [of e "CHR '' '' # render (e' # es)" root] by simp
qed

lemma entry_node_match:
  "entry_ok e \<Longrightarrow> fst (match_pattern (entry_node e) s (length s) wb) = glob (snd e) s"
proof -
  assume ok: "entry_ok e"
  have "match_pattern (entry_node e) s (length s) wb =
      match_pattern (parse_pattern (snd e) SIMPLE_PATTERN_EXACT) s (length s) wb"
    by (cases "parse_pattern (snd e) SIMPLE_PATTERN_EXACT") (simp add: entry_node_def)
  then show ?thesis using ok match_parse_glob [of "snd e" s wb] by (auto simp: entry_ok_def)
qed

lemma sp_negative_entry_node [simp]: "sp_negative (entry_node e) = fst e"
  by (simp add: entry_node_def split: simple_pattern.split)

lemma matches_loop_None_snd: "match_pattern m s l None = (f, w) \<Longrightarrow> w = None"
  by (induction m s l "None :: wbuf" arbitrary: f w rule: match_pattern.induct)
    (auto simp: Let_def add_wildcarded_def split: if_splits SIMPLE_PREFIX_MODE.splits option.splits)

lemma matches_loop_find:
  "list_all entry_ok es \<Longrightarrow>
   fst (matches_loop (map entry_node es) s None) =
     (case find (\<lambda>e. glob (snd e) s) es of None \<Rightarrow> False | Some e \<Rightarrow> \<not> fst e)"
proof (induction es)
  case (Cons e es)
  obtain f w where m: "match_pattern (entry_node e) s (length s) None = (f, w)" by force
  have "f = glob (snd e) s" using entry_node_match [of e s None] Cons.prems m by simp
  moreover have "w = None" using matches_loop_None_snd [OF m] .
  ultimately show ?case using Cons m by simp
qed simp

section \<open>The wildcard buffer\<close>

text \<open>Two buffer states of one call: the same buffer, and bytes from \<open>limit\<close> on untouched.\<close>

definition wbuf_within :: "nat \<Rightarrow> string \<Rightarrow> wbuf \<Rightarrow> bool" where
  "wbuf_within limit buf0 w \<longleftrightarrow>
     (case w of None \<Rightarrow> True
      | Some (buf, pos, sz) \<Rightarrow>
          length buf = length buf0 \<and> pos + sz = limit \<and> (\<forall>i < length buf0. limit \<le> i \<longrightarrow> buf ! i = buf0 ! i))"

lemma strncpy_frame:
  "length (strncpy dst pos src n) = length dst \<and>
   (\<forall>i. i < pos \<or> pos + n \<le> i \<longrightarrow> strncpy dst pos src n ! i = dst ! i)"
  by (induction dst pos src n rule: strncpy.induct) (auto simp: nth_list_update)

lemma add_wildcarded_within [xm_inv]:
  "wbuf_within limit buf0 w \<Longrightarrow> wbuf_within limit buf0 (add_wildcarded m n w)"
  unfolding wbuf_within_def add_wildcarded_def
  using strncpy_frame by (auto simp: Let_def split: option.splits)

lemma match_pattern_within [xm_inv]:
  "wbuf_within limit buf0 w \<Longrightarrow> wbuf_within limit buf0 (snd (match_pattern m s l w))"
proof (induction m s l w rule: match_pattern.induct)
  case (1 mt mlen mode neg child str len w)
  note ad = add_wildcarded_within
  show ?case
  proof (cases mode)
    case SIMPLE_PATTERN_SUBSTRING
    then show ?thesis
      using 1 by (auto simp: Let_def ad split: option.splits)
  qed (use 1 in \<open>auto simp: Let_def ad split: option.splits\<close>)
qed

lemma add_wildcarded_None [simp]: "add_wildcarded m n w = None \<longleftrightarrow> w = None"
  by (simp add: add_wildcarded_def Let_def split: option.split)

lemma match_pattern_None: "snd (match_pattern m s l w) = None \<longleftrightarrow> w = None"
proof (induction m s l w rule: match_pattern.induct)
  case (1 mt mlen mode neg child str len w)
  show ?case
  proof (cases mode)
    case SIMPLE_PATTERN_SUBSTRING
    then show ?thesis using 1 by (auto simp: Let_def split: option.splits)
  qed (use 1 in \<open>auto simp: Let_def split: option.splits\<close>)
qed

lemma matches_loop_within:
  assumes "sz \<le> length buf" and "0 < sz" and "length buf = length buf0"
    and "\<forall>i < length buf0. sz \<le> i \<longrightarrow> buf ! i = buf0 ! i"
  shows "\<exists>buf'. snd (matches_loop ms s (Some (buf, sz))) = Some buf' \<and> length buf' = length buf0 \<and>
    (\<forall>i < length buf0. sz \<le> i \<longrightarrow> buf' ! i = buf0 ! i)"
  using assms
proof (induction ms arbitrary: buf)
  case (Cons m ms)
  let ?w = "Some (buf[0 := NUL], 0, sz) :: wbuf"
  obtain f w where m: "match_pattern m s (length s) ?w = (f, w)" by force
  have "wbuf_within sz buf0 ?w" using Cons.prems by (auto simp: wbuf_within_def nth_list_update)
  then have w: "wbuf_within sz buf0 w"
    using match_pattern_within [of sz buf0 ?w m s "length s"] m by simp
  have "w \<noteq> None" using match_pattern_None [of m s "length s" ?w] m by simp
  then obtain buf' pos sz' where w': "w = Some (buf', pos, sz')" by (cases w) auto
  have b: "length buf' = length buf0" "\<forall>i < length buf0. sz \<le> i \<longrightarrow> buf' ! i = buf0 ! i"
    using w w' by (auto simp: wbuf_within_def)
  show ?case
  proof (cases f)
    case True
    with m w' b show ?thesis by simp
  next
    case False
    then have "matches_loop (m # ms) s (Some (buf, sz)) = matches_loop ms s (Some (buf', sz))"
      using m w' by simp
    with Cons.IH [of buf'] b Cons.prems show ?thesis by simp
  qed
qed simp

section \<open>A chain with a node without text\<close>

lemma scan_no_text:
  assumes "scan_is_potential_name p a c w = Some r"
  shows "\<forall>n. p = Some n \<longrightarrow> sp_match n \<noteq> None"
proof (rule scan_is_potential_name.raw_induct
    [where P = "\<lambda>p a c w r. \<forall>n. p = Some n \<longrightarrow> sp_match n \<noteq> None", OF _ assms])
  fix f :: "simple_pattern option \<Rightarrow> bool \<Rightarrow> bool \<Rightarrow> bool \<Rightarrow> (bool \<times> bool \<times> bool) option"
    and p a c w r
  assume IH: "\<And>p a c w r. f p a c w = Some r \<Longrightarrow> \<forall>n. p = Some n \<longrightarrow> sp_match n \<noteq> None"
    and eq: "(case p of None \<Rightarrow> Some (a, c, w)
      | Some n \<Rightarrow> (case sp_match n of None \<Rightarrow> f p a c w
          | Some t \<Rightarrow> if sp_mode n = SIMPLE_PATTERN_EXACT \<and> t = ''localhost'' then f (sp_child n) a c w
              else f (sp_child n) (a \<or> (\<exists>c \<in> set t. is_alpha c)) (c \<or> CHR '':'' \<in> set t)
                     (w \<or> sp_mode n \<noteq> SIMPLE_PATTERN_EXACT))) = Some r"
  show "\<forall>n. p = Some n \<longrightarrow> sp_match n \<noteq> None"
    using eq IH [of p a c w r] by (cases p) (auto split: option.splits)
qed

section \<open>Properties\<close>

text \<open>C1: the filter that a configuration string builds. For a string of space-separated entries,
  each a wildcard text with no two asterisks in a row, the filter accepts a name exactly when the
  first entry whose wildcard text matches the name (every asterisk stands for any text) is not
  negated; a name that no entry matches is refused.\<close>

theorem simple_pattern_filter:
  assumes "list_all entry_ok es" and "es \<noteq> []" and "s \<noteq> []"
  shows "simple_pattern_matches
      (simple_pattern_create (Some (render es)) None SIMPLE_PATTERN_EXACT) (Some s) =
    (case find (\<lambda>e. glob (snd e) s) es of None \<Rightarrow> False | Some e \<Rightarrow> \<not> fst e)"
proof -
  have ne: "render es \<noteq> []"
    using assms(1,2) by (cases es rule: render.cases) (auto simp: entry_ok_def entry_text_def)
  show ?thesis
    using assms ne matches_loop_find [OF assms(1), of s]
    by (simp add: simple_pattern_matches_def simple_pattern_create_def
        simple_pattern_matches_extract_def create_loop_render)
qed

theorem simple_pattern_filter_witness:
  "simple_pattern_matches
     (simple_pattern_create (Some ''!*.mount */docker*'') None SIMPLE_PATTERN_EXACT)
     (Some ''a/docker1'')"
proof -
  let ?es = "[(True, ''*.mount''), (False, ''*/docker*'')]"
  have ok: "list_all entry_ok ?es" by (simp add: entry_ok_def default_separators_def)
  have "render ?es = ''!*.mount */docker*''" by (simp add: entry_text_def)
  moreover have "\<not> glob ''*.mount'' ''a/docker1''" by (simp add: glob.simps)
  moreover have "glob ''*/docker*'' ''a/docker1''" by (simp add: glob.simps)
  ultimately show ?thesis using simple_pattern_filter [OF ok, of "''a/docker1''"] by simp
qed

text \<open>Two asterisks in a row are not one: the second one starts a new piece that keeps the
  asterisk as a literal byte, so \<open>a**b\<close> refuses \<open>axb\<close>, which the wildcard text matches, and
  accepts \<open>ax*b\<close>.\<close>

lemma double_star_literal:
  "glob ''a**b'' ''axb''
   \<and> \<not> simple_pattern_matches (simple_pattern_create (Some ''a**b'') None SIMPLE_PATTERN_EXACT)
        (Some ''axb'')
   \<and> simple_pattern_matches (simple_pattern_create (Some ''a**b'') None SIMPLE_PATTERN_EXACT)
        (Some ''ax*b'')"
proof -
  have c: "simple_pattern_create (Some ''a**b'') None SIMPLE_PATTERN_EXACT =
      [SP (Some ''a'') 1 SIMPLE_PATTERN_PREFIX False
         (Some (SP (Some ''*b'') 2 SIMPLE_PATTERN_SUFFIX False None))]"
    by (simp add: simple_pattern_create_def create_loop.simps default_separators_def
        parse_pattern.simps classify_def)
  show ?thesis
    unfolding c by (simp add: glob.simps simple_pattern_matches_def
        simple_pattern_matches_extract_def)
qed

text \<open>Whatever the patterns and the name, the extraction of the text that the asterisks match
  stays inside the given buffer: its length does not change and no byte from the given size on is
  written.\<close>

lemma wildcard_buffer_bounded:
  assumes "0 < sz" and "sz \<le> length buf"
  shows "\<exists>buf'. snd (simple_pattern_matches_extract root str (Some (buf, sz))) = Some buf'
    \<and> length buf' = length buf \<and> (\<forall>i. sz \<le> i \<and> i < length buf \<longrightarrow> buf' ! i = buf ! i)"
proof (cases "str = None \<or> str = Some [] \<or> root = []")
  case True
  then show ?thesis by (cases str) (auto simp: simple_pattern_matches_extract_def)
next
  case False
  then show ?thesis
    using assms matches_loop_within [of sz buf buf root "the str"]
    by (cases str) (simp_all add: simple_pattern_matches_extract_def, metis)
qed

lemma wildcard_buffer_bounded_witness:
  "\<exists>buf'. snd (simple_pattern_matches_extract
       (simple_pattern_create (Some ''ab*'') None SIMPLE_PATTERN_EXACT) (Some ''abcdef'')
       (Some (''......'', 3))) = Some buf' \<and> length buf' = 6"
  using wildcard_buffer_bounded [of 3 "''......''"
      "simple_pattern_create (Some ''ab*'') None SIMPLE_PATTERN_EXACT" "Some ''abcdef''"]
  by auto


end
