(* ===== verification/XM_ARL.thy ===== *)
theory XM_ARL
  imports XM_Strings "HOL-Library.Multiset"
begin

text \<open>
  \<^verbatim>\<open>utils/adaptive_resortable_list.c\<close> and the inline \<^verbatim>\<open>arl_check\<close> of its header: the list
  of keywords that every \<^verbatim>\<open>/proc\<close> collector fills its counters with. The doubly linked list
  that starts at \<^verbatim>\<open>head\<close> is a HOL list, a pointer into it (\<^verbatim>\<open>next_keyword\<close>) is a position.
  A \<^verbatim>\<open>dst\<close> pointer is the address of a 64-bit cell of \<open>mem\<close>. An operation returns \<open>None\<close>
  where the code dereferences NULL, divides by zero or links an entry to itself.
\<close>

type_synonym mem = "nat \<Rightarrow> u64"

text \<open>\<^verbatim>\<open>void (*processor)(name, hash, value, dst)\<close>\<close>

type_synonym processor = "string \<Rightarrow> u32 \<Rightarrow> string \<Rightarrow> nat \<Rightarrow> mem \<Rightarrow> mem"

definition ARL_ENTRY_FLAG_FOUND :: u8 where "ARL_ENTRY_FLAG_FOUND = 0x01"
definition ARL_ENTRY_FLAG_EXPECTED :: u8 where "ARL_ENTRY_FLAG_EXPECTED = 0x02"
definition ARL_ENTRY_FLAG_DYNAMIC :: u8 where "ARL_ENTRY_FLAG_DYNAMIC = 0x04"

record ARL_ENTRY =
  e_name :: string
  e_hash :: u32
  e_dst :: "nat option"
  e_flags :: u8
  e_processor :: "processor option"

record ARL_BASE =
  b_name :: string
  iteration :: nat
  found :: nat
  expected :: nat
  wanted :: nat
  relinkings :: nat
  allocated :: nat
  fred :: nat
  rechecks :: nat
  added :: nat
  b_processor :: processor
  entries :: "ARL_ENTRY list"
  next_keyword :: "nat option"

section \<open>Operations\<close>

definition arl_callback_str2ull :: processor where
  "arl_callback_str2ull name hash val dst m = m(dst := str2uint64_t val)"

definition arl_callback_ssize_t :: processor where
  "arl_callback_ssize_t name hash val dst m = m(dst := fst (str2int64_t val))"

definition arl_create :: "string \<Rightarrow> processor option \<Rightarrow> nat \<Rightarrow> ARL_BASE" where
  "arl_create name proc rchecks =
     \<lparr> b_name = name, iteration = 0, found = 0, expected = 0, wanted = 0, relinkings = 0,
       allocated = 0, fred = 0, rechecks = rchecks, added = 0,
       b_processor = (case proc of None \<Rightarrow> arl_callback_str2ull | Some p \<Rightarrow> p),
       entries = [], next_keyword = None \<rparr>"

definition arl_expect_custom ::
  "ARL_BASE \<Rightarrow> string \<Rightarrow> processor option \<Rightarrow> nat option \<Rightarrow> ARL_BASE" where
  "arl_expect_custom base keyword proc dst =
     (let e = \<lparr> e_name = keyword, e_hash = simple_hash keyword, e_dst = dst,
                e_flags = ARL_ENTRY_FLAG_EXPECTED,
                e_processor = Some (case proc of None \<Rightarrow> b_processor base | Some p \<Rightarrow> p) \<rparr>
      in base\<lparr> next_keyword := (if entries base \<noteq> [] then map_option Suc (next_keyword base) else Some 0),
               entries := e # entries base,
               expected := expected base + 1,
               allocated := allocated base + 1,
               wanted := expected base + 1 \<rparr>)"

definition arl_expect :: "ARL_BASE \<Rightarrow> string \<Rightarrow> nat option \<Rightarrow> ARL_BASE" where
  "arl_expect base keyword dst = arl_expect_custom base keyword None dst"

text \<open>The sweep over the list at a recheck: the entries kept so far, the rest, and the counters
  \<^verbatim>\<open>wanted\<close> and \<^verbatim>\<open>fred\<close>.\<close>

fun arl_sweep ::
  "bool \<Rightarrow> ARL_ENTRY list \<Rightarrow> ARL_ENTRY list \<Rightarrow> nat \<Rightarrow> nat \<Rightarrow> ARL_ENTRY list \<times> nat \<times> nat" where
  "arl_sweep wee kept [] w f = (kept, w, f)"
| "arl_sweep wee kept (e # es) w f =
     (if e_flags e AND ARL_ENTRY_FLAG_FOUND \<noteq> 0
      then arl_sweep wee (kept @ [e\<lparr>e_flags := e_flags e AND NOT ARL_ENTRY_FLAG_FOUND\<rparr>]) es
             (if \<not> wee \<and> (e_flags e AND NOT ARL_ENTRY_FLAG_FOUND) AND ARL_ENTRY_FLAG_EXPECTED \<noteq> 0
              then w + 1 else w) f
      else if e_flags e AND ARL_ENTRY_FLAG_DYNAMIC \<noteq> 0 \<and> \<not> (kept = [] \<and> es = [])
      then arl_sweep wee kept es w (f + 1)
      else arl_sweep wee (kept @ [e]) es w f)"

definition arl_recheck :: "ARL_BASE \<Rightarrow> ARL_BASE" where
  "arl_recheck base =
     (if 0 < iteration base \<and> (added base \<noteq> 0 \<or> iteration base mod rechecks base = 0)
      then let wanted_equals_expected = (iteration base mod rechecks base = 0);
               (es, w, f) = arl_sweep wanted_equals_expected [] (entries base)
                              (if wanted_equals_expected then expected base else 0) (fred base)
           in base\<lparr> added := 0, wanted := w, fred := f, entries := es \<rparr>
      else base)"

definition arl_begin :: "ARL_BASE \<Rightarrow> ARL_BASE option" where
  "arl_begin base =
     (if 0 < iteration base \<and> rechecks base = 0 then None
      else
        let base1 = arl_recheck base;
            base2 =
              (if entries base1 = []
               then arl_expect base1 ''a-really-not-existing-source-keyword'' None
               else base1)
        in Some (base2\<lparr> iteration := iteration base2 + 1,
                        next_keyword := (if entries base2 = [] then None else Some 0),
                        found := 0 \<rparr>))"

text \<open>The position of the entry for a keyword, by hash and name.\<close>

fun arl_find :: "u32 \<Rightarrow> string \<Rightarrow> ARL_ENTRY list \<Rightarrow> nat option" where
  "arl_find hash s [] = None"
| "arl_find hash s (e # es) =
     (if e_hash e = hash \<and> e_name e = s then Some 0 else map_option Suc (arl_find hash s es))"

text \<open>Run the processor of an entry that has a destination; \<open>None\<close> is a call through NULL.\<close>

definition arl_process :: "ARL_ENTRY \<Rightarrow> u32 \<Rightarrow> string \<Rightarrow> mem \<times> nat \<Rightarrow> (mem \<times> nat) option" where
  "arl_process e hash val mf =
     (case e_dst e of
        None \<Rightarrow> Some mf
      | Some d \<Rightarrow> map_option (\<lambda>p. (p (e_name e) hash val d (fst mf), snd mf + 1)) (e_processor e))"

text \<open>\<open>arl_link\<close>: link the entry before \<^verbatim>\<open>next_keyword\<close> and step behind it.\<close>

definition arl_link :: "ARL_ENTRY \<Rightarrow> ARL_BASE \<Rightarrow> ARL_BASE" where
  "arl_link e base =
     (case next_keyword base of
        Some n \<Rightarrow> base\<lparr> entries := take n (entries base) @ e # drop n (entries base),
                        next_keyword := Some (n + 1) \<rparr>
      | None \<Rightarrow> (let l = (if entries base = [] then [e] else entries base)
                 in base\<lparr> entries := l, next_keyword := Some 0 \<rparr>))"

definition arl_find_or_create_and_relink ::
  "ARL_BASE \<Rightarrow> string \<Rightarrow> string \<Rightarrow> mem \<Rightarrow> (ARL_BASE \<times> mem \<times> bool) option" where
  "arl_find_or_create_and_relink base s val m =
     (let hash = simple_hash s
      in case arl_find hash s (entries base) of
           Some i \<Rightarrow>
             let e = entries base ! i
             in if next_keyword base = Some i then None
                else (case arl_process e hash val (m, found base) of
                        None \<Rightarrow> None
                      | Some (m', fnd) \<Rightarrow>
                          let base1 = base\<lparr> relinkings := relinkings base + 1, found := fnd,
                                entries := take i (entries base) @ drop (Suc i) (entries base),
                                next_keyword := map_option (\<lambda>n. if i < n then n - 1 else n)
                                                  (next_keyword base) \<rparr>;
                              base2 = arl_link (e\<lparr>e_flags := e_flags e OR ARL_ENTRY_FLAG_FOUND\<rparr>) base1
                          in Some (base2, m', found base2 = wanted base2))
         | None \<Rightarrow>
             let e = \<lparr> e_name = s, e_hash = hash, e_dst = None,
                       e_flags = ARL_ENTRY_FLAG_DYNAMIC OR ARL_ENTRY_FLAG_FOUND, e_processor = None \<rparr>;
                 base2 = arl_link e (base\<lparr> allocated := allocated base + 1, added := added base + 1 \<rparr>)
             in Some (base2, m, found base2 = wanted base2))"

definition arl_check ::
  "ARL_BASE \<Rightarrow> string \<Rightarrow> string \<Rightarrow> mem \<Rightarrow> (ARL_BASE \<times> mem \<times> bool) option" where
  "arl_check base keyword val m =
     (case next_keyword base of
        None \<Rightarrow> None
      | Some n \<Rightarrow>
          let e = entries base ! n
          in if keyword = e_name e
             then (case arl_process e (e_hash e) val (m, found base) of
                     None \<Rightarrow> None
                   | Some (m', fnd) \<Rightarrow>
                       let base1 = base\<lparr>
                             entries := (entries base)[n := e\<lparr>e_flags := e_flags e OR ARL_ENTRY_FLAG_FOUND\<rparr>],
                             found := fnd,
                             next_keyword := Some (if n + 1 < length (entries base) then n + 1 else 0) \<rparr>
                       in Some (base1, m', found base1 = wanted base1))
             else arl_find_or_create_and_relink base keyword val m)"

text \<open>The loop of every collector: feed the keywords with their values until a check says that all
  wanted keywords have been found.\<close>

fun scan_lines ::
  "('b \<Rightarrow> string \<Rightarrow> string \<Rightarrow> 'm \<Rightarrow> ('b \<times> 'm \<times> bool) option) \<Rightarrow> 'b \<Rightarrow> (string \<times> string) list \<Rightarrow> 'm \<Rightarrow>
   ('b \<times> 'm) option" where
  "scan_lines check b [] m = Some (b, m)"
| "scan_lines check b ((k, v) # ls) m =
     (case check b k v m of
        None \<Rightarrow> None
      | Some (b', m', stop) \<Rightarrow> if stop then Some (b', m') else scan_lines check b' ls m')"

section \<open>Flags\<close>

lemma flag_bits:
  "f AND ARL_ENTRY_FLAG_FOUND \<noteq> 0 \<longleftrightarrow> bit f 0"
  "f AND ARL_ENTRY_FLAG_EXPECTED \<noteq> 0 \<longleftrightarrow> bit f 1"
  "f AND ARL_ENTRY_FLAG_DYNAMIC \<noteq> 0 \<longleftrightarrow> bit f 2"
  using and_exp_eq_0_iff_not_bit [of f 0] and_exp_eq_0_iff_not_bit [of f 1]
    and_exp_eq_0_iff_not_bit [of f 2]
  by (simp_all add: ARL_ENTRY_FLAG_FOUND_def ARL_ENTRY_FLAG_EXPECTED_def ARL_ENTRY_FLAG_DYNAMIC_def)

lemma bit_flags [simp]:
  "bit ARL_ENTRY_FLAG_FOUND n \<longleftrightarrow> n = 0"
  "bit ARL_ENTRY_FLAG_EXPECTED n \<longleftrightarrow> n = 1"
  "bit ARL_ENTRY_FLAG_DYNAMIC n \<longleftrightarrow> n = 2"
  using bit_exp_iff [where 'a = u8, of 0 n] bit_exp_iff [where 'a = u8, of 1 n]
    bit_exp_iff [where 'a = u8, of 2 n]
  by (auto simp: ARL_ENTRY_FLAG_FOUND_def ARL_ENTRY_FLAG_EXPECTED_def ARL_ENTRY_FLAG_DYNAMIC_def)

definition is_found :: "ARL_ENTRY \<Rightarrow> bool" where "is_found e = bit (e_flags e) 0"
definition is_expected :: "ARL_ENTRY \<Rightarrow> bool" where "is_expected e = bit (e_flags e) 1"
definition is_dynamic :: "ARL_ENTRY \<Rightarrow> bool" where "is_dynamic e = bit (e_flags e) 2"

lemmas flag_defs = is_found_def is_expected_def is_dynamic_def

lemma flag_tests:
  "e_flags e AND ARL_ENTRY_FLAG_FOUND \<noteq> 0 \<longleftrightarrow> is_found e"
  "e_flags e AND ARL_ENTRY_FLAG_EXPECTED \<noteq> 0 \<longleftrightarrow> is_expected e"
  "e_flags e AND ARL_ENTRY_FLAG_DYNAMIC \<noteq> 0 \<longleftrightarrow> is_dynamic e"
  "(e_flags e AND NOT ARL_ENTRY_FLAG_FOUND) AND ARL_ENTRY_FLAG_EXPECTED \<noteq> 0 \<longleftrightarrow> is_expected e"
  by (simp_all add: flag_bits flag_defs bit_and_iff bit_not_iff)

definition mark_found :: "ARL_ENTRY \<Rightarrow> ARL_ENTRY" where
  "mark_found e = e\<lparr>e_flags := e_flags e OR ARL_ENTRY_FLAG_FOUND\<rparr>"

definition unmark_found :: "ARL_ENTRY \<Rightarrow> ARL_ENTRY" where
  "unmark_found e = e\<lparr>e_flags := e_flags e AND NOT ARL_ENTRY_FLAG_FOUND\<rparr>"

lemma mark_found_simps [simp]:
  "e_name (mark_found e) = e_name e" "e_hash (mark_found e) = e_hash e"
  "e_dst (mark_found e) = e_dst e" "e_processor (mark_found e) = e_processor e"
  "is_found (mark_found e)" "is_expected (mark_found e) = is_expected e"
  "is_dynamic (mark_found e) = is_dynamic e"
  by (auto simp: mark_found_def flag_defs bit_or_iff)

lemma unmark_found_simps [simp]:
  "e_name (unmark_found e) = e_name e" "e_hash (unmark_found e) = e_hash e"
  "e_dst (unmark_found e) = e_dst e" "e_processor (unmark_found e) = e_processor e"
  "\<not> is_found (unmark_found e)" "is_expected (unmark_found e) = is_expected e"
  "is_dynamic (unmark_found e) = is_dynamic e"
  by (auto simp: unmark_found_def flag_defs bit_and_iff bit_not_iff)

section \<open>The invariant\<close>

text \<open>Every entry is either expected or dynamic, only expected entries have a destination.\<close>

definition arl_entry_ok :: "ARL_ENTRY \<Rightarrow> bool" where
  "arl_entry_ok e \<longleftrightarrow> e_hash e = simple_hash (e_name e) \<and> (is_expected e \<longleftrightarrow> \<not> is_dynamic e) \<and>
     (e_dst e \<noteq> None \<longrightarrow> e_processor e \<noteq> None \<and> is_expected e)"

definition arl_ok :: "ARL_BASE \<Rightarrow> bool" where
  "arl_ok base \<longleftrightarrow> distinct (map e_name (entries base)) \<and> list_all arl_entry_ok (entries base) \<and>
     expected base = length (filter is_expected (entries base)) \<and>
     allocated base = fred base + length (entries base) \<and>
     (case next_keyword base of None \<Rightarrow> entries base = [] | Some n \<Rightarrow> n < length (entries base))"

lemma arl_entry_ok_marked [simp]:
  "arl_entry_ok (mark_found e) = arl_entry_ok e" "arl_entry_ok (unmark_found e) = arl_entry_ok e"
  by (simp_all add: arl_entry_ok_def)

text \<open>What a keyword is for: the cell and the processor of its entry, if it has a destination.\<close>

definition target_of :: "ARL_ENTRY \<Rightarrow> (string \<times> nat \<times> processor) option" where
  "target_of e = (case (e_dst e, e_processor e) of
     (Some d, Some p) \<Rightarrow> Some (e_name e, d, p) | _ \<Rightarrow> None)"

definition arl_target :: "ARL_BASE \<Rightarrow> string \<Rightarrow> (nat \<times> processor) option" where
  "arl_target base = map_of (List.map_filter target_of (entries base))"

text \<open>The abstract effect of a keyword with a value on the cells.\<close>

definition store_value :: "(nat \<times> processor) option \<Rightarrow> string \<Rightarrow> string \<Rightarrow> mem \<Rightarrow> mem" where
  "store_value t k v m = (case t of None \<Rightarrow> m | Some (d, p) \<Rightarrow> p k (simple_hash k) v d m)"

lemma target_of_marked [simp]:
  "target_of (mark_found e) = target_of e" "target_of (unmark_found e) = target_of e"
  by (simp_all add: target_of_def cong: option.case_cong)

lemma target_of_name: "target_of e = Some (k, t) \<Longrightarrow> e_name e = k"
  by (auto simp: target_of_def split: option.splits)

lemma targets_mem: "t \<in> set (List.map_filter target_of es) \<longleftrightarrow> (\<exists>e \<in> set es. target_of e = Some t)"
  by (induction es) (auto simp: List.map_filter_simps split: option.splits)

lemma distinct_targets:
  "distinct (map e_name es) \<Longrightarrow> distinct (map fst (List.map_filter target_of es))"
proof (induction es)
  case (Cons e es)
  have "fst x \<in> e_name ` set es" if "x \<in> set (List.map_filter target_of es)" for x
  proof -
    from that obtain e' where "e' \<in> set es" "target_of e' = Some x" unfolding targets_mem by blast
    with target_of_name [of e' "fst x" "snd x"] show ?thesis by (metis imageI prod.collapse)
  qed
  with Cons show ?case
    by (fastforce simp: List.map_filter_simps dest!: target_of_name split: option.split)
qed (simp add: List.map_filter_simps)

lemma map_of_targets_cong:
  assumes "distinct (map e_name es)" and "distinct (map e_name es')"
    and "\<And>t. (\<exists>e \<in> set es. target_of e = Some t) \<longleftrightarrow> (\<exists>e \<in> set es'. target_of e = Some t)"
  shows "map_of (List.map_filter target_of es) = map_of (List.map_filter target_of es')"
proof -
  have "set (List.map_filter target_of es) = set (List.map_filter target_of es')"
    using assms(3) by (auto simp: targets_mem)
  then show ?thesis
    using map_of_inject_set [OF distinct_targets [OF assms(1)] distinct_targets [OF assms(2)]] by simp
qed

lemma arl_target_entry:
  assumes "arl_ok base" and "e \<in> set (entries base)"
  shows "arl_target base (e_name e) = map_option snd (target_of e)"
proof (cases "target_of e")
  case None
  have "arl_target base (e_name e) = None"
  proof (rule ccontr)
    assume "arl_target base (e_name e) \<noteq> None"
    then obtain t where "(e_name e, t) \<in> set (List.map_filter target_of (entries base))"
      by (auto simp: arl_target_def dest: map_of_SomeD)
    then obtain e' where e': "e' \<in> set (entries base)" "target_of e' = Some (e_name e, t)"
      by (auto simp: targets_mem)
    then have "e_name e' = e_name e" using target_of_name by blast
    then have "e' = e" using assms e'(1) by (auto simp: arl_ok_def distinct_map inj_on_def)
    with e' None show False by simp
  qed
  with None show ?thesis by simp
next
  case (Some kt)
  then obtain t where t: "target_of e = Some (e_name e, t)" by (cases kt) (auto dest: target_of_name)
  have "(e_name e, t) \<in> set (List.map_filter target_of (entries base))"
    using assms(2) t by (auto simp: targets_mem)
  then have "arl_target base (e_name e) = Some t"
    using distinct_targets [of "entries base"] assms(1) by (simp add: arl_target_def arl_ok_def)
  with t show ?thesis by simp
qed

lemma arl_target_None:
  "k \<notin> e_name ` set (entries base) \<Longrightarrow> arl_target base k = None"
  unfolding arl_target_def map_of_eq_None_iff
  by (force simp: targets_mem dest!: target_of_name)

lemma arl_find_Some:
  "arl_find h s es = Some i \<Longrightarrow> i < length es \<and> e_name (es ! i) = s \<and> e_hash (es ! i) = h"
  by (induction es arbitrary: i) (auto split: if_splits)

lemma arl_find_None:
  "list_all arl_entry_ok es \<Longrightarrow> arl_find (simple_hash s) s es = None \<longleftrightarrow> s \<notin> e_name ` set es"
  by (induction es) (auto simp: arl_entry_ok_def)

section \<open>Each operation keeps the invariant\<close>

lemma arl_create_ok [xm_inv]: "arl_ok (arl_create name proc n)"
  by (simp add: arl_ok_def arl_create_def)

lemma arl_expect_custom_ok [xm_inv]:
  "arl_ok base \<Longrightarrow> k \<notin> e_name ` set (entries base) \<Longrightarrow> arl_ok (arl_expect_custom base k proc dst)"
  by (cases "next_keyword base")
    (auto simp: arl_ok_def arl_expect_custom_def arl_entry_ok_def flag_defs Let_def)

lemma arl_target_expect:
  assumes "arl_ok base" and "k \<notin> e_name ` set (entries base)"
  shows "arl_target (arl_expect_custom base k proc dst) =
    (arl_target base)(k := map_option (\<lambda>d. (d, case proc of None \<Rightarrow> b_processor base | Some p \<Rightarrow> p)) dst)"
  using arl_target_None [OF assms(2)]
  by (cases dst) (auto simp: arl_target_def arl_expect_custom_def target_of_def List.map_filter_simps)

text \<open>The sweep keeps every expected entry; it forgets dynamic entries only.\<close>

definition keeps_expected :: "ARL_ENTRY list \<Rightarrow> ARL_ENTRY list \<Rightarrow> bool" where
  "keeps_expected es l \<longleftrightarrow> subseq (map e_name l) (map e_name es) \<and>
     (list_all arl_entry_ok es \<longrightarrow> list_all arl_entry_ok l \<and>
       length (filter is_expected l) = length (filter is_expected es) \<and>
       (\<forall>t. (\<exists>e \<in> set l. target_of e = Some t) \<longleftrightarrow> (\<exists>e \<in> set es. target_of e = Some t)))"

lemma keeps_expected_intros:
  "keeps_expected [] []"
  "keeps_expected es l \<Longrightarrow> keeps_expected (e # es) (unmark_found e # l)"
  "keeps_expected es l \<Longrightarrow> keeps_expected (e # es) (e # l)"
  by (auto simp: keeps_expected_def)

lemma keeps_expected_drop:
  assumes "keeps_expected es l" and "is_dynamic e"
  shows "keeps_expected (e # es) l"
proof -
  have "\<not> is_expected e \<and> target_of e = None" if "arl_entry_ok e"
    using that assms(2) by (auto simp: arl_entry_ok_def target_of_def split: option.split)
  with assms show ?thesis by (auto simp: keeps_expected_def)
qed

lemma arl_sweep_Cons:
  "arl_sweep wee kept (e # es) w f =
     (if is_found e then arl_sweep wee (kept @ [unmark_found e]) es
        (if \<not> wee \<and> is_expected e then w + 1 else w) f
      else if is_dynamic e \<and> \<not> (kept = [] \<and> es = []) then arl_sweep wee kept es w (f + 1)
      else arl_sweep wee (kept @ [e]) es w f)"
  unfolding arl_sweep.simps flag_tests unmark_found_def ..

declare arl_sweep.simps(2) [simp del]

lemma arl_sweep_eq:
  "arl_sweep wee kept es w f = (es', w', f') \<Longrightarrow>
   \<exists>l. es' = kept @ l \<and> f' + length l = f + length es \<and> keeps_expected es l \<and>
     (kept @ es \<noteq> [] \<longrightarrow> es' \<noteq> [])"
proof (induction es arbitrary: kept w f)
  case Nil
  then show ?case by (simp add: keeps_expected_intros)
next
  case (Cons e es)
  consider "is_found e" | "\<not> is_found e" "is_dynamic e" "\<not> (kept = [] \<and> es = [])"
    | "\<not> is_found e" "is_dynamic e \<longrightarrow> kept = [] \<and> es = []"
    by blast
  then show ?case
  proof cases
    case 1
    with Cons.prems
      Cons.IH [of "kept @ [unmark_found e]" "if \<not> wee \<and> is_expected e then w + 1 else w" f]
    obtain l where
      "es' = (kept @ [unmark_found e]) @ l" "f' + length l = f + length es" "keeps_expected es l"
      by (simp only: arl_sweep_Cons) auto
    then show ?thesis
      by (intro exI [of _ "unmark_found e # l"]) (simp add: keeps_expected_intros)
  next
    case 2
    with Cons.prems Cons.IH [of kept w "f + 1"] obtain l where
      "es' = kept @ l" "f' + length l = Suc f + length es" "keeps_expected es l"
      "kept @ es \<noteq> [] \<longrightarrow> es' \<noteq> []"
      by (auto simp: arl_sweep_Cons)
    with 2 show ?thesis by (intro exI [of _ l]) (auto simp: keeps_expected_drop)
  next
    case 3
    with Cons.prems Cons.IH [of "kept @ [e]" w f] obtain l where
      "es' = (kept @ [e]) @ l" "f' + length l = f + length es" "keeps_expected es l"
      by (auto simp: arl_sweep_Cons)
    then show ?thesis by (intro exI [of _ "e # l"]) (simp add: keeps_expected_intros)
  qed
qed

lemma keeps_expected_ok:
  assumes "arl_ok base" and "keeps_expected (entries base) es" and "f + length es = fred base + length (entries base)"
    and "case nk of None \<Rightarrow> es = [] | Some n \<Rightarrow> n < length es"
    and "base' = base\<lparr>added := a, wanted := w, fred := f, entries := es, next_keyword := nk\<rparr>"
  shows "arl_ok base' \<and> arl_target base' = arl_target base"
proof -
  have d: "distinct (map e_name es)"
    using assms(1,2) by (auto simp: arl_ok_def keeps_expected_def intro: subseq_distinct)
  have "arl_ok base'" using assms d by (cases nk) (auto simp: arl_ok_def keeps_expected_def)
  moreover have "arl_target base' = arl_target base"
    unfolding arl_target_def using assms(1,2,5) d
    by (intro map_of_targets_cong) (simp_all add: arl_ok_def keeps_expected_def del: split_paired_All)
  ultimately show ?thesis ..
qed

text \<open>What the invariant says of an entry; two lists with the same views are as good.\<close>

definition view :: "ARL_ENTRY \<Rightarrow> string \<times> (string \<times> nat \<times> processor) option \<times> bool \<times> bool" where
  "view e = (e_name e, target_of e, is_expected e, arl_entry_ok e)"

lemma view_marked [simp]: "view (mark_found e) = view e"
  by (simp add: view_def)

lemma view_facts:
  "e_name e = fst (view e)" "target_of e = fst (snd (view e))"
  "is_expected e = fst (snd (snd (view e)))" "arl_entry_ok e = snd (snd (snd (view e)))"
  by (simp_all add: view_def)

lemma same_views:
  assumes "mset (map view es') = mset (map view es)"
  shows "distinct (map e_name es') = distinct (map e_name es)"
    and "list_all arl_entry_ok es' = list_all arl_entry_ok es"
    and "length (filter is_expected es') = length (filter is_expected es)"
    and "length es' = length es" and "e_name ` set es' = e_name ` set es"
    and "(\<exists>e \<in> set es'. target_of e = Some t) = (\<exists>e \<in> set es. target_of e = Some t)"
proof -
  have s: "view ` set es' = view ` set es" using mset_eq_setD [OF assms] by simp
  have "map e_name l = map fst (map view l)" for l by (simp add: view_def)
  then have "mset (map e_name es') = mset (map e_name es)"
    using assms by (simp only: mset_map)
  then show "distinct (map e_name es') = distinct (map e_name es)" by (rule mset_eq_imp_distinct_iff)
  have "list_all arl_entry_ok l = (\<forall>v \<in> view ` set l. snd (snd (snd v)))" for l
    by (simp add: view_facts(4) list_all_iff)
  then show "list_all arl_entry_ok es' = list_all arl_entry_ok es" by (simp only: s)
  have "length (filter is_expected l) = size (filter_mset (\<lambda>v. fst (snd (snd v))) (mset (map view l)))" for l
    by (induction l) (auto simp: view_def)
  then show "length (filter is_expected es') = length (filter is_expected es)" using assms by simp
  show "length es' = length es" using mset_eq_length [OF assms] by simp
  show "e_name ` set es' = e_name ` set es"
    using arg_cong [OF s, of "image fst"] by (simp add: view_facts(1) image_image)
  have "(\<exists>e \<in> set l. target_of e = Some t) = (\<exists>v \<in> view ` set l. fst (snd v) = Some t)" for l
    by (simp add: view_facts(2))
  then show "(\<exists>e \<in> set es'. target_of e = Some t) = (\<exists>e \<in> set es. target_of e = Some t)"
    by (simp only: s)
qed

lemma mset_insert_at [simp]: "mset (take n l @ x # drop n l) = add_mset x (mset l)"
proof -
  have "mset l = mset (take n l) + mset (drop n l)" by (metis append_take_drop_id mset_append)
  then show ?thesis by simp
qed

lemma mset_remove_at: "i < length l \<Longrightarrow> add_mset (l ! i) (mset (take i l @ drop (Suc i) l)) = mset l"
  by (metis id_take_nth_drop mset_append add_mset_add_single mset.simps(2) union_mset_add_mset_right)

lemma mset_view_cong: "mset l = mset l' \<Longrightarrow> mset (map view l) = mset (map view l')"
  by simp

lemma arl_recheck_ok:
  assumes "arl_ok base"
  shows "arl_ok ((arl_recheck base)\<lparr>next_keyword := if entries (arl_recheck base) = [] then None else Some 0\<rparr>)"
    and "arl_target (arl_recheck base) = arl_target base" and "rechecks (arl_recheck base) = rechecks base"
    and "iteration (arl_recheck base) = iteration base"
proof -
  have "arl_ok ((arl_recheck base)\<lparr>next_keyword := if entries (arl_recheck base) = [] then None else Some 0\<rparr>) \<and>
    arl_target (arl_recheck base) = arl_target base \<and> rechecks (arl_recheck base) = rechecks base \<and>
    iteration (arl_recheck base) = iteration base"
  proof (cases "0 < iteration base \<and> (added base \<noteq> 0 \<or> iteration base mod rechecks base = 0)")
    case True
    let ?b = "iteration base mod rechecks base = 0"
    obtain es w f where sw: "arl_sweep ?b [] (entries base) (if ?b then expected base else 0) (fred base) = (es, w, f)"
      using prod_cases3 by blast
    have b1: "arl_recheck base = base\<lparr> added := 0, wanted := w, fred := f, entries := es \<rparr>"
      unfolding arl_recheck_def using True sw by (simp add: Let_def)
    have "keeps_expected (entries base) es" "f + length es = fred base + length (entries base)"
      using arl_sweep_eq [OF sw] by auto
    then show ?thesis
      using keeps_expected_ok [OF assms(1), of es f "if es = [] then None else Some 0"
          "(arl_recheck base)\<lparr>next_keyword := if es = [] then None else Some 0\<rparr>" w 0]
      by (cases es) (simp_all add: b1 arl_target_def)
  next
    case False
    then show ?thesis using assms(1) by (auto simp: arl_recheck_def arl_ok_def)
  qed
  then show "arl_ok ((arl_recheck base)\<lparr>next_keyword := if entries (arl_recheck base) = [] then None else Some 0\<rparr>)"
    and "arl_target (arl_recheck base) = arl_target base" and "rechecks (arl_recheck base) = rechecks base"
    and "iteration (arl_recheck base) = iteration base"
    by blast+
qed

lemma arl_begin_Some:
  assumes "arl_ok base" and "0 < iteration base \<longrightarrow> 0 < rechecks base"
  obtains base' where "arl_begin base = Some base'" and "arl_ok base'" and "next_keyword base' = Some 0"
    and "found base' = 0" and "arl_target base' = arl_target base" and "rechecks base' = rechecks base"
    and "iteration base' = iteration base + 1"
proof -
  let ?b1 = "arl_recheck base"
  define base2 where "base2 = (if entries ?b1 = []
    then arl_expect ?b1 ''a-really-not-existing-source-keyword'' None else ?b1)"
  define base' where "base' = base2\<lparr> iteration := iteration base2 + 1,
    next_keyword := (if entries base2 = [] then None else Some 0), found := 0 \<rparr>"
  note 1 = arl_recheck_ok [OF assms(1)]
  have e: "arl_begin base = Some base'"
    using assms(2) unfolding arl_begin_def base'_def base2_def Let_def by auto
  have ok: "arl_ok base' \<and> arl_target base' = arl_target base \<and> entries base2 \<noteq> []"
  proof (cases "entries ?b1 = []")
    case True
    then have "arl_target base' = arl_target ?b1"
      by (simp add: base'_def base2_def arl_expect_def arl_expect_custom_def arl_target_def
          target_of_def List.map_filter_simps)
    moreover have "arl_ok base'"
      using True 1(1) by (auto simp: arl_ok_def base'_def base2_def arl_expect_def arl_expect_custom_def
          arl_entry_ok_def flag_defs)
    ultimately show ?thesis using 1 True by (simp add: base2_def arl_expect_def arl_expect_custom_def)
  next
    case False
    then show ?thesis using 1 by (auto simp: base'_def base2_def arl_ok_def arl_target_def)
  qed
  have "next_keyword base' = Some 0" and f: "found base' = 0" using ok by (simp_all add: base'_def)
  moreover have "rechecks base' = rechecks base" and "iteration base' = iteration base + 1"
    using 1(3,4) by (simp_all add: base'_def base2_def arl_expect_def arl_expect_custom_def)
  ultimately show thesis using that [OF e] ok by blast
qed

lemma arl_process_Some:
  assumes "arl_ok base" and "e \<in> set (entries base)"
  shows "arl_process e (simple_hash (e_name e)) v (m, c) =
    Some (store_value (arl_target base (e_name e)) (e_name e) v m,
          if arl_target base (e_name e) = None then c else c + 1)"
proof -
  have "arl_entry_ok e" using assms by (simp add: arl_ok_def list_all_iff)
  then show ?thesis
    using arl_target_entry [OF assms]
    by (cases "e_dst e") (auto simp: arl_process_def store_value_def target_of_def arl_entry_ok_def)
qed

text \<open>One keyword: the value is stored where the keyword's entry says, the invariant and every
  destination stay, and the answer tells whether all wanted keywords have been found.\<close>

definition arl_check_post :: "ARL_BASE \<Rightarrow> string \<Rightarrow> ARL_BASE \<Rightarrow> bool" where
  "arl_check_post base k base' \<longleftrightarrow> arl_ok base' \<and> arl_target base' = arl_target base \<and>
     next_keyword base' \<noteq> None \<and> wanted base' = wanted base \<and> expected base' = expected base \<and>
     rechecks base' = rechecks base \<and> iteration base' = iteration base \<and>
     e_name ` set (entries base') = insert k (e_name ` set (entries base)) \<and>
     found base' = found base + (if arl_target base k = None then 0 else 1)"

lemma same_views_ok:
  assumes "arl_ok base" and "mset (map view es) = mset (map view (entries base))" and "n < length es"
    and "k \<in> e_name ` set (entries base)"
    and "c = found base + (if arl_target base k = None then 0 else 1)"
    and "base' = base\<lparr>entries := es, next_keyword := Some n, found := c, relinkings := r\<rparr>"
  shows "arl_check_post base k base'"
proof -
  note v = same_views [OF assms(2)]
  have "arl_target base' = arl_target base"
    unfolding arl_target_def using assms(1,6) v
    by (intro map_of_targets_cong) (simp_all add: arl_ok_def)
  then show ?thesis
    using assms v by (auto simp: arl_check_post_def arl_ok_def)
qed

lemma arl_check_fast:
  assumes "arl_ok base" and "next_keyword base = Some n" and "e_name (entries base ! n) = k"
  obtains base' where "arl_check_post base k base'"
    and "arl_check base k v m = Some (base', store_value (arl_target base k) k v m, found base' = wanted base')"
    and "relinkings base' = relinkings base" and "map e_name (entries base') = map e_name (entries base)"
    and "next_keyword base' = Some (if n + 1 < length (entries base) then n + 1 else 0)"
proof -
  let ?e = "entries base ! n" and ?es = "(entries base)[n := mark_found (entries base ! n)]"
  let ?c = "if arl_target base k = None then found base else found base + 1"
  have n: "n < length (entries base)" using assms(1,2) by (simp add: arl_ok_def)
  have h: "e_hash ?e = simple_hash k"
    using assms(1,3) n by (auto simp: arl_ok_def list_all_length arl_entry_ok_def)
  let ?n' = "if n + 1 < length (entries base) then n + 1 else 0"
  let ?b = "base\<lparr>entries := ?es, found := ?c, next_keyword := Some ?n'\<rparr>"
  have c: "arl_check base k v m = Some (?b, store_value (arl_target base k) k v m, found ?b = wanted ?b)"
    using assms(2,3) arl_process_Some [OF assms(1), of ?e v m "found base"] n h
    by (simp add: arl_check_def mark_found_def Let_def)
  have "map view ?es = map view (entries base)"
    using n by (simp add: map_update list_update_same_conv)
  then have "arl_check_post base k ?b"
    using n assms(3) by (intro same_views_ok [OF assms(1), of ?es ?n' k ?c ?b "relinkings base"]) auto
  moreover have "map e_name ?es = map e_name (entries base)"
    using n by (simp add: map_update list_update_same_conv)
  ultimately show thesis using that [OF _ c] by simp
qed

lemma arl_check_relink:
  assumes "arl_ok base" and "next_keyword base = Some n" and "e_name (entries base ! n) \<noteq> k"
    and "k \<in> e_name ` set (entries base)"
  obtains base' i where "arl_check_post base k base'"
    and "arl_check base k v m = Some (base', store_value (arl_target base k) k v m, found base' = wanted base')"
    and "i < length (entries base)" and "e_name (entries base ! i) = k"
    and "map e_name (entries base') =
      (let l = map e_name (entries base); r = take i l @ drop (Suc i) l; n' = (if i < n then n - 1 else n)
       in take n' r @ k # drop n' r)"
    and "next_keyword base' = Some (if i < n then n else n + 1)" and "i \<noteq> n"
proof -
  have ok: "list_all arl_entry_ok (entries base)" using assms(1) by (simp add: arl_ok_def)
  obtain i where i: "arl_find (simple_hash k) k (entries base) = Some i"
    using assms(4) arl_find_None [OF ok] by (cases "arl_find (simple_hash k) k (entries base)") auto
  let ?l = "entries base" and ?e = "entries base ! i"
  have il: "i < length ?l" "e_name ?e = k" using arl_find_Some [OF i] by auto
  have n: "n < length ?l" "i \<noteq> n" using assms(1,2,3) il by (auto simp: arl_ok_def)
  let ?n' = "if i < n then n - 1 else n" and ?r = "take i ?l @ drop (Suc i) ?l"
  let ?es = "take ?n' ?r @ mark_found ?e # drop ?n' ?r"
  let ?c = "if arl_target base k = None then found base else found base + 1"
  let ?b = "base\<lparr>entries := ?es, next_keyword := Some (?n' + 1), found := ?c,
    relinkings := relinkings base + 1\<rparr>"
  have p: "arl_process ?e (simple_hash k) v (m, found base) =
      Some (store_value (arl_target base k) k v m, ?c)"
    using arl_process_Some [OF assms(1), of ?e v m "found base"] il by auto
  have c: "arl_check base k v m = Some (?b, store_value (arl_target base k) k v m, found ?b = wanted ?b)"
    using assms(2,3) n(2) i p
    by (simp add: arl_check_def arl_find_or_create_and_relink_def arl_link_def Let_def mark_found_def)
  have "mset (map view ?es) = add_mset (view ?e) (mset (map view ?r))"
    unfolding mset_map mset_insert_at by simp
  also have "\<dots> = mset (map view ?l)"
    using mset_remove_at [OF il(1)] by (metis image_mset_add_mset mset_map)
  finally have v: "mset (map view ?es) = mset (map view ?l)" .
  have "arl_check_post base k ?b"
    using n il assms(4)
    by (intro same_views_ok [OF assms(1) v, of "?n' + 1" k ?c ?b "relinkings base + 1"]) auto
  moreover have "map e_name ?es = (let l = map e_name ?l; r = take i l @ drop (Suc i) l
      in take ?n' r @ k # drop ?n' r)"
    using il by (simp add: Let_def take_map drop_map)
  moreover have "next_keyword ?b = Some (if i < n then n else n + 1)" by auto
  ultimately show thesis using that [OF _ c il] n(2) by simp
qed

lemma arl_check_new:
  assumes "arl_ok base" and "next_keyword base = Some n" and "k \<notin> e_name ` set (entries base)"
  obtains base' where "arl_check_post base k base'"
    and "arl_check base k v m = Some (base', store_value (arl_target base k) k v m, found base' = wanted base')"
proof -
  let ?e = "\<lparr> e_name = k, e_hash = simple_hash k, e_dst = None,
    e_flags = ARL_ENTRY_FLAG_DYNAMIC OR ARL_ENTRY_FLAG_FOUND, e_processor = None \<rparr>"
  let ?es = "take n (entries base) @ ?e # drop n (entries base)"
  let ?b = "base\<lparr>entries := ?es, next_keyword := Some (n + 1), allocated := allocated base + 1,
    added := added base + 1\<rparr>"
  have ok: "list_all arl_entry_ok (entries base)" "n < length (entries base)"
    using assms(1,2) by (simp_all add: arl_ok_def)
  have nk: "e_name (entries base ! n) \<noteq> k" using assms(3) ok(2) by auto
  have t: "arl_target base k = None" using assms(3) by (rule arl_target_None)
  have c: "arl_check base k v m = Some (?b, store_value (arl_target base k) k v m, found ?b = wanted ?b)"
    using assms(2) nk arl_find_None [OF ok(1), of k] assms(3)
    by (simp add: arl_check_def arl_find_or_create_and_relink_def arl_link_def Let_def t store_value_def)
  have es: "mset (map view ?es) = mset (map view (?e # entries base))"
    unfolding mset_map mset_insert_at by simp
  have "arl_entry_ok ?e" "\<not> is_expected ?e" "target_of ?e = None"
    by (simp_all add: arl_entry_ok_def flag_defs bit_or_iff target_of_def)
  note v = same_views [OF es] this
  have "arl_target ?b = map_of (List.map_filter target_of (?e # entries base))"
    unfolding arl_target_def using v assms(1,3)
    by (intro map_of_targets_cong) (auto simp: arl_ok_def image_iff)
  then have "arl_target ?b = arl_target base"
    using v(9) by (simp add: List.map_filter_simps arl_target_def)
  moreover have "arl_ok ?b"
    using assms(1,3) v ok by (auto simp: arl_ok_def)
  ultimately have "arl_check_post base k ?b"
    using v(5) t by (simp add: arl_check_post_def insert_commute)
  with c that show thesis by blast
qed

lemma arl_check_total:
  assumes "arl_ok base" and "next_keyword base \<noteq> None"
  obtains base' where "arl_check_post base k base'"
    and "arl_check base k v m = Some (base', store_value (arl_target base k) k v m, found base' = wanted base')"
proof -
  obtain n where n: "next_keyword base = Some n" using assms(2) by auto
  consider "e_name (entries base ! n) = k" | "e_name (entries base ! n) \<noteq> k" "k \<in> e_name ` set (entries base)"
    | "k \<notin> e_name ` set (entries base)" by blast
  then show thesis
  proof cases
    case 1
    then show ?thesis using arl_check_fast [OF assms(1) n, of k v m] that by metis
  next
    case 2
    then show ?thesis using arl_check_relink [OF assms(1) n, of k v m] that by metis
  next
    case 3
    then show ?thesis using arl_check_new [OF assms(1) n, of k v m] that by metis
  qed
qed

section \<open>The contract of a keyword list\<close>

text \<open>What a collector relies on: a check always answers, puts the value where the keyword's target
  says, counts the keywords that have a target, says stop when the wanted number is reached and
  keeps every target.\<close>

locale keyword_list =
  fixes ok :: "'b \<Rightarrow> bool"
    and target :: "'b \<Rightarrow> string \<Rightarrow> 't option"
    and nfound nwanted :: "'b \<Rightarrow> nat"
    and check :: "'b \<Rightarrow> string \<Rightarrow> string \<Rightarrow> 'm \<Rightarrow> ('b \<times> 'm \<times> bool) option"
    and put :: "'t option \<Rightarrow> string \<Rightarrow> string \<Rightarrow> 'm \<Rightarrow> 'm"
  assumes check_total: "ok b \<Longrightarrow> \<exists>b'. check b k v m = Some (b', put (target b k) k v m, nfound b' = nwanted b') \<and>
      ok b' \<and> target b' = target b \<and> nwanted b' = nwanted b \<and>
      nfound b' = nfound b + (if target b k = None then 0 else 1)"
    and put_None: "put None k v m = m"
begin

lemma put_no_targets:
  "\<forall>(k, v) \<in> set ls. t k = None \<Longrightarrow> foldl (\<lambda>m (k, v). put (t k) k v m) m ls = m"
  by (induction ls arbitrary: m) (auto simp: put_None)

text \<open>Stopping early loses nothing: when the wanted number is not below the number of lines with a
  target, the scan stores what a scan of the whole file would.\<close>

lemma scan_complete:
  "ok b \<Longrightarrow> nfound b + length (filter (\<lambda>(k, v). target b k \<noteq> None) ls) \<le> nwanted b \<Longrightarrow>
   \<exists>b'. scan_lines check b ls m = Some (b', foldl (\<lambda>m (k, v). put (target b k) k v m) m ls) \<and>
     ok b' \<and> target b' = target b \<and> nwanted b' = nwanted b"
proof (induction ls arbitrary: b m)
  case (Cons kv ls)
  obtain k v where kv: "kv = (k, v)" by (cases kv)
  obtain b' where b': "check b k v m = Some (b', put (target b k) k v m, nfound b' = nwanted b')"
    "ok b'" "target b' = target b" "nwanted b' = nwanted b"
    "nfound b' = nfound b + (if target b k = None then 0 else 1)"
    using check_total [OF Cons.prems(1)] by blast
  have le: "nfound b' + length (filter (\<lambda>(k, v). target b k \<noteq> None) ls) \<le> nwanted b"
    using Cons.prems(2) b'(5) kv by (auto split: if_splits)
  show ?case
  proof (cases "nfound b' = nwanted b'")
    case True
    then have "length (filter (\<lambda>(k, v). target b k \<noteq> None) ls) = 0" using le b'(4) by linarith
    then have "\<forall>(k, v) \<in> set ls. target b k = None" by (auto simp: filter_empty_conv)
    with True b' kv put_no_targets [of ls "target b"] show ?thesis by simp
  next
    case False
    with Cons.IH [OF b'(2)] le b' kv show ?thesis by auto
  qed
qed simp

lemma scan_total: "ok b \<Longrightarrow> \<exists>b' m'. scan_lines check b ls m = Some (b', m') \<and> ok b' \<and> target b' = target b"
proof (induction ls arbitrary: b m)
  case (Cons kv ls)
  obtain k v where kv: "kv = (k, v)" by (cases kv)
  obtain b' where b': "check b k v m = Some (b', put (target b k) k v m, nfound b' = nwanted b')"
    "ok b'" "target b' = target b"
    using check_total [OF Cons.prems(1)] by blast
  then show ?case using Cons.IH [OF b'(2), of "put (target b k) k v m"] kv by auto
qed simp

end

interpretation arl: keyword_list "\<lambda>b. arl_ok b \<and> next_keyword b \<noteq> None" arl_target found wanted
  arl_check store_value
proof
  fix b k v m
  assume "arl_ok b \<and> next_keyword b \<noteq> None"
  then obtain b' where "arl_check_post b k b'"
    "arl_check b k v m = Some (b', store_value (arl_target b k) k v m, found b' = wanted b')"
    using arl_check_total by blast
  then show "\<exists>b'. arl_check b k v m = Some (b', store_value (arl_target b k) k v m, found b' = wanted b') \<and>
      (arl_ok b' \<and> next_keyword b' \<noteq> None) \<and> arl_target b' = arl_target b \<and> wanted b' = wanted b \<and>
      found b' = found b + (if arl_target b k = None then 0 else 1)"
    unfolding arl_check_post_def by blast
qed (simp add: store_value_def)

section \<open>The cells after a scan\<close>

text \<open>Targets as the collectors register them: the default processor, one cell per keyword.\<close>

definition plain_targets :: "(string \<Rightarrow> (nat \<times> processor) option) \<Rightarrow> bool" where
  "plain_targets t \<longleftrightarrow> (\<forall>k d p. t k = Some (d, p) \<longrightarrow> p = arl_callback_str2ull) \<and>
     (\<forall>k k' d p p'. t k = Some (d, p) \<and> t k' = Some (d, p') \<longrightarrow> k = k')"

lemma store_plain:
  "plain_targets t \<Longrightarrow> store_value (t k) k v m =
     (case t k of None \<Rightarrow> m | Some (d, p) \<Rightarrow> m(d := str2uint64_t v))"
proof (cases "t k")
  case (Some dp)
  assume "plain_targets t"
  with Some have "snd dp = arl_callback_str2ull" by (cases dp) (auto simp: plain_targets_def)
  with Some show ?thesis by (cases dp) (simp add: store_value_def arl_callback_str2ull_def)
qed (simp add: store_value_def)

lemma fold_store_other:
  "plain_targets t \<Longrightarrow> \<forall>(k, v) \<in> set ls. \<forall>p. t k \<noteq> Some (d, p) \<Longrightarrow>
   foldl (\<lambda>m (k, v). store_value (t k) k v m) m ls d = m d"
proof (induction ls arbitrary: m)
  case (Cons kv ls)
  then show ?case
    by (cases kv) (auto simp: store_plain split: option.split)
qed simp

lemma fold_store_key:
  assumes "plain_targets t" and "distinct (map fst ls)" and "(k, v) \<in> set ls" and "t k = Some (d, p)"
  shows "foldl (\<lambda>m (k, v). store_value (t k) k v m) m ls d = str2uint64_t v"
proof -
  obtain a b where ls: "ls = a @ (k, v) # b" using assms(3) by (auto dest: split_list)
  have "\<forall>(k', v') \<in> set b. \<forall>p. t k' \<noteq> Some (d, p)"
  proof safe
    fix k' v' p'
    assume kb: "(k', v') \<in> set b" and "t k' = Some (d, p')"
    with assms(1,4) have "k' = k" unfolding plain_targets_def by metis
    moreover have "k \<notin> fst ` set b" using assms(2) ls by simp
    ultimately show False using kb by force
  qed
  from fold_store_other [OF assms(1) this] show ?thesis
    using assms(4) ls by (simp add: store_plain [OF assms(1)])
qed

section \<open>The list adapts to the order of the file\<close>

text \<open>How many lines a scan reads before it is told to stop.\<close>

fun lines_read :: "nat \<Rightarrow> nat \<Rightarrow> (string \<Rightarrow> 't option) \<Rightarrow> string list \<Rightarrow> nat" where
  "lines_read f w t [] = 0"
| "lines_read f w t (k # ks) =
     (let f' = f + (if t k = None then 0 else 1) in if f' = w then 1 else Suc (lines_read f' w t ks))"

lemma lines_read_le: "lines_read f w t ks \<le> length ks"
  by (induction f w t ks rule: lines_read.induct) (auto simp: Let_def)

text \<open>Keywords in list order from the expected one on: the fast path, no relinking.\<close>

lemma scan_in_order:
  assumes "arl_ok b" and "next_keyword b = Some i"
    and "prefix (map fst (take (lines_read (found b) (wanted b) (arl_target b) (map fst ls)) ls))
           (drop i (map e_name (entries b)))"
  shows "\<exists>b' m'. scan_lines arl_check b ls m = Some (b', m') \<and> relinkings b' = relinkings b"
  using assms
proof (induction ls arbitrary: b i m)
  case (Cons kv ls)
  obtain k v where kv: "kv = (k, v)" by (cases kv)
  let ?n = "map e_name (entries b)"
  have i: "i < length ?n" using Cons.prems(1,2) by (simp add: arl_ok_def)
  then have di: "drop i ?n = ?n ! i # drop (Suc i) ?n" by (rule Cons_nth_drop_Suc [symmetric])
  then have hd: "e_name (entries b ! i) = k"
    using Cons.prems(3) kv i by (auto simp: Let_def take_Cons' split: if_splits)
  from arl_check_fast [OF Cons.prems(1,2) hd, of v m] obtain b' where b': "arl_check_post b k b'"
    "arl_check b k v m = Some (b', store_value (arl_target b k) k v m, found b' = wanted b')"
    "relinkings b' = relinkings b" "map e_name (entries b') = ?n"
    "next_keyword b' = Some (if i + 1 < length (entries b) then i + 1 else 0)" by metis
  have f: "found b' = found b + (if arl_target b k = None then 0 else 1)" "wanted b' = wanted b"
    "arl_target b' = arl_target b" "arl_ok b'"
    using b'(1) by (auto simp: arl_check_post_def)
  show ?case
  proof (cases "found b' = wanted b'")
    case True
    with b' kv show ?thesis by simp
  next
    case False
    let ?r = "map fst (take (lines_read (found b') (wanted b') (arl_target b') (map fst ls)) ls)"
    have "lines_read (found b) (wanted b) (arl_target b) (map fst (kv # ls)) =
        Suc (lines_read (found b') (wanted b') (arl_target b') (map fst ls))"
      using False f kv by (simp add: Let_def)
    then have "prefix (k # ?r) (?n ! i # drop (Suc i) ?n)" using Cons.prems(3) kv di by simp
    then have "prefix ?r (drop (if i + 1 < length (entries b) then i + 1 else 0) (map e_name (entries b')))"
      using b'(4) by (auto simp: prefix_def)
    from Cons.IH [OF f(4) b'(5) this] b' kv False show ?thesis by simp
  qed
qed simp

text \<open>A keyword of the list that is checked at position \<open>i\<close> or later is at \<open>i\<close> afterwards.\<close>

lemma arl_check_moves:
  assumes "arl_ok b" and "next_keyword b = Some i" and "k \<in> set (drop i (map e_name (entries b)))"
  obtains b' n where "arl_check_post b k b'"
    and "arl_check b k v m = Some (b', store_value (arl_target b k) k v m, found b' = wanted b')"
    and "map e_name (entries b') =
      take i (map e_name (entries b)) @ k # remove1 k (drop i (map e_name (entries b)))"
    and "next_keyword b' = Some n" and "n = i + 1 \<or> remove1 k (drop i (map e_name (entries b))) = []"
proof (cases "e_name (entries b ! i) = k")
  case True
  let ?n = "map e_name (entries b)"
  from arl_check_fast [OF assms(1,2) True, of v m] obtain b' where b': "arl_check_post b k b'"
    "arl_check b k v m = Some (b', store_value (arl_target b k) k v m, found b' = wanted b')"
    "map e_name (entries b') = ?n"
    "next_keyword b' = Some (if i + 1 < length (entries b) then i + 1 else 0)" by metis
  have i: "i < length ?n" using assms(1,2) by (simp add: arl_ok_def)
  have d: "drop i ?n = k # drop (Suc i) ?n"
    using Cons_nth_drop_Suc [OF i] True i by simp
  have "?n = take i ?n @ k # remove1 k (drop i ?n)" 
    by (metis append_take_drop_id d remove1.simps(2))
  moreover have "i + 1 < length (entries b) \<or> remove1 k (drop i ?n) = []" using i by (auto simp: d)
  ultimately show thesis using that [OF b'(1,2) _ b'(4)] b'(3) by auto
next
  case False
  let ?n = "map e_name (entries b)"
  have mem: "k \<in> e_name ` set (entries b)" using assms(3) by (auto dest: in_set_dropD)
  from arl_check_relink [OF assms(1,2) False mem, of v m] obtain b' j where b': "arl_check_post b k b'"
    "arl_check b k v m = Some (b', store_value (arl_target b k) k v m, found b' = wanted b')"
    "j < length (entries b)" "e_name (entries b ! j) = k"
    "map e_name (entries b') = (let l = ?n; r = take j l @ drop (Suc j) l; n' = (if j < i then i - 1 else i)
       in take n' r @ k # drop n' r)"
    "next_keyword b' = Some (if j < i then i else i + 1)" "j \<noteq> i" by metis
  have dist: "distinct ?n" using assms(1) by (simp add: arl_ok_def)
  obtain q where "q < length (drop i ?n)" "drop i ?n ! q = k"
    using assms(3) unfolding in_set_conv_nth by blast
  then have q: "i + q < length ?n" "?n ! (i + q) = k" by simp_all
  then have j: "j = i + q" using dist b'(3,4) by (auto simp: distinct_conv_nth)
  have iq: "i \<le> length ?n" using q by simp
  have spl: "drop i ?n = take q (drop i ?n) @ k # drop (Suc q) (drop i ?n)"
    using id_take_nth_drop [of q "drop i ?n"] q by (simp add: add.commute)
  have "k \<notin> set (take q (drop i ?n))"
    using spl distinct_drop [OF dist, of i] by (metis distinct_append disjoint_iff list.set_intros(1))
  then have rm: "remove1 k (drop i ?n) = take q (drop i ?n) @ drop (Suc q) (drop i ?n)"
    by (subst spl) (simp add: remove1_append)
  have r: "take j ?n @ drop (Suc j) ?n = take i ?n @ remove1 k (drop i ?n)"
    unfolding rm j by (simp add: take_add add.commute)
  have "map e_name (entries b') =
      take i (take j ?n @ drop (Suc j) ?n) @ k # drop i (take j ?n @ drop (Suc j) ?n)"
    using b'(5) j by (simp add: Let_def)
  also have "\<dots> = take i ?n @ k # remove1 k (drop i ?n)" unfolding r using iq by simp
  finally have "map e_name (entries b') = take i ?n @ k # remove1 k (drop i ?n)" .
  with that [OF b'(1,2) _ b'(6)] j show thesis by simp
qed

lemma scan_sorts:
  assumes "arl_ok b" and "next_keyword b = Some i" and "distinct (map fst ls)"
    and "set (map fst ls) \<subseteq> set (drop i (map e_name (entries b)))"
    and "scan_lines arl_check b ls m = Some (b', m')"
  shows "prefix (take i (map e_name (entries b)) @
      map fst (take (lines_read (found b) (wanted b) (arl_target b) (map fst ls)) ls)) (map e_name (entries b')) \<and>
    arl_ok b' \<and> arl_target b' = arl_target b \<and> wanted b' = wanted b \<and> iteration b' = iteration b \<and>
    rechecks b' = rechecks b"
  using assms
proof (induction ls arbitrary: b i m)
  case Nil
  then show ?case by (simp add: take_is_prefix)
next
  case (Cons kv ls)
  obtain k v where kv: "kv = (k, v)" by (cases kv)
  let ?n = "map e_name (entries b)" and ?r = "remove1 (fst kv) (drop i (map e_name (entries b)))"
  have i: "i < length ?n" using Cons.prems(1,2) by (simp add: arl_ok_def)
  have kin: "k \<in> set (drop i ?n)" using Cons.prems(4) kv by simp
  from arl_check_moves [OF Cons.prems(1,2) kin, of v m] obtain b1 n where b1: "arl_check_post b k b1"
    "arl_check b k v m = Some (b1, store_value (arl_target b k) k v m, found b1 = wanted b1)"
    "map e_name (entries b1) = take i ?n @ k # ?r" "next_keyword b1 = Some n"
    "n = i + 1 \<or> ?r = []" using kv by (metis fst_conv)
  have f: "found b1 = found b + (if arl_target b k = None then 0 else 1)" "wanted b1 = wanted b"
    "arl_target b1 = arl_target b" "arl_ok b1" "iteration b1 = iteration b" "rechecks b1 = rechecks b"
    using b1(1) by (auto simp: arl_check_post_def)
  have k1: "take (Suc i) (map e_name (entries b1)) = take i ?n @ [k]" using b1(3) i by simp
  have d: "distinct ?r" using Cons.prems(1) by (simp add: arl_ok_def distinct_remove1)
  show ?case
  proof (cases "found b1 = wanted b1 \<or> ls = []")
    case True
    then have "lines_read (found b) (wanted b) (arl_target b) (map fst (kv # ls)) = 1" and "b' = b1"
      using f kv b1(2) Cons.prems(5) by (auto simp: Let_def split: if_splits)
    with f b1(3) kv show ?thesis by (simp add: prefix_def)
  next
    case False
    have sub: "set (map fst ls) \<subseteq> set ?r"
      using Cons.prems(1,3,4) kv by (auto simp: arl_ok_def distinct_drop)
    then have n: "n = i + 1" using b1(5) False by auto
    have lr: "lines_read (found b) (wanted b) (arl_target b) (map fst (kv # ls)) =
        Suc (lines_read (found b1) (wanted b1) (arl_target b1) (map fst ls))"
      using False f kv by (simp add: Let_def)
    have "set (map fst ls) \<subseteq> set (drop n (map e_name (entries b1)))"
      using sub b1(3) n i by simp
    from Cons.IH [OF f(4) b1(4) _ this, of "store_value (arl_target b k) k v m"] Cons.prems(3,5) b1(2) kv False
    show ?thesis unfolding lr using k1 f n by simp
  qed
qed

text \<open>A list that expects \<open>a\<close> at cell 0 and \<open>b\<close> at cell 1.\<close>

definition arl_example :: ARL_BASE where
  "arl_example = arl_expect (arl_expect (arl_create ''example'' None 3) ''a'' (Some 0)) ''b'' (Some 1)"

lemma arl_example_facts:
  "arl_ok arl_example" "arl_target arl_example = [''b'' \<mapsto> (1, arl_callback_str2ull), ''a'' \<mapsto> (0, arl_callback_str2ull)]"
  "plain_targets (arl_target arl_example)" "rechecks arl_example = 3"
proof -
  let ?a = "arl_expect (arl_create ''example'' None 3) ''a'' (Some 0)"
  have a: "arl_ok ?a" "''b'' \<notin> e_name ` set (entries ?a)"
    unfolding arl_expect_def
    by (rule arl_expect_custom_ok, rule arl_create_ok) (simp_all add: arl_create_def arl_expect_custom_def)
  then show "arl_ok arl_example" unfolding arl_example_def arl_expect_def by (rule arl_expect_custom_ok)
  show t: "arl_target arl_example = [''b'' \<mapsto> (1, arl_callback_str2ull), ''a'' \<mapsto> (0, arl_callback_str2ull)]"
    by (auto simp: arl_target_def arl_example_def arl_expect_def arl_expect_custom_def arl_create_def
        target_of_def List.map_filter_simps)
  show "plain_targets (arl_target arl_example)" unfolding t by (auto simp: plain_targets_def)
  show "rechecks arl_example = 3"
    by (simp add: arl_example_def arl_expect_def arl_expect_custom_def arl_create_def)
qed

definition arl_example_begun :: ARL_BASE where
  "arl_example_begun = arl_example\<lparr>iteration := 1, next_keyword := Some 0, found := 0\<rparr>"

lemma arl_example_begin: "arl_begin arl_example = Some arl_example_begun"
  by (simp add: arl_begin_def arl_recheck_def arl_example_def arl_expect_def arl_expect_custom_def
      arl_create_def arl_example_begun_def)

lemma arl_example_begun_facts:
  "arl_ok arl_example_begun" "next_keyword arl_example_begun = Some 0" "found arl_example_begun = 0"
  "iteration arl_example_begun = 1" "rechecks arl_example_begun = 3" "wanted arl_example_begun = 2"
  "e_name ` set (entries arl_example_begun) = {''a'', ''b''}"
  using arl_begin_Some [OF arl_example_facts(1)] arl_example_begin arl_example_facts(4)
  by (auto simp: arl_example_begun_def arl_example_def arl_expect_def arl_expect_custom_def arl_create_def)

section \<open>Properties\<close>

text \<open>C2: one round of a collector over a keyword list. From any list in its invariant a round can
  begin, and the scan of the file's lines always finishes, whatever the order of the keywords and
  whichever of them are unknown. When the file has no more expected keywords than the round wants,
  every expected keyword that occurs holds the value of its line and no other cell changes, although
  the scan stops early.\<close>

theorem arl_round_stores:
  assumes "arl_ok base" and "0 < rechecks base" and "arl_begin base = Some b"
    and "distinct (map fst ls)" and "plain_targets (arl_target base)"
    and "length (filter (\<lambda>(k, v). arl_target base k \<noteq> None) ls) \<le> wanted b"
  shows "\<exists>b' m'. scan_lines arl_check b ls m = Some (b', m') \<and> arl_ok b' \<and> arl_target b' = arl_target base \<and>
    (\<forall>k v d p. (k, v) \<in> set ls \<and> arl_target base k = Some (d, p) \<longrightarrow> m' d = str2uint64_t v) \<and>
    (\<forall>d. (\<forall>(k, v) \<in> set ls. \<forall>p. arl_target base k \<noteq> Some (d, p)) \<longrightarrow> m' d = m d)"
proof -
  from arl_begin_Some [OF assms(1)] assms(2,3) have b: "arl_ok b" "next_keyword b = Some 0" "found b = 0"
    "arl_target b = arl_target base" by (metis option.inject)+
  then obtain b' where "scan_lines arl_check b ls m =
      Some (b', foldl (\<lambda>m (k, v). store_value (arl_target base k) k v m) m ls)"
    "arl_ok b'" "arl_target b' = arl_target base"
    using arl.scan_complete [of b ls m] assms(6) by auto
  then show ?thesis
    using fold_store_key [OF assms(5,4)] fold_store_other [OF assms(5)] by blast
qed

theorem arl_round_stores_witness:
  "\<exists>b' m'. scan_lines arl_check arl_example_begun [(''x'', ''9''), (''a'', ''5''), (''b'', ''7'')] (\<lambda>_. 0) =
      Some (b', m') \<and> m' 0 = str2uint64_t ''5'' \<and> m' 1 = str2uint64_t ''7'' \<and> m' 2 = 0"
proof -
  let ?ls = "[(''x'', ''9''), (''a'', ''5''), (''b'', ''7'')]"
  have "\<exists>b' m'. scan_lines arl_check arl_example_begun ?ls (\<lambda>_. 0) = Some (b', m') \<and> arl_ok b' \<and>
    arl_target b' = arl_target arl_example \<and>
    (\<forall>k v d p. (k, v) \<in> set ?ls \<and> arl_target arl_example k = Some (d, p) \<longrightarrow> m' d = str2uint64_t v) \<and>
    (\<forall>d. (\<forall>(k, v) \<in> set ?ls. \<forall>p. arl_target arl_example k \<noteq> Some (d, p)) \<longrightarrow> m' d = 0)"
    by (rule arl_round_stores [OF arl_example_facts(1) _ arl_example_begin _ arl_example_facts(3)])
      (simp_all add: arl_example_facts(2,4) arl_example_begun_facts(6))
  then obtain b' m' where s: "scan_lines arl_check arl_example_begun ?ls (\<lambda>_. 0) = Some (b', m')"
    and v: "\<And>k v d p. (k, v) \<in> set ?ls \<and> arl_target arl_example k = Some (d, p) \<longrightarrow> m' d = str2uint64_t v"
    and z: "\<And>d. (\<forall>(k, v) \<in> set ?ls. \<forall>p. arl_target arl_example k \<noteq> Some (d, p)) \<longrightarrow> m' d = 0"
    by blast
  have "m' 0 = str2uint64_t ''5''" using v [of "''a''" "''5''"] by (simp add: arl_example_facts(2))
  moreover have "m' 1 = str2uint64_t ''7''" using v [of "''b''" "''7''"] by (simp add: arl_example_facts(2))
  moreover have "m' 2 = 0" using z [of 2] by (simp add: arl_example_facts(2))
  ultimately show ?thesis using s by blast
qed

text \<open>The list adapts to the file. After a round in which all keywords of the file are known, a
  second round over the same keywords (with new values, and before the next recheck) takes the
  fast path for every line: nothing is searched for and nothing is relinked.\<close>

lemma arl_second_round_no_relink:
  assumes "arl_ok b" and "next_keyword b = Some 0" and "found b = 0" and "distinct (map fst ls)"
    and "set (map fst ls) \<subseteq> e_name ` set (entries b)"
    and "scan_lines arl_check b ls m = Some (b1, m1)"
    and "added b1 = 0" and "0 < rechecks b" and "iteration b mod rechecks b \<noteq> 0"
    and "map fst ls' = map fst ls"
  shows "\<exists>b2 b3 m3. arl_begin b1 = Some b2 \<and> scan_lines arl_check b2 ls' m1 = Some (b3, m3) \<and>
    relinkings b3 = relinkings b1"
proof -
  have s: "prefix (map fst (take (lines_read 0 (wanted b) (arl_target b) (map fst ls)) ls))
      (map e_name (entries b1))" "arl_ok b1" "arl_target b1 = arl_target b" "wanted b1 = wanted b"
    "iteration b1 = iteration b" "rechecks b1 = rechecks b"
    using scan_sorts [OF assms(1,2,4) _ assms(6)] assms(3,5) by simp_all
  define b2 where "b2 = b1\<lparr>iteration := iteration b1 + 1, next_keyword := Some 0, found := 0\<rparr>"
  have ne: "entries b1 \<noteq> []"
  proof (cases ls)
    case Nil
    then show ?thesis using assms(1,2,6) by (auto simp: arl_ok_def)
  next
    case (Cons kv ls1)
    then show ?thesis using s(1) by (auto simp: Let_def split: if_splits)
  qed
  have bg: "arl_begin b1 = Some b2"
    using assms(7-9) s(5,6) ne by (simp add: arl_begin_def arl_recheck_def b2_def Let_def)
  have t: "map fst (take n ls') = map fst (take n ls)" for n
    using assms(10) by (metis take_map)
  have "arl_ok b2" "next_keyword b2 = Some 0" using s(2) ne by (auto simp: arl_ok_def b2_def)
  moreover have "prefix (map fst (take (lines_read (found b2) (wanted b2) (arl_target b2) (map fst ls')) ls'))
      (drop 0 (map e_name (entries b2)))"
    using s t assms(10) by (simp add: b2_def arl_target_def)
  ultimately obtain b3 m3 where "scan_lines arl_check b2 ls' m1 = Some (b3, m3)" "relinkings b3 = relinkings b2"
    using scan_in_order by blast
  with bg show ?thesis by (auto simp: b2_def)
qed

lemma arl_second_round_no_relink_witness:
  "\<exists>b1 m1 b2 b3 m3. scan_lines arl_check arl_example_begun [(''a'', ''5''), (''b'', ''7'')] (\<lambda>_. 0) = Some (b1, m1) \<and>
     relinkings b1 = 1 \<and> arl_begin b1 = Some b2 \<and>
     scan_lines arl_check b2 [(''a'', ''6''), (''b'', ''8'')] m1 = Some (b3, m3) \<and> relinkings b3 = 1"
proof -
  let ?ls = "[(''a'', ''5''), (''b'', ''7'')]" and ?ls' = "[(''a'', ''6''), (''b'', ''8'')]"
  obtain b1 m1 where 1: "scan_lines arl_check arl_example_begun ?ls (\<lambda>_. 0) = Some (b1, m1)"
    "added b1 = 0" "relinkings b1 = 1"
    by (simp add: arl_example_begun_def arl_example_def arl_expect_def arl_expect_custom_def arl_create_def
        arl_check_def arl_find_or_create_and_relink_def arl_process_def arl_link_def Let_def)
  have "\<exists>b2 b3 m3. arl_begin b1 = Some b2 \<and> scan_lines arl_check b2 ?ls' m1 = Some (b3, m3) \<and>
      relinkings b3 = relinkings b1"
    by (rule arl_second_round_no_relink [OF arl_example_begun_facts(1-3) _ _ 1(1,2)])
      (simp_all add: arl_example_begun_facts)
  with 1 show ?thesis by auto
qed

end
