(* ===== verification/XM_Procfile.thy ===== *)
theory XM_Procfile
  imports XM_Strings
begin

text \<open>
  \<^verbatim>\<open>utils/procfile.c\<close>: reading a \<^verbatim>\<open>/proc\<close> file into a buffer and cutting it, in place, into
  lines and words. A word is the position of its first byte in the buffer, as the code keeps a
  pointer to it; its text runs up to the next NUL. The kernel's \<^verbatim>\<open>open\<close> and \<^verbatim>\<open>read\<close> and the
  contents of fresh memory are arguments. \<^verbatim>\<open>malloc\<close> and \<^verbatim>\<open>realloc\<close>, which the code does not
  check, succeed.
\<close>

datatype procfile_separator_type =
  PF_CHAR_IS_SEPARATOR | PF_CHAR_IS_NEWLINE | PF_CHAR_IS_WORD | PF_CHAR_IS_QUOTE
| PF_CHAR_IS_OPEN | PF_CHAR_IS_CLOSE

text \<open>The flexible array members and their \<^verbatim>\<open>len\<close> are one list each; \<^verbatim>\<open>size\<close> is the capacity.\<close>

record pf_words =
  ws_size :: nat
  ws_words :: "nat list"

record pf_line =
  l_words :: nat
  l_first :: nat

record pf_lines =
  ls_size :: nat
  ls_lines :: "pf_line list"

record proc_file =
  pf_filename :: string
  pf_flags :: u32
  pf_fd :: int
  pf_len :: nat
  pf_size :: nat
  pf_lines :: pf_lines
  pf_words :: pf_words
  pf_separators :: "char \<Rightarrow> procfile_separator_type"
  pf_data :: string

definition XM_FILENAME_SIZE :: nat where "XM_FILENAME_SIZE = 512"
definition PROCFILE_DATA_BUFFER_SIZE :: nat where "PROCFILE_DATA_BUFFER_SIZE = 512"
definition PFLINES_INCREASE_STEP :: nat where "PFLINES_INCREASE_STEP = 10"
definition PFWORDS_INCREASE_STEP :: nat where "PFWORDS_INCREASE_STEP = 200"

section \<open>Lines and words\<close>

definition new_pflines :: pf_lines where
  "new_pflines = \<lparr>ls_size = PFLINES_INCREASE_STEP, ls_lines = []\<rparr>"

definition reset_pfilines :: "pf_lines \<Rightarrow> pf_lines" where
  "reset_pfilines pfls = pfls\<lparr>ls_lines := []\<rparr>"

definition new_pfwords :: pf_words where
  "new_pfwords = \<lparr>ws_size = PFWORDS_INCREASE_STEP, ws_words = []\<rparr>"

definition reset_pfwords :: "pf_words \<Rightarrow> pf_words" where
  "reset_pfwords pfw = pfw\<lparr>ws_words := []\<rparr>"

text \<open>\<open>add_pfline\<close> returns the address of the new line's word count: the last line's.\<close>

definition add_pfline :: "proc_file \<Rightarrow> proc_file" where
  "add_pfline pf =
     (let lines = pf_lines pf;
          lines1 = (if length (ls_lines lines) = ls_size lines
                    then lines\<lparr>ls_size := ls_size lines + PFLINES_INCREASE_STEP\<rparr> else lines);
          line = \<lparr>l_words = 0, l_first = length (ws_words (pf_words pf))\<rparr>
      in pf\<lparr>pf_lines := lines1\<lparr>ls_lines := ls_lines lines1 @ [line]\<rparr>\<rparr>)"

definition add_pfword :: "proc_file \<Rightarrow> nat \<Rightarrow> proc_file" where
  "add_pfword pf word =
     (let pfws = pf_words pf;
          pfws1 = (if length (ws_words pfws) = ws_size pfws
                   then pfws\<lparr>ws_size := ws_size pfws + PFWORDS_INCREASE_STEP\<rparr> else pfws)
      in pf\<lparr>pf_words := pfws1\<lparr>ws_words := ws_words pfws1 @ [word]\<rparr>\<rparr>)"

text \<open>\<^verbatim>\<open>(*line_words)++\<close>\<close>

definition inc_line_words :: "proc_file \<Rightarrow> proc_file" where
  "inc_line_words pf =
     (let l = ls_lines (pf_lines pf)
      in pf\<lparr>pf_lines := (pf_lines pf)\<lparr>ls_lines := butlast l @ [(last l)\<lparr>l_words := l_words (last l) + 1\<rparr>]\<rparr>\<rparr>)"

section \<open>The parser\<close>

text \<open>The locals of \<^verbatim>\<open>__procfile_parser\<close>: \<^verbatim>\<open>s\<close> and \<^verbatim>\<open>t\<close> are positions in the buffer.\<close>

record parser =
  p_pf :: proc_file
  p_s :: nat
  p_t :: nat
  p_quote :: char
  p_opened :: nat

text \<open>\<^verbatim>\<open>*s = '\0'; __add_pfword(pf, t); (*line_words)++; t = ++s;\<close>\<close>

definition end_word :: "parser \<Rightarrow> parser" where
  "end_word p =
     (let pf1 = (p_pf p)\<lparr>pf_data := (pf_data (p_pf p))[p_s p := NUL]\<rparr>
      in p\<lparr>p_pf := inc_line_words (add_pfword pf1 (p_t p)), p_s := p_s p + 1, p_t := p_s p + 1\<rparr>)"

definition skip_char :: "parser \<Rightarrow> parser" where
  "skip_char p = p\<lparr>p_s := p_s p + 1, p_t := p_s p + 1\<rparr>"

definition next_char :: "parser \<Rightarrow> parser" where
  "next_char p = p\<lparr>p_s := p_s p + 1\<rparr>"

text \<open>One turn of the loop.\<close>

definition parser_step :: "parser \<Rightarrow> parser" where
  "parser_step p =
     (let c = pf_data (p_pf p) ! p_s p
      in case pf_separators (p_pf p) c of
           PF_CHAR_IS_WORD \<Rightarrow> next_char p
         | PF_CHAR_IS_SEPARATOR \<Rightarrow>
             if p_quote p = NUL \<and> p_opened p = 0
             then if p_s p \<noteq> p_t p then end_word p else skip_char p
             else next_char p
         | PF_CHAR_IS_NEWLINE \<Rightarrow> (let p1 = end_word p in p1\<lparr>p_pf := add_pfline (p_pf p1)\<rparr>)
         | PF_CHAR_IS_QUOTE \<Rightarrow>
             if p_quote p = NUL \<and> p_s p = p_t p then (skip_char p)\<lparr>p_quote := c\<rparr>
             else if p_quote p \<noteq> NUL \<and> p_quote p = c then (end_word p)\<lparr>p_quote := NUL\<rparr>
             else next_char p
         | PF_CHAR_IS_OPEN \<Rightarrow>
             if p_s p = p_t p then (skip_char p)\<lparr>p_opened := p_opened p + 1\<rparr>
             else if p_opened p \<noteq> 0 then (next_char p)\<lparr>p_opened := p_opened p + 1\<rparr>
             else next_char p
         | PF_CHAR_IS_CLOSE \<Rightarrow>
             if p_opened p \<noteq> 0
             then if p_opened p - 1 = 0 then (end_word p)\<lparr>p_opened := p_opened p - 1\<rparr>
                  else (next_char p)\<lparr>p_opened := p_opened p - 1\<rparr>
             else next_char p)"

text \<open>\<^verbatim>\<open>while (s < e)\<close>: every turn moves \<^verbatim>\<open>s\<close> by one.\<close>

fun parser_loop :: "nat \<Rightarrow> parser \<Rightarrow> parser" where
  "parser_loop 0 p = p"
| "parser_loop (Suc n) p = parser_loop n (parser_step p)"

definition procfile_parser :: "proc_file \<Rightarrow> proc_file" where
  "procfile_parser pf =
     (let e = pf_len pf;
          p = parser_loop e \<lparr>p_pf = add_pfline pf, p_s = 0, p_t = 0, p_quote = NUL, p_opened = 0\<rparr>
      in if p_t p < p_s p \<and> p_t p < e
         then p_pf (end_word (if pf_size (p_pf p) \<le> pf_len (p_pf p)
                              then p\<lparr>p_s := pf_size (p_pf p) - 1\<rparr> else p))
         else p_pf p)"

section \<open>Separators\<close>

definition is_print :: "char \<Rightarrow> bool" where
  "is_print c = (32 \<le> code_of c \<and> code_of c \<le> 126)"

definition procfile_init_defseps :: "char \<Rightarrow> procfile_separator_type" where
  "procfile_init_defseps c =
     (if c = CHR 0x0A \<or> c = CHR 0x0D then PF_CHAR_IS_NEWLINE
      else if is_space c \<or> \<not> is_print c then PF_CHAR_IS_SEPARATOR
      else PF_CHAR_IS_WORD)"

text \<open>\<^verbatim>\<open>while (*s) seps[(int)*s++] = ty\<close>: \<^verbatim>\<open>char\<close> is signed, so a byte from 128 on writes outside
  the array: \<open>None\<close>.\<close>

definition set_char_types ::
  "(char \<Rightarrow> procfile_separator_type) \<Rightarrow> string \<Rightarrow> procfile_separator_type \<Rightarrow>
   (char \<Rightarrow> procfile_separator_type) option" where
  "set_char_types seps cs ty =
     (if \<exists>c \<in> set cs. 128 \<le> code_of c then None
      else Some (\<lambda>c. if c \<in> set cs then ty else seps c))"

definition procfile_set_separators :: "proc_file \<Rightarrow> string option \<Rightarrow> proc_file option" where
  "procfile_set_separators pf seps =
     map_option (\<lambda>f. pf\<lparr>pf_separators := f\<rparr>)
       (set_char_types procfile_init_defseps
          (case seps of None \<Rightarrow> [CHR '' '', CHR 0x09, CHR ''='', CHR 0x7C] | Some s \<Rightarrow> s)
          PF_CHAR_IS_SEPARATOR)"

definition procfile_set_quotes :: "proc_file \<Rightarrow> string option \<Rightarrow> proc_file option" where
  "procfile_set_quotes pf quotes =
     (let seps = (\<lambda>c. if pf_separators pf c = PF_CHAR_IS_QUOTE then PF_CHAR_IS_WORD
                      else pf_separators pf c)
      in case quotes of
           None \<Rightarrow> Some (pf\<lparr>pf_separators := seps\<rparr>)
         | Some qs \<Rightarrow> map_option (\<lambda>f. pf\<lparr>pf_separators := f\<rparr>) (set_char_types seps qs PF_CHAR_IS_QUOTE))"

definition procfile_set_open_close ::
  "proc_file \<Rightarrow> string option \<Rightarrow> string option \<Rightarrow> proc_file option" where
  "procfile_set_open_close pf opn cls =
     (let seps = (\<lambda>c. if pf_separators pf c = PF_CHAR_IS_OPEN \<or> pf_separators pf c = PF_CHAR_IS_CLOSE
                      then PF_CHAR_IS_WORD else pf_separators pf c)
      in case (opn, cls) of
           (Some os, Some cs) \<Rightarrow>
             if os = [] \<or> cs = [] then Some (pf\<lparr>pf_separators := seps\<rparr>)
             else (case set_char_types seps os PF_CHAR_IS_OPEN of
                     None \<Rightarrow> None
                   | Some f \<Rightarrow> map_option (\<lambda>g. pf\<lparr>pf_separators := g\<rparr>)
                                 (set_char_types f cs PF_CHAR_IS_CLOSE))
         | _ \<Rightarrow> Some (pf\<lparr>pf_separators := seps\<rparr>))"

section \<open>Files\<close>

text \<open>\<open>open_fd\<close> is what \<^verbatim>\<open>open(filename, O_RDONLY)\<close> returns, \<open>junk\<close> the bytes of fresh memory. The
  outer \<open>None\<close> is a write outside the separator table, the inner one the NULL that is returned.\<close>

definition procfile_open ::
  "(nat \<Rightarrow> char) \<Rightarrow> int \<Rightarrow> string \<Rightarrow> string option \<Rightarrow> u32 \<Rightarrow> proc_file option option" where
  "procfile_open junk open_fd filename separators flags =
     (if open_fd = - 1 then Some None
      else map_option Some (procfile_set_separators
             \<lparr> pf_filename = strlcpy_str filename XM_FILENAME_SIZE, pf_flags = flags, pf_fd = open_fd,
               pf_len = 0, pf_size = PROCFILE_DATA_BUFFER_SIZE, pf_lines = new_pflines,
               pf_words = new_pfwords, pf_separators = (\<lambda>_. PF_CHAR_IS_SEPARATOR),
               pf_data = map junk [0..<PROCFILE_DATA_BUFFER_SIZE] \<rparr> separators))"

definition procfile_reopen ::
  "(nat \<Rightarrow> char) \<Rightarrow> int \<Rightarrow> proc_file option \<Rightarrow> string \<Rightarrow> string option \<Rightarrow> u32 \<Rightarrow> proc_file option option" where
  "procfile_reopen junk open_fd pf filename separators flags =
     (case pf of
        None \<Rightarrow> procfile_open junk open_fd filename separators flags
      | Some f \<Rightarrow>
          if open_fd = - 1 then Some None
          else let f1 = f\<lparr>pf_fd := open_fd, pf_filename := strlcpy_str filename XM_FILENAME_SIZE,
                           pf_flags := flags\<rparr>
               in case separators of
                    None \<Rightarrow> Some (Some f1)
                  | Some s \<Rightarrow> map_option Some (procfile_set_separators f1 (Some s)))"

text \<open>The read loop. \<open>rd pos n\<close> is what \<^verbatim>\<open>read\<close> returns at file offset \<open>pos\<close> for at most \<open>n\<close> bytes:
  \<open>None\<close> for an error, no bytes at the end of the file. The outer \<open>None\<close> of the result: the loop
  does not end.\<close>

partial_function (option) read_loop ::
  "(nat \<Rightarrow> nat \<Rightarrow> string option) \<Rightarrow> (nat \<Rightarrow> char) \<Rightarrow> proc_file \<Rightarrow> proc_file option option" where
  "read_loop rd junk pf =
     (let s = pf_len pf;
          pf1 = (if pf_size pf - s = 0
                 then pf\<lparr>pf_size := pf_size pf + PROCFILE_DATA_BUFFER_SIZE,
                         pf_data := pf_data pf @
                           map junk [pf_size pf..<pf_size pf + PROCFILE_DATA_BUFFER_SIZE]\<rparr>
                 else pf)
      in case rd s (pf_size pf1 - s) of
           None \<Rightarrow> Some None
         | Some bs \<Rightarrow>
             let pf2 = pf1\<lparr>pf_len := s + length bs,
                           pf_data := take s (pf_data pf1) @ bs @ drop (s + length bs) (pf_data pf1)\<rparr>
             in if bs \<noteq> [] then read_loop rd junk pf2 else Some (Some pf2))"

declare read_loop.simps [code]

text \<open>On a read error the file is closed and NULL returned.\<close>

definition procfile_readall ::
  "(nat \<Rightarrow> nat \<Rightarrow> string option) \<Rightarrow> (nat \<Rightarrow> char) \<Rightarrow> proc_file \<Rightarrow> proc_file option option" where
  "procfile_readall rd junk pf =
     (case read_loop rd junk (pf\<lparr>pf_len := 0\<rparr>) of
        None \<Rightarrow> None
      | Some None \<Rightarrow> Some None
      | Some (Some pf1) \<Rightarrow>
          Some (Some (procfile_parser
            (pf1\<lparr>pf_lines := reset_pfilines (pf_lines pf1), pf_words := reset_pfwords (pf_words pf1)\<rparr>))))"

section \<open>Access\<close>

definition procfile_lines :: "proc_file \<Rightarrow> nat" where
  "procfile_lines pf = length (ls_lines (pf_lines pf))"

definition procfile_linewords :: "proc_file \<Rightarrow> nat \<Rightarrow> nat" where
  "procfile_linewords pf line =
     (if line < length (ls_lines (pf_lines pf)) then l_words (ls_lines (pf_lines pf) ! line) else 0)"

definition procfile_word :: "proc_file \<Rightarrow> nat \<Rightarrow> string" where
  "procfile_word pf word =
     (if word < length (ws_words (pf_words pf))
      then cstr (drop (ws_words (pf_words pf) ! word) (pf_data pf)) else [])"

definition procfile_line :: "proc_file \<Rightarrow> nat \<Rightarrow> string" where
  "procfile_line pf line =
     (if line < procfile_lines pf then procfile_word pf (l_first (ls_lines (pf_lines pf) ! line)) else [])"

definition procfile_lineword :: "proc_file \<Rightarrow> nat \<Rightarrow> nat \<Rightarrow> string" where
  "procfile_lineword pf line word =
     (if line < procfile_lines pf \<and> word < procfile_linewords pf line
      then procfile_word pf (l_first (ls_lines (pf_lines pf) ! line) + word) else [])"

section \<open>The reference parser\<close>

text \<open>The same automaton on the text alone: the lines so far (the last one is open), the text of
  the word that is being read, the quote and the number of open parentheses.\<close>

type_synonym cut = "string list list \<times> string \<times> char \<times> nat"

definition add_word :: "string list list \<Rightarrow> string \<Rightarrow> string list list" where
  "add_word ls w = butlast ls @ [last ls @ [w]]"

fun cut_step :: "(char \<Rightarrow> procfile_separator_type) \<Rightarrow> cut \<Rightarrow> char \<Rightarrow> cut" where
  "cut_step seps (ls, w, q, o') c =
     (case seps c of
        PF_CHAR_IS_WORD \<Rightarrow> (ls, w @ [c], q, o')
      | PF_CHAR_IS_SEPARATOR \<Rightarrow>
          if q = NUL \<and> o' = 0 then (if w \<noteq> [] then add_word ls w else ls, [], q, o')
          else (ls, w @ [c], q, o')
      | PF_CHAR_IS_NEWLINE \<Rightarrow> (add_word ls w @ [[]], [], q, o')
      | PF_CHAR_IS_QUOTE \<Rightarrow>
          if q = NUL \<and> w = [] then (ls, [], c, o')
          else if q \<noteq> NUL \<and> q = c then (add_word ls w, [], NUL, o')
          else (ls, w @ [c], q, o')
      | PF_CHAR_IS_OPEN \<Rightarrow>
          if w = [] then (ls, [], q, o' + 1)
          else if o' \<noteq> 0 then (ls, w @ [c], q, o' + 1) else (ls, w @ [c], q, o')
      | PF_CHAR_IS_CLOSE \<Rightarrow>
          if o' \<noteq> 0
          then if o' - 1 = 0 then (add_word ls w, [], q, 0) else (ls, w @ [c], q, o' - 1)
          else (ls, w @ [c], q, o'))"

definition cut_end :: "cut \<Rightarrow> string list list" where
  "cut_end st = (case st of (ls, w, q, o') \<Rightarrow> if w \<noteq> [] then add_word ls w else ls)"

definition cut_text :: "(char \<Rightarrow> procfile_separator_type) \<Rightarrow> string \<Rightarrow> string list list" where
  "cut_text seps c = cut_end (foldl (cut_step seps) ([[]], [], NUL, 0) c)"

section \<open>The parser refines the reference\<close>

text \<open>The lines and words that the tables of a file denote.\<close>

definition line_texts :: "pf_line list \<Rightarrow> 'a list \<Rightarrow> 'a list list" where
  "line_texts ls ws = map (\<lambda>l. take (l_words l) (drop (l_first l) ws)) ls"

definition word_texts :: "proc_file \<Rightarrow> string list" where
  "word_texts pf = map (\<lambda>p. cstr (drop p (pf_data pf))) (ws_words (pf_words pf))"

definition procfile_contents :: "proc_file \<Rightarrow> string list list" where
  "procfile_contents pf = line_texts (ls_lines (pf_lines pf)) (word_texts pf)"

text \<open>The tables are sound: capacities hold, lines lie in the word table and the last line reaches
  its end.\<close>

definition tables_ok :: "proc_file \<Rightarrow> bool" where
  "tables_ok pf \<longleftrightarrow> length (ls_lines (pf_lines pf)) \<le> ls_size (pf_lines pf) \<and>
     length (ws_words (pf_words pf)) \<le> ws_size (pf_words pf) \<and>
     (\<forall>l \<in> set (ls_lines (pf_lines pf)). l_first l + l_words l \<le> length (ws_words (pf_words pf))) \<and>
     (ls_lines (pf_lines pf) \<noteq> [] \<longrightarrow>
        l_first (last (ls_lines (pf_lines pf))) + l_words (last (ls_lines (pf_lines pf))) =
        length (ws_words (pf_words pf)))"

lemma line_texts_butlast_last:
  "ls \<noteq> [] \<Longrightarrow> line_texts ls ws = line_texts (butlast ls) ws @ [take (l_words (last ls)) (drop (l_first (last ls)) ws)]"
  unfolding line_texts_def by (induction ls) auto

text \<open>Every stored word is closed by a NUL before the position \<open>s\<close>.\<close>

definition words_closed :: "proc_file \<Rightarrow> nat \<Rightarrow> bool" where
  "words_closed pf s \<longleftrightarrow>
     (\<forall>p \<in> set (ws_words (pf_words pf)). \<exists>q. p \<le> q \<and> q < s \<and> q < length (pf_data pf) \<and> pf_data pf ! q = NUL)"

lemma cstr_update_behind:
  assumes "p \<le> q" and "q < i" and "q < length d" and "d ! q = NUL"
  shows "cstr (drop p (d[i := x])) = cstr (drop p d)"
proof -
  have "cstr (drop p l) = cstr (take (Suc (q - p)) (drop p l))" if "q < length l" "l ! q = NUL" for l
  proof -
    have "q - p < length (take (Suc (q - p)) (drop p l))" and "take (Suc (q - p)) (drop p l) ! (q - p) = NUL"
      using that assms(1) by simp_all
    then have "NUL \<in> set (take (Suc (q - p)) (drop p l))" by (metis nth_mem)
    then show ?thesis
      using takeWhile_append1 [of NUL "take (Suc (q - p)) (drop p l)" "\<lambda>c. c \<noteq> NUL"
          "drop (Suc (q - p)) (drop p l)"]
      unfolding cstr_def append_take_drop_id by simp
  qed
  from this [of "d[i := x]"] this [of d] show ?thesis
    using assms by (simp add: drop_update_swap take_update_cancel)
qed

lemma word_texts_update:
  "words_closed pf s \<Longrightarrow> s \<le> i \<Longrightarrow> word_texts (pf\<lparr>pf_data := (pf_data pf)[i := x]\<rparr>) = word_texts pf"
  unfolding word_texts_def words_closed_def
  by (auto dest!: bspec intro: cstr_update_behind [OF _ less_le_trans])

lemma words_closed_update:
  "words_closed pf s \<Longrightarrow> s \<le> i \<Longrightarrow> words_closed (pf\<lparr>pf_data := (pf_data pf)[i := x]\<rparr>) s"
  unfolding words_closed_def by (fastforce simp: nth_list_update)

lemma add_pfline_fields [simp]:
  "pf_data (add_pfline pf) = pf_data pf" "pf_words (add_pfline pf) = pf_words pf"
  "pf_separators (add_pfline pf) = pf_separators pf" "pf_len (add_pfline pf) = pf_len pf"
  "pf_size (add_pfline pf) = pf_size pf"
  "ls_lines (pf_lines (add_pfline pf)) =
     ls_lines (pf_lines pf) @ [\<lparr>l_words = 0, l_first = length (ws_words (pf_words pf))\<rparr>]"
  by (simp_all add: add_pfline_def Let_def)

lemma add_pfword_fields [simp]:
  "pf_data (add_pfword pf w) = pf_data pf" "pf_lines (add_pfword pf w) = pf_lines pf"
  "pf_separators (add_pfword pf w) = pf_separators pf" "pf_len (add_pfword pf w) = pf_len pf"
  "pf_size (add_pfword pf w) = pf_size pf"
  "ws_words (pf_words (add_pfword pf w)) = ws_words (pf_words pf) @ [w]"
  by (simp_all add: add_pfword_def Let_def)

lemma inc_line_words_fields [simp]:
  "pf_data (inc_line_words pf) = pf_data pf" "pf_words (inc_line_words pf) = pf_words pf"
  "pf_separators (inc_line_words pf) = pf_separators pf" "pf_len (inc_line_words pf) = pf_len pf"
  "pf_size (inc_line_words pf) = pf_size pf" "ls_size (pf_lines (inc_line_words pf)) = ls_size (pf_lines pf)"
  "ls_lines (pf_lines (inc_line_words pf)) = (let l = ls_lines (pf_lines pf)
     in butlast l @ [(last l)\<lparr>l_words := l_words (last l) + 1\<rparr>])"
  by (simp_all add: inc_line_words_def Let_def)

lemma add_pfline_ok [xm_inv]: "tables_ok pf \<Longrightarrow> tables_ok (add_pfline pf)"
  by (auto simp: tables_ok_def add_pfline_def PFLINES_INCREASE_STEP_def Let_def)

lemma procfile_contents_add_pfline:
  "procfile_contents (add_pfline pf) = procfile_contents pf @ [[]]"
  by (simp add: procfile_contents_def line_texts_def word_texts_def)

text \<open>A stored word: one more word in the last line.\<close>

definition store_word :: "proc_file \<Rightarrow> nat \<Rightarrow> proc_file" where
  "store_word pf t = inc_line_words (add_pfword pf t)"

lemma store_word_ok [xm_inv]:
  assumes "tables_ok pf" and "ls_lines (pf_lines pf) \<noteq> []"
  shows "tables_ok (store_word pf t)"
proof -
  have "ws_size (pf_words pf) \<le> ws_size (pf_words (add_pfword pf t)) \<and>
      length (ws_words (pf_words pf)) + 1 \<le> ws_size (pf_words (add_pfword pf t))"
    using assms(1) by (auto simp: tables_ok_def add_pfword_def PFWORDS_INCREASE_STEP_def Let_def)
  moreover have "l \<in> set (butlast (ls_lines (pf_lines pf))) \<Longrightarrow>
      l_first l + l_words l \<le> length (ws_words (pf_words pf))" for l
    using assms(1) by (auto simp: tables_ok_def dest: in_set_butlastD)
  ultimately show ?thesis
    using assms by (auto simp: tables_ok_def store_word_def Let_def le_SucI)
qed

lemma procfile_contents_store_word:
  assumes "tables_ok pf" and "ls_lines (pf_lines pf) \<noteq> []"
  shows "procfile_contents (store_word pf t) =
    add_word (procfile_contents pf) (cstr (drop t (pf_data pf)))"
proof -
  let ?ls = "ls_lines (pf_lines pf)" and ?ws = "word_texts pf" and ?w = "cstr (drop t (pf_data pf))"
  have w: "word_texts (store_word pf t) = ?ws @ [?w]" by (simp add: word_texts_def store_word_def)
  have len: "length ?ws = length (ws_words (pf_words pf))" by (simp add: word_texts_def)
  have "line_texts (butlast ?ls) (?ws @ [?w]) = line_texts (butlast ?ls) ?ws"
    unfolding line_texts_def using assms(1) len
    by (auto simp: tables_ok_def dest!: in_set_butlastD)
  moreover have "take (Suc (l_words (last ?ls))) (drop (l_first (last ?ls)) (?ws @ [?w])) =
      take (l_words (last ?ls)) (drop (l_first (last ?ls)) ?ws) @ [?w]"
    using assms len by (auto simp: tables_ok_def)
  ultimately show ?thesis
    unfolding procfile_contents_def w line_texts_butlast_last [OF assms(2), of ?ws]
    by (simp add: add_word_def store_word_def Let_def line_texts_def)
qed

text \<open>The simulation relation after the first \<open>s\<close> bytes of the text \<open>c\<close>.\<close>

definition cut_rel :: "(char \<Rightarrow> procfile_separator_type) \<Rightarrow> string \<Rightarrow> nat \<Rightarrow> nat \<Rightarrow> nat \<Rightarrow> parser \<Rightarrow> cut \<Rightarrow> bool" where
  "cut_rel seps c n sz s p st \<longleftrightarrow>
     (case st of (ls, w, q, o') \<Rightarrow>
       p_s p = s \<and> p_t p \<le> s \<and> p_quote p = q \<and> p_opened p = o' \<and> w = take (s - p_t p) (drop (p_t p) c) \<and>
       pf_separators (p_pf p) = seps \<and> tables_ok (p_pf p) \<and> ls_lines (pf_lines (p_pf p)) \<noteq> [] \<and>
       procfile_contents (p_pf p) = ls \<and> words_closed (p_pf p) s \<and> pf_len (p_pf p) = n \<and>
       pf_size (p_pf p) = sz \<and> length (pf_data (p_pf p)) = sz \<and>
       (\<forall>i. p_t p \<le> i \<and> i < length c \<longrightarrow> pf_data (p_pf p) ! i = c ! i))"

lemma end_word_eq:
  "end_word p = p\<lparr>p_pf := store_word ((p_pf p)\<lparr>pf_data := (pf_data (p_pf p))[p_s p := NUL]\<rparr>) (p_t p),
     p_s := p_s p + 1, p_t := p_s p + 1\<rparr>"
  by (simp add: end_word_def store_word_def Let_def)

lemma store_word_fields [simp]:
  "pf_data (store_word pf t) = pf_data pf" "pf_separators (store_word pf t) = pf_separators pf"
  "pf_len (store_word pf t) = pf_len pf" "pf_size (store_word pf t) = pf_size pf"
  "ws_words (pf_words (store_word pf t)) = ws_words (pf_words pf) @ [t]"
  "ls_lines (pf_lines (store_word pf t)) \<noteq> []"
  by (simp_all add: store_word_def Let_def)

text \<open>The word between \<open>t\<close> and the NUL written at \<open>s\<close> is the text read so far.\<close>

lemma cut_word_text:
  assumes "t \<le> s" and "s < length d" and "s \<le> length c" and "NUL \<notin> set c"
    and "\<forall>i. t \<le> i \<and> i < length c \<longrightarrow> d ! i = c ! i"
  shows "cstr (drop t (d[s := NUL])) = take (s - t) (drop t c)"
proof -
  have "take (s - t) (drop t (d[s := NUL])) = take (s - t) (drop t c)"
    using assms by (intro nth_equalityI) auto
  moreover have "drop (s - t) (drop t (d[s := NUL])) = NUL # drop (Suc s) d"
    using assms(1,2) Cons_nth_drop_Suc [of s "d[s := NUL]"] by simp
  then have "drop t (d[s := NUL]) = take (s - t) (drop t (d[s := NUL])) @ NUL # drop (Suc s) d"
    by (metis append_take_drop_id)
  moreover have "NUL \<notin> set (take (s - t) (drop t c))" using assms(4) by (auto dest: in_set_takeD in_set_dropD)
  ultimately show ?thesis by (metis cstr_append_NUL)
qed

lemma cut_rel_end_word:
  assumes "cut_rel seps c n sz s p (ls, w, q, o')" and "s \<le> length c" and "s < sz" and "NUL \<notin> set c"
  shows "cut_rel seps c n sz (Suc s) (end_word p) (add_word ls w, [], q, o')"
proof -
  let ?pf = "(p_pf p)\<lparr>pf_data := (pf_data (p_pf p))[s := NUL]\<rparr>"
  have r: "p_s p = s" "p_t p \<le> s" "p_quote p = q" "p_opened p = o'" "w = take (s - p_t p) (drop (p_t p) c)"
    "pf_separators (p_pf p) = seps" "tables_ok (p_pf p)" "ls_lines (pf_lines (p_pf p)) \<noteq> []"
    "procfile_contents (p_pf p) = ls" "words_closed (p_pf p) s" "pf_len (p_pf p) = n" "pf_size (p_pf p) = sz"
    "length (pf_data (p_pf p)) = sz" "\<forall>i. p_t p \<le> i \<and> i < length c \<longrightarrow> pf_data (p_pf p) ! i = c ! i"
    using assms(1) by (auto simp: cut_rel_def)
  have t: "tables_ok ?pf" using r(7) by (simp add: tables_ok_def)
  have "procfile_contents ?pf = ls"
    using word_texts_update [OF r(10), of s NUL] r(9) by (simp add: procfile_contents_def)
  moreover have "cstr (drop (p_t p) (pf_data ?pf)) = w"
    using cut_word_text [OF r(2) _ _ assms(4) r(14)] assms(2,3) r(5,13) by simp
  ultimately have "procfile_contents (store_word ?pf (p_t p)) = add_word ls w"
    using procfile_contents_store_word [OF t] r(8) by simp
  moreover have "words_closed (store_word ?pf (p_t p)) (Suc s)"
    using words_closed_update [OF r(10), of s NUL] r(2,13) assms(2,3)
    by (fastforce simp: words_closed_def nth_list_update)
  moreover have "tables_ok (store_word ?pf (p_t p))" using store_word_ok [OF t] r(8) by simp
  ultimately show ?thesis
    using r unfolding cut_rel_def end_word_eq by (auto simp: nth_list_update)
qed

lemma cut_rel_next:
  assumes "cut_rel seps c n sz s p (ls, w, q, o')" and "s < length c"
  shows "cut_rel seps c n sz (Suc s) (next_char p) (ls, w @ [c ! s], q, o')"
proof -
  have "words_closed (p_pf p) (Suc s)"
    using assms(1) by (fastforce simp: cut_rel_def words_closed_def intro: less_SucI)
  moreover have "take (Suc s - p_t p) (drop (p_t p) c) = take (s - p_t p) (drop (p_t p) c) @ [c ! s]"
    using assms by (auto simp: cut_rel_def Suc_diff_le take_Suc_conv_app_nth)
  ultimately show ?thesis using assms by (auto simp: cut_rel_def next_char_def)
qed

lemma cut_rel_skip:
  assumes "cut_rel seps c n sz s p (ls, [], q, o')"
  shows "cut_rel seps c n sz (Suc s) (skip_char p) (ls, [], q, o')"
proof -
  have "words_closed (p_pf p) (Suc s)"
    using assms(1) by (fastforce simp: cut_rel_def words_closed_def intro: less_SucI)
  then show ?thesis using assms by (auto simp: cut_rel_def skip_char_def)
qed

lemma cut_rel_fields:
  "cut_rel seps c n sz s p (ls, w, q, o') \<Longrightarrow> cut_rel seps c n sz s (p\<lparr>p_quote := q', p_opened := o''\<rparr>) (ls, w, q', o'')"
  by (simp add: cut_rel_def)

lemma cut_rel_line:
  "cut_rel seps c n sz s p (ls, w, q, o') \<Longrightarrow>
   cut_rel seps c n sz s (p\<lparr>p_pf := add_pfline (p_pf p)\<rparr>) (ls @ [[]], w, q, o')"
  by (auto simp: cut_rel_def procfile_contents_add_pfline words_closed_def intro: add_pfline_ok)

lemma parser_step_refines:
  assumes "cut_rel seps c n sz s p st" and "s < length c" and "length c \<le> sz" and "NUL \<notin> set c"
  shows "cut_rel seps c n sz (Suc s) (parser_step p) (cut_step seps st (c ! s))"
proof -
  obtain ls w q o' where st: "st = (ls, w, q, o')" by (cases st)
  note r = assms(1) [unfolded st]
  have ch: "pf_data (p_pf p) ! p_s p = c ! s" "pf_separators (p_pf p) = seps" "p_quote p = q" "p_opened p = o'"
    and w: "p_s p = p_t p \<longleftrightarrow> w = []"
    using r assms(2) by (auto simp: cut_rel_def)
  note e = cut_rel_end_word [OF r less_imp_le [OF assms(2)] less_le_trans [OF assms(2,3)] assms(4)] and nx = cut_rel_next [OF r assms(2)]
  have sk: "w = [] \<Longrightarrow> cut_rel seps c n sz (Suc s) (skip_char p) (ls, [], q, o')"
    using cut_rel_skip r by blast
  have q: "\<And>p' ls w q1 o1 q2. cut_rel seps c n sz (Suc s) p' (ls, w, q1, o1) \<Longrightarrow>
      cut_rel seps c n sz (Suc s) (p'\<lparr>p_quote := q2\<rparr>) (ls, w, q2, o1)"
    and o: "\<And>p' ls w q1 o1 o2. cut_rel seps c n sz (Suc s) p' (ls, w, q1, o1) \<Longrightarrow>
      cut_rel seps c n sz (Suc s) (p'\<lparr>p_opened := o2\<rparr>) (ls, w, q1, o2)"
    by (simp_all add: cut_rel_def)
  show ?thesis
  proof (cases "seps (c ! s)")
    case PF_CHAR_IS_SEPARATOR
    then show ?thesis using e nx sk unfolding parser_step_def Let_def ch st w by auto
  next
    case PF_CHAR_IS_NEWLINE
    then show ?thesis using cut_rel_line [OF e] unfolding parser_step_def Let_def ch st by simp
  next
    case PF_CHAR_IS_WORD
    then show ?thesis using nx unfolding parser_step_def Let_def ch st by simp
  next
    case PF_CHAR_IS_QUOTE
    then show ?thesis using q [OF e] nx q [OF sk] unfolding parser_step_def Let_def ch st w by auto
  next
    case PF_CHAR_IS_OPEN
    then show ?thesis using nx o [OF nx] o [OF sk] unfolding parser_step_def Let_def ch st w by auto
  next
    case PF_CHAR_IS_CLOSE
    then show ?thesis using nx o [OF nx] o [OF e] unfolding parser_step_def Let_def ch st by auto
  qed
qed

lemma parser_loop_refines:
  assumes "cut_rel seps c n sz s p st" and "s + k = length c" and "length c \<le> sz" and "NUL \<notin> set c"
  shows "cut_rel seps c n sz (length c) (parser_loop k p) (foldl (cut_step seps) st (drop s c))"
  using assms(1,2)
proof (induction k arbitrary: s p st)
  case (Suc k)
  then have s: "s < length c" by simp
  from Suc.IH [OF parser_step_refines [OF Suc.prems(1) s assms(3,4)]] Suc.prems(2)
  show ?case by (simp add: Cons_nth_drop_Suc [OF s, symmetric])
qed simp

text \<open>The whole parser: with room for the terminator, the tables denote the reference's words.\<close>

lemma procfile_parser_refines:
  assumes "ls_lines (pf_lines pf) = []" and "ws_words (pf_words pf) = []" and "tables_ok pf"
    and "pf_len pf = length c" and "pf_len pf < pf_size pf" and "length (pf_data pf) = pf_size pf"
    and "take (length c) (pf_data pf) = c" and "NUL \<notin> set c"
  shows "procfile_contents (procfile_parser pf) = cut_text (pf_separators pf) c"
    and "tables_ok (procfile_parser pf)" and "words_closed (procfile_parser pf) (pf_size pf)"
    and "pf_size (procfile_parser pf) = pf_size pf" and "length (pf_data (procfile_parser pf)) = pf_size pf"
    and "pf_separators (procfile_parser pf) = pf_separators pf"
proof -
  let ?seps = "pf_separators pf"
  define p0 where "p0 = \<lparr>p_pf = add_pfline pf, p_s = 0, p_t = 0, p_quote = NUL, p_opened = 0\<rparr>"
  have c: "pf_data pf ! i = c ! i" if "i < length c" for i
    using assms(7) that by (metis nth_take)
  have "cut_rel ?seps c (pf_len pf) (pf_size pf) 0 p0 ([[]], [], NUL, 0)"
    using assms c by (simp add: cut_rel_def p0_def add_pfline_ok procfile_contents_def line_texts_def
        words_closed_def)
  from parser_loop_refines [OF this, of "length c"]
  have r: "cut_rel ?seps c (pf_len pf) (pf_size pf) (length c) (parser_loop (length c) p0)
      (foldl (cut_step ?seps) ([[]], [], NUL, 0) c)"
    using assms(4,5,8) by simp
  obtain ls w q o' where st: "foldl (cut_step ?seps) ([[]], [], NUL, 0) c = (ls, w, q, o')"
    by (metis prod_cases4)
  let ?p = "parser_loop (length c) p0"
  note r = r [unfolded st]
  have pp: "procfile_parser pf = (if w \<noteq> [] then p_pf (end_word ?p) else p_pf ?p)"
    using r assms(4,5) by (auto simp: procfile_parser_def Let_def p0_def [symmetric] cut_rel_def)
  have "s \<le> pf_size pf \<Longrightarrow> cut_rel ?seps c (pf_len pf) (pf_size pf) s p' (ls', w', q', o'') \<Longrightarrow>
      procfile_contents (p_pf p') = ls' \<and> tables_ok (p_pf p') \<and> words_closed (p_pf p') (pf_size pf) \<and>
      pf_size (p_pf p') = pf_size pf \<and> length (pf_data (p_pf p')) = pf_size pf \<and>
      pf_separators (p_pf p') = ?seps" for s p' ls' w' q' o''
    by (fastforce simp: cut_rel_def words_closed_def)
  note fin = this
  have "procfile_contents (procfile_parser pf) = cut_end (ls, w, q, o') \<and> tables_ok (procfile_parser pf) \<and>
    words_closed (procfile_parser pf) (pf_size pf) \<and> pf_size (procfile_parser pf) = pf_size pf \<and>
    length (pf_data (procfile_parser pf)) = pf_size pf \<and> pf_separators (procfile_parser pf) = ?seps"
    using fin [OF _ r] fin [OF _ cut_rel_end_word [OF r]] assms(4,5,8)
    by (simp add: pp cut_end_def)
  then show "procfile_contents (procfile_parser pf) = cut_text ?seps c"
    and "tables_ok (procfile_parser pf)" and "words_closed (procfile_parser pf) (pf_size pf)"
    and "pf_size (procfile_parser pf) = pf_size pf" and "length (pf_data (procfile_parser pf)) = pf_size pf"
    and "pf_separators (procfile_parser pf) = ?seps"
    by (simp_all add: cut_text_def st)
qed

section \<open>Reading\<close>

text \<open>What \<^verbatim>\<open>read(2)\<close> promises for a file with the contents \<open>c\<close>: at most as many bytes as asked for,
  the next ones of the file, and at least one unless the end is reached.\<close>

definition reads_file :: "(nat \<Rightarrow> nat \<Rightarrow> string option) \<Rightarrow> string \<Rightarrow> bool" where
  "reads_file rd c \<longleftrightarrow> (\<forall>pos n. \<exists>bs. rd pos n = Some bs \<and> length bs \<le> n \<and> prefix bs (drop pos c) \<and>
     (0 < n \<and> pos < length c \<longrightarrow> bs \<noteq> []))"

text \<open>The buffer holds the first \<^verbatim>\<open>len\<close> bytes of the file.\<close>

definition buffer_ok :: "proc_file \<Rightarrow> string \<Rightarrow> bool" where
  "buffer_ok pf c \<longleftrightarrow> length (pf_data pf) = pf_size pf \<and> pf_len pf \<le> pf_size pf \<and> pf_len pf \<le> length c \<and>
     take (pf_len pf) (pf_data pf) = take (pf_len pf) c"

lemma buffer_ok_append:
  assumes "buffer_ok pf c" and "prefix bs (drop (pf_len pf) c)" and "length bs \<le> pf_size pf - pf_len pf"
    and "pf' = pf\<lparr>pf_len := pf_len pf + length bs,
      pf_data := take (pf_len pf) (pf_data pf) @ bs @ drop (pf_len pf + length bs) (pf_data pf)\<rparr>"
  shows "buffer_ok pf' c"
proof -
  have l: "pf_len pf + length bs \<le> length c"
    using assms(1,2) prefix_length_le [OF assms(2)] by (auto simp: buffer_ok_def)
  have "take (pf_len pf + length bs) c = take (pf_len pf) c @ bs"
    using assms(2) by (auto simp: take_add prefix_def)
  with assms l show ?thesis by (auto simp: buffer_ok_def)
qed

lemma read_loop_total:
  assumes "reads_file rd c" and "buffer_ok pf c"
  shows "\<exists>pf'. read_loop rd junk pf = Some (Some pf') \<and> buffer_ok pf' c \<and> pf_len pf' = length c \<and>
    pf_len pf' < pf_size pf' \<and> pf_lines pf' = pf_lines pf \<and> pf_words pf' = pf_words pf \<and>
    pf_separators pf' = pf_separators pf"
  using assms(2)
proof (induction "length c - pf_len pf" arbitrary: pf rule: less_induct)
  case less
  define pf1 where "pf1 = (if pf_size pf - pf_len pf = 0
    then pf\<lparr>pf_size := pf_size pf + PROCFILE_DATA_BUFFER_SIZE,
            pf_data := pf_data pf @ map junk [pf_size pf..<pf_size pf + PROCFILE_DATA_BUFFER_SIZE]\<rparr>
    else pf)"
  have p1: "buffer_ok pf1 c" "pf_len pf1 = pf_len pf" "pf_len pf1 < pf_size pf1"
    "pf_lines pf1 = pf_lines pf" "pf_words pf1 = pf_words pf" "pf_separators pf1 = pf_separators pf"
    using less.prems by (auto simp: pf1_def buffer_ok_def PROCFILE_DATA_BUFFER_SIZE_def)
  obtain bs where bs: "rd (pf_len pf) (pf_size pf1 - pf_len pf) = Some bs"
    "length bs \<le> pf_size pf1 - pf_len pf" "prefix bs (drop (pf_len pf) c)"
    "pf_len pf < length c \<longrightarrow> bs \<noteq> []"
    using assms(1) p1(2,3) unfolding reads_file_def by (metis zero_less_diff)
  define pf2 where "pf2 = pf1\<lparr>pf_len := pf_len pf1 + length bs,
    pf_data := take (pf_len pf1) (pf_data pf1) @ bs @ drop (pf_len pf1 + length bs) (pf_data pf1)\<rparr>"
  have ok2: "buffer_ok pf2 c"
    using buffer_ok_append [OF p1(1), of bs pf2] bs p1(2) by (simp add: pf2_def)
  have u: "read_loop rd junk pf = (if bs \<noteq> [] then read_loop rd junk pf2 else Some (Some pf2))"
    unfolding read_loop.simps [of rd junk pf] Let_def pf1_def [symmetric]
    by (simp add: bs(1) pf2_def p1(2))
  show ?case
  proof (cases "bs = []")
    case True
    then have "pf_len pf = length c" using bs(4) less.prems by (auto simp: buffer_ok_def)
    with True u ok2 p1 show ?thesis by (auto simp: pf2_def)
  next
    case False
    have "pf_len pf + length bs \<le> length c"
      using prefix_length_le [OF bs(3)] less.prems by (auto simp: buffer_ok_def)
    with False have "length c - pf_len pf2 < length c - pf_len pf" by (cases bs) (auto simp: pf2_def p1(2))
    from less.hyps [OF this ok2] u False p1 show ?thesis by (auto simp: pf2_def)
  qed
qed

lemma procfile_readall_total:
  assumes "reads_file rd c" and "length (pf_data pf) = pf_size pf" and "tables_ok pf" and "NUL \<notin> set c"
  obtains pf' where "procfile_readall rd junk pf = Some (Some pf')"
    and "procfile_contents pf' = cut_text (pf_separators pf) c" and "tables_ok pf'"
    and "words_closed pf' (pf_size pf')" and "length (pf_data pf') = pf_size pf'"
proof -
  have "buffer_ok (pf\<lparr>pf_len := 0\<rparr>) c" using assms(2) by (simp add: buffer_ok_def)
  from read_loop_total [OF assms(1) this, of junk] obtain pf1 where
    1: "read_loop rd junk (pf\<lparr>pf_len := 0\<rparr>) = Some (Some pf1)" "buffer_ok pf1 c" "pf_len pf1 = length c"
    "pf_len pf1 < pf_size pf1" "pf_lines pf1 = pf_lines pf" "pf_words pf1 = pf_words pf"
    "pf_separators pf1 = pf_separators pf" by auto
  let ?pf = "pf1\<lparr>pf_lines := reset_pfilines (pf_lines pf1), pf_words := reset_pfwords (pf_words pf1)\<rparr>"
  have "procfile_readall rd junk pf = Some (Some (procfile_parser ?pf))"
    using 1(1) by (simp add: procfile_readall_def)
  moreover have "tables_ok ?pf"
    using assms(3) by (simp add: tables_ok_def reset_pfilines_def reset_pfwords_def)
  note p = procfile_parser_refines [of ?pf c, OF _ _ this] 
  ultimately show thesis
    using that 1 assms(4) p by (simp add: buffer_ok_def reset_pfilines_def reset_pfwords_def)
qed

section \<open>Printing and parsing a table\<close>

text \<open>The files of \<^verbatim>\<open>/proc\<close>: fields with a space between them, each line ended by a newline. A field
  in parentheses (the command in \<^verbatim>\<open>/proc/<pid>/stat\<close>) may contain separators.\<close>

definition field_text :: "bool \<times> string \<Rightarrow> string" where
  "field_text f = (if fst f then CHR ''('' # snd f @ '')'' else snd f)"

fun line_text :: "(bool \<times> string) list \<Rightarrow> string" where
  "line_text [] = [CHR 0x0A]"
| "line_text [f] = field_text f @ [CHR 0x0A]"
| "line_text (f # fs) = field_text f @ CHR '' '' # line_text fs"

definition table_text :: "(bool \<times> string) list list \<Rightarrow> string" where
  "table_text t = concat (map line_text t)"

definition field_ok :: "(char \<Rightarrow> procfile_separator_type) \<Rightarrow> bool \<times> string \<Rightarrow> bool" where
  "field_ok seps f \<longleftrightarrow>
     (if fst f
      then seps CHR ''('' = PF_CHAR_IS_OPEN \<and> seps CHR '')'' = PF_CHAR_IS_CLOSE \<and>
           list_all (\<lambda>c. seps c = PF_CHAR_IS_WORD \<or> seps c = PF_CHAR_IS_SEPARATOR) (snd f)
      else snd f \<noteq> [] \<and> list_all (\<lambda>c. seps c = PF_CHAR_IS_WORD) (snd f)) \<and> NUL \<notin> set (snd f)"

text \<open>The last field of a line is not in parentheses: the newline would add an empty word.\<close>

definition fields_ok :: "(char \<Rightarrow> procfile_separator_type) \<Rightarrow> (bool \<times> string) list \<Rightarrow> bool" where
  "fields_ok seps fs \<longleftrightarrow> fs \<noteq> [] \<and> list_all (field_ok seps) fs \<and> \<not> fst (last fs)"

lemma add_word_snoc [simp]: "add_word (ls @ [l]) w = ls @ [l @ [w]]"
  by (simp add: add_word_def)

lemma cut_word_chars:
  "list_all (\<lambda>c. seps c = PF_CHAR_IS_WORD) w \<Longrightarrow>
   foldl (cut_step seps) (ls, v, q, o') w = (ls, v @ w, q, o')"
  by (induction w arbitrary: v) auto

lemma cut_open_chars:
  "list_all (\<lambda>c. seps c = PF_CHAR_IS_WORD \<or> seps c = PF_CHAR_IS_SEPARATOR) w \<Longrightarrow>
   foldl (cut_step seps) (ls, v, q, Suc o') w = (ls, v @ w, q, Suc o')"
  by (induction w arbitrary: v) auto

lemma cut_field:
  assumes "field_ok seps f" and "seps CHR '' '' = PF_CHAR_IS_SEPARATOR"
  shows "foldl (cut_step seps) (ls @ [l], [], NUL, 0) (field_text f @ [CHR '' '']) =
    (ls @ [l @ [snd f]], [], NUL, 0)"
  using assms
  by (cases "fst f") (auto simp: field_ok_def field_text_def cut_word_chars cut_open_chars)

lemma cut_line:
  assumes "fields_ok seps fs" and "seps CHR '' '' = PF_CHAR_IS_SEPARATOR" and "seps CHR 0x0A = PF_CHAR_IS_NEWLINE"
  shows "foldl (cut_step seps) (ls @ [l], [], NUL, 0) (line_text fs) =
    (ls @ [l @ map snd fs, []], [], NUL, 0)"
  using assms(1)
proof (induction fs arbitrary: l rule: line_text.induct)
  case 1
  then show ?case by (simp add: fields_ok_def)
next
  case (2 f)
  then show ?case
    using assms(3) by (auto simp: fields_ok_def field_ok_def field_text_def cut_word_chars)
next
  case (3 f f' fs)
  then have "fields_ok seps (f' # fs)" "field_ok seps f" by (auto simp: fields_ok_def)
  with 3(1) [of "l @ [snd f]"] cut_field [of seps f ls l] assms(2) show ?case
    by simp
qed

lemma cut_table:
  assumes "list_all (fields_ok seps) t" and "seps CHR '' '' = PF_CHAR_IS_SEPARATOR"
    and "seps CHR 0x0A = PF_CHAR_IS_NEWLINE"
  shows "cut_text seps (table_text t) = map (map snd) t @ [[]]"
proof -
  have "foldl (cut_step seps) (ls @ [[]], [], NUL, 0) (table_text t) = (ls @ map (map snd) t @ [[]], [], NUL, 0)" for ls
    using assms(1)
  proof (induction t arbitrary: ls)
    case (Cons fs t)
    then have "foldl (cut_step seps) (ls @ [[]], [], NUL, 0) (line_text fs) =
        ((ls @ [map snd fs]) @ [[]], [], NUL, 0)"
      using cut_line [of seps fs ls "[]"] assms(2,3) by simp
    with Cons.IH [of "ls @ [map snd fs]"] Cons.prems show ?case by (simp add: table_text_def)
  qed (simp add: table_text_def)
  from this [of "[]"] show ?thesis by (simp add: cut_text_def cut_end_def)
qed

lemma table_text_no_NUL: "list_all (fields_ok seps) t \<Longrightarrow> NUL \<notin> set (table_text t)"
proof -
  have "list_all (field_ok seps) fs \<Longrightarrow> NUL \<notin> set (line_text fs)" for fs
    by (induction fs rule: line_text.induct) (auto simp: field_ok_def field_text_def)
  then show "list_all (fields_ok seps) t \<Longrightarrow> NUL \<notin> set (table_text t)"
    by (induction t) (auto simp: table_text_def fields_ok_def)
qed

text \<open>Reading the tables through the access macros.\<close>

lemma procfile_lineword_contents:
  assumes "tables_ok pf"
  shows "procfile_lines pf = length (procfile_contents pf)"
    and "l < procfile_lines pf \<Longrightarrow> procfile_linewords pf l = length (procfile_contents pf ! l)"
    and "l < procfile_lines pf \<Longrightarrow> w < procfile_linewords pf l \<Longrightarrow>
      procfile_lineword pf l w = procfile_contents pf ! l ! w"
proof -
  let ?ls = "ls_lines (pf_lines pf)"
  have b: "l < length ?ls \<Longrightarrow> l_first (?ls ! l) + l_words (?ls ! l) \<le> length (ws_words (pf_words pf))" for l
    using assms by (auto simp: tables_ok_def)
  show "procfile_lines pf = length (procfile_contents pf)"
    by (simp add: procfile_lines_def procfile_contents_def line_texts_def)
  show "l < procfile_lines pf \<Longrightarrow> procfile_linewords pf l = length (procfile_contents pf ! l)"
    using b [of l]
    by (auto simp: procfile_lines_def procfile_linewords_def procfile_contents_def line_texts_def word_texts_def)
  show "l < procfile_lines pf \<Longrightarrow> w < procfile_linewords pf l \<Longrightarrow>
      procfile_lineword pf l w = procfile_contents pf ! l ! w"
    using b [of l]
    by (auto simp: procfile_lines_def procfile_linewords_def procfile_lineword_def procfile_word_def
        procfile_contents_def line_texts_def word_texts_def)
qed

text \<open>A line as the collectors see it: the word at a position, empty behind the end.\<close>

definition row_word :: "string list \<Rightarrow> nat \<Rightarrow> string" where
  "row_word ws i = (if i < length ws then ws ! i else [])"

lemma procfile_row:
  assumes "tables_ok pf" and "l < procfile_lines pf"
  shows "procfile_linewords pf l = length (procfile_contents pf ! l)"
    and "procfile_lineword pf l = row_word (procfile_contents pf ! l)"
  using procfile_lineword_contents(2,3) [OF assms(1)] assms(2)
  by (auto simp: row_word_def fun_eq_iff procfile_lineword_def)

section \<open>Opened files\<close>

definition procfile_ok :: "proc_file \<Rightarrow> bool" where
  "procfile_ok pf \<longleftrightarrow> tables_ok pf \<and> length (pf_data pf) = pf_size pf"

lemma procfile_set_separators_ok [xm_inv]:
  "procfile_set_separators pf seps = Some pf' \<Longrightarrow> procfile_ok pf \<Longrightarrow> procfile_ok pf'"
  by (auto simp: procfile_set_separators_def procfile_ok_def tables_ok_def)

lemma procfile_set_quotes_ok [xm_inv]:
  "procfile_set_quotes pf qs = Some pf' \<Longrightarrow> procfile_ok pf \<Longrightarrow> procfile_ok pf'"
  by (auto simp: procfile_set_quotes_def procfile_ok_def tables_ok_def Let_def split: option.splits)

lemma procfile_set_open_close_ok [xm_inv]:
  "procfile_set_open_close pf os cs = Some pf' \<Longrightarrow> procfile_ok pf \<Longrightarrow> procfile_ok pf'"
  by (auto simp: procfile_set_open_close_def procfile_ok_def tables_ok_def Let_def
      split: option.splits if_splits)

lemma procfile_open_ok [xm_inv]:
  "procfile_open junk fd name seps flags = Some (Some pf) \<Longrightarrow> procfile_ok pf"
  unfolding procfile_open_def
  by (auto split: if_splits elim!: procfile_set_separators_ok)
    (simp add: procfile_ok_def tables_ok_def new_pflines_def new_pfwords_def)

lemma procfile_reopen_ok [xm_inv]:
  assumes "procfile_reopen junk fd pf name seps flags = Some (Some pf')"
    and "\<And>f. pf = Some f \<Longrightarrow> procfile_ok f"
  shows "procfile_ok pf'"
proof (cases pf)
  case None
  then show ?thesis using assms(1) procfile_open_ok by (simp add: procfile_reopen_def)
next
  case (Some f)
  let ?f = "f\<lparr>pf_fd := fd, pf_filename := strlcpy_str name XM_FILENAME_SIZE, pf_flags := flags\<rparr>"
  have "procfile_ok ?f" using assms(2) [OF Some] by (simp add: procfile_ok_def tables_ok_def)
  then show ?thesis
    using assms(1) Some
    by (auto simp: procfile_reopen_def Let_def split: if_splits option.splits elim!: procfile_set_separators_ok)
qed

section \<open>A collector's file\<close>

lemma end_word_separators [simp]: "pf_separators (p_pf (end_word p)) = pf_separators (p_pf p)"
  by (simp add: end_word_def Let_def inc_line_words_def add_pfword_def)

lemma parser_step_separators [simp]: "pf_separators (p_pf (parser_step p)) = pf_separators (p_pf p)"
  by (simp add: parser_step_def Let_def skip_char_def next_char_def add_pfline_def
      split: procfile_separator_type.split)

lemma parser_loop_separators [simp]: "pf_separators (p_pf (parser_loop n p)) = pf_separators (p_pf p)"
  by (induction n p rule: parser_loop.induct) simp_all

lemma procfile_parser_separators [simp]: "pf_separators (procfile_parser pf) = pf_separators pf"
  by (simp add: procfile_parser_def Let_def add_pfline_def)

text \<open>What the system gives for a path: the result of \<^verbatim>\<open>open\<close>, of \<^verbatim>\<open>read\<close>, and fresh memory.\<close>

record file_io =
  io_open :: int
  io_read :: "nat \<Rightarrow> nat \<Rightarrow> string option"
  io_junk :: "nat \<Rightarrow> char"

text \<open>The start of every collector: open its file unless it is open from an earlier round, and read
  it. The outer \<open>None\<close> is undefined behaviour, the inner one the NULL that both calls return on an
  error.\<close>

definition open_and_read ::
  "file_io \<Rightarrow> string \<Rightarrow> string option \<Rightarrow> u32 \<Rightarrow> proc_file option \<Rightarrow> proc_file option option" where
  "open_and_read io filename separators flags slot =
     (case (case slot of Some pf \<Rightarrow> Some (Some pf)
            | None \<Rightarrow> procfile_open (io_junk io) (io_open io) filename separators flags) of
        None \<Rightarrow> None
      | Some None \<Rightarrow> Some None
      | Some (Some pf) \<Rightarrow> procfile_readall (io_read io) (io_junk io) pf)"

text \<open>A file that can be opened and has the contents \<open>c\<close>.\<close>

definition io_file :: "file_io \<Rightarrow> string \<Rightarrow> bool" where
  "io_file io c \<longleftrightarrow> io_open io \<noteq> - 1 \<and> reads_file (io_read io) c \<and> NUL \<notin> set c"

definition file_of :: "string \<Rightarrow> file_io" where
  "file_of c = \<lparr>io_open = 3, io_read = (\<lambda>pos n. Some (take n (drop pos c))), io_junk = (\<lambda>_. NUL)\<rparr>"

lemma io_file_of [simp]: "io_file (file_of c) c \<longleftrightarrow> NUL \<notin> set c"
  by (auto simp: io_file_def file_of_def reads_file_def take_is_prefix)

text \<open>The separators that opening a file with \<open>s\<close> sets.\<close>

definition seps_of :: "string \<Rightarrow> char \<Rightarrow> procfile_separator_type" where
  "seps_of s c = (if c \<in> set s then PF_CHAR_IS_SEPARATOR else procfile_init_defseps c)"

definition slot_ok :: "string \<Rightarrow> proc_file option \<Rightarrow> bool" where
  "slot_ok s slot \<longleftrightarrow> (\<forall>pf. slot = Some pf \<longrightarrow> procfile_ok pf \<and> pf_separators pf = seps_of s)"

lemma slot_ok_None [simp]: "slot_ok s None"
  by (simp add: slot_ok_def)

lemma procfile_readall_ok:
  assumes "reads_file rd c" and "procfile_ok pf" and "NUL \<notin> set c"
  obtains pf' where "procfile_readall rd junk pf = Some (Some pf')" and "procfile_ok pf'"
    and "procfile_contents pf' = cut_text (pf_separators pf) c" and "pf_separators pf' = pf_separators pf"
proof -
  from assms(2) have d: "length (pf_data pf) = pf_size pf" "tables_ok pf" by (auto simp: procfile_ok_def)
  from procfile_readall_total [OF assms(1) d assms(3), of junk] obtain pf' where
    pf': "procfile_readall rd junk pf = Some (Some pf')" "procfile_contents pf' = cut_text (pf_separators pf) c"
    "tables_ok pf'" "length (pf_data pf') = pf_size pf'" .
  have "buffer_ok (pf\<lparr>pf_len := 0\<rparr>) c" using d by (simp add: buffer_ok_def)
  from read_loop_total [OF assms(1) this, of junk] have "pf_separators pf' = pf_separators pf"
    using pf'(1) by (auto simp: procfile_readall_def)
  with pf' that show ?thesis by (auto simp: procfile_ok_def)
qed

lemma open_and_read_ok:
  assumes "io_file io c" and "slot_ok s slot" and "\<forall>x \<in> set s. code_of x < 128"
  obtains pf where "open_and_read io name (Some s) flags slot = Some (Some pf)" and "slot_ok s (Some pf)"
    and "tables_ok pf" and "procfile_contents pf = cut_text (seps_of s) c"
proof -
  obtain pf0 where pf0: "(case slot of Some pf \<Rightarrow> Some (Some pf)
      | None \<Rightarrow> procfile_open (io_junk io) (io_open io) name (Some s) flags) = Some (Some pf0)"
    "procfile_ok pf0" "pf_separators pf0 = seps_of s"
  proof (cases slot)
    case None
    from assms(3) have "\<not> (\<exists>x \<in> set s. 128 \<le> code_of x)" by (simp add: not_le)
    with assms(1) obtain pf0 where o: "procfile_open (io_junk io) (io_open io) name (Some s) flags = Some (Some pf0)"
      and "pf_separators pf0 = seps_of s"
      by (auto simp: io_file_def procfile_open_def procfile_set_separators_def set_char_types_def
          seps_of_def fun_eq_iff)
    with that None procfile_open_ok [OF o] show ?thesis by simp
  next
    case (Some pf)
    with that assms(2) show ?thesis by (simp add: slot_ok_def)
  qed
  from assms(1) have "reads_file (io_read io) c" "NUL \<notin> set c" by (auto simp: io_file_def)
  from procfile_readall_ok [OF this(1) pf0(2) this(2), of "io_junk io"] obtain pf where
    "procfile_readall (io_read io) (io_junk io) pf0 = Some (Some pf)" "procfile_ok pf"
    "procfile_contents pf = cut_text (pf_separators pf0) c" "pf_separators pf = pf_separators pf0" .
  with pf0 that show ?thesis by (auto simp: open_and_read_def slot_ok_def procfile_ok_def)
qed

section \<open>Properties\<close>

text \<open>C3: reading a file always finishes and refines the reference parser: whatever the separators,
  quotes and parentheses and however the kernel cuts the reads, the lines and words that the
  collectors then see are those of the reference on the file's text; every word ends with a NUL
  inside the buffer and the tables stay within their capacities.\<close>

theorem procfile_readall_refines:
  assumes "reads_file rd c" and "procfile_ok pf" and "NUL \<notin> set c"
  shows "\<exists>pf'. procfile_readall rd junk pf = Some (Some pf') \<and> procfile_ok pf' \<and>
    procfile_contents pf' = cut_text (pf_separators pf) c \<and>
    (\<forall>p \<in> set (ws_words (pf_words pf')). \<exists>q. p \<le> q \<and> q < length (pf_data pf') \<and> pf_data pf' ! q = NUL)"
proof -
  from assms(2) have d: "length (pf_data pf) = pf_size pf" "tables_ok pf" by (auto simp: procfile_ok_def)
  from procfile_readall_total [OF assms(1) d assms(3), of junk] obtain pf' where
    "procfile_readall rd junk pf = Some (Some pf')" "procfile_contents pf' = cut_text (pf_separators pf) c"
    "tables_ok pf'" "words_closed pf' (pf_size pf')" "length (pf_data pf') = pf_size pf'" .
  then show ?thesis by (auto simp: procfile_ok_def words_closed_def)
qed

theorem procfile_readall_refines_witness:
  "\<exists>pf0 pf'. procfile_open (\<lambda>_. NUL) 3 ''/proc/x'' None 0 = Some (Some pf0) \<and>
     procfile_readall (\<lambda>pos n. Some (take n (drop pos ''a=b''))) (\<lambda>_. NUL) pf0 = Some (Some pf') \<and>
     procfile_contents pf' = [[''a'', ''b'']]"
proof -
  let ?rd = "\<lambda>pos n. Some (take n (drop pos ''a=b''))"
  obtain pf0 where o: "procfile_open (\<lambda>_. NUL) 3 ''/proc/x'' None 0 = Some (Some pf0)"
    and seps: "pf_separators pf0 = (\<lambda>c. if c \<in> {CHR '' '', CHR 0x09, CHR ''='', CHR 0x7C}
      then PF_CHAR_IS_SEPARATOR else procfile_init_defseps c)"
    by (auto simp: procfile_open_def procfile_set_separators_def set_char_types_def)
  have "reads_file ?rd ''a=b''" by (auto simp: reads_file_def take_is_prefix)
  moreover have "procfile_ok pf0" using o by (rule procfile_open_ok)
  ultimately have "\<exists>pf'. procfile_readall ?rd (\<lambda>_. NUL) pf0 = Some (Some pf') \<and> procfile_ok pf' \<and>
      procfile_contents pf' = cut_text (pf_separators pf0) ''a=b'' \<and>
      (\<forall>p \<in> set (ws_words (pf_words pf')). \<exists>q. p \<le> q \<and> q < length (pf_data pf') \<and> pf_data pf' ! q = NUL)"
    by (rule procfile_readall_refines) simp
  moreover have "cut_text (pf_separators pf0) ''a=b'' = [[''a'', ''b'']]"
    by (simp add: seps cut_text_def cut_end_def procfile_init_defseps_def is_space_def is_print_def add_word_def)
  ultimately show ?thesis using o by auto
qed

text \<open>C24: a file printed as a table comes back field by field: line \<open>l\<close>, word \<open>w\<close> is the field that
  was printed there. A field in parentheses is one word even if it has spaces in it; behind the
  last newline there is one more line, without words.\<close>

theorem procfile_table_roundtrip:
  assumes "reads_file rd (table_text t)" and "procfile_ok pf" and "list_all (fields_ok (pf_separators pf)) t"
    and "pf_separators pf CHR '' '' = PF_CHAR_IS_SEPARATOR"
    and "pf_separators pf CHR 0x0A = PF_CHAR_IS_NEWLINE"
  shows "\<exists>pf'. procfile_readall rd junk pf = Some (Some pf') \<and> procfile_lines pf' = length t + 1 \<and>
    (\<forall>l < length t. procfile_linewords pf' l = length (t ! l) \<and>
       (\<forall>w < length (t ! l). procfile_lineword pf' l w = snd (t ! l ! w)))"
proof -
  from assms(2) have d: "length (pf_data pf) = pf_size pf" "tables_ok pf" by (auto simp: procfile_ok_def)
  have "NUL \<notin> set (table_text t)" using assms(3) by (rule table_text_no_NUL)
  from procfile_readall_total [OF assms(1) d this, of junk] obtain pf' where
    pf': "procfile_readall rd junk pf = Some (Some pf')"
    "procfile_contents pf' = map (map snd) t @ [[]]" "tables_ok pf'"
    using cut_table [OF assms(3-5)] by metis
  note a = procfile_lineword_contents [OF pf'(3)]
  have l: "procfile_lines pf' = length t + 1" using a(1) pf'(2) by simp
  have "procfile_linewords pf' i = length (t ! i)" if "i < length t" for i
    using a(2) [of i] l that pf'(2) by (simp add: nth_append)
  moreover have "procfile_lineword pf' i w = snd (t ! i ! w)" if "i < length t" "w < length (t ! i)" for i w
    using a(3) [of i w] a(2) [of i] l that pf'(2) by (simp add: nth_append)
  ultimately show ?thesis using pf'(1) l by blast
qed

theorem procfile_table_roundtrip_witness:
  "\<exists>pf0 pf1 pf'. procfile_open (\<lambda>_. NUL) 3 ''/proc/1/stat'' None 0 = Some (Some pf0) \<and>
     procfile_set_open_close pf0 (Some ''('') (Some '')'') = Some pf1 \<and>
     procfile_readall (\<lambda>pos n. Some (take n (drop pos (''1 (a b) S'' @ [CHR 0x0A])))) (\<lambda>_. NUL) pf1 = Some (Some pf') \<and>
     procfile_lineword pf' 0 1 = ''a b'' \<and> procfile_lineword pf' 0 2 = ''S''"
proof -
  let ?t = "[[(False, ''1''), (True, ''a b''), (False, ''S'')]]"
  let ?rd = "\<lambda>pos n. Some (take n (drop pos (table_text ?t)))"
  obtain pf0 where o: "procfile_open (\<lambda>_. NUL) 3 ''/proc/1/stat'' None 0 = Some (Some pf0)"
    and seps0: "pf_separators pf0 = (\<lambda>c. if c \<in> {CHR '' '', CHR 0x09, CHR ''='', CHR 0x7C}
      then PF_CHAR_IS_SEPARATOR else procfile_init_defseps c)"
    by (auto simp: procfile_open_def procfile_set_separators_def set_char_types_def)
  obtain pf1 where s: "procfile_set_open_close pf0 (Some ''('') (Some '')'') = Some pf1"
    and seps: "pf_separators pf1 CHR ''('' = PF_CHAR_IS_OPEN" "pf_separators pf1 CHR '')'' = PF_CHAR_IS_CLOSE"
      "pf_separators pf1 CHR '' '' = PF_CHAR_IS_SEPARATOR" "pf_separators pf1 CHR 0x0A = PF_CHAR_IS_NEWLINE"
      "\<forall>c \<in> set ''1abS''. pf_separators pf1 c = PF_CHAR_IS_WORD"
    using seps0 by (auto simp: procfile_set_open_close_def set_char_types_def procfile_init_defseps_def
        is_space_def is_print_def Let_def)
  have "reads_file ?rd (table_text ?t)" by (auto simp: reads_file_def take_is_prefix)
  moreover have "procfile_ok pf1" using procfile_set_open_close_ok [OF s] procfile_open_ok [OF o] by simp
  ultimately have "\<exists>pf'. procfile_readall ?rd (\<lambda>_. NUL) pf1 = Some (Some pf') \<and> procfile_lines pf' = length ?t + 1 \<and>
    (\<forall>l < length ?t. procfile_linewords pf' l = length (?t ! l) \<and>
       (\<forall>w < length (?t ! l). procfile_lineword pf' l w = snd (?t ! l ! w)))"
    by (rule procfile_table_roundtrip) (use seps in \<open>simp_all add: fields_ok_def field_ok_def\<close>)
  moreover have "table_text ?t = ''1 (a b) S'' @ [CHR 0x0A]" by (simp add: table_text_def field_text_def)
  ultimately obtain pf' where "procfile_readall (\<lambda>pos n. Some (take n (drop pos (''1 (a b) S'' @ [CHR 0x0A])))) (\<lambda>_. NUL) pf1 = Some (Some pf')"
    and w: "\<forall>l < length ?t. \<forall>w < length (?t ! l). procfile_lineword pf' l w = snd (?t ! l ! w)" by auto
  moreover have "procfile_lineword pf' 0 1 = ''a b''" "procfile_lineword pf' 0 2 = ''S''"
    using w [rule_format, of 0 1] w [rule_format, of 0 2] by simp_all
  ultimately show ?thesis using o s by blast
qed

end
