(* ===== verification/XM_Mempool.thy ===== *)
theory XM_Mempool
  imports XM_Prelude
begin

text \<open>
  \<^verbatim>\<open>utils/mempool.c\<close>: the pool of fixed-size units that the process and application collectors
  allocate their records from. The blocks linked through \<^verbatim>\<open>next\<close> are a list, root first. A block
  knows the address of its \<^verbatim>\<open>data\<close>; of the data the model keeps the 32-bit word at the start of
  each unit, where a free unit stores the index of the next free one. Every operation runs under
  the pool's spin lock and is one step. What the system's \<^verbatim>\<open>malloc\<close> returns is an argument.
\<close>

record block =
  data_addr :: nat
  block_size :: nat
  free_unit_count :: nat
  free_unit_pos :: nat
  units :: "nat list"

record mempool =
  unit_size :: nat
  init_mem_unit_count :: nat
  grow_mem_unit_count :: nat
  curr_mem_block_count :: nat
  blocks :: "block list"

section \<open>Operations\<close>

text \<open>\<^verbatim>\<open>ROUNDUP(unit_size, sizeof(uint64_t))\<close>, stored in a \<^verbatim>\<open>uint32_t\<close>.\<close>

definition roundup8 :: "u32 \<Rightarrow> u32" where
  "roundup8 x = ucast (((ucast x :: u64) + (8 - 1)) AND NOT (8 - 1))"

text \<open>The product \<^verbatim>\<open>unit_size * unit_count\<close> is taken in 32 bits.\<close>

definition mul32 :: "nat \<Rightarrow> nat \<Rightarrow> nat" where
  "mul32 a b = (a * b) mod 2 ^ 32"

definition xm_memblock_create :: "nat \<Rightarrow> nat \<Rightarrow> nat option \<Rightarrow> block option" where
  "xm_memblock_create unit_sz unit_count addr =
     map_option (\<lambda>a. \<lparr> data_addr = a, block_size = mul32 unit_sz unit_count,
                       free_unit_count = unit_count - 1, free_unit_pos = 1,
                       units = [1..<unit_count + 1] \<rparr>) addr"

definition xm_mempool_init :: "bool \<Rightarrow> u32 \<Rightarrow> int \<Rightarrow> int \<Rightarrow> mempool option" where
  "xm_mempool_init calloc_ok unit_sz init_count grow_count =
     (if init_count \<le> 0 \<or> grow_count \<le> 0 then None
      else if \<not> calloc_ok then None
      else Some \<lparr> unit_size = unat (roundup8 unit_sz), init_mem_unit_count = nat init_count,
                  grow_mem_unit_count = nat grow_count, curr_mem_block_count = 0, blocks = [] \<rparr>)"

text \<open>The search for the first block with a free unit, and what is taken from it.\<close>

fun take_unit :: "nat \<Rightarrow> block list \<Rightarrow> (block list \<times> nat) option" where
  "take_unit unit_sz [] = None"
| "take_unit unit_sz (b # bs) =
     (if free_unit_count b = 0
      then map_option (\<lambda>(bs', p). (b # bs', p)) (take_unit unit_sz bs)
      else let curr_free_pos = free_unit_pos b
           in Some (b\<lparr> free_unit_pos := units b ! curr_free_pos,
                       free_unit_count := free_unit_count b - 1 \<rparr> # bs,
                    data_addr b + curr_free_pos * unit_sz))"

definition xm_mempool_malloc :: "mempool \<Rightarrow> nat option \<Rightarrow> mempool \<times> nat option" where
  "xm_mempool_malloc pool addr =
     (if blocks pool = []
      then (case xm_memblock_create (unit_size pool) (init_mem_unit_count pool) addr of
              None \<Rightarrow> (pool, None)
            | Some b \<Rightarrow> (pool\<lparr> blocks := [b], curr_mem_block_count := curr_mem_block_count pool + 1 \<rparr>,
                         Some (data_addr b)))
      else (case take_unit (unit_size pool) (blocks pool) of
              Some (bs, p) \<Rightarrow> (pool\<lparr> blocks := bs \<rparr>, Some p)
            | None \<Rightarrow>
                (case xm_memblock_create (unit_size pool) (grow_mem_unit_count pool) addr of
                   None \<Rightarrow> (pool, None)
                 | Some b \<Rightarrow> (pool\<lparr> blocks := b # blocks pool,
                                    curr_mem_block_count := curr_mem_block_count pool + 1 \<rparr>,
                              Some (data_addr b)))))"

text \<open>The search for the block of an address: the blocks before it, the block, the blocks behind it.\<close>

fun find_block :: "nat \<Rightarrow> block list \<Rightarrow> (block list \<times> block \<times> block list) option" where
  "find_block p [] = None"
| "find_block p (b # bs) =
     (if p < data_addr b \<or> data_addr b + block_size b \<le> p
      then map_option (\<lambda>(pre, x, post). (b # pre, x, post)) (find_block p bs)
      else Some ([], b, bs))"

text \<open>Give a unit back to its block.\<close>

definition recycle_unit :: "nat \<Rightarrow> nat \<Rightarrow> block \<Rightarrow> block" where
  "recycle_unit unit_sz p b =
     (let i = (p - data_addr b) div unit_sz
      in b\<lparr> free_unit_count := free_unit_count b + 1, units := (units b)[i := free_unit_pos b],
            free_unit_pos := i \<rparr>)"

text \<open>\<open>None\<close>: the unit size is zero and the division faults, or the block to move to the front has no
  predecessor.\<close>

definition xm_mempool_free :: "mempool \<Rightarrow> nat option \<Rightarrow> (mempool \<times> int) option" where
  "xm_mempool_free pool pfree =
     (case pfree of
        None \<Rightarrow> Some (pool, - 1)
      | Some p \<Rightarrow>
          (case find_block p (blocks pool) of
             None \<Rightarrow> Some (pool, - 1)
           | Some (pre, b, post) \<Rightarrow>
               if unit_size pool = 0 then None
               else let b' = recycle_unit (unit_size pool) p b;
                        root = hd (pre @ [b'])
                    in if block_size b' = mul32 (free_unit_count b') (unit_size pool)
                       then if 1 < curr_mem_block_count pool \<and> free_unit_count root \<noteq> 0
                            then Some (pool\<lparr> blocks := pre @ post,
                                             curr_mem_block_count := curr_mem_block_count pool - 1 \<rparr>, 0)
                            else Some (pool\<lparr> blocks := pre @ b' # post \<rparr>, 0)
                       else if free_unit_count root = 0
                       then if pre = [] then None else Some (pool\<lparr> blocks := b' # pre @ post \<rparr>, 0)
                       else Some (pool\<lparr> blocks := pre @ b' # post \<rparr>, 0)))"

text \<open>What the owner of an allocated unit may do: overwrite it.\<close>

definition overwrite_unit :: "nat \<Rightarrow> nat \<Rightarrow> mempool \<Rightarrow> mempool" where
  "overwrite_unit p v pool =
     (case find_block p (blocks pool) of
        None \<Rightarrow> pool
      | Some (pre, b, post) \<Rightarrow>
          pool\<lparr> blocks := pre @ b\<lparr>units := (units b)[(p - data_addr b) div unit_size pool := v]\<rparr> # post \<rparr>)"

section \<open>The invariant\<close>

text \<open>The free units of a block, in the order in which they will be handed out.\<close>

fun chain :: "nat list \<Rightarrow> nat \<Rightarrow> nat \<Rightarrow> nat list" where
  "chain us p 0 = []"
| "chain us p (Suc k) = p # chain us (us ! p) k"

definition free_list :: "block \<Rightarrow> nat list" where
  "free_list b = chain (units b) (free_unit_pos b) (free_unit_count b)"

definition block_ok :: "nat \<Rightarrow> block \<Rightarrow> bool" where
  "block_ok usz b \<longleftrightarrow> units b \<noteq> [] \<and> block_size b = usz * length (units b) \<and> block_size b < 2 ^ 32 \<and>
     distinct (free_list b) \<and> list_all (\<lambda>i. i < length (units b)) (free_list b)"

definition apart :: "block \<Rightarrow> block \<Rightarrow> bool" where
  "apart b c \<longleftrightarrow> data_addr b + block_size b \<le> data_addr c \<or> data_addr c + block_size c \<le> data_addr b"

definition pool_ok :: "mempool \<Rightarrow> bool" where
  "pool_ok pool \<longleftrightarrow> 0 < unit_size pool \<and> list_all (block_ok (unit_size pool)) (blocks pool) \<and>
     sorted_wrt apart (blocks pool) \<and> curr_mem_block_count pool = length (blocks pool) \<and>
     0 < init_mem_unit_count pool \<and> 0 < grow_mem_unit_count pool \<and>
     unit_size pool * init_mem_unit_count pool < 2 ^ 32 \<and> unit_size pool * grow_mem_unit_count pool < 2 ^ 32"

text \<open>The addresses of the units that are handed out.\<close>

definition live_units :: "nat \<Rightarrow> block \<Rightarrow> nat set" where
  "live_units usz b = {data_addr b + i * usz | i. i < length (units b) \<and> i \<notin> set (free_list b)}"

definition live :: "mempool \<Rightarrow> nat set" where
  "live pool = (\<Union>b \<in> set (blocks pool). live_units (unit_size pool) b)"

text \<open>Fresh memory from the system: room for one more block, apart from all others.\<close>

definition fresh :: "mempool \<Rightarrow> nat option \<Rightarrow> bool" where
  "fresh pool addr \<longleftrightarrow> (\<forall>a. addr = Some a \<longrightarrow>
     (\<forall>b \<in> set (blocks pool).
        data_addr b + block_size b \<le> a \<or>
        a + unit_size pool * (if blocks pool = [] then init_mem_unit_count pool else grow_mem_unit_count pool) \<le> data_addr b))"

section \<open>Free lists\<close>

lemma chain_update: "i \<notin> set (chain us p k) \<Longrightarrow> chain (us[i := v]) p k = chain us p k"
  by (induction us p k rule: chain.induct) auto

lemma length_chain [simp]: "length (chain us p k) = k"
  by (induction us p k rule: chain.induct) auto

lemma chain_fresh: "0 < p \<Longrightarrow> p + k \<le> n \<Longrightarrow> chain [1..<n + 1] p k = [p..<p + k]"
proof (induction k arbitrary: p)
  case (Suc k)
  have "[1..<n + 1] ! p = Suc p" using Suc.prems by (simp del: upt_Suc)
  with Suc show ?case by (simp add: upt_conv_Cons del: upt_Suc)
qed simp

lemma unit_in_block:
  assumes "block_ok usz b" and "i < length (units b)" and "0 < usz"
  shows "data_addr b \<le> data_addr b + i * usz" and "data_addr b + i * usz < data_addr b + block_size b"
  using assms by (auto simp: block_ok_def mult.commute)

lemma live_units_range:
  "block_ok usz b \<Longrightarrow> 0 < usz \<Longrightarrow> p \<in> live_units usz b \<Longrightarrow> data_addr b \<le> p \<and> p < data_addr b + block_size b"
  unfolding live_units_def using unit_in_block by blast

lemma apart_range:
  "apart b c \<Longrightarrow> data_addr b \<le> p \<and> p < data_addr b + block_size b \<Longrightarrow>
   data_addr c \<le> p \<and> p < data_addr c + block_size c \<Longrightarrow> False"
  by (auto simp: apart_def)

lemma apart_sym: "apart b c = apart c b"
  by (auto simp: apart_def)

lemma sorted_wrt_apart_middle:
  "sorted_wrt apart (pre @ b # post) \<longleftrightarrow>
   sorted_wrt apart (pre @ post) \<and> (\<forall>c \<in> set (pre @ post). apart b c)"
  by (auto simp: sorted_wrt_append apart_sym)

lemma unit_index:
  "0 < usz \<Longrightarrow> (data_addr b + i * usz - data_addr b) div usz = i"
  by simp

section \<open>One block changes\<close>

text \<open>The pool with one of its blocks replaced by a block at the same place.\<close>

lemma pool_ok_replace:
  assumes "pool_ok pool" and "blocks pool = pre @ b # post" and "block_ok (unit_size pool) b'"
    and "data_addr b' = data_addr b" and "block_size b' = block_size b"
  shows "pool_ok (pool\<lparr>blocks := pre @ b' # post\<rparr>)"
proof -
  have "apart b' c = apart b c" for c using assms(4,5) by (simp add: apart_def)
  with assms show ?thesis by (auto simp: pool_ok_def sorted_wrt_apart_middle)
qed

lemma live_split:
  "blocks pool = pre @ b # post \<Longrightarrow>
   live pool = live_units (unit_size pool) b \<union> (\<Union>c \<in> set (pre @ post). live_units (unit_size pool) c)"
  by (auto simp: live_def)

lemma not_live_elsewhere:
  assumes "pool_ok pool" and "blocks pool = pre @ b # post"
    and "data_addr b \<le> p" and "p < data_addr b + block_size b"
  shows "p \<notin> (\<Union>c \<in> set (pre @ post). live_units (unit_size pool) c)"
proof
  assume "p \<in> (\<Union>c \<in> set (pre @ post). live_units (unit_size pool) c)"
  then obtain c where c: "c \<in> set (pre @ post)" "p \<in> live_units (unit_size pool) c" by blast
  have "block_ok (unit_size pool) c" "0 < unit_size pool" "apart b c"
    using assms(1,2) c(1) by (auto simp: pool_ok_def list_all_iff sorted_wrt_apart_middle)
  then show False using live_units_range c(2) apart_range assms(3,4) by blast
qed

lemma take_unit_Some:
  "take_unit usz bs = Some (bs', p) \<Longrightarrow>
   \<exists>pre b post. bs = pre @ b # post \<and> free_unit_count b \<noteq> 0 \<and> p = data_addr b + free_unit_pos b * usz \<and>
     bs' = pre @ b\<lparr> free_unit_pos := units b ! free_unit_pos b, free_unit_count := free_unit_count b - 1 \<rparr> # post"
proof (induction bs arbitrary: bs')
  case (Cons b bs)
  show ?case
  proof (cases "free_unit_count b = 0")
    case True
    then obtain bs1 where "take_unit usz bs = Some (bs1, p)" "bs' = b # bs1"
      using Cons.prems by auto
    with Cons.IH show ?thesis by (metis append_Cons)
  next
    case False
    then show ?thesis using Cons.prems by (intro exI [of _ "[]"]) (auto simp: Let_def)
  qed
qed simp

lemma find_block_Some:
  "find_block p bs = Some (pre, b, post) \<Longrightarrow>
   bs = pre @ b # post \<and> data_addr b \<le> p \<and> p < data_addr b + block_size b"
  by (induction bs arbitrary: pre) (auto split: if_splits)

lemma find_block_live:
  assumes "pool_ok pool" and "p \<in> live pool"
  obtains pre b post i where "find_block p (blocks pool) = Some (pre, b, post)" and "blocks pool = pre @ b # post"
    and "p = data_addr b + i * unit_size pool" and "i < length (units b)" and "i \<notin> set (free_list b)"
    and "block_ok (unit_size pool) b"
proof -
  obtain c where c: "c \<in> set (blocks pool)" "p \<in> live_units (unit_size pool) c"
    using assms(2) by (auto simp: live_def)
  have cok: "block_ok (unit_size pool) c" "0 < unit_size pool"
    using assms(1) c(1) by (auto simp: pool_ok_def list_all_iff)
  note r = live_units_range [OF cok c(2)]
  have "find_block p bs \<noteq> None" if "c \<in> set bs" for bs
    using that r by (induction bs) auto
  then obtain pre b post where f: "find_block p (blocks pool) = Some (pre, b, post)" using c(1) by fastforce
  note fb = find_block_Some [OF f]
  have "c = b"
  proof (rule ccontr)
    assume "c \<noteq> b"
    then have "c \<in> set (pre @ post)" using c(1) fb by auto
    then show False using not_live_elsewhere [OF assms(1)] fb c(2) by blast
  qed
  with c that [OF f] fb cok(1) show thesis by (auto simp: live_units_def)
qed

section \<open>Allocation\<close>

lemma memblock_create_ok:
  assumes "0 < usz" and "0 < n" and "usz * n < 2 ^ 32" and "xm_memblock_create usz n addr = Some b"
  shows "block_ok usz b" and "live_units usz b = {data_addr b}" and "addr = Some (data_addr b)"
    and "block_size b = usz * n"
proof -
  obtain a where a: "addr = Some a" using assms(4) by (auto simp: xm_memblock_create_def)
  have m: "mul32 usz n = usz * n" using assms(3) by (simp add: mul32_def)
  have b: "b = \<lparr> data_addr = a, block_size = usz * n, free_unit_count = n - 1, free_unit_pos = 1,
      units = [1..<n + 1] \<rparr>" using assms(4) a m by (simp add: xm_memblock_create_def)
  have f: "free_list b = [1..<n]"
    using chain_fresh [of 1 "n - 1" n] assms(2) by (simp add: free_list_def b del: upt_Suc)
  show "block_ok usz b" "addr = Some (data_addr b)" "block_size b = usz * n"
    using assms(2,3) by (auto simp: block_ok_def f a) (auto simp: b list_all_iff)
  have "{i. i < n \<and> i \<notin> {1..<n}} = {0}" using assms(2) by auto
  then have "live_units usz b = (\<lambda>i. data_addr b + i * usz) ` {0}"
    unfolding live_units_def f by (simp add: b setcompr_eq_image del: upt_Suc)
  then show "live_units usz b = {data_addr b}" by simp
qed

lemma take_unit_ok:
  assumes "pool_ok pool" and "take_unit (unit_size pool) (blocks pool) = Some (bs, p)"
  shows "pool_ok (pool\<lparr>blocks := bs\<rparr>)" and "p \<notin> live pool" and "live (pool\<lparr>blocks := bs\<rparr>) = insert p (live pool)"
proof -
  let ?u = "unit_size pool"
  obtain pre b post where b: "blocks pool = pre @ b # post" "free_unit_count b \<noteq> 0"
    "p = data_addr b + free_unit_pos b * ?u"
    "bs = pre @ b\<lparr> free_unit_pos := units b ! free_unit_pos b, free_unit_count := free_unit_count b - 1 \<rparr> # post"
    using take_unit_Some [OF assms(2)] by auto
  let ?b = "b\<lparr> free_unit_pos := units b ! free_unit_pos b, free_unit_count := free_unit_count b - 1 \<rparr>"
  have ok: "block_ok ?u b" "0 < ?u" using assms(1) b(1) by (auto simp: pool_ok_def)
  have fl: "free_list b = free_unit_pos b # free_list ?b"
    using b(2) by (cases "free_unit_count b") (simp_all add: free_list_def)
  have bok: "block_ok ?u ?b" using ok(1) fl by (simp add: block_ok_def)
  have pos: "free_unit_pos b < length (units b)" "free_unit_pos b \<notin> set (free_list ?b)"
    using ok(1) fl by (auto simp: block_ok_def)
  show "pool_ok (pool\<lparr>blocks := bs\<rparr>)" using pool_ok_replace [OF assms(1) b(1) bok] b(4) by simp
  have "p \<notin> live_units ?u b" using ok(2) fl b(3) by (auto simp: live_units_def)
  then show "p \<notin> live pool"
    using not_live_elsewhere [OF assms(1) b(1)] unit_in_block [OF ok(1) pos(1) ok(2)] b(3) live_split [OF b(1)]
    by simp
  have "live_units ?u ?b = insert p (live_units ?u b)"
    unfolding live_units_def using fl pos b(3) by auto
  then show "live (pool\<lparr>blocks := bs\<rparr>) = insert p (live pool)"
    unfolding live_split [OF b(1)] using b(4) by (simp add: live_def Un_assoc Un_left_commute)
qed

lemma add_block_ok:
  assumes "pool_ok pool" and "fresh pool addr"
    and "n = (if blocks pool = [] then init_mem_unit_count pool else grow_mem_unit_count pool)"
    and "xm_memblock_create (unit_size pool) n addr = Some b"
    and "pool' = pool\<lparr> blocks := b # blocks pool, curr_mem_block_count := curr_mem_block_count pool + 1 \<rparr>"
  shows "pool_ok pool'" and "data_addr b \<notin> live pool" and "live pool' = insert (data_addr b) (live pool)"
proof -
  have n: "0 < unit_size pool" "0 < n" "unit_size pool * n < 2 ^ 32"
    using assms(1,3) by (auto simp: pool_ok_def)
  note b = memblock_create_ok [OF n assms(4)]
  have ap: "apart b c" if "c \<in> set (blocks pool)" for c
    using assms(2,3) that b(3,4) unfolding fresh_def apart_def by auto
  show ok: "pool_ok pool'" using assms(1,5) b(1) ap by (auto simp: pool_ok_def)
  show "live pool' = insert (data_addr b) (live pool)" using b(2) assms(5) by (auto simp: live_def)
  have "blocks pool' = [] @ b # blocks pool" using assms(5) by simp
  from not_live_elsewhere [OF ok this, of "data_addr b"] show "data_addr b \<notin> live pool"
    using n b(4) assms(5) by (simp add: live_def)
qed

lemma malloc_ok:
  assumes "pool_ok pool" and "fresh pool addr" and "xm_mempool_malloc pool addr = (pool', Some p)"
  shows "pool_ok pool' \<and> p \<notin> live pool \<and> live pool' = insert p (live pool)"
proof -
  consider bs where "blocks pool \<noteq> []" "take_unit (unit_size pool) (blocks pool) = Some (bs, p)" "pool' = pool\<lparr>blocks := bs\<rparr>"
    | b where "xm_memblock_create (unit_size pool)
          (if blocks pool = [] then init_mem_unit_count pool else grow_mem_unit_count pool) addr = Some b"
        "pool' = pool\<lparr> blocks := b # blocks pool, curr_mem_block_count := curr_mem_block_count pool + 1 \<rparr>"
        "p = data_addr b"
    using assms(3) by (auto simp: xm_mempool_malloc_def split: if_splits option.splits)
  then show ?thesis
  proof cases
    case 1
    then show ?thesis using take_unit_ok [OF assms(1)] by simp
  next
    case 2
    then show ?thesis using add_block_ok [OF assms(1,2) refl] by simp
  qed
qed

lemma malloc_fail: "xm_mempool_malloc pool addr = (pool', None) \<Longrightarrow> pool' = pool \<and> addr = None"
  by (auto simp: xm_mempool_malloc_def xm_memblock_create_def split: if_splits option.splits)

lemma malloc_gives:
  assumes "addr \<noteq> None"
  obtains pool' p where "xm_mempool_malloc pool addr = (pool', Some p)"
  using assms malloc_fail [of pool addr] by (cases "xm_mempool_malloc pool addr") (metis option.exhaust)

section \<open>Release\<close>

lemma recycle_unit_ok:
  assumes "block_ok usz b" and "0 < usz" and "i < length (units b)" and "i \<notin> set (free_list b)"
    and "b' = recycle_unit usz (data_addr b + i * usz) b"
  shows "block_ok usz b'" and "free_list b' = i # free_list b" and "data_addr b' = data_addr b"
    and "block_size b' = block_size b" and "length (units b') = length (units b)"
    and "live_units usz b' = live_units usz b - {data_addr b + i * usz}"
proof -
  have b': "b' = b\<lparr> free_unit_count := free_unit_count b + 1, units := (units b)[i := free_unit_pos b],
      free_unit_pos := i \<rparr>" using assms(2,5) by (simp add: recycle_unit_def)
  show f: "free_list b' = i # free_list b"
    using assms(3,4) by (simp add: free_list_def b' chain_update)
  show "block_ok usz b'" using assms(1,3,4) f by (simp add: block_ok_def b')
  show "data_addr b' = data_addr b" "block_size b' = block_size b" "length (units b') = length (units b)"
    by (simp_all add: b')
  show "live_units usz b' = live_units usz b - {data_addr b + i * usz}"
    unfolding live_units_def f using assms(2) by (auto simp: b')
qed

lemma full_block_no_live:
  assumes "block_ok usz b" and "0 < usz" and "block_size b = mul32 (free_unit_count b) usz"
  shows "live_units usz b = {}"
proof -
  let ?f = "free_list b"
  have "set ?f \<subseteq> {..<length (units b)}" "distinct ?f" "length ?f = free_unit_count b"
    using assms(1) by (auto simp: block_ok_def list_all_iff free_list_def)
  then have le: "free_unit_count b \<le> length (units b)" and c: "card (set ?f) = free_unit_count b"
    using card_mono [of "{..<length (units b)}" "set ?f"] distinct_card [of ?f] by auto
  have "free_unit_count b * usz < 2 ^ 32"
    using le assms(1) unfolding block_ok_def by (metis le_less_trans mult.commute mult_le_mono1)
  then have "free_unit_count b = length (units b)"
    using assms by (auto simp: block_ok_def mul32_def mult.commute)
  then have "set ?f = {..<length (units b)}"
    using c \<open>set ?f \<subseteq> _\<close> by (intro card_subset_eq) auto
  then show ?thesis by (auto simp: live_units_def)
qed

lemma pool_ok_drop:
  assumes "pool_ok pool" and "blocks pool = pre @ b # post"
  shows "pool_ok (pool\<lparr>blocks := pre @ post, curr_mem_block_count := curr_mem_block_count pool - 1\<rparr>)"
  using assms by (auto simp: pool_ok_def sorted_wrt_apart_middle)

lemma pool_ok_front:
  assumes "pool_ok (pool\<lparr>blocks := pre @ b # post\<rparr>)"
  shows "pool_ok (pool\<lparr>blocks := b # pre @ post\<rparr>)"
  using assms by (auto simp: pool_ok_def sorted_wrt_apart_middle)

lemma free_ok:
  assumes "pool_ok pool" and "p \<in> live pool"
  shows "\<exists>pool'. xm_mempool_free pool (Some p) = Some (pool', 0) \<and> pool_ok pool' \<and> live pool' = live pool - {p}"
proof -
  let ?u = "unit_size pool"
  obtain pre b post i where f: "find_block p (blocks pool) = Some (pre, b, post)" "blocks pool = pre @ b # post"
    "p = data_addr b + i * ?u" "i < length (units b)" "i \<notin> set (free_list b)" "block_ok ?u b"
    using find_block_live [OF assms] .
  have u: "0 < ?u" using assms(1) by (simp add: pool_ok_def)
  define b' where "b' = recycle_unit ?u p b"
  note r = recycle_unit_ok [OF f(6) u f(4,5), of b', folded f(3), OF b'_def]
  have b'0: "free_unit_count b' \<noteq> 0" by (simp add: b'_def recycle_unit_def Let_def)
  have in_b: "data_addr b \<le> p" "p < data_addr b + block_size b"
    using unit_in_block [OF f(6,4) u] f(3) by simp_all
  have rest: "live pool - {p} = live_units ?u b' \<union> (\<Union>c \<in> set (pre @ post). live_units ?u c)"
    unfolding live_split [OF f(2)] r(6) using not_live_elsewhere [OF assms(1) f(2) in_b] by blast
  have ok': "pool_ok (pool\<lparr>blocks := pre @ b' # post\<rparr>)" using pool_ok_replace [OF assms(1) f(2) r(1,3,4)] .
  note e = xm_mempool_free_def [of pool "Some p", simplified f(1) option.case prod.case b'_def [symmetric] Let_def]
  have front: "hd (pre @ [b']) = b'" if "pre = []" using that by simp
  show ?thesis
  proof (cases "block_size b' = mul32 (free_unit_count b') ?u")
    case True
    then have "live_units ?u b' = {}" using full_block_no_live [OF r(1) u] by simp
    then show ?thesis
      using e True u ok' pool_ok_drop [OF assms(1) f(2)] rest by (auto simp: live_def)
  next
    case False
    then show ?thesis
      using e u ok' pool_ok_front [OF ok'] rest b'0 by (auto simp: live_def)
  qed
qed

lemma overwrite_ok:
  assumes "pool_ok pool" and "p \<in> live pool"
  shows "pool_ok (overwrite_unit p v pool) \<and> live (overwrite_unit p v pool) = live pool"
proof -
  let ?u = "unit_size pool"
  obtain pre b post i where f: "find_block p (blocks pool) = Some (pre, b, post)" "blocks pool = pre @ b # post"
    "p = data_addr b + i * ?u" "i < length (units b)" "i \<notin> set (free_list b)" "block_ok ?u b"
    using find_block_live [OF assms] .
  have u: "0 < ?u" using assms(1) by (simp add: pool_ok_def)
  define b' where "b' = b\<lparr>units := (units b)[i := v]\<rparr>"
  have e: "overwrite_unit p v pool = pool\<lparr>blocks := pre @ b' # post\<rparr>"
    using f(1,3) u by (simp add: overwrite_unit_def b'_def)
  have fl: "free_list b' = free_list b" using f(5) by (simp add: free_list_def b'_def chain_update)
  have "block_ok ?u b'" using f(6) fl by (simp add: block_ok_def b'_def)
  moreover have "live_units ?u b' = live_units ?u b" unfolding live_units_def fl by (simp add: b'_def)
  ultimately show ?thesis
    using pool_ok_replace [OF assms(1) f(2), of b'] f(2) by (auto simp: e b'_def live_def)
qed

section \<open>The contract of an allocator\<close>

text \<open>What the collectors rely on when they take their records from a pool. \<open>env\<close> is what the
  environment contributes to an allocation.\<close>

fun alloc_many :: "('s \<Rightarrow> 'e \<Rightarrow> 's \<times> 'p option) \<Rightarrow> 's \<Rightarrow> 'e list \<Rightarrow> 's \<times> 'p list" where
  "alloc_many alloc s [] = (s, [])"
| "alloc_many alloc s (e # es) =
     (case alloc s e of
        (s', None) \<Rightarrow> alloc_many alloc s' es
      | (s', Some p) \<Rightarrow> (let (s2, ps) = alloc_many alloc s' es in (s2, p # ps)))"

fun env_along :: "('s \<Rightarrow> 'e \<Rightarrow> bool) \<Rightarrow> ('s \<Rightarrow> 'e \<Rightarrow> 's \<times> 'p option) \<Rightarrow> 's \<Rightarrow> 'e list \<Rightarrow> bool" where
  "env_along env alloc s [] = True"
| "env_along env alloc s (e # es) = (env s e \<and> env_along env alloc (fst (alloc s e)) es)"

locale allocator =
  fixes ok :: "'s \<Rightarrow> bool"
    and used :: "'s \<Rightarrow> 'p set"
    and env :: "'s \<Rightarrow> 'e \<Rightarrow> bool"
    and alloc :: "'s \<Rightarrow> 'e \<Rightarrow> 's \<times> 'p option"
    and release :: "'s \<Rightarrow> 'p \<Rightarrow> 's option"
  assumes alloc_Some: "ok s \<Longrightarrow> env s e \<Longrightarrow> alloc s e = (s', Some p) \<Longrightarrow>
      ok s' \<and> p \<notin> used s \<and> used s' = insert p (used s)"
    and alloc_None: "alloc s e = (s', None) \<Longrightarrow> s' = s"
    and release_used: "ok s \<Longrightarrow> p \<in> used s \<Longrightarrow> \<exists>s'. release s p = Some s' \<and> ok s' \<and> used s' = used s - {p}"
begin

text \<open>A unit that is given back can be given out again, and the others stay.\<close>

lemma release_alloc:
  assumes "ok s" and "env s e" and "alloc s e = (s1, Some p)"
  shows "\<exists>s2. release s1 p = Some s2 \<and> ok s2 \<and> used s2 = used s"
  using alloc_Some [OF assms] release_used [of s1 p] by auto

lemma alloc_many_distinct:
  assumes "ok s" and "env_along env alloc s es" and "alloc_many alloc s es = (s', ps)"
  shows "ok s' \<and> distinct ps \<and> set ps \<inter> used s = {} \<and> used s' = used s \<union> set ps"
  using assms
proof (induction es arbitrary: s ps)
  case (Cons e es)
  obtain s1 r where a: "alloc s e = (s1, r)" by force
  show ?case
  proof (cases r)
    case None
    with a have "s1 = s" by (auto dest: alloc_None)
    with Cons.IH [of s ps] Cons.prems a None show ?thesis by auto
  next
    case (Some p)
    have 1: "ok s1 \<and> p \<notin> used s \<and> used s1 = insert p (used s)"
      using alloc_Some [OF Cons.prems(1)] Cons.prems(2) a Some by auto
    obtain ps' where ps: "alloc_many alloc s1 es = (s', ps')" "ps = p # ps'"
      using Cons.prems(3) a Some by (auto split: prod.splits)
    with Cons.IH [OF _ _ ps(1)] Cons.prems(2) a 1 show ?thesis by auto
  qed
qed simp

end

definition pool_release :: "mempool \<Rightarrow> nat \<Rightarrow> mempool option" where
  "pool_release pool p = map_option fst (xm_mempool_free pool (Some p))"

interpretation xmp: allocator pool_ok live fresh xm_mempool_malloc pool_release
proof
  fix s e s' p
  assume "pool_ok s" "fresh s e" "xm_mempool_malloc s e = (s', Some p)"
  then show "pool_ok s' \<and> p \<notin> live s \<and> live s' = insert p (live s)" by (rule malloc_ok)
next
  fix s e s'
  assume "xm_mempool_malloc s e = (s', None)"
  then show "s' = s" using malloc_fail by blast
next
  fix s p
  assume "pool_ok s" "p \<in> live s"
  from free_ok [OF this] show "\<exists>s'. pool_release s p = Some s' \<and> pool_ok s' \<and> live s' = live s - {p}"
    by (auto simp: pool_release_def)
qed

section \<open>Runs\<close>

text \<open>What may happen to a pool: an allocation, the release of an allocated unit, a release of an
  address outside every block, and writes of the owners to their units.\<close>

inductive pool_step :: "mempool \<Rightarrow> mempool \<Rightarrow> bool" where
  step_malloc: "fresh pool addr \<Longrightarrow> xm_mempool_malloc pool addr = (pool', r) \<Longrightarrow> pool_step pool pool'"
| step_free: "p \<in> live pool \<Longrightarrow> xm_mempool_free pool (Some p) = Some (pool', r) \<Longrightarrow> pool_step pool pool'"
| step_stray: "find_block p (blocks pool) = None \<Longrightarrow> xm_mempool_free pool (Some p) = Some (pool', r) \<Longrightarrow>
    pool_step pool pool'"
| step_write: "p \<in> live pool \<Longrightarrow> pool_step pool (overwrite_unit p v pool)"

inductive_cases pool_stepE: "pool_step pool pool'"

lemma pool_step_ok: "pool_step pool pool' \<Longrightarrow> pool_ok pool \<Longrightarrow> pool_ok pool'"
proof (erule pool_stepE)
  fix addr r
  assume "pool_ok pool" "fresh pool addr" "xm_mempool_malloc pool addr = (pool', r)"
  then show "pool_ok pool'" using malloc_ok malloc_fail by (cases r) blast+
next
  fix p r
  assume "pool_ok pool" "p \<in> live pool" "xm_mempool_free pool (Some p) = Some (pool', r)"
  then show "pool_ok pool'" using free_ok by fastforce
qed (auto simp: xm_mempool_free_def overwrite_ok)

lemma pool_run_ok: "pool_step\<^sup>*\<^sup>* pool pool' \<Longrightarrow> pool_ok pool \<Longrightarrow> pool_ok pool'"
  by (induction rule: rtranclp_induct) (auto intro: pool_step_ok)

lemma init_ok:
  assumes "xm_mempool_init True usz n g = Some pool" and "0 < unit_size pool"
    and "unit_size pool * nat n < 2 ^ 32" and "unit_size pool * nat g < 2 ^ 32"
  shows "pool_ok pool" and "live pool = {}"
  using assms by (auto simp: xm_mempool_init_def pool_ok_def live_def split: if_splits)

section \<open>Properties\<close>

text \<open>C4: in every state that a pool reaches by allocations, releases and writes of the owners to
  their units, an allocation that returns a unit returns one that is not in use, and the release
  of a unit in use succeeds, without a fault, and takes exactly that unit out of use.\<close>

theorem mempool_correct:
  assumes "xm_mempool_init True usz n g = Some pool0" and "0 < unit_size pool0"
    and "unit_size pool0 * nat n < 2 ^ 32" and "unit_size pool0 * nat g < 2 ^ 32"
    and "pool_step\<^sup>*\<^sup>* pool0 pool"
  shows "(\<forall>addr pool' p. fresh pool addr \<and> xm_mempool_malloc pool addr = (pool', Some p) \<longrightarrow>
            p \<notin> live pool \<and> live pool' = insert p (live pool)) \<and>
    (\<forall>p \<in> live pool. \<exists>pool'. xm_mempool_free pool (Some p) = Some (pool', 0) \<and> live pool' = live pool - {p})"
proof -
  have "pool_ok pool" using pool_run_ok [OF assms(5)] init_ok(1) [OF assms(1-4)] by simp
  then show ?thesis using malloc_ok free_ok by blast
qed

text \<open>The pool of the examples below: units of 8 bytes, two in the first block, one per later block.\<close>

definition pool_example :: mempool where
  "pool_example = \<lparr> unit_size = 8, init_mem_unit_count = 2, grow_mem_unit_count = 1,
     curr_mem_block_count = 0, blocks = [] \<rparr>"

lemma pool_example_init: "xm_mempool_init True 5 2 1 = Some pool_example"
proof -
  have "roundup8 5 = 8" by (simp add: roundup8_def)
  then show ?thesis by (simp add: xm_mempool_init_def pool_example_def)
qed

definition pool_example1 :: mempool where
  "pool_example1 = fst (xm_mempool_malloc pool_example (Some 1000))"

lemma pool_example1_eq:
  "xm_mempool_malloc pool_example (Some 1000) = (pool_example1, Some 1000)"
  "blocks pool_example1 = [\<lparr> data_addr = 1000, block_size = 16, free_unit_count = 1, free_unit_pos = 1, units = [1, 2] \<rparr>]"
  "unit_size pool_example1 = 8"
  by (simp_all add: pool_example1_def pool_example_def xm_mempool_malloc_def xm_memblock_create_def mul32_def upt_conv_Cons)

theorem mempool_correct_witness:
  "\<exists>pool' pool''. xm_mempool_malloc pool_example1 None = (pool', Some 1008) \<and> 1008 \<notin> live pool_example1 \<and>
     xm_mempool_free pool_example1 (Some 1000) = Some (pool'', 0) \<and> live pool'' = live pool_example1 - {1000}"
proof -
  have "pool_step pool_example pool_example1"
    using pool_example1_eq(1) by (rule step_malloc [rotated]) (simp add: fresh_def pool_example_def)
  then have run: "pool_step\<^sup>*\<^sup>* pool_example pool_example1" by blast
  have c: "(\<forall>addr pool' p. fresh pool_example1 addr \<and> xm_mempool_malloc pool_example1 addr = (pool', Some p) \<longrightarrow>
            p \<notin> live pool_example1 \<and> live pool' = insert p (live pool_example1)) \<and>
    (\<forall>p \<in> live pool_example1. \<exists>pool'. xm_mempool_free pool_example1 (Some p) = Some (pool', 0) \<and>
       live pool' = live pool_example1 - {p})"
    by (rule mempool_correct [OF pool_example_init _ _ _ run]) (simp_all add: pool_example_def)
  have "1000 \<in> live pool_example1"
    by (auto simp: live_def live_units_def pool_example1_eq free_list_def intro!: exI [of _ 0])
  moreover have "fresh pool_example1 None" by (simp add: fresh_def)
  moreover have "\<exists>pool'. xm_mempool_malloc pool_example1 None = (pool', Some 1008)"
    by (simp add: xm_mempool_malloc_def pool_example1_eq)
  ultimately show ?thesis using c by blast
qed

text \<open>A sequence of allocations hands out distinct units, none of them in use before, as long as
  the system's memory for new blocks does not overlap the blocks that are there.\<close>

lemma mempool_units_distinct:
  assumes "pool_ok pool" and "env_along fresh xm_mempool_malloc pool as"
    and "alloc_many xm_mempool_malloc pool as = (pool', ps)"
  shows "distinct ps \<and> set ps \<inter> live pool = {} \<and> live pool' = live pool \<union> set ps"
  using xmp.alloc_many_distinct [OF assms] by blast

lemma mempool_units_distinct_witness:
  "\<exists>pool' ps. alloc_many xm_mempool_malloc pool_example [Some 1000, None, Some 2000] = (pool', ps) \<and>
     length ps = 3 \<and> distinct ps \<and> live pool' = set ps"
proof -
  let ?as = "[Some 1000, None, Some 2000]"
  obtain pool' ps where a: "alloc_many xm_mempool_malloc pool_example ?as = (pool', ps)" and l: "length ps = 3"
    by (simp add: xm_mempool_malloc_def pool_example_def xm_memblock_create_def mul32_def)
  have ok: "pool_ok pool_example" "live pool_example = {}"
    by (rule init_ok [OF pool_example_init]; simp add: pool_example_def)+
  have "env_along fresh xm_mempool_malloc pool_example ?as"
    by (simp add: xm_mempool_malloc_def pool_example_def xm_memblock_create_def mul32_def fresh_def)
  from mempool_units_distinct [OF ok(1) this a] show ?thesis using a l ok(2) by auto
qed

end
