(* ===== verification/XM_Os.thy ===== *)
theory XM_Os
  imports XM_Procfile
begin

text \<open>
  \<^verbatim>\<open>utils/files.c\<close> and the parts of \<^verbatim>\<open>utils/os.c\<close> that the process and application collectors
  call: small files as numbers, the command line, the descendants of a process, the memory sizes
  of \<^verbatim>\<open>/proc/<pid>/smaps\<close> and the number of processors. What the kernel returns for a file is an
  argument.
\<close>

type_synonym pid = i32

definition EINVAL :: int where "EINVAL = 22"
definition XM_NUMBER_BUFFER_SIZE :: nat where "XM_NUMBER_BUFFER_SIZE = 32"
definition XM_PROC_CONTENT_BUF_SIZE :: nat where "XM_PROC_CONTENT_BUF_SIZE = 4096"
definition XM_CHILDPID_COUNT_MAX :: nat where "XM_CHILDPID_COUNT_MAX = 256"

section \<open>Small files\<close>

text \<open>A file as \<^verbatim>\<open>open\<close> and one \<^verbatim>\<open>read\<close> of at most \<open>n\<close> bytes show it: \<open>None\<close> when one of them fails.\<close>

type_synonym file_read = "nat \<Rightarrow> string option"

definition read_file :: "file_read \<Rightarrow> nat \<Rightarrow> int \<times> string" where
  "read_file f buffer_size =
     (if buffer_size = 0 then (- EINVAL, [])
      else case f buffer_size of None \<Rightarrow> (- 1, []) | Some bs \<Rightarrow> (int (length bs), bs))"

definition read_file_to_uint64 :: "file_read \<Rightarrow> int \<times> u64" where
  "read_file_to_uint64 f =
     (let (read_size, buf) = read_file f (XM_NUMBER_BUFFER_SIZE - 1)
      in if read_size < 0 then (read_size, 0) else (0, str2uint64_t (cstr buf)))"

definition read_file_to_int64 :: "file_read \<Rightarrow> int \<times> i64" where
  "read_file_to_int64 f =
     (let (read_size, buf) = read_file f (XM_NUMBER_BUFFER_SIZE - 1)
      in if read_size < 0 then (read_size, 0) else (0, fst (str2int64_t (cstr buf))))"

section \<open>The command line\<close>

text \<open>Arguments are separated by NULs, which become spaces. The buffer has \<open>size\<close> bytes and room
  for one more; \<open>open_ok\<close> is whether \<^verbatim>\<open>open\<close> succeeds.\<close>

definition read_proc_pid_cmdline :: "bool \<Rightarrow> file_read \<Rightarrow> string \<Rightarrow> nat \<Rightarrow> int \<times> string" where
  "read_proc_pid_cmdline open_ok f cmdline n =
     (let unknown = strlcpy cmdline ''<unknown>'' n;
          fail = (\<lambda>rc. (if n \<le> snd unknown then - 3 else rc, fst unknown))
      in if \<not> open_ok then fail (- 1)
         else case f n of
                None \<Rightarrow> fail (- 2)
              | Some bs \<Rightarrow> (0, map (\<lambda>c. if c = NUL then CHR '' '' else c) bs @ NUL # drop (length bs + 1) cmdline))"

text \<open>For evaluation: the text for an unknown command is only made when it is needed.\<close>

lemma read_proc_pid_cmdline_code [code]:
  "read_proc_pid_cmdline open_ok f cmdline n =
     (if open_ok
      then (case f n of
              Some bs \<Rightarrow> (0, map (\<lambda>c. if c = NUL then CHR '' '' else c) bs @ NUL # drop (length bs + 1) cmdline)
            | None \<Rightarrow> (case strlcpy cmdline ''<unknown>'' n of (b, l) \<Rightarrow> (if n \<le> l then - 3 else - 2, b)))
      else (case strlcpy cmdline ''<unknown>'' n of (b, l) \<Rightarrow> (if n \<le> l then - 3 else - 1, b)))"
  by (simp add: read_proc_pid_cmdline_def Let_def split: option.split prod.split)

section \<open>Descendants\<close>

text \<open>The children file of a process, as numbers.\<close>

definition child_pids :: "(pid \<Rightarrow> string option) \<Rightarrow> pid \<Rightarrow> pid list" where
  "child_pids children ppid =
     (case children ppid of
        None \<Rightarrow> []
      | Some line \<Rightarrow>
          (case strsplit_to_nums (Some line) (Some '' '') (Some (replicate XM_CHILDPID_COUNT_MAX 0))
                  (of_nat XM_CHILDPID_COUNT_MAX) of
             (Some ns, n) \<Rightarrow> map ucast (take (nat n) ns)
           | (None, n) \<Rightarrow> []))"

text \<open>\<^verbatim>\<open>__get_all_childpids\<close> appends the children of a process and then visits each child; the
  processes still to be visited are the list argument. \<open>None\<close>: the recursion does not end.\<close>

partial_function (option) get_all_childpids ::
  "(pid \<Rightarrow> string option) \<Rightarrow> pid list \<Rightarrow> pid list \<Rightarrow> pid list option" where
  "get_all_childpids children todo pids =
     (case todo of
        [] \<Rightarrow> Some pids
      | p # ps \<Rightarrow> get_all_childpids children (child_pids children p @ ps) (pids @ child_pids children p))"

declare get_all_childpids.simps [code]

definition get_process_descendant_pids :: "(pid \<Rightarrow> string option) \<Rightarrow> pid \<Rightarrow> (int \<times> pid list) option" where
  "get_process_descendant_pids children p =
     (if sint p < 0 then Some (- 1, [])
      else map_option (\<lambda>pids. (int (length pids), pids)) (get_all_childpids children [p] []))"

section \<open>Memory sizes\<close>

record smaps_info =
  smaps_fd :: int
  rss :: u64
  pss :: u64
  pss_anon :: u64
  pss_file :: u64
  pss_shmem :: u64
  uss :: u64

definition check_line_is_rss :: "string \<Rightarrow> bool" where
  "check_line_is_rss line = has_prefix ''Rss:'' line"

definition check_line_is_pss :: "string \<Rightarrow> bool" where
  "check_line_is_pss line =
     (has_prefix ''Pss:'' line \<or> has_prefix ''Pss_Anon:'' line \<or> has_prefix ''Pss_File:'' line \<or>
      has_prefix ''Pss_Shmem:'' line)"

definition check_line_is_uss :: "string \<Rightarrow> bool" where
  "check_line_is_uss line = (has_prefix ''Private_C'' line \<or> has_prefix ''Private_D'' line)"

fun get_mss_val :: "u64 \<Rightarrow> string \<Rightarrow> u64" where
  "get_mss_val val [] = val"
| "get_mss_val val (c # cs) =
     (if is_digit c then get_mss_val (val * 10 + of_nat (digit_val c)) cs
      else if val > 0 then val else get_mss_val val cs)"

text \<open>One line: the first tag of \<^verbatim>\<open>__smaps_line_tags\<close> that fits; the match flags are cleared for
  every line.\<close>

definition smaps_line :: "smaps_info \<Rightarrow> string \<Rightarrow> smaps_info" where
  "smaps_line info line =
     (if check_line_is_rss line then info\<lparr>rss := rss info + get_mss_val 0 line\<rparr>
      else if check_line_is_pss line then info\<lparr>pss := pss info + get_mss_val 0 line\<rparr>
      else if check_line_is_uss line then info\<lparr>uss := uss info + get_mss_val 0 line\<rparr>
      else info)"

text \<open>The lines of a block: what is left behind the last newline, and the sums.\<close>

function smaps_block :: "string \<Rightarrow> smaps_info \<Rightarrow> string \<times> smaps_info" where
  "smaps_block cursor info =
     (let line = takeWhile (\<lambda>c. c \<noteq> CHR 0x0A) (cstr cursor)
      in if length line < length (cstr cursor)
         then let info' = smaps_line info line; rest = drop (length line + 1) cursor
              in if rest \<noteq> [] then smaps_block rest info' else ([], info')
         else (cursor, info))"
  by pat_completeness auto
termination
  by (relation "measure (\<lambda>(c, i). length c)") auto

declare smaps_block.simps [simp del]

text \<open>The block reads. \<open>rd\<close> is \<^verbatim>\<open>read\<close> at an offset; \<open>Inl\<close> is a read error.\<close>

partial_function (option) smaps_read ::
  "(nat \<Rightarrow> nat \<Rightarrow> string option) \<Rightarrow> nat \<Rightarrow> string \<Rightarrow> smaps_info \<Rightarrow> (smaps_info + smaps_info) option" where
  "smaps_read rd pos rest info =
     (case rd pos (XM_PROC_CONTENT_BUF_SIZE - length rest - 1) of
        None \<Rightarrow> Some (Inl info)
      | Some bs \<Rightarrow>
          if bs = [] then Some (Inr info)
          else let (rest', info') = smaps_block (rest @ bs) info
               in smaps_read rd (pos + length bs) rest' info')"

declare smaps_read.simps [code]

text \<open>\<open>open_fd\<close>: what \<^verbatim>\<open>open\<close> returns for \<^verbatim>\<open>smaps_rollup\<close>, or for \<^verbatim>\<open>smaps\<close> when that file does not exist.
  An open file is rewound instead. Opening clears the whole structure.\<close>

definition get_mss_from_smaps ::
  "int \<Rightarrow> (nat \<Rightarrow> nat \<Rightarrow> string option) \<Rightarrow> smaps_info \<Rightarrow> (smaps_info \<times> int) option" where
  "get_mss_from_smaps open_fd rd info =
     (let info1 = (if smaps_fd info \<le> 0
                   then \<lparr>smaps_fd = open_fd, rss = 0, pss = 0, pss_anon = 0, pss_file = 0, pss_shmem = 0, uss = 0\<rparr>
                   else info)
      in if smaps_fd info \<le> 0 \<and> open_fd = - 1 then Some (info1, - 1)
         else case smaps_read rd 0 [] info1 of
                None \<Rightarrow> None
              | Some (Inl i) \<Rightarrow> Some (i\<lparr>smaps_fd := 0\<rparr>, - 1)
              | Some (Inr i) \<Rightarrow> Some (i, 0))"

section \<open>Processors\<close>

text \<open>The count of lines whose first word starts with \<open>cpu\<close>, less the summary line, at least one.
  \<open>open_fd\<close> and \<open>rd\<close> are for \<^verbatim>\<open>/proc/stat\<close>; an already known count above one is kept.\<close>

definition cpu_lines :: "proc_file \<Rightarrow> nat" where
  "cpu_lines pf =
     length (filter (\<lambda>l. procfile_linewords pf l \<noteq> 0 \<and> has_prefix ''cpu'' (procfile_lineword pf l 0))
       [0..<procfile_lines pf])"

definition get_cpu_cores_num ::
  "(nat \<Rightarrow> char) \<Rightarrow> int \<Rightarrow> (nat \<Rightarrow> nat \<Rightarrow> string option) \<Rightarrow> u32 \<Rightarrow> u32 option" where
  "get_cpu_cores_num junk open_fd rd cpu_cores_num =
     (if cpu_cores_num > 1 then Some cpu_cores_num
      else case procfile_open junk open_fd ''/proc/stat'' None 0 of
             None \<Rightarrow> None
           | Some None \<Rightarrow> Some cpu_cores_num
           | Some (Some pf) \<Rightarrow>
               (case procfile_readall rd junk pf of
                  None \<Rightarrow> None
                | Some None \<Rightarrow> Some cpu_cores_num
                | Some (Some pf1) \<Rightarrow> (let n = of_nat (cpu_lines pf1) - 1 in Some (if n < 1 then 1 else n))))"

section \<open>Blocks and lines\<close>

text \<open>The complete lines of a text and the rest behind the last newline.\<close>

definition lines_of :: "string \<Rightarrow> string list" where
  "lines_of c = butlast (XM_Strings.fields (\<lambda>c. c = CHR 0x0A) c)"

definition rest_of :: "string \<Rightarrow> string" where
  "rest_of c = last (XM_Strings.fields (\<lambda>c. c = CHR 0x0A) c)"

lemma fields_not_Nil [simp]: "XM_Strings.fields P s \<noteq> []"
  by (induction s) (auto split: list.split)

abbreviation newline :: char where
  "newline \<equiv> CHR 0x0A"

lemma until_newline [simp]:
  "newline \<notin> set l \<Longrightarrow> takeWhile (\<lambda>c. c \<noteq> newline) (l @ newline # t) = l"
  "newline \<notin> set l \<Longrightarrow> dropWhile (\<lambda>c. c \<noteq> newline) (l @ newline # t) = newline # t"
  "newline \<notin> set l \<Longrightarrow> takeWhile (\<lambda>c. c \<noteq> newline) l = l"
  "newline \<notin> set l \<Longrightarrow> dropWhile (\<lambda>c. c \<noteq> newline) l = []"
  by (induction l) auto

lemma lines_rest_simps [simp]:
  "newline \<notin> set c \<Longrightarrow> lines_of c = []" "newline \<notin> set c \<Longrightarrow> rest_of c = c"
  "newline \<notin> set l \<Longrightarrow> lines_of (l @ newline # t) = l # lines_of t"
  "newline \<notin> set l \<Longrightarrow> rest_of (l @ newline # t) = rest_of t"
  by (simp_all add: lines_of_def rest_of_def fields_unfold [of _ c] fields_unfold [of _ "l @ newline # t"])

lemma lines_induct [case_names rest line]:
  assumes "\<And>c. newline \<notin> set c \<Longrightarrow> P c" and "\<And>l t. newline \<notin> set l \<Longrightarrow> P t \<Longrightarrow> P (l @ newline # t)"
  shows "P c"
proof (induction "length c" arbitrary: c rule: less_induct)
  case less
  show ?case
  proof (cases "newline \<in> set c")
    case True
    then obtain l t where "c = l @ newline # t" "newline \<notin> set l" by (metis split_list_first)
    then show ?thesis using assms(2) less by simp
  qed (rule assms(1))
qed

text \<open>Cutting a text anywhere and carrying the rest over gives the lines of the whole text.\<close>

lemma lines_of_append:
  "lines_of (x @ y) = lines_of x @ lines_of (rest_of x @ y)" "rest_of (x @ y) = rest_of (rest_of x @ y)"
  by (induction x rule: lines_induct) auto

lemma rest_of_no_newline: "newline \<notin> set (rest_of x)"
  by (induction x rule: lines_induct) auto

lemma rest_of_set: "set (rest_of x) \<subseteq> set x"
  by (induction x rule: lines_induct) auto

lemma smaps_block_eq:
  "NUL \<notin> set s \<Longrightarrow> smaps_block s info = (rest_of s, foldl smaps_line info (lines_of s))"
proof (induction s arbitrary: info rule: lines_induct)
  case (rest c)
  then have "cstr c = c" by (auto simp: cstr_def takeWhile_eq_all_conv)
  with rest show ?case by (subst smaps_block.simps) simp
next
  case (line l t)
  then have "cstr (l @ newline # t) = l @ newline # t" by (auto simp: cstr_def takeWhile_eq_all_conv)
  with line show ?case by (subst smaps_block.simps) (cases t, auto simp: Let_def)
qed

text \<open>Lines that fit into the block buffer: the rest carried over never fills it.\<close>

definition short_lines :: "string \<Rightarrow> bool" where
  "short_lines c \<longleftrightarrow> (\<forall>l \<in> set (lines_of c). length l < XM_PROC_CONTENT_BUF_SIZE - 1) \<and>
     length (rest_of c) < XM_PROC_CONTENT_BUF_SIZE - 1"

lemma short_lines_rest:
  assumes "short_lines (x @ y)"
  shows "length (rest_of x) < XM_PROC_CONTENT_BUF_SIZE - 1"
proof -
  let ?r = "rest_of x"
  have n: "newline \<notin> set ?r" by (rule rest_of_no_newline)
  have s: "short_lines (?r @ y)"
    using assms by (simp add: short_lines_def lines_of_append [of x y])
  show ?thesis
  proof (cases "newline \<in> set y")
    case True
    then obtain l t where "y = l @ newline # t" "newline \<notin> set l" by (metis split_list_first)
    then have "?r @ l \<in> set (lines_of (?r @ y))"
      using n lines_rest_simps(3) [of "?r @ l" t] by simp
    then show ?thesis using s by (auto simp: short_lines_def)
  next
    case False
    then show ?thesis using s n by (auto simp: short_lines_def)
  qed
qed

lemma smaps_read_eq:
  assumes "reads_file rd c" and "NUL \<notin> set c" and "short_lines c" and "pos \<le> length c"
  shows "smaps_read rd pos (rest_of (take pos c)) info = Some (Inr (foldl smaps_line info (lines_of (rest_of (take pos c) @ drop pos c))))"
  using assms(4)
proof (induction "length c - pos" arbitrary: pos info rule: less_induct)
  case less
  let ?r = "rest_of (take pos c)"
  have r: "length ?r < XM_PROC_CONTENT_BUF_SIZE - 1"
    using short_lines_rest [of "take pos c" "drop pos c"] assms(3) by simp
  obtain bs where bs: "rd pos (XM_PROC_CONTENT_BUF_SIZE - length ?r - 1) = Some bs" "prefix bs (drop pos c)"
    "pos < length c \<longrightarrow> bs \<noteq> []"
    using assms(1) r unfolding reads_file_def by (metis diff_diff_left add.commute zero_less_diff)
  show ?case
  proof (cases "bs = []")
    case True
    then have "drop pos c = []" using bs(3) less.prems by auto
    moreover have "lines_of ?r = []" using rest_of_no_newline by simp
    ultimately show ?thesis using bs True by (subst smaps_read.simps) simp
  next
    case False
    let ?q = "pos + length bs"
    obtain y where y: "drop pos c = bs @ y" using bs(2) by (auto simp: prefix_def)
    have "length c - pos = length bs + length y" using arg_cong [OF y, of length] by simp
    then have "?q \<le> length c" using less.prems by linarith
    moreover have "drop ?q c = y" using y by (metis append_eq_conv_conj drop_drop add.commute)
    moreover have "take ?q c = take pos c @ bs" using y by (simp add: take_add)
    ultimately have q: "?q \<le> length c" "drop ?q c = y" "take ?q c = take pos c @ bs" by auto
    have nul: "NUL \<notin> set (?r @ bs)"
      using assms(2) rest_of_set [of "take pos c"] y by (auto dest: in_set_takeD) (metis UnI1 in_set_dropD set_append)
    have "length c - ?q < length c - pos" using False q(1) by (cases bs) auto
    from less.hyps [OF this q(1)]
    have "smaps_read rd ?q (rest_of (?r @ bs)) (foldl smaps_line info (lines_of (?r @ bs))) =
        Some (Inr (foldl smaps_line (foldl smaps_line info (lines_of (?r @ bs))) (lines_of (rest_of (?r @ bs) @ y))))"
      unfolding q(2,3) lines_of_append(2) [of "take pos c" bs] .
    then show ?thesis
      using bs(1) False nul y lines_of_append(1) [of "?r @ bs" y]
      by (subst smaps_read.simps) (simp add: smaps_block_eq)
  qed
qed

section \<open>The process tree\<close>

definition child_rel :: "(pid \<Rightarrow> string option) \<Rightarrow> pid rel" where
  "child_rel children = {(p, k). k \<in> set (child_pids children p)}"

lemma child_pids_tokens:
  "children p = Some line \<Longrightarrow>
   child_pids children p = map (\<lambda>t. ucast (strtoull t)) (take XM_CHILDPID_COUNT_MAX (tokens '' '' line))"
  by (cases "line = []")
    (auto simp: child_pids_def strsplit_to_nums_def strsplit_to_nums_loop_eq XM_CHILDPID_COUNT_MAX_def
      tokens_def Let_def min_def)

lemma trancl_children:
  "(p, q) \<in> (child_rel children)\<^sup>+ \<longleftrightarrow>
     (\<exists>k \<in> set (child_pids children p). q = k \<or> (k, q) \<in> (child_rel children)\<^sup>+)"
proof -
  have "(p, q) \<in> (child_rel children)\<^sup>+ \<longleftrightarrow> (\<exists>k. (p, k) \<in> child_rel children \<and> (k, q) \<in> (child_rel children)\<^sup>*)"
    by (meson trancl_unfold_left relcompE relcompI tranclD rtrancl_into_trancl2)
  then show ?thesis by (auto simp: child_rel_def rtrancl_eq_or_trancl)
qed

lemma get_all_childpids_visit:
  assumes "\<And>p k. k \<in> set (child_pids children p) \<Longrightarrow> rank k < (rank p :: nat)"
  shows "\<exists>ts. set ts = {q. (p, q) \<in> (child_rel children)\<^sup>+} \<and>
    (\<forall>ps acc. get_all_childpids children (p # ps) acc = get_all_childpids children ps (acc @ ts))"
proof (induction "rank p" arbitrary: p rule: less_induct)
  case less
  have "\<exists>us. set us = {q. \<exists>k \<in> set ks. (k, q) \<in> (child_rel children)\<^sup>+} \<and>
      (\<forall>ps acc. get_all_childpids children (ks @ ps) acc = get_all_childpids children ps (acc @ us))"
    if "set ks \<subseteq> set (child_pids children p)" for ks
    using that
  proof (induction ks)
    case (Cons k ks)
    then have "rank k < rank p" using assms by simp
    from less [OF this] obtain ts where ts: "set ts = {q. (k, q) \<in> (child_rel children)\<^sup>+}"
      "\<forall>ps acc. get_all_childpids children (k # ps) acc = get_all_childpids children ps (acc @ ts)" by blast
    from Cons obtain us where us: "set us = {q. \<exists>k \<in> set ks. (k, q) \<in> (child_rel children)\<^sup>+}"
      "\<forall>ps acc. get_all_childpids children (ks @ ps) acc = get_all_childpids children ps (acc @ us)" by auto
    show ?case by (intro exI [of _ "ts @ us"]) (use ts us in auto)
  qed simp
  from this [of "child_pids children p"] obtain us where
    us: "set us = {q. \<exists>k \<in> set (child_pids children p). (k, q) \<in> (child_rel children)\<^sup>+}"
    "\<forall>ps acc. get_all_childpids children (child_pids children p @ ps) acc = get_all_childpids children ps (acc @ us)"
    by auto
  have "set (child_pids children p @ us) = {q. (p, q) \<in> (child_rel children)\<^sup>+}"
    unfolding trancl_children [of p] using us(1) by auto
  moreover have "\<forall>ps acc. get_all_childpids children (p # ps) acc =
      get_all_childpids children ps (acc @ child_pids children p @ us)"
    using us(2) by (subst get_all_childpids.simps) simp
  ultimately show ?case by blast
qed

section \<open>Properties\<close>

text \<open>C27: the sizes read from \<^verbatim>\<open>smaps\<close> do not depend on how the kernel cuts the file into reads: the
  block loop ends and has added up exactly the complete lines of the file, as long as no line is
  longer than the block.\<close>

theorem smaps_blocks_equal_lines:
  assumes "reads_file rd c" and "NUL \<notin> set c" and "short_lines c" and "smaps_fd info \<le> 0" and "fd \<noteq> - 1"
  shows "get_mss_from_smaps fd rd info =
    Some (foldl smaps_line \<lparr>smaps_fd = fd, rss = 0, pss = 0, pss_anon = 0, pss_file = 0, pss_shmem = 0, uss = 0\<rparr>
            (lines_of c), 0)"
proof -
  have "rest_of (take 0 c) = []" by simp
  with smaps_read_eq [OF assms(1-3), of 0] assms(4,5) show ?thesis
    by (simp add: get_mss_from_smaps_def Let_def)
qed

text \<open>A \<^verbatim>\<open>smaps_rollup\<close> file, one line a row.\<close>

definition rollup_example :: string where
  "rollup_example = concat (map (\<lambda>l. l @ [newline])
     [''Rss: 100 kB'', ''Pss: 60 kB'', ''Pss_Anon: 40 kB'', ''Pss_File: 20 kB'', ''Private_Clean: 7 kB'',
      ''Private_Dirty: 30 kB''])"

lemma rollup_lines:
  "lines_of rollup_example = [''Rss: 100 kB'', ''Pss: 60 kB'', ''Pss_Anon: 40 kB'', ''Pss_File: 20 kB'',
     ''Private_Clean: 7 kB'', ''Private_Dirty: 30 kB'']" "rest_of rollup_example = []"
  by (simp_all add: lines_of_def rest_of_def rollup_example_def)

lemma rollup_readable:
  "reads_file (\<lambda>pos n. Some (take n (drop pos rollup_example))) rollup_example"
  "NUL \<notin> set rollup_example" "short_lines rollup_example"
proof -
  show "reads_file (\<lambda>pos n. Some (take n (drop pos rollup_example))) rollup_example"
    by (auto simp: reads_file_def take_is_prefix)
  show "NUL \<notin> set rollup_example" by (simp add: rollup_example_def)
  show "short_lines rollup_example"
    by (simp add: short_lines_def rollup_lines XM_PROC_CONTENT_BUF_SIZE_def)
qed

lemma rollup_sums:
  "foldl smaps_line \<lparr>smaps_fd = 3, rss = 0, pss = 0, pss_anon = 0, pss_file = 0, pss_shmem = 0, uss = 0\<rparr>
     (lines_of rollup_example) =
   \<lparr>smaps_fd = 3, rss = 100, pss = 120, pss_anon = 0, pss_file = 0, pss_shmem = 0, uss = 37\<rparr>"
  unfolding rollup_lines
  by (simp add: smaps_line_def check_line_is_rss_def check_line_is_pss_def check_line_is_uss_def
      is_digit_def digit_val_def)

theorem smaps_blocks_equal_lines_witness:
  "get_mss_from_smaps 3 (\<lambda>pos n. Some (take n (drop pos rollup_example)))
     \<lparr>smaps_fd = 0, rss = 0, pss = 0, pss_anon = 0, pss_file = 0, pss_shmem = 0, uss = 0\<rparr> =
   Some (\<lparr>smaps_fd = 3, rss = 100, pss = 120, pss_anon = 0, pss_file = 0, pss_shmem = 0, uss = 37\<rparr>, 0)"
proof -
  let ?i = "\<lparr>smaps_fd = 0, rss = 0, pss = 0, pss_anon = 0, pss_file = 0, pss_shmem = 0, uss = 0\<rparr> :: smaps_info"
  have "smaps_fd ?i \<le> 0" "(3::int) \<noteq> - 1" by simp_all
  from smaps_blocks_equal_lines [OF rollup_readable this] show ?thesis unfolding rollup_sums .
qed

text \<open>The proportional size is counted twice: every \<^verbatim>\<open>Pss_Anon\<close>, \<^verbatim>\<open>Pss_File\<close> and \<^verbatim>\<open>Pss_Shmem\<close> line,
  the parts that \<^verbatim>\<open>Pss\<close> is the sum of, is added to \<^verbatim>\<open>pss\<close> as well and the fields for the parts stay
  as they were.\<close>

lemma smaps_pss_counted_twice:
  assumes "prefix ''Pss:'' l" and "prefix ''Pss_Anon:'' la" and "prefix ''Pss_File:'' lf" and "prefix ''Pss_Shmem:'' lm"
    and "get_mss_val 0 l = get_mss_val 0 la + get_mss_val 0 lf + get_mss_val 0 lm"
  shows "foldl smaps_line info [l, la, lf, lm] = info\<lparr>pss := pss info + 2 * get_mss_val 0 l\<rparr>"
proof -
  have "\<not> check_line_is_rss x \<and> check_line_is_pss x" if "x \<in> {l, la, lf, lm}" for x
    using that assms(1-4)
    by (auto simp: check_line_is_rss_def check_line_is_pss_def has_prefix_iff prefix_def)
  then show ?thesis using assms(5) by (simp add: smaps_line_def algebra_simps)
qed

lemma smaps_pss_counted_twice_witness:
  "pss (foldl smaps_line \<lparr>smaps_fd = 3, rss = 0, pss = 0, pss_anon = 0, pss_file = 0, pss_shmem = 0, uss = 0\<rparr>
     [''Pss: 60 kB'', ''Pss_Anon: 40 kB'', ''Pss_File: 20 kB'', ''Pss_Shmem: 0 kB'']) = 120"
proof -
  have v: "get_mss_val 0 ''Pss: 60 kB'' = 60" "get_mss_val 0 ''Pss_Anon: 40 kB'' = 40"
    "get_mss_val 0 ''Pss_File: 20 kB'' = 20" "get_mss_val 0 ''Pss_Shmem: 0 kB'' = 0"
    by (simp_all add: is_digit_def digit_val_def)
  show ?thesis
    by (subst smaps_pss_counted_twice) (simp_all only: v, simp_all)
qed



end
