(* ===== verification/XM_Sock.thy ===== *)
theory XM_Sock
  imports XM_Strings XM_Procfile XM_Mempool "HOL-Library.AList"
begin

text \<open>
  \<^verbatim>\<open>collectors/proc_sock\<close>: the table of the system's sockets, read every round from the five files
  under \<^verbatim>\<open>/proc/net\<close> (\<^verbatim>\<open>impl/sock_info_collect.c\<close>) into a hash table of nodes that come from a memory
  pool (\<^verbatim>\<open>impl/sock_info_mgr.c\<close>), and asked by inode from the process collector.

  A node is known by its address: the table maps an inode to an address, \<open>node_mem\<close> gives the node
  at an address, and the pool knows which addresses are handed out. The hash table is liburcu's
  lock-free table: its operations are an argument (\<open>'h lfht\<close>), its contract is \<open>lfht_spec\<close>. The hash
  of an inode is a function of the inode, so it is not an argument of the operations. A node that is
  unlinked is given back by an RCU callback, later: \<open>rcu_calls\<close> are the callbacks that wait.
\<close>

datatype SOCK_TYPE = ST_UNKNOWN | ST_TCP | ST_TCP6 | ST_UDP | ST_UDP6 | ST_UNIX | ST_MAX

text \<open>\<^verbatim>\<open>enum SOCK_STATE\<close> is filled with any number that the files hold.\<close>

definition SS_UNKNOWN :: u32 where "SS_UNKNOWN = 0"
definition SS_ESTABLISHED :: u32 where "SS_ESTABLISHED = 1"
definition SS_SYN_SENT :: u32 where "SS_SYN_SENT = 2"
definition SS_SYN_RECV :: u32 where "SS_SYN_RECV = 3"
definition SS_FIN_WAIT1 :: u32 where "SS_FIN_WAIT1 = 4"
definition SS_FIN_WAIT2 :: u32 where "SS_FIN_WAIT2 = 5"
definition SS_TIME_WAIT :: u32 where "SS_TIME_WAIT = 6"
definition SS_CLOSE :: u32 where "SS_CLOSE = 7"
definition SS_CLOSE_WAIT :: u32 where "SS_CLOSE_WAIT = 8"
definition SS_LAST_ACK :: u32 where "SS_LAST_ACK = 9"
definition SS_LISTEN :: u32 where "SS_LISTEN = 10"
definition SS_CLOSING :: u32 where "SS_CLOSING = 11"
definition SS_MAX_STATES :: u32 where "SS_MAX_STATES = 12"

record sock_info =
  ino :: u32
  sock_type :: SOCK_TYPE
  sock_state :: u32

record sock_info_node =
  si :: sock_info
  is_update :: i32

record 'h lfht =
  lfht_lookup :: "'h \<Rightarrow> u32 \<Rightarrow> nat option"
  lfht_add_replace :: "'h \<Rightarrow> u32 \<Rightarrow> nat \<Rightarrow> 'h \<times> nat option"
  lfht_del :: "'h \<Rightarrow> nat \<Rightarrow> 'h \<times> bool"
  lfht_nodes :: "'h \<Rightarrow> nat list"

record 'h sock_info_mgr =
  sock_info_node_rcu_ht :: 'h
  sock_info_node_xmp :: mempool
  node_mem :: "nat \<Rightarrow> sock_info_node"
  rcu_calls :: "nat list"
  proc_net :: "SOCK_TYPE \<Rightarrow> proc_file option"

definition socket_state_name :: "string list" where
  "socket_state_name =
     [''UNKNOWN'', ''ESTABLISHED'', ''SYN_SENT'', ''SYN_RECV'', ''FIN_WAIT1'', ''FIN_WAIT2'', ''TIME_WAIT'',
      ''CLOSE'', ''CLOSE_WAIT'', ''LAST_ACK'', ''LISTEN'', ''CLOSING'']"

definition sock_state_name :: "u32 \<Rightarrow> string" where
  "sock_state_name ss =
     (if ss < 1 \<or> SS_MAX_STATES \<le> ss then socket_state_name ! 0 else socket_state_name ! unat ss)"

section \<open>The table\<close>

text \<open>\<open>new_ht\<close> and \<open>calloc_ok\<close> are what the table's constructor and the two \<^verbatim>\<open>calloc\<close> return.\<close>

definition init_sock_info_mgr ::
  "bool \<Rightarrow> 'h option \<Rightarrow> bool \<Rightarrow> u32 \<Rightarrow> (nat \<Rightarrow> sock_info_node) \<Rightarrow> 'h sock_info_mgr option" where
  "init_sock_info_mgr mgr_ok new_ht calloc_ok node_size mem =
     (if \<not> mgr_ok then None
      else case new_ht of
             None \<Rightarrow> None
           | Some h \<Rightarrow>
               map_option (\<lambda>xmp. \<lparr>sock_info_node_rcu_ht = h, sock_info_node_xmp = xmp, node_mem = mem,
                                   rcu_calls = [], proc_net = (\<lambda>_. None)\<rparr>)
                 (xm_mempool_init calloc_ok node_size 1024 1024))"

definition alloc_sock_info_node :: "nat option \<Rightarrow> 'h sock_info_mgr \<Rightarrow> 'h sock_info_mgr \<times> nat option" where
  "alloc_sock_info_node mem s =
     (case xm_mempool_malloc (sock_info_node_xmp s) mem of
        (p, r) \<Rightarrow> (s\<lparr>sock_info_node_xmp := p\<rparr>, r))"

text \<open>\<open>None\<close>: the release faults.\<close>

definition free_sock_info_node :: "'h sock_info_mgr \<Rightarrow> nat \<Rightarrow> 'h sock_info_mgr option" where
  "free_sock_info_node s a =
     map_option (\<lambda>(p, r). s\<lparr>sock_info_node_xmp := p\<rparr>) (xm_mempool_free (sock_info_node_xmp s) (Some a))"

text \<open>\<^verbatim>\<open>cds_lfht_add_replace\<close> and, for a node that was replaced, \<^verbatim>\<open>call_rcu\<close>.\<close>

definition replace_sock_info_node :: "'h lfht \<Rightarrow> 'h sock_info_mgr \<Rightarrow> nat \<Rightarrow> 'h sock_info_mgr" where
  "replace_sock_info_node T s a =
     (case lfht_add_replace T (sock_info_node_rcu_ht s) (ino (si (node_mem s a))) a of
        (h, None) \<Rightarrow> s\<lparr>sock_info_node_rcu_ht := h\<rparr>
      | (h, Some b) \<Rightarrow> s\<lparr>sock_info_node_rcu_ht := h, rcu_calls := rcu_calls s @ [b]\<rparr>)"

definition add_sock_info_node :: "'h lfht \<Rightarrow> 'h sock_info_mgr \<Rightarrow> nat option \<Rightarrow> 'h sock_info_mgr option" where
  "add_sock_info_node T s new_sin =
     (case new_sin of
        None \<Rightarrow> Some s
      | Some a \<Rightarrow>
          let new = si (node_mem s a)
          in case lfht_lookup T (sock_info_node_rcu_ht s) (ino new) of
               None \<Rightarrow> Some (replace_sock_info_node T s a)
             | Some b \<Rightarrow>
                 let old = node_mem s b
                 in if sock_type (si old) \<noteq> sock_type new \<or> sock_state (si old) \<noteq> sock_state new
                    then Some (replace_sock_info_node T s a)
                    else free_sock_info_node
                           (s\<lparr>node_mem := (node_mem s)(b := old\<lparr>is_update := is_update old + 1\<rparr>)\<rparr>) a)"

text \<open>The result and what \<^verbatim>\<open>res\<close> points to; \<^verbatim>\<open>res\<close> may be NULL.\<close>

definition find_sock_info_i :: "'h lfht \<Rightarrow> 'h sock_info_mgr \<Rightarrow> u32 \<Rightarrow> sock_info option \<Rightarrow> int \<times> sock_info option" where
  "find_sock_info_i T s i res =
     (case res of
        None \<Rightarrow> (- 1, None)
      | Some r \<Rightarrow> (case lfht_lookup T (sock_info_node_rcu_ht s) i of
                     Some a \<Rightarrow> (0, Some (si (node_mem s a)))
                   | None \<Rightarrow> (- 1, Some r)))"

definition sock_info_count_i :: "'h lfht \<Rightarrow> 'h sock_info_mgr \<Rightarrow> u32" where
  "sock_info_count_i T s = of_nat (length (lfht_nodes T (sock_info_node_rcu_ht s)))"

definition del_sock_info_node :: "'h lfht \<Rightarrow> nat \<Rightarrow> 'h sock_info_mgr \<Rightarrow> 'h sock_info_mgr" where
  "del_sock_info_node T a s =
     (case lfht_del T (sock_info_node_rcu_ht s) a of
        (h, True) \<Rightarrow> s\<lparr>sock_info_node_rcu_ht := h, rcu_calls := rcu_calls s @ [a]\<rparr>
      | (h, False) \<Rightarrow> s\<lparr>sock_info_node_rcu_ht := h\<rparr>)"

definition dec_update :: "nat \<Rightarrow> (nat \<Rightarrow> sock_info_node) \<Rightarrow> (nat \<Rightarrow> sock_info_node)" where
  "dec_update a m = m(a := (m a)\<lparr>is_update := is_update (m a) - 1\<rparr>)"

definition clean_all_sock_info_update_flag :: "'h lfht \<Rightarrow> 'h sock_info_mgr \<Rightarrow> 'h sock_info_mgr" where
  "clean_all_sock_info_update_flag T s =
     s\<lparr>node_mem := fold dec_update (lfht_nodes T (sock_info_node_rcu_ht s)) (node_mem s)\<rparr>"

definition remove_all_not_update_sock_info :: "'h lfht \<Rightarrow> 'h sock_info_mgr \<Rightarrow> 'h sock_info_mgr" where
  "remove_all_not_update_sock_info T s =
     fold (\<lambda>a s. if is_update (node_mem s a) = 0 then del_sock_info_node T a s else s)
       (lfht_nodes T (sock_info_node_rcu_ht s)) s"

text \<open>The barrier runs every callback that waits.\<close>

fun rcu_run :: "nat list \<Rightarrow> 'h sock_info_mgr \<Rightarrow> 'h sock_info_mgr option" where
  "rcu_run [] s = Some s"
| "rcu_run (a # as) s =
     (case free_sock_info_node s a of None \<Rightarrow> None | Some s' \<Rightarrow> rcu_run as s')"

definition rcu_barrier :: "'h sock_info_mgr \<Rightarrow> 'h sock_info_mgr option" where
  "rcu_barrier s = map_option (\<lambda>s. s\<lparr>rcu_calls := []\<rparr>) (rcu_run (rcu_calls s) s)"

definition remove_all_sock_info :: "'h lfht \<Rightarrow> 'h sock_info_mgr \<Rightarrow> 'h sock_info_mgr option" where
  "remove_all_sock_info T s =
     rcu_barrier (fold (del_sock_info_node T) (lfht_nodes T (sock_info_node_rcu_ht s)) s)"

section \<open>The collection\<close>

text \<open>The C library's \<^verbatim>\<open>strtol(s, NULL, 16)\<close>.\<close>

definition hex_val :: "char \<Rightarrow> nat option" where
  "hex_val c =
     (let n = code_of c
      in if 48 \<le> n \<and> n \<le> 57 then Some (n - 48)
         else if 65 \<le> n \<and> n \<le> 70 then Some (n - 55)
         else if 97 \<le> n \<and> n \<le> 102 then Some (n - 87) else None)"

fun hex_value :: "nat \<Rightarrow> string \<Rightarrow> nat" where
  "hex_value acc [] = acc"
| "hex_value acc (c # cs) = (case hex_val c of None \<Rightarrow> acc | Some d \<Rightarrow> hex_value (16 * acc + d) cs)"

definition skip_0x :: "string \<Rightarrow> string" where
  "skip_0x s =
     (case s of
        z # x # d # cs \<Rightarrow>
          if z = CHR ''0'' \<and> (x = CHR ''x'' \<or> x = CHR ''X'') \<and> hex_val d \<noteq> None then d # cs else s
      | _ \<Rightarrow> s)"

definition strtol16 :: "string \<Rightarrow> i64" where
  "strtol16 s0 =
     (let s = dropWhile is_space s0;
          neg = (s \<noteq> [] \<and> hd s = CHR ''-'');
          t = (if s \<noteq> [] \<and> (hd s = CHR ''-'' \<or> hd s = CHR ''+'') then tl s else s);
          v = int (hex_value 0 (skip_0x t))
      in word_of_int (if neg then max (- (2 ^ 63)) (- v) else min (2 ^ 63 - 1) v))"

definition sock_file_infos :: "(SOCK_TYPE \<times> string) list" where
  "sock_file_infos =
     [(ST_TCP, ''/proc/net/tcp''), (ST_TCP6, ''/proc/net/tcp6''), (ST_UDP, ''/proc/net/udp''),
      (ST_UDP6, ''/proc/net/udp6''), (ST_UNIX, ''/proc/net/unix'')]"

definition sock_seps :: string where
  "sock_seps = [CHR '' '', CHR 0x09, CHR '':'']"

text \<open>A new node with what a line tells, put into the table. \<open>None\<close>: no memory for the node, whose
  fields are then written through NULL.\<close>

definition store_sock_info ::
  "'h lfht \<Rightarrow> (mempool \<Rightarrow> nat option) \<Rightarrow> sock_info \<Rightarrow> 'h sock_info_mgr \<Rightarrow> 'h sock_info_mgr option" where
  "store_sock_info T mem i s =
     (case alloc_sock_info_node (mem (sock_info_node_xmp s)) s of
        (s1, None) \<Rightarrow> None
      | (s1, Some a) \<Rightarrow>
          add_sock_info_node T (s1\<lparr>node_mem := (node_mem s1)(a := \<lparr>si = i, is_update = 1\<rparr>)\<rparr>) (Some a))"

definition collect_sock_line ::
  "'h lfht \<Rightarrow> (mempool \<Rightarrow> nat option) \<Rightarrow> SOCK_TYPE \<Rightarrow> proc_file \<Rightarrow> nat \<Rightarrow> 'h sock_info_mgr \<Rightarrow> 'h sock_info_mgr option" where
  "collect_sock_line T mem ty pf l s =
     (let words = procfile_linewords pf l;
          state = (ucast (strtol16 (procfile_lineword pf l 5)) :: u32)
      in if ty \<in> {ST_TCP, ST_TCP6, ST_UDP, ST_UDP6}
         then if words < 14 then Some s
              else let so_ino = str2uint32_t (procfile_lineword pf l 13)
                   in if so_ino = 0 then Some s
                      else store_sock_info T mem \<lparr>ino = so_ino, sock_type = ty, sock_state = state\<rparr> s
         else if ty = ST_UNIX
         then let so_ino = str2uint32_t (procfile_lineword pf l 6)
              in if so_ino = 0 then Some s
                 else store_sock_info T mem \<lparr>ino = so_ino, sock_type = ST_UNIX, sock_state = state\<rparr> s
         else Some s)"

fun collect_sock_lines ::
  "'h lfht \<Rightarrow> (mempool \<Rightarrow> nat option) \<Rightarrow> SOCK_TYPE \<Rightarrow> proc_file \<Rightarrow> nat list \<Rightarrow> 'h sock_info_mgr \<Rightarrow> 'h sock_info_mgr option" where
  "collect_sock_lines T mem ty pf [] s = Some s"
| "collect_sock_lines T mem ty pf (l # ls) s =
     (case collect_sock_line T mem ty pf l s of None \<Rightarrow> None | Some s' \<Rightarrow> collect_sock_lines T mem ty pf ls s')"

definition collect_proc_socks_info ::
  "'h lfht \<Rightarrow> (mempool \<Rightarrow> nat option) \<Rightarrow> (SOCK_TYPE \<Rightarrow> file_io) \<Rightarrow> SOCK_TYPE \<times> string \<Rightarrow> 'h sock_info_mgr \<Rightarrow>
   ('h sock_info_mgr \<times> int) option" where
  "collect_proc_socks_info T mem io sfi s =
     (let ty = fst sfi
      in case open_and_read (io ty) (snd sfi) (Some sock_seps) 0 (proc_net s ty) of
           None \<Rightarrow> None
         | Some None \<Rightarrow> Some (s\<lparr>proc_net := (proc_net s)(ty := None)\<rparr>, - 1)
         | Some (Some pf) \<Rightarrow>
             map_option (\<lambda>s'. (s', 0))
               (collect_sock_lines T mem ty pf [1..<procfile_lines pf]
                  (s\<lparr>proc_net := (proc_net s)(ty := Some pf)\<rparr>)))"

fun collect_sock_files ::
  "'h lfht \<Rightarrow> (mempool \<Rightarrow> nat option) \<Rightarrow> (SOCK_TYPE \<Rightarrow> file_io) \<Rightarrow> (SOCK_TYPE \<times> string) list \<Rightarrow> 'h sock_info_mgr \<Rightarrow>
   'h sock_info_mgr option" where
  "collect_sock_files T mem io [] s = Some s"
| "collect_sock_files T mem io (sfi # sfis) s =
     (case collect_proc_socks_info T mem io sfi s of
        None \<Rightarrow> None
      | Some (s', r) \<Rightarrow> collect_sock_files T mem io sfis s')"

definition collect_socks_info_i ::
  "'h lfht \<Rightarrow> (mempool \<Rightarrow> nat option) \<Rightarrow> (SOCK_TYPE \<Rightarrow> file_io) \<Rightarrow> 'h sock_info_mgr \<Rightarrow> 'h sock_info_mgr option" where
  "collect_socks_info_i T mem io s =
     map_option (remove_all_not_update_sock_info T)
       (collect_sock_files T mem io sock_file_infos (clean_all_sock_info_update_flag T s))"

section \<open>Contracts\<close>

text \<open>liburcu's table: a finite map from keys to nodes that hands back the node a new one replaces,
  removes a node that is in it, and enumerates each node once.\<close>

definition lfht_spec :: "'h lfht \<Rightarrow> bool" where
  "lfht_spec T \<longleftrightarrow>
     (\<forall>h k a. snd (lfht_add_replace T h k a) = lfht_lookup T h k \<and>
        lfht_lookup T (fst (lfht_add_replace T h k a)) = (lfht_lookup T h)(k \<mapsto> a)) \<and>
     (\<forall>h a. snd (lfht_del T h a) = (a \<in> ran (lfht_lookup T h)) \<and>
        lfht_lookup T (fst (lfht_del T h a)) =
          (\<lambda>k. if lfht_lookup T h k = Some a then None else lfht_lookup T h k)) \<and>
     (\<forall>h. set (lfht_nodes T h) = ran (lfht_lookup T h) \<and>
        (inj_on (lfht_lookup T h) (dom (lfht_lookup T h)) \<longrightarrow> distinct (lfht_nodes T h)))"

text \<open>The system has memory, at an address that the pool does not hold yet.\<close>

definition memory_ok :: "(mempool \<Rightarrow> nat option) \<Rightarrow> bool" where
  "memory_ok mem \<longleftrightarrow> (\<forall>pool. pool_ok pool \<longrightarrow> mem pool \<noteq> None \<and> fresh pool (mem pool))"

text \<open>An association list is such a table, and the address behind the last block such memory.\<close>

definition alist_table :: "(u32 \<times> nat) list lfht" where
  "alist_table =
     \<lparr>lfht_lookup = map_of,
      lfht_add_replace = (\<lambda>h k a. (AList.update k a h, map_of h k)),
      lfht_del = (\<lambda>h a. (filter (\<lambda>p. snd p \<noteq> a) (AList.clearjunk h), a \<in> snd ` set (AList.clearjunk h))),
      lfht_nodes = (\<lambda>h. map snd (AList.clearjunk h))\<rparr>"

definition top_memory :: "mempool \<Rightarrow> nat option" where
  "top_memory pool = Some (foldr max (map (\<lambda>b. data_addr b + block_size b) (blocks pool)) 0)"

section \<open>The abstract table\<close>

text \<open>What the nodes of the table say: for an inode its socket and the update counter.\<close>

type_synonym sock_table = "u32 \<rightharpoonup> sock_info \<times> i32"

definition sock_table :: "'h lfht \<Rightarrow> 'h sock_info_mgr \<Rightarrow> sock_table" where
  "sock_table T s =
     (\<lambda>k. map_option (\<lambda>a. (si (node_mem s a), is_update (node_mem s a))) (lfht_lookup T (sock_info_node_rcu_ht s) k))"

definition put_sock :: "sock_info \<Rightarrow> sock_table \<Rightarrow> sock_table" where
  "put_sock i m =
     (case m (ino i) of
        Some (j, f) \<Rightarrow> if sock_type j = sock_type i \<and> sock_state j = sock_state i
                       then m(ino i \<mapsto> (j, f + 1)) else m(ino i \<mapsto> (i, 1))
      | None \<Rightarrow> m(ino i \<mapsto> (i, 1)))"

definition age_socks :: "sock_table \<Rightarrow> sock_table" where
  "age_socks m = (\<lambda>k. map_option (\<lambda>(i, f). (i, f - 1)) (m k))"

definition drop_stale :: "sock_table \<Rightarrow> sock_table" where
  "drop_stale m = (\<lambda>k. case m k of None \<Rightarrow> None | Some (i, f) \<Rightarrow> if f = 0 then None else Some (i, f))"

text \<open>The sockets that the lines of a file name, by their words.\<close>

definition word_at :: "string list \<Rightarrow> nat \<Rightarrow> string" where
  "word_at ws n = (if n < length ws then ws ! n else [])"

definition sock_row :: "SOCK_TYPE \<Rightarrow> string list \<Rightarrow> sock_info option" where
  "sock_row ty ws =
     (let i = str2uint32_t (word_at ws (if ty = ST_UNIX then 6 else 13))
      in if ty \<noteq> ST_UNIX \<and> length ws < 14 \<or> i = 0 then None
         else Some \<lparr>ino = i, sock_type = ty, sock_state = ucast (strtol16 (word_at ws 5))\<rparr>)"

definition sock_rows :: "SOCK_TYPE \<Rightarrow> string \<Rightarrow> sock_info list" where
  "sock_rows ty c = List.map_filter (sock_row ty) (tl (cut_text (seps_of sock_seps) c))"

definition all_sock_rows :: "(SOCK_TYPE \<Rightarrow> string) \<Rightarrow> sock_info list" where
  "all_sock_rows c = concat (map (\<lambda>sfi. sock_rows (fst sfi) (c (fst sfi))) sock_file_infos)"

text \<open>The invariant: every node is in the table under its own inode, the units of the pool that are
  in use are the nodes of the table and those that wait for their callback, each once, and the open
  files are sound.\<close>

definition sock_inv :: "'h lfht \<Rightarrow> 'h sock_info_mgr \<Rightarrow> bool" where
  "sock_inv T s \<longleftrightarrow> pool_ok (sock_info_node_xmp s) \<and>
     (\<forall>k a. lfht_lookup T (sock_info_node_rcu_ht s) k = Some a \<longrightarrow> ino (si (node_mem s a)) = k) \<and>
     live (sock_info_node_xmp s) = ran (lfht_lookup T (sock_info_node_rcu_ht s)) \<union> set (rcu_calls s) \<and>
     ran (lfht_lookup T (sock_info_node_rcu_ht s)) \<inter> set (rcu_calls s) = {} \<and> distinct (rcu_calls s) \<and>
     (\<forall>ty. slot_ok sock_seps (proc_net s ty))"

lemma lfht_specD:
  assumes "lfht_spec T"
  shows "snd (lfht_add_replace T h k a) = lfht_lookup T h k"
    and "lfht_lookup T (fst (lfht_add_replace T h k a)) = (lfht_lookup T h)(k \<mapsto> a)"
    and "snd (lfht_del T h a) = (a \<in> ran (lfht_lookup T h))"
    and "lfht_lookup T (fst (lfht_del T h a)) = (\<lambda>k. if lfht_lookup T h k = Some a then None else lfht_lookup T h k)"
    and "set (lfht_nodes T h) = ran (lfht_lookup T h)"
  using assms by (simp_all add: lfht_spec_def)

lemma free_sock_info_node_release:
  "free_sock_info_node s a = map_option (\<lambda>q. s\<lparr>sock_info_node_xmp := q\<rparr>) (pool_release (sock_info_node_xmp s) a)"
  by (cases "xm_mempool_free (sock_info_node_xmp s) (Some a)") (auto simp: free_sock_info_node_def pool_release_def)

lemma sock_inv_key:
  assumes "sock_inv T s" and "lfht_lookup T (sock_info_node_rcu_ht s) k = Some a"
    and "lfht_lookup T (sock_info_node_rcu_ht s) k' = Some a"
  shows "k' = k"
  using assms unfolding sock_inv_def by metis

lemma sock_inv_inj:
  "sock_inv T s \<Longrightarrow> inj_on (lfht_lookup T (sock_info_node_rcu_ht s)) (dom (lfht_lookup T (sock_info_node_rcu_ht s)))"
  unfolding sock_inv_def inj_on_def by (metis domD)

lemma sock_inv_distinct:
  "lfht_spec T \<Longrightarrow> sock_inv T s \<Longrightarrow> distinct (lfht_nodes T (sock_info_node_rcu_ht s))"
  using sock_inv_inj [of T s] by (simp add: lfht_spec_def)

text \<open>Linking a new node replaces what was known of its inode.\<close>

lemma replace_ok:
  assumes T: "lfht_spec T" and inv: "sock_inv T s" and new: "a \<notin> live (sock_info_node_xmp s)"
    and pool: "pool_ok p" "live p = insert a (live (sock_info_node_xmp s))"
    and s': "s' = s\<lparr>sock_info_node_xmp := p, node_mem := (node_mem s)(a := n)\<rparr>"
  shows "sock_inv T (replace_sock_info_node T s' a) \<and>
    sock_table T (replace_sock_info_node T s' a) = (sock_table T s)(ino (si n) \<mapsto> (si n, is_update n))"
proof -
  let ?L = "lfht_lookup T (sock_info_node_rcu_ht s)" and ?k = "ino (si n)"
  obtain h r where h: "lfht_add_replace T (sock_info_node_rcu_ht s) ?k a = (h, r)" by force
  have r: "r = ?L ?k" and L: "lfht_lookup T h = ?L(?k \<mapsto> a)"
    using lfht_specD(1,2) [OF T, of "sock_info_node_rcu_ht s" ?k a] h by auto
  have s'': "replace_sock_info_node T s' a =
      s\<lparr>sock_info_node_xmp := p, node_mem := (node_mem s)(a := n), sock_info_node_rcu_ht := h, rcu_calls := rcu_calls s @ (case ?L ?k of None \<Rightarrow> [] | Some b \<Rightarrow> [b])\<rparr>"
    using h r by (auto simp: replace_sock_info_node_def s' split: option.split)
  have a: "a \<notin> ran ?L" "a \<notin> set (rcu_calls s)" using inv new by (auto simp: sock_inv_def)
  have a': "?L k \<noteq> Some a" for k using a(1) by (auto simp: ran_def)
  have b: "?L ?k = Some b \<Longrightarrow> b \<in> ran ?L \<and> ran (?L(?k := None)) = ran ?L - {b}" for b
    using ran_remove_inj [OF sock_inv_inj [OF inv]] by (auto simp: ran_def)
  have n: "?L ?k = None \<Longrightarrow> ran (?L(?k := None)) = ran ?L" by (simp add: fun_upd_idem)
  have key: "?L k = Some b \<Longrightarrow> ino (si (node_mem s b)) = k" for k b using inv by (simp add: sock_inv_def)
  have "sock_inv T (replace_sock_info_node T s' a)"
    using inv a a' b n pool unfolding sock_inv_def s''
    by (cases "?L ?k") (auto simp: L ran_upd_in)
  moreover have "sock_table T (replace_sock_info_node T s' a) = (sock_table T s)(?k \<mapsto> (si n, is_update n))"
    using a' unfolding sock_table_def s'' by (auto simp: L fun_eq_iff intro!: map_option_cong)
  ultimately show ?thesis by simp
qed

text \<open>Counting a node once more that the table already has.\<close>

lemma refresh_ok:
  assumes inv: "sock_inv T s" and b: "lfht_lookup T (sock_info_node_rcu_ht s) k = Some b"
    and a: "a \<notin> live (sock_info_node_xmp s)" and p: "pool_ok p" "live p = insert a (live (sock_info_node_xmp s))"
    and m: "m = (node_mem s)(a := n)"
    and s': "s' = s\<lparr>sock_info_node_xmp := p, node_mem := m(b := (m b)\<lparr>is_update := is_update (m b) + 1\<rparr>)\<rparr>"
  shows "\<exists>s''. free_sock_info_node s' a = Some s'' \<and> sock_inv T s'' \<and>
    sock_table T s'' = (sock_table T s)(k \<mapsto> (si (node_mem s b), is_update (node_mem s b) + 1))"
proof -
  let ?L = "lfht_lookup T (sock_info_node_rcu_ht s)"
  from xmp.release_used [of p a] p obtain q where q: "pool_release p a = Some q" "pool_ok q"
    "live q = live (sock_info_node_xmp s)" using a by auto
  from q(1) have f: "free_sock_info_node s' a = Some (s'\<lparr>sock_info_node_xmp := q\<rparr>)"
    by (simp add: free_sock_info_node_release s')
  have a': "?L k' \<noteq> Some a" for k' using inv a by (auto simp: sock_inv_def ran_def)
  have key: "?L k' = Some c \<Longrightarrow> ino (si (node_mem s c)) = k'" for k' c using inv by (simp add: sock_inv_def)
  have ab: "b \<noteq> a" using b a' [of k] by auto
  have kb: "?L x \<noteq> Some b" if "x \<noteq> k" for x using key [of x b] key [OF b] that by auto
  have "sock_inv T (s'\<lparr>sock_info_node_xmp := q\<rparr>)"
    using inv q a' b key unfolding sock_inv_def by (auto simp: s' m)
  moreover have "sock_table T (s'\<lparr>sock_info_node_xmp := q\<rparr>) =
      (sock_table T s)(k \<mapsto> (si (node_mem s b), is_update (node_mem s b) + 1))"
    using b ab a' kb unfolding sock_table_def s' m
    by (auto simp: fun_eq_iff intro!: map_option_cong)
  ultimately show ?thesis using f by blast
qed

lemma store_sock_info_ok:
  assumes T: "lfht_spec T" and mem: "memory_ok mem" and inv: "sock_inv T s"
  shows "\<exists>s'. store_sock_info T mem i s = Some s' \<and> sock_inv T s' \<and> sock_table T s' = put_sock i (sock_table T s)"
proof -
  let ?pool = "sock_info_node_xmp s" and ?L = "lfht_lookup T (sock_info_node_rcu_ht s)"
  let ?n = "\<lparr>si = i, is_update = 1\<rparr>"
  have pool: "pool_ok ?pool" using inv by (simp add: sock_inv_def)
  with mem have fr: "mem ?pool \<noteq> None" "fresh ?pool (mem ?pool)" by (auto simp: memory_ok_def)
  obtain p a where pa: "xm_mempool_malloc ?pool (mem ?pool) = (p, Some a)"
    using malloc_gives [OF fr(1)] by blast
  from xmp.alloc_Some [OF pool fr(2) pa] have
    p: "pool_ok p" "a \<notin> live ?pool" "live p = insert a (live ?pool)" by auto
  let ?s = "s\<lparr>sock_info_node_xmp := p, node_mem := (node_mem s)(a := ?n)\<rparr>"
  have st: "store_sock_info T mem i s = add_sock_info_node T ?s (Some a)"
    by (simp add: store_sock_info_def alloc_sock_info_node_def pa)
  have rep: "sock_inv T (replace_sock_info_node T ?s a) \<and>
      sock_table T (replace_sock_info_node T ?s a) = (sock_table T s)(ino i \<mapsto> (i, 1))"
    using replace_ok [OF T inv p(2) p(1) p(3), of ?s ?n] by simp
  have tab: "sock_table T s k = map_option (\<lambda>b. (si (node_mem s b), is_update (node_mem s b))) (?L k)" for k
    by (simp add: sock_table_def)
  show ?thesis
  proof (cases "?L (ino i)")
    case None
    with rep show ?thesis by (simp add: st add_sock_info_node_def put_sock_def tab)
  next
    case (Some b)
    have ab: "a \<noteq> b" using Some p(2) inv by (auto simp: sock_inv_def ran_def)
    note ref = refresh_ok [OF inv Some p(2,1,3) refl refl, of ?n]
    show ?thesis
      using rep ref Some ab by (auto simp: st add_sock_info_node_def put_sock_def tab Let_def)
  qed
qed

text \<open>The counters are taken down by one at the start of a round.\<close>

lemma fold_dec_update:
  "distinct as \<Longrightarrow> fold dec_update as m =
     (\<lambda>a. if a \<in> set as then (m a)\<lparr>is_update := is_update (m a) - 1\<rparr> else m a)"
  by (induction as arbitrary: m) (auto simp: dec_update_def fun_eq_iff)

lemma clean_ok:
  assumes "lfht_spec T" and "sock_inv T s"
  shows "sock_inv T (clean_all_sock_info_update_flag T s)"
    and "sock_table T (clean_all_sock_info_update_flag T s) = age_socks (sock_table T s)"
proof -
  let ?L = "lfht_lookup T (sock_info_node_rcu_ht s)"
  have n: "a \<in> set (lfht_nodes T (sock_info_node_rcu_ht s))" if "?L k = Some a" for k a
    using lfht_specD(5) [OF assms(1)] that by (auto simp: ran_def)
  note f = fold_dec_update [OF sock_inv_distinct [OF assms]]
  show "sock_inv T (clean_all_sock_info_update_flag T s)"
    using assms(2) unfolding sock_inv_def clean_all_sock_info_update_flag_def f by auto
  show "sock_table T (clean_all_sock_info_update_flag T s) = age_socks (sock_table T s)"
    using n unfolding sock_table_def clean_all_sock_info_update_flag_def f age_socks_def
    by (auto simp: fun_eq_iff option.map_comp o_def intro!: map_option_cong)
qed

text \<open>Unlinking a node.\<close>

lemma del_ok:
  assumes T: "lfht_spec T" and inv: "sock_inv T s" and a: "lfht_lookup T (sock_info_node_rcu_ht s) k = Some a"
  shows "sock_inv T (del_sock_info_node T a s)"
    and "sock_table T (del_sock_info_node T a s) = (sock_table T s)(k := None)"
    and "node_mem (del_sock_info_node T a s) = node_mem s"
    and "lfht_lookup T (sock_info_node_rcu_ht (del_sock_info_node T a s)) =
      (lfht_lookup T (sock_info_node_rcu_ht s))(k := None)"
proof -
  let ?L = "lfht_lookup T (sock_info_node_rcu_ht s)"
  obtain h r where h: "lfht_del T (sock_info_node_rcu_ht s) a = (h, r)" by force
  have r: "r" using lfht_specD(3) [OF T, of "sock_info_node_rcu_ht s" a] h a by (auto simp: ran_def)
  have L0: "lfht_lookup T h = (\<lambda>k. if ?L k = Some a then None else ?L k)"
    using lfht_specD(4) [OF T, of "sock_info_node_rcu_ht s" a] h by simp
  have "?L k' = Some a \<Longrightarrow> k' = k" for k' using sock_inv_key [OF inv a] by simp
  then have "k' \<noteq> k \<Longrightarrow> ?L k' \<noteq> Some a" for k' by blast
  then have L: "lfht_lookup T h = ?L(k := None)" using a by (simp add: L0 fun_eq_iff)
  have d: "del_sock_info_node T a s = s\<lparr>sock_info_node_rcu_ht := h, rcu_calls := rcu_calls s @ [a]\<rparr>"
    using h r by (simp add: del_sock_info_node_def)
  have R: "ran (lfht_lookup T h) = ran ?L - {a}" by (simp add: L0 ran_delete_value)
  have "a \<in> ran ?L" using a by (auto simp: ran_def)
  with inv show "sock_inv T (del_sock_info_node T a s)"
    unfolding sock_inv_def d by (auto simp: R) (auto simp: L split: if_splits)
  show "sock_table T (del_sock_info_node T a s) = (sock_table T s)(k := None)"
    by (auto simp: sock_table_def d L)
  show "node_mem (del_sock_info_node T a s) = node_mem s" by (simp add: d)
  show "lfht_lookup T (sock_info_node_rcu_ht (del_sock_info_node T a s)) = ?L(k := None)"
    by (simp add: d L)
qed

lemma remove_loop_ok:
  assumes "lfht_spec T" and "sock_inv T s" and "distinct as" and "set as \<subseteq> ran (lfht_lookup T (sock_info_node_rcu_ht s))"
    and "s' = fold (\<lambda>a s. if P (node_mem s a) then del_sock_info_node T a s else s) as s"
  shows "sock_inv T s' \<and> sock_table T s' =
    (\<lambda>k. case lfht_lookup T (sock_info_node_rcu_ht s) k of
            None \<Rightarrow> None
          | Some a \<Rightarrow> if a \<in> set as \<and> P (node_mem s a) then None else sock_table T s k)"
  using assms
proof (induction as arbitrary: s)
  case Nil
  then show ?case by (auto simp: sock_table_def fun_eq_iff split: option.split)
next
  case (Cons a as)
  let ?L = "lfht_lookup T (sock_info_node_rcu_ht s)"
  from Cons.prems(4) obtain k where k: "?L k = Some a" by (auto simp: ran_def)
  have key: "?L k' = Some a \<Longrightarrow> k' = k" for k' using sock_inv_key [OF Cons.prems(2) k] by simp
  show ?case
  proof (cases "P (node_mem s a)")
    case False
    with Cons.IH [OF Cons.prems(1,2)] Cons.prems show ?thesis by (fastforce split: option.split)
  next
    case True
    let ?s = "del_sock_info_node T a s"
    note d = del_ok [OF Cons.prems(1,2) k]
    have "set as \<subseteq> ran (?L(k := None))"
      using Cons.prems(3,4) key ran_remove_inj [OF sock_inv_inj [OF Cons.prems(2)] k] by auto
    then have "set as \<subseteq> ran (lfht_lookup T (sock_info_node_rcu_ht ?s))" by (simp add: d(4))
    moreover have "distinct as" "s' = fold (\<lambda>a s. if P (node_mem s a) then del_sock_info_node T a s else s) as ?s"
      using Cons.prems(3,5) True by simp_all
    ultimately have "sock_inv T s' \<and> sock_table T s' =
      (\<lambda>k'. case (?L(k := None)) k' of None \<Rightarrow> None
           | Some b \<Rightarrow> if b \<in> set as \<and> P (node_mem s b) then None else ((sock_table T s)(k := None)) k')"
      using Cons.IH [OF Cons.prems(1) d(1)] unfolding d(2-4) by blast
    moreover have "k' \<noteq> k \<Longrightarrow> ?L k' \<noteq> Some a" for k' using key by blast
    ultimately show ?thesis using True k by (auto simp: fun_eq_iff split: option.split)
  qed
qed

lemma remove_ok:
  assumes "lfht_spec T" and "sock_inv T s"
  shows "sock_inv T (remove_all_not_update_sock_info T s)"
    and "sock_table T (remove_all_not_update_sock_info T s) = drop_stale (sock_table T s)"
proof -
  let ?L = "lfht_lookup T (sock_info_node_rcu_ht s)"
  have n: "set (lfht_nodes T (sock_info_node_rcu_ht s)) = ran ?L" by (rule lfht_specD(5) [OF assms(1)])
  note r = remove_loop_ok [OF assms sock_inv_distinct [OF assms] _ refl, of "\<lambda>n. is_update n = 0"]
  from r n show "sock_inv T (remove_all_not_update_sock_info T s)"
    by (simp add: remove_all_not_update_sock_info_def)
  have "a \<in> ran ?L" if "?L k = Some a" for k a using that by (auto simp: ran_def)
  with r n show "sock_table T (remove_all_not_update_sock_info T s) = drop_stale (sock_table T s)"
    by (auto simp: remove_all_not_update_sock_info_def drop_stale_def sock_table_def fun_eq_iff split: option.split)
qed

section \<open>A file\<close>

lemma collect_sock_line_eq:
  assumes "tables_ok pf" and "l < procfile_lines pf" and "ty \<in> fst ` set sock_file_infos"
  shows "collect_sock_line T mem ty pf l s =
    (case sock_row ty (procfile_contents pf ! l) of None \<Rightarrow> Some s | Some i \<Rightarrow> store_sock_info T mem i s)"
proof -
  note c = procfile_lineword_contents [OF assms(1)]
  have w: "procfile_lineword pf l w = word_at (procfile_contents pf ! l) w" for w
    using c(3) [OF assms(2), of w] c(2) [OF assms(2)] assms(2) by (auto simp: word_at_def procfile_lineword_def)
  show ?thesis
    using assms(3) c(2) [OF assms(2)]
    by (auto simp: collect_sock_line_def w sock_row_def sock_file_infos_def Let_def)
qed

lemma collect_sock_lines_ok:
  assumes "lfht_spec T" and "memory_ok mem" and "sock_inv T s" and "tables_ok pf"
    and "list_all (\<lambda>l. l < procfile_lines pf) ls" and "ty \<in> fst ` set sock_file_infos"
  shows "\<exists>s'. collect_sock_lines T mem ty pf ls s = Some s' \<and> sock_inv T s' \<and> sock_table T s' =
    fold put_sock (List.map_filter (sock_row ty) (map (\<lambda>l. procfile_contents pf ! l) ls)) (sock_table T s)"
  using assms(3,5)
proof (induction ls arbitrary: s)
  case Nil
  then show ?case by (simp add: List.map_filter_def)
next
  case (Cons l ls)
  have l: "l < procfile_lines pf" using Cons.prems(2) by simp
  note e = collect_sock_line_eq [OF assms(4) l assms(6), of T mem s]
  show ?case
  proof (cases "sock_row ty (procfile_contents pf ! l)")
    case None
    with e Cons.IH [OF Cons.prems(1)] Cons.prems(2) show ?thesis by (simp add: List.map_filter_simps)
  next
    case (Some i)
    from store_sock_info_ok [OF assms(1,2) Cons.prems(1), of i] obtain s1 where
      s1: "store_sock_info T mem i s = Some s1" "sock_inv T s1" "sock_table T s1 = put_sock i (sock_table T s)" by blast
    with e Some Cons.IH [OF s1(2)] Cons.prems(2) show ?thesis by (simp add: List.map_filter_simps)
  qed
qed

lemma collect_file_ok:
  assumes "lfht_spec T" and "memory_ok mem" and "sock_inv T s" and "io_file (io ty) c"
    and "ty \<in> fst ` set sock_file_infos"
  shows "\<exists>s'. collect_proc_socks_info T mem io (ty, name) s = Some (s', 0) \<and> sock_inv T s' \<and>
    sock_table T s' = fold put_sock (sock_rows ty c) (sock_table T s)"
proof -
  have "slot_ok sock_seps (proc_net s ty)" using assms(3) by (simp add: sock_inv_def)
  moreover have "\<forall>x \<in> set sock_seps. code_of x < (128::nat)" by (simp add: sock_seps_def)
  ultimately obtain pf where pf: "open_and_read (io ty) name (Some sock_seps) 0 (proc_net s ty) = Some (Some pf)"
    "slot_ok sock_seps (Some pf)" "tables_ok pf" "procfile_contents pf = cut_text (seps_of sock_seps) c"
    using open_and_read_ok [OF assms(4), of sock_seps "proc_net s ty" name 0] by blast
  let ?s = "s\<lparr>proc_net := (proc_net s)(ty := Some pf)\<rparr>"
  have inv: "sock_inv T ?s" using assms(3) pf(2) by (simp add: sock_inv_def)
  have tab: "sock_table T ?s = sock_table T s" by (simp add: sock_table_def)
  have len: "procfile_lines pf = length (procfile_contents pf)" by (rule procfile_lineword_contents(1) [OF pf(3)])
  have "map (\<lambda>l. procfile_contents pf ! l) [1..<procfile_lines pf] = tl (procfile_contents pf)"
    unfolding len by (rule nth_equalityI) (auto simp: nth_tl)
  with collect_sock_lines_ok [OF assms(1,2) inv pf(3) _ assms(5), of "[1..<procfile_lines pf]"]
  obtain s' where "collect_sock_lines T mem ty pf [1..<procfile_lines pf] ?s = Some s'" "sock_inv T s'"
    "sock_table T s' = fold put_sock (sock_rows ty c) (sock_table T s)"
    by (auto simp: list_all_iff tab sock_rows_def pf(4))
  with pf(1) show ?thesis by (simp add: collect_proc_socks_info_def)
qed

lemma collect_files_ok:
  assumes "lfht_spec T" and "memory_ok mem" and "sock_inv T s" and "\<forall>ty. io_file (io ty) (c ty)"
    and "fst ` set sfis \<subseteq> fst ` set sock_file_infos"
  shows "\<exists>s'. collect_sock_files T mem io sfis s = Some s' \<and> sock_inv T s' \<and> sock_table T s' =
    fold put_sock (concat (map (\<lambda>sfi. sock_rows (fst sfi) (c (fst sfi))) sfis)) (sock_table T s)"
  using assms(3,5)
proof (induction sfis arbitrary: s)
  case (Cons sfi sfis)
  obtain ty name where sfi: "sfi = (ty, name)" by force
  from collect_file_ok [OF assms(1,2) Cons.prems(1), of io ty "c ty" name] Cons.prems(2) assms(4) sfi
  obtain s1 where "collect_proc_socks_info T mem io sfi s = Some (s1, 0)" and s1: "sock_inv T s1"
    "sock_table T s1 = fold put_sock (sock_rows ty (c ty)) (sock_table T s)" by auto
  with Cons.IH [OF s1(1)] Cons.prems(2) sfi show ?case by simp
qed simp

text \<open>One round on the abstract table.\<close>

definition sock_round :: "(SOCK_TYPE \<Rightarrow> string) \<Rightarrow> sock_table \<Rightarrow> sock_table" where
  "sock_round c m = drop_stale (fold put_sock (all_sock_rows c) (age_socks m))"

lemma collect_socks_ok:
  assumes "lfht_spec T" and "memory_ok mem" and "sock_inv T s" and "\<forall>ty. io_file (io ty) (c ty)"
  obtains s' where "collect_socks_info_i T mem io s = Some s'" and "sock_inv T s'"
    and "sock_table T s' = sock_round c (sock_table T s)"
proof -
  note cl = clean_ok [OF assms(1,3)]
  from collect_files_ok [OF assms(1,2) cl(1) assms(4), of sock_file_infos] obtain s1 where
    s1: "collect_sock_files T mem io sock_file_infos (clean_all_sock_info_update_flag T s) = Some s1" "sock_inv T s1"
    "sock_table T s1 = fold put_sock (all_sock_rows c) (age_socks (sock_table T s))"
    by (auto simp: all_sock_rows_def cl(2))
  with remove_ok [OF assms(1) s1(2)] that show ?thesis by (simp add: collect_socks_info_i_def sock_round_def)
qed

section \<open>One inode\<close>

text \<open>What a round does to an inode depends on the lines with this inode only.\<close>

definition put_one :: "sock_info \<Rightarrow> (sock_info \<times> i32) option \<Rightarrow> (sock_info \<times> i32) option" where
  "put_one i e =
     (case e of
        Some (j, f) \<Rightarrow> Some (if sock_type j = sock_type i \<and> sock_state j = sock_state i then (j, f + 1) else (i, 1))
      | None \<Rightarrow> Some (i, 1))"

lemma put_sock_at: "put_sock i m k = (if ino i = k then put_one i (m k) else m k)"
  by (auto simp: put_sock_def put_one_def split: option.split)

lemma fold_put_sock_at: "fold put_sock is m k = fold put_one (filter (\<lambda>i. ino i = k) is) (m k)"
  by (induction "is" arbitrary: m) (auto simp: put_sock_at)

lemma sock_round_at:
  "sock_round c m k =
     (case fold put_one (filter (\<lambda>i. ino i = k) (all_sock_rows c)) (map_option (\<lambda>(i, f). (i, f - 1)) (m k)) of
        None \<Rightarrow> None
      | Some (i, f) \<Rightarrow> if f = 0 then None else Some (i, f))"
  by (simp add: sock_round_def drop_stale_def fold_put_sock_at age_socks_def)

lemma filter_unique:
  "distinct (map f xs) \<Longrightarrow> x \<in> set xs \<Longrightarrow> filter (\<lambda>y. f y = f x) xs = [x]"
proof (induction xs)
  case (Cons a xs)
  then show ?case by (cases "a = x") (auto simp: filter_empty_conv image_iff)
qed simp

text \<open>Every line has its own inode: the table is what the files say and every counter is one.\<close>

definition counters_one :: "sock_table \<Rightarrow> bool" where
  "counters_one m \<longleftrightarrow> (\<forall>k i f. m k = Some (i, f) \<longrightarrow> f = 1 \<and> ino i = k)"

lemma sock_round_listed:
  assumes "counters_one m" and "distinct (map ino (all_sock_rows c))" and "i \<in> set (all_sock_rows c)"
  shows "sock_round c m (ino i) = Some (i, 1)"
proof (cases "m (ino i)")
  case None
  then show ?thesis by (simp add: sock_round_at put_one_def filter_unique [OF assms(2,3)])
next
  case (Some e)
  then obtain j where j: "m (ino i) = Some (j, 1)" "ino j = ino i"
    using assms(1) by (cases e) (auto simp: counters_one_def)
  have "j = i" if "sock_type j = sock_type i" "sock_state j = sock_state i"
    using that j(2) by (simp add: sock_info.equality)
  with j(1) show ?thesis by (auto simp: sock_round_at put_one_def filter_unique [OF assms(2,3)])
qed

lemma sock_round_unlisted:
  assumes "counters_one m" and "k \<notin> ino ` set (all_sock_rows c)"
  shows "sock_round c m k = None"
proof -
  have "filter (\<lambda>i. ino i = k) (all_sock_rows c) = []" using assms(2) by (auto simp: filter_empty_conv)
  then show ?thesis using assms(1)
    by (auto simp: sock_round_at counters_one_def split: option.split)
qed

lemma find_sock_info_table:
  "find_sock_info_i T s k (Some r) = (case sock_table T s k of None \<Rightarrow> (- 1, Some r) | Some (i, f) \<Rightarrow> (0, Some i))"
  by (simp add: find_sock_info_i_def sock_table_def split: option.split)

lemma sock_nodes_card:
  assumes "lfht_spec T" and "sock_inv T s"
  shows "length (lfht_nodes T (sock_info_node_rcu_ht s)) = card (dom (sock_table T s))"
proof -
  let ?L = "lfht_lookup T (sock_info_node_rcu_ht s)"
  have "length (lfht_nodes T (sock_info_node_rcu_ht s)) = card (ran ?L)"
    using sock_inv_distinct [OF assms] lfht_specD(5) [OF assms(1)] by (metis distinct_card)
  also have "ran ?L = the ` ?L ` dom ?L" by (force simp: ran_def dom_def image_iff)
  also have "card \<dots> = card (?L ` dom ?L)" by (rule card_image) (auto simp: inj_on_def dom_def)
  also have "\<dots> = card (dom ?L)" by (rule card_image [OF sock_inv_inj [OF assms(2)]])
  finally show ?thesis by (simp add: sock_table_def dom_def)
qed

section \<open>Memory\<close>

text \<open>The callbacks can always run, and give back exactly the unlinked nodes.\<close>

lemma rcu_run_ok:
  assumes "pool_ok (sock_info_node_xmp s)" and "set as \<subseteq> live (sock_info_node_xmp s)" and "distinct as"
  shows "\<exists>p. rcu_run as s = Some (s\<lparr>sock_info_node_xmp := p\<rparr>) \<and> pool_ok p \<and> live p = live (sock_info_node_xmp s) - set as"
  using assms
proof (induction as arbitrary: s)
  case Nil
  show ?case by (rule exI [of _ "sock_info_node_xmp s"]) (use Nil in simp)
next
  case (Cons a as)
  from xmp.release_used [of "sock_info_node_xmp s" a] Cons.prems obtain q where
    q: "pool_release (sock_info_node_xmp s) a = Some q" "pool_ok q" "live q = live (sock_info_node_xmp s) - {a}" by auto
  from q(1) have f: "free_sock_info_node s a = Some (s\<lparr>sock_info_node_xmp := q\<rparr>)"
    by (simp add: free_sock_info_node_release)
  have "pool_ok (sock_info_node_xmp (s\<lparr>sock_info_node_xmp := q\<rparr>))"
    "set as \<subseteq> live (sock_info_node_xmp (s\<lparr>sock_info_node_xmp := q\<rparr>))" "distinct as"
    using Cons.prems q by auto
  from Cons.IH [OF this] obtain p where
    "rcu_run as (s\<lparr>sock_info_node_xmp := q\<rparr>) = Some (s\<lparr>sock_info_node_xmp := p\<rparr>)" "pool_ok p" "live p = live q - set as"
    by auto
  with f q(3) show ?case by (intro exI [of _ p]) auto
qed

lemma rcu_barrier_ok:
  assumes "sock_inv T s"
  obtains s' where "rcu_barrier s = Some s'" and "sock_inv T s'" and "sock_table T s' = sock_table T s"
    and "live (sock_info_node_xmp s') = ran (lfht_lookup T (sock_info_node_rcu_ht s'))"
    and "sock_info_node_rcu_ht s' = sock_info_node_rcu_ht s"
proof -
  from assms rcu_run_ok [of s "rcu_calls s"] obtain p where
    "rcu_run (rcu_calls s) s = Some (s\<lparr>sock_info_node_xmp := p\<rparr>)" "pool_ok p"
    "live p = live (sock_info_node_xmp s) - set (rcu_calls s)"
    by (auto simp: sock_inv_def)
  moreover have "live (sock_info_node_xmp s) - set (rcu_calls s) = ran (lfht_lookup T (sock_info_node_rcu_ht s))"
    using assms by (auto simp: sock_inv_def)
  ultimately show ?thesis
    using assms by (intro that [of "s\<lparr>sock_info_node_xmp := p, rcu_calls := []\<rparr>"])
      (auto simp: rcu_barrier_def sock_inv_def sock_table_def)
qed

lemma remove_all_ok:
  assumes "lfht_spec T" and "sock_inv T s"
  obtains s' where "remove_all_sock_info T s = Some s'" and "live (sock_info_node_xmp s') = {}"
proof -
  let ?as = "lfht_nodes T (sock_info_node_rcu_ht s)" and ?L = "lfht_lookup T (sock_info_node_rcu_ht s)"
  let ?s = "fold (del_sock_info_node T) ?as s"
  have n: "set ?as = ran ?L" by (rule lfht_specD(5) [OF assms(1)])
  have r: "sock_inv T ?s \<and> sock_table T ?s =
      (\<lambda>k. case ?L k of None \<Rightarrow> None | Some a \<Rightarrow> if a \<in> set ?as \<and> True then None else sock_table T s k)"
    by (rule remove_loop_ok [OF assms sock_inv_distinct [OF assms], of _ "\<lambda>_. True"]) (simp_all add: n)
  have "a \<in> ran ?L" if "?L k = Some a" for k a using that by (auto simp: ran_def)
  with r n have "sock_table T ?s = (\<lambda>k. None)" by (auto simp: fun_eq_iff split: option.split)
  then have e: "lfht_lookup T (sock_info_node_rcu_ht ?s) = (\<lambda>k. None)" by (simp add: sock_table_def fun_eq_iff)
  from r obtain s' where "rcu_barrier ?s = Some s'"
    "live (sock_info_node_xmp s') = ran (lfht_lookup T (sock_info_node_rcu_ht ?s))"
    by (metis rcu_barrier_ok)
  with that e show ?thesis by (simp add: remove_all_sock_info_def)
qed

section \<open>Runs\<close>

text \<open>The life of the table: it is created, rounds are collected from files in which every socket has
  one line, and RCU callbacks run at any time between two rounds.\<close>

inductive sock_reachable :: "'h lfht \<Rightarrow> (mempool \<Rightarrow> nat option) \<Rightarrow> 'h sock_info_mgr \<Rightarrow> bool" for T mem where
  reach_init: "init_sock_info_mgr True (Some h) True node_size m = Some s \<Longrightarrow> lfht_lookup T h = (\<lambda>_. None) \<Longrightarrow>
    0 < unit_size (sock_info_node_xmp s) \<Longrightarrow> unit_size (sock_info_node_xmp s) * 1024 < 2 ^ 32 \<Longrightarrow> sock_reachable T mem s"
| reach_collect: "sock_reachable T mem s \<Longrightarrow> \<forall>ty. io_file (io ty) (c ty) \<Longrightarrow> distinct (map ino (all_sock_rows c)) \<Longrightarrow>
    collect_socks_info_i T mem io s = Some s' \<Longrightarrow> sock_reachable T mem s'"
| reach_callback: "sock_reachable T mem s \<Longrightarrow> rcu_calls s = a # as \<Longrightarrow> free_sock_info_node s a = Some s' \<Longrightarrow>
    sock_reachable T mem (s'\<lparr>rcu_calls := as\<rparr>)"

lemma counters_one_round:
  assumes "counters_one m" and "distinct (map ino (all_sock_rows c))"
  shows "counters_one (sock_round c m)"
proof -
  have "f = 1 \<and> ino i = k" if "sock_round c m k = Some (i, f)" for k i f
  proof (cases "k \<in> ino ` set (all_sock_rows c)")
    case True
    with sock_round_listed [OF assms] that show ?thesis by auto
  next
    case False
    with sock_round_unlisted [OF assms(1)] that show ?thesis by simp
  qed
  then show ?thesis by (simp add: counters_one_def)
qed

lemma alist_table_spec: "lfht_spec alist_table"
proof -
  have "map_of (filter (\<lambda>p. snd p \<noteq> a) h) = (\<lambda>k. if map_of h k = Some a then None else map_of h k)"
    if "distinct (map fst h)" for h :: "(u32 \<times> nat) list" and a
    using that by (induction h) (auto simp: fun_eq_iff map_of_eq_None_iff)
  from this [of "AList.clearjunk h" for h]
  have 1: "map_of (filter (\<lambda>p. snd p \<noteq> a) (AList.clearjunk h)) = (\<lambda>k. if map_of h k = Some a then None else map_of h k)"
    for h :: "(u32 \<times> nat) list" and a unfolding map_of_clearjunk by (simp add: distinct_clearjunk)
  have 2: "snd ` set (AList.clearjunk h) = ran (map_of h)" for h :: "(u32 \<times> nat) list"
    by (metis distinct_clearjunk map_of_clearjunk ran_distinct)
  have 3: "distinct (map snd (AList.clearjunk h))" if i: "inj_on (map_of h) (dom (map_of h))" for h :: "(u32 \<times> nat) list"
  proof -
    let ?h = "AList.clearjunk h"
    have d: "distinct (map fst ?h)" by (rule distinct_clearjunk)
    have "inj_on snd (set ?h)"
    proof (rule inj_onI)
      fix p q assume pq: "p \<in> set ?h" "q \<in> set ?h" "snd p = snd q"
      have "map_of h (fst p) = Some (snd p)" "map_of h (fst q) = Some (snd q)"
        using pq d by (metis map_of_clearjunk map_of_is_SomeI prod.collapse)+
      with pq(3) i have "fst p = fst q" by (auto simp: inj_on_def dom_def)
      with pq(3) show "p = q" by (simp add: prod_eq_iff)
    qed
    moreover have "distinct ?h" using d by (simp add: distinct_map)
    ultimately show ?thesis by (simp add: distinct_map)
  qed
  show ?thesis unfolding lfht_spec_def alist_table_def using 1 2 3 by (auto simp: update_conv)
qed

lemma top_memory_ok: "memory_ok top_memory"
proof -
  have "data_addr b + block_size b \<le> foldr max (map (\<lambda>b. data_addr b + block_size b) bs) 0" if "b \<in> set bs" for b bs
    using that by (induction bs) auto
  then show ?thesis by (auto simp: memory_ok_def top_memory_def fresh_def)
qed

lemma sock_reachable_ok:
  assumes "lfht_spec T" and "memory_ok mem" and "sock_reachable T mem s"
  shows "sock_inv T s \<and> counters_one (sock_table T s)"
  using assms(3)
proof induction
  case (reach_init h node_size m s)
  then obtain p where p: "xm_mempool_init True node_size 1024 1024 = Some p"
    and s: "s = \<lparr>sock_info_node_rcu_ht = h, sock_info_node_xmp = p, node_mem = m, rcu_calls = [], proc_net = (\<lambda>_. None)\<rparr>"
    by (auto simp: init_sock_info_mgr_def)
  have "pool_ok p" "live p = {}" using init_ok [OF p] reach_init(3,4) by (simp_all add: s)
  with reach_init(2) show ?case
    by (simp add: s sock_inv_def sock_table_def counters_one_def ran_def)
next
  case (reach_collect s io c s')
  have inv: "sock_inv T s" using reach_collect(5) by simp
  obtain s1 where "collect_socks_info_i T mem io s = Some s1" "sock_inv T s1"
    "sock_table T s1 = sock_round c (sock_table T s)"
    by (rule collect_socks_ok [OF assms(1,2) inv reach_collect(2)])
  with reach_collect(4) have "sock_inv T s' \<and> sock_table T s' = sock_round c (sock_table T s)" by simp
  with counters_one_round reach_collect(3,5) show ?case by simp
next
  case (reach_callback s a as s')
  then have inv: "sock_inv T s" by simp
  then have "pool_ok (sock_info_node_xmp s)" "a \<in> live (sock_info_node_xmp s)"
    using reach_callback(2) by (auto simp: sock_inv_def)
  from xmp.release_used [OF this] obtain q where
    q: "pool_release (sock_info_node_xmp s) a = Some q" "pool_ok q" "live q = live (sock_info_node_xmp s) - {a}" by auto
  have "s' = s\<lparr>sock_info_node_xmp := q\<rparr>"
    using reach_callback(3) q(1) by (simp add: free_sock_info_node_release)
  then have e: "s'\<lparr>rcu_calls := as\<rparr> = s\<lparr>sock_info_node_xmp := q, rcu_calls := as\<rparr>" by simp
  let ?R = "ran (lfht_lookup T (sock_info_node_rcu_ht s))"
  have "a \<notin> ?R" "a \<notin> set as" "live (sock_info_node_xmp s) = ?R \<union> insert a (set as)" "?R \<inter> set as = {}" "distinct as"
    using inv reach_callback(2) by (auto simp: sock_inv_def)
  then have "live q = ?R \<union> set as" using q(3) by auto
  with q(2) inv \<open>?R \<inter> set as = {}\<close> \<open>distinct as\<close> have "sock_inv T (s\<lparr>sock_info_node_xmp := q, rcu_calls := as\<rparr>)"
    by (simp add: sock_inv_def)
  moreover have "sock_table T (s\<lparr>sock_info_node_xmp := q, rcu_calls := as\<rparr>) = sock_table T s"
    by (simp add: sock_table_def)
  ultimately show ?case using reach_callback(4) by (simp add: e)
qed

section \<open>Properties\<close>

text \<open>C19: a round always finishes, and afterwards the table is exactly what the five files say, whatever it
  held before and whatever callbacks have run: a socket that a file lists is found by its inode with
  the type of its file and the state of its line, every other inode is not found, and the count is
  the number of sockets. Sockets that vanished are gone, and those whose state changed have the new
  state.\<close>

theorem sock_table_exact:
  assumes "lfht_spec T" and "memory_ok mem" and "sock_reachable T mem s"
    and "\<forall>ty. io_file (io ty) (c ty)" and "distinct (map ino (all_sock_rows c))"
  shows "\<exists>s'. collect_socks_info_i T mem io s = Some s' \<and>
    (\<forall>i \<in> set (all_sock_rows c). \<forall>r. find_sock_info_i T s' (ino i) (Some r) = (0, Some i)) \<and>
    (\<forall>k r. k \<notin> ino ` set (all_sock_rows c) \<longrightarrow> find_sock_info_i T s' k (Some r) = (- 1, Some r)) \<and>
    sock_info_count_i T s' = of_nat (length (all_sock_rows c))"
proof -
  have ok: "sock_inv T s" "counters_one (sock_table T s)" using sock_reachable_ok [OF assms(1-3)] by auto
  obtain s' where s': "collect_socks_info_i T mem io s = Some s'" "sock_inv T s'"
    "sock_table T s' = sock_round c (sock_table T s)"
    by (rule collect_socks_ok [OF assms(1,2) ok(1) assms(4)])
  note l = sock_round_listed [OF ok(2) assms(5)] and u = sock_round_unlisted [OF ok(2)]
  have "dom (sock_table T s') = ino ` set (all_sock_rows c)"
    unfolding s'(3) using l u by (fastforce simp: dom_def)
  then have "length (lfht_nodes T (sock_info_node_rcu_ht s')) = length (all_sock_rows c)"
    using sock_nodes_card [OF assms(1) s'(2)] distinct_card [OF assms(5)] by simp
  with s' l u show ?thesis by (auto simp: find_sock_info_table sock_info_count_i_def)
qed

text \<open>A line of \<^verbatim>\<open>/proc/net/tcp\<close> with inode 7 in the state established.\<close>

definition tcp_header :: string where
  "tcp_header = [CHR ''h'', CHR 0x0A]"

definition tcp_line :: string where
  "tcp_line = ''0: A:B C:D 01 0:0 0:0 0 0 0 7'' @ [CHR 0x0A]"

definition tcp_files :: "string \<Rightarrow> SOCK_TYPE \<Rightarrow> string" where
  "tcp_files t ty = (if ty = ST_TCP then t else [])"

definition sock_example :: "(u32 \<times> nat) list sock_info_mgr" where
  "sock_example =
     \<lparr>sock_info_node_rcu_ht = [],
      sock_info_node_xmp = \<lparr>unit_size = 64, init_mem_unit_count = 1024, grow_mem_unit_count = 1024,
                            curr_mem_block_count = 0, blocks = []\<rparr>,
      node_mem = (\<lambda>_. \<lparr>si = \<lparr>ino = 0, sock_type = ST_UNKNOWN, sock_state = 0\<rparr>, is_update = 0\<rparr>),
      rcu_calls = [], proc_net = (\<lambda>_. None)\<rparr>"

lemma sock_example_reachable: "sock_reachable alist_table top_memory sock_example"
proof (rule reach_init)
  have "roundup8 64 = 64" by (simp add: roundup8_def)
  then show "init_sock_info_mgr True (Some []) True 64 (node_mem sock_example) = Some sock_example"
    by (simp add: init_sock_info_mgr_def xm_mempool_init_def sock_example_def)
qed (simp_all add: alist_table_def sock_example_def fun_eq_iff)

lemma tcp_rows_0: "sock_rows ST_TCP tcp_header = []"
  by code_simp

lemma tcp_rows_1: "sock_rows ST_TCP (tcp_header @ tcp_line) = [\<lparr>ino = 7, sock_type = ST_TCP, sock_state = 1\<rparr>]"
  by code_simp

lemma tcp_rows_2: "sock_rows ST_TCP (tcp_header @ tcp_line @ tcp_line) =
    [\<lparr>ino = 7, sock_type = ST_TCP, sock_state = 1\<rparr>, \<lparr>ino = 7, sock_type = ST_TCP, sock_state = 1\<rparr>]"
  by code_simp

lemma sock_rows_Nil: "sock_rows ty [] = []"
  by (simp add: sock_rows_def cut_text_def cut_end_def List.map_filter_def)

lemma all_rows_tcp: "all_sock_rows (tcp_files t) = sock_rows ST_TCP t"
  by (simp add: all_sock_rows_def sock_file_infos_def tcp_files_def sock_rows_Nil)

lemma io_tcp: "NUL \<notin> set t \<Longrightarrow> \<forall>ty. io_file (file_of (tcp_files t ty)) (tcp_files t ty)"
  by (simp add: tcp_files_def)

lemmas tcp_texts = tcp_header_def tcp_line_def

theorem sock_table_exact_witness:
  "\<exists>s'. collect_socks_info_i alist_table top_memory (\<lambda>ty. file_of (tcp_files (tcp_header @ tcp_line) ty)) sock_example = Some s' \<and>
     find_sock_info_i alist_table s' 7 (Some \<lparr>ino = 0, sock_type = ST_UNKNOWN, sock_state = 0\<rparr>) =
       (0, Some \<lparr>ino = 7, sock_type = ST_TCP, sock_state = 1\<rparr>) \<and>
     sock_info_count_i alist_table s' = 1"
proof -
  have "NUL \<notin> set (tcp_header @ tcp_line)" by (simp add: tcp_texts)
  from sock_table_exact [OF alist_table_spec top_memory_ok sock_example_reachable io_tcp [OF this]]
  show ?thesis unfolding all_rows_tcp tcp_rows_1 by auto
qed

text \<open>C20: no node is lost or freed twice: after a round the callbacks that wait all run without a fault,
  the table does not change by them, and then the units of the pool in use are exactly the nodes of
  the table, one for each. When the table is emptied at the end, no unit stays in use.\<close>

theorem sock_nodes_accounted:
  assumes "lfht_spec T" and "memory_ok mem" and "sock_reachable T mem s"
  shows "(\<exists>s'. rcu_barrier s = Some s' \<and> sock_table T s' = sock_table T s \<and>
      live (sock_info_node_xmp s') = set (lfht_nodes T (sock_info_node_rcu_ht s')) \<and>
      distinct (lfht_nodes T (sock_info_node_rcu_ht s'))) \<and>
    (\<exists>s'. remove_all_sock_info T s = Some s' \<and> live (sock_info_node_xmp s') = {})"
proof -
  have ok: "sock_inv T s" using sock_reachable_ok [OF assms] by auto
  obtain s' where s': "rcu_barrier s = Some s'" "sock_inv T s'" "sock_table T s' = sock_table T s"
    "live (sock_info_node_xmp s') = ran (lfht_lookup T (sock_info_node_rcu_ht s'))"
    using rcu_barrier_ok [OF ok] by blast
  with lfht_specD(5) [OF assms(1)] sock_inv_distinct [OF assms(1) s'(2)] remove_all_ok [OF assms(1) ok]
  show ?thesis by metis
qed

theorem sock_nodes_accounted_witness:
  "\<exists>s s' s''. collect_socks_info_i alist_table top_memory (\<lambda>ty. file_of (tcp_files (tcp_header @ tcp_line) ty)) sock_example = Some s \<and>
     rcu_barrier s = Some s' \<and> card (live (sock_info_node_xmp s')) = 1 \<and>
     remove_all_sock_info alist_table s = Some s'' \<and> live (sock_info_node_xmp s'') = {}"
proof -
  let ?c = "tcp_files (tcp_header @ tcp_line)" and ?T = alist_table
  have io: "\<forall>ty. io_file (file_of (?c ty)) (?c ty)" by (rule io_tcp) (simp add: tcp_texts)
  have ok: "sock_inv ?T sock_example" "counters_one (sock_table ?T sock_example)"
    using sock_reachable_ok [OF alist_table_spec top_memory_ok sock_example_reachable] by auto
  obtain s where s: "collect_socks_info_i ?T top_memory (\<lambda>ty. file_of (?c ty)) sock_example = Some s" "sock_inv ?T s"
    "sock_table ?T s = sock_round ?c (sock_table ?T sock_example)"
    by (rule collect_socks_ok [OF alist_table_spec top_memory_ok ok(1) io])
  have d: "distinct (map ino (all_sock_rows ?c))" by (simp add: all_rows_tcp tcp_rows_1)
  have r: "sock_reachable ?T top_memory s" by (rule reach_collect [OF sock_example_reachable io d s(1)])
  have "dom (sock_table ?T s) = {7}"
    using sock_round_listed [OF ok(2) d] sock_round_unlisted [OF ok(2), of _ ?c]
    by (fastforce simp: s(3) dom_def all_rows_tcp tcp_rows_1)
  then have "card (dom (sock_table ?T s)) = 1" by simp
  moreover obtain s' where s': "rcu_barrier s = Some s'" "sock_inv ?T s'" "sock_table ?T s' = sock_table ?T s"
    using rcu_barrier_ok [OF s(2)] by blast
  ultimately have "card (set (lfht_nodes ?T (sock_info_node_rcu_ht s'))) = 1"
    using sock_nodes_card [OF alist_table_spec s'(2)] distinct_card [OF sock_inv_distinct [OF alist_table_spec s'(2)]] by simp
  with sock_nodes_accounted [OF alist_table_spec top_memory_ok r] s(1) s'(1) show ?thesis by auto
qed

text \<open>The update mark is a counter, not a flag: a socket that a file lists twice in one round stays in
  the table for one more round after it is gone from all files.\<close>

lemma sock_listed_twice_stays:
  assumes "lfht_spec T" and "memory_ok mem" and "sock_reachable T mem s"
    and "\<forall>ty. io_file (io1 ty) (c1 ty)" and "\<forall>ty. io_file (io2 ty) (c2 ty)"
    and "filter (\<lambda>j. ino j = ino i) (all_sock_rows c1) = [i, i]" and "ino i \<notin> ino ` set (all_sock_rows c2)"
    and "sock_table T s (ino i) = None"
  shows "\<exists>s1 s2. collect_socks_info_i T mem io1 s = Some s1 \<and> collect_socks_info_i T mem io2 s1 = Some s2 \<and>
    (\<forall>r. find_sock_info_i T s2 (ino i) (Some r) = (0, Some i))"
proof -
  have ok: "sock_inv T s" using sock_reachable_ok [OF assms(1-3)] by auto
  obtain s1 where s1: "collect_socks_info_i T mem io1 s = Some s1" "sock_inv T s1"
    "sock_table T s1 = sock_round c1 (sock_table T s)"
    by (rule collect_socks_ok [OF assms(1,2) ok assms(4)])
  obtain s2 where s2: "collect_socks_info_i T mem io2 s1 = Some s2"
    "sock_table T s2 = sock_round c2 (sock_table T s1)"
    by (rule collect_socks_ok [OF assms(1,2) s1(2) assms(5)])
  have "sock_table T s1 (ino i) = Some (i, 2)"
    unfolding s1(3) sock_round_at assms(6,8) by (simp add: put_one_def)
  moreover have "filter (\<lambda>j. ino j = ino i) (all_sock_rows c2) = []"
    using assms(7) by (auto simp: filter_empty_conv image_iff)
  ultimately have "sock_table T s2 (ino i) = Some (i, 1)" unfolding s2(2) sock_round_at by simp
  with s1(1) s2(1) show ?thesis by (simp add: find_sock_info_table)
qed

lemma sock_listed_twice_stays_witness:
  "\<exists>s1 s2. collect_socks_info_i alist_table top_memory (\<lambda>ty. file_of (tcp_files (tcp_header @ tcp_line @ tcp_line) ty)) sock_example = Some s1 \<and>
     collect_socks_info_i alist_table top_memory (\<lambda>ty. file_of (tcp_files tcp_header ty)) s1 = Some s2 \<and>
     (\<forall>r. find_sock_info_i alist_table s2 7 (Some r) = (0, Some \<lparr>ino = 7, sock_type = ST_TCP, sock_state = 1\<rparr>))"
proof -
  let ?i = "\<lparr>ino = 7, sock_type = ST_TCP, sock_state = 1\<rparr>"
  have n: "NUL \<notin> set (tcp_header @ tcp_line @ tcp_line)" "NUL \<notin> set tcp_header" by (simp_all add: tcp_texts)
  have "filter (\<lambda>j. ino j = ino ?i) (all_sock_rows (tcp_files (tcp_header @ tcp_line @ tcp_line))) = [?i, ?i]"
    "ino ?i \<notin> ino ` set (all_sock_rows (tcp_files tcp_header))"
    by (simp_all add: all_rows_tcp tcp_rows_0 tcp_rows_2)
  moreover have "sock_table alist_table sock_example (ino ?i) = None"
    by (simp add: sock_table_def sock_example_def alist_table_def)
  ultimately show ?thesis
    using sock_listed_twice_stays [OF alist_table_spec top_memory_ok sock_example_reachable io_tcp [OF n(1)] io_tcp [OF n(2)], of ?i]
    by simp
qed

end
