(* ===== verification/XM_Process.thy ===== *)
theory XM_Process
  imports XM_Numbers XM_Os XM_Sock
begin

text \<open>
  \<^verbatim>\<open>collectors/process\<close>: what is known of one process, read every round from its files under
  \<^verbatim>\<open>/proc/<pid>\<close>. A record \<open>process_status\<close> is \<^verbatim>\<open>struct process_status\<close>; each collector takes the record
  and what the kernel gives for its file and returns the record and the C return value. The outer
  \<open>None\<close> of a result is undefined behaviour or a loop that does not end. A log line that prints the
  name of a file that is gone is left out.
\<close>

definition XM_PROC_COMM_SIZE :: nat where "XM_PROC_COMM_SIZE = 64"
definition PROCFILE_FLAG_NO_ERROR_ON_FILE_IO :: u32 where "PROCFILE_FLAG_NO_ERROR_ON_FILE_IO = 1"

record sock_statistic =
  tcp_established :: u16
  tcp_syn_sent :: u16
  tcp_syn_recv :: u16
  tcp_fin_wait1 :: u16
  tcp_fin_wait2 :: u16
  tcp_close :: u16
  tcp_close_wait :: u16
  tcp_last_ack :: u16
  tcp_listen :: u16
  tcp_closing :: u16
  tcp6_established :: u16
  tcp6_syn_sent :: u16
  tcp6_syn_recv :: u16
  tcp6_fin_wait1 :: u16
  tcp6_fin_wait2 :: u16
  tcp6_close :: u16
  tcp6_close_wait :: u16
  tcp6_last_ack :: u16
  tcp6_listen :: u16
  tcp6_closing :: u16
  udp_established :: u16
  udp_close :: u16
  udp6_established :: u16
  udp6_close :: u16
  unix_established :: u16
  unix_send :: u16
  unix_recv :: u16

text \<open>\<^verbatim>\<open>memset(&sst, 0, sizeof(sst))\<close>.\<close>

definition sst_zero :: sock_statistic where
  "sst_zero =
     \<lparr>tcp_established = 0, tcp_syn_sent = 0, tcp_syn_recv = 0, tcp_fin_wait1 = 0, tcp_fin_wait2 = 0,
      tcp_close = 0, tcp_close_wait = 0, tcp_last_ack = 0, tcp_listen = 0, tcp_closing = 0,
      tcp6_established = 0, tcp6_syn_sent = 0, tcp6_syn_recv = 0, tcp6_fin_wait1 = 0, tcp6_fin_wait2 = 0,
      tcp6_close = 0, tcp6_close_wait = 0, tcp6_last_ack = 0, tcp6_listen = 0, tcp6_closing = 0,
      udp_established = 0, udp_close = 0, udp6_established = 0, udp6_close = 0,
      unix_established = 0, unix_send = 0, unix_recv = 0\<rparr>"

text \<open>\<open>start_time\<close> is the quotient of two doubles: the pair of its numerator and denominator.\<close>

record process_status =
  ps_pid :: pid
  ps_ppid :: pid
  comm :: string
  stat_full_filename :: string
  status_full_filename :: string
  io_full_filename :: string
  fd_dir_fullname :: string
  oom_score_full_filename :: string
  oom_score_adj_full_filename :: string
  pf_proc_pid_stat :: "proc_file option"
  pf_proc_pid_io :: "proc_file option"
  ps_minflt_raw :: u64
  ps_cminflt_raw :: u64
  ps_majflt_raw :: u64
  ps_cmajflt_raw :: u64
  ps_utime_raw :: u64
  ps_stime_raw :: u64
  ps_cutime_raw :: u64
  ps_cstime_raw :: u64
  process_cpu_jiffies :: u64
  ps_num_threads :: i32
  start_time :: "u64 \<times> u32"
  mem_status_fd :: int
  ps_vmsize :: u64
  ps_rss_anon :: u64
  ps_rss_file :: u64
  ps_rss_shmem :: u64
  ps_vmswap :: u64
  smaps :: smaps_info
  ps_io_logical_bytes_read :: u64
  ps_io_logical_bytes_written :: u64
  ps_io_read_calls :: u64
  ps_io_write_calls :: u64
  ps_io_storage_bytes_read :: u64
  ps_io_storage_bytes_written :: u64
  ps_io_cancelled_write_bytes :: i32
  process_open_fds :: i32
  ps_sst :: sock_statistic
  oom_score :: i16
  oom_score_adj :: i16
  oom_adj :: i16
  ps_nvcsw :: u64
  ps_nivcsw :: u64

section \<open>Creation\<close>

text \<open>\<^verbatim>\<open>snprintf\<close> of a path with a process id, which is positive.\<close>

definition proc_pid_path :: "pid \<Rightarrow> string \<Rightarrow> string" where
  "proc_pid_path pid name = ''/proc/'' @ decimal (unat pid) @ ''/'' @ name"

text \<open>The record of zero bytes.\<close>

definition ps_zero :: process_status where
  "ps_zero =
     \<lparr>ps_pid = 0, ps_ppid = 0, comm = [], stat_full_filename = [], status_full_filename = [],
      io_full_filename = [], fd_dir_fullname = [], oom_score_full_filename = [],
      oom_score_adj_full_filename = [], pf_proc_pid_stat = None, pf_proc_pid_io = None,
      ps_minflt_raw = 0, ps_cminflt_raw = 0, ps_majflt_raw = 0, ps_cmajflt_raw = 0, ps_utime_raw = 0,
      ps_stime_raw = 0, ps_cutime_raw = 0, ps_cstime_raw = 0, process_cpu_jiffies = 0,
      ps_num_threads = 0, start_time = (0, 1), mem_status_fd = 0, ps_vmsize = 0, ps_rss_anon = 0,
      ps_rss_file = 0, ps_rss_shmem = 0, ps_vmswap = 0,
      smaps = \<lparr>smaps_fd = 0, rss = 0, pss = 0, pss_anon = 0, pss_file = 0, pss_shmem = 0, uss = 0\<rparr>,
      ps_io_logical_bytes_read = 0, ps_io_logical_bytes_written = 0, ps_io_read_calls = 0,
      ps_io_write_calls = 0, ps_io_storage_bytes_read = 0, ps_io_storage_bytes_written = 0,
      ps_io_cancelled_write_bytes = 0, process_open_fds = 0, ps_sst = sst_zero, oom_score = 0,
      oom_score_adj = 0, oom_adj = 0, ps_nvcsw = 0, ps_nivcsw = 0\<rparr>"

text \<open>\<open>from_pool\<close>: whether a pool is given; \<open>got\<close>: whether the pool or \<^verbatim>\<open>calloc\<close> has memory. A unit of the
  pool is cleared before it is tested, so a pool without memory is written through NULL: \<open>None\<close>.\<close>

definition new_process_status :: "pid \<Rightarrow> bool \<Rightarrow> bool \<Rightarrow> process_status option option" where
  "new_process_status pid from_pool got =
     (if sint pid \<le> 0 then Some None
      else if from_pool \<and> \<not> got then None
      else if \<not> got then Some None
      else Some (Some (ps_zero\<lparr>ps_pid := pid,
             stat_full_filename := proc_pid_path pid ''stat'',
             status_full_filename := proc_pid_path pid ''status'',
             io_full_filename := proc_pid_path pid ''io'',
             fd_dir_fullname := proc_pid_path pid ''fd'',
             oom_score_full_filename := proc_pid_path pid ''oom_score'',
             oom_score_adj_full_filename := proc_pid_path pid ''oom_score_adj''\<rparr>)))"

section \<open>Processor time\<close>

definition stat_num :: "proc_file \<Rightarrow> nat \<Rightarrow> u64" where
  "stat_num pf n = str2uint64_t (procfile_lineword pf 0 n)"

definition read_stat :: "u32 \<Rightarrow> proc_file \<Rightarrow> process_status \<Rightarrow> process_status" where
  "read_stat system_hz pf ps =
     (let new_comm = procfile_lineword pf 0 1;
          utime = stat_num pf 13 - stat_num pf 42;
          stime = stat_num pf 14;
          cutime = stat_num pf 15 - stat_num pf 43;
          cstime = stat_num pf 16
      in ps\<lparr>ps_ppid := str2uint32_t (procfile_lineword pf 0 3),
            comm := (if new_comm \<noteq> comm ps then strlcpy_str new_comm XM_PROC_COMM_SIZE else comm ps),
            ps_minflt_raw := stat_num pf 9, ps_cminflt_raw := stat_num pf 10,
            ps_majflt_raw := stat_num pf 11, ps_cmajflt_raw := stat_num pf 12,
            ps_utime_raw := utime, ps_stime_raw := stime,
            ps_cutime_raw := cutime, ps_cstime_raw := cstime,
            process_cpu_jiffies := utime + stime + cutime + cstime,
            ps_num_threads := str2int32_t (procfile_lineword pf 0 19),
            start_time := (stat_num pf 21, system_hz)\<rparr>)"

text \<open>The parentheses are declared only for a file that was open before.\<close>

definition collector_process_cpu_usage ::
  "u32 \<Rightarrow> file_io \<Rightarrow> process_status \<Rightarrow> (process_status \<times> int) option" where
  "collector_process_cpu_usage system_hz io ps =
     (let set_quotes = (pf_proc_pid_stat ps = None)
      in case (case pf_proc_pid_stat ps of
                 Some pf \<Rightarrow> Some (Some pf)
               | None \<Rightarrow> procfile_open (io_junk io) (io_open io) (stat_full_filename ps) None
                           PROCFILE_FLAG_NO_ERROR_ON_FILE_IO) of
           None \<Rightarrow> None
         | Some None \<Rightarrow> Some (ps\<lparr>pf_proc_pid_stat := None\<rparr>, - 1)
         | Some (Some pf) \<Rightarrow>
             (case (if \<not> set_quotes then procfile_set_open_close pf (Some ''('') (Some '')'') else Some pf) of
                None \<Rightarrow> None
              | Some pf1 \<Rightarrow>
                  (case procfile_readall (io_read io) (io_junk io) pf1 of
                     None \<Rightarrow> None
                   | Some None \<Rightarrow> Some (ps\<lparr>pf_proc_pid_stat := None\<rparr>, - 1)
                   | Some (Some pf2) \<Rightarrow> Some (read_stat system_hz pf2 (ps\<lparr>pf_proc_pid_stat := Some pf2\<rparr>), 0))))"

section \<open>Input and output\<close>

definition read_io :: "proc_file \<Rightarrow> process_status \<Rightarrow> process_status" where
  "read_io pf ps =
     ps\<lparr>ps_io_logical_bytes_read := str2uint64_t (procfile_lineword pf 0 1),
        ps_io_logical_bytes_written := str2uint64_t (procfile_lineword pf 1 1),
        ps_io_read_calls := str2uint64_t (procfile_lineword pf 2 1),
        ps_io_write_calls := str2uint64_t (procfile_lineword pf 3 1),
        ps_io_storage_bytes_read := str2uint64_t (procfile_lineword pf 4 1),
        ps_io_storage_bytes_written := str2uint64_t (procfile_lineword pf 5 1),
        ps_io_cancelled_write_bytes := str2int32_t (procfile_lineword pf 6 1)\<rparr>"

definition collector_process_io_usage ::
  "file_io \<Rightarrow> process_status \<Rightarrow> (process_status \<times> int) option" where
  "collector_process_io_usage io ps =
     (case open_and_read io (io_full_filename ps) None PROCFILE_FLAG_NO_ERROR_ON_FILE_IO (pf_proc_pid_io ps) of
        None \<Rightarrow> None
      | Some None \<Rightarrow> Some (ps\<lparr>pf_proc_pid_io := None\<rparr>, - 1)
      | Some (Some pf) \<Rightarrow> Some (read_io pf (ps\<lparr>pf_proc_pid_io := Some pf\<rparr>), 0))"

section \<open>Memory\<close>

definition status_tags :: "string list" where
  "status_tags =
     [''VmSize:'', ''RssAnon:'', ''RssFile:'', ''RssShmem:'', ''VmSwap:'', ''voluntary_ctxt_switches:'',
      ''nonvoluntary_ctxt_switches:'']"

text \<open>The field a tag's pointer leads to.\<close>

definition set_status :: "nat \<Rightarrow> u64 \<Rightarrow> process_status \<Rightarrow> process_status" where
  "set_status i v ps =
     (if i = 0 then ps\<lparr>ps_vmsize := v\<rparr> else if i = 1 then ps\<lparr>ps_rss_anon := v\<rparr>
      else if i = 2 then ps\<lparr>ps_rss_file := v\<rparr> else if i = 3 then ps\<lparr>ps_rss_shmem := v\<rparr>
      else if i = 4 then ps\<lparr>ps_vmswap := v\<rparr> else if i = 5 then ps\<lparr>ps_nvcsw := v\<rparr>
      else ps\<lparr>ps_nivcsw := v\<rparr>)"

text \<open>The inner search: the first tag that the text starts with.\<close>

fun find_tag :: "nat \<Rightarrow> string list \<Rightarrow> string \<Rightarrow> (nat \<times> string) option" where
  "find_tag i [] p = None"
| "find_tag i (t # ts) p = (if has_prefix t p then Some (i, drop (length t) p) else find_tag (Suc i) ts p)"

definition skip_line :: "string \<Rightarrow> string" where
  "skip_line p = drop 1 (dropWhile (\<lambda>c. c \<noteq> CHR 0x0A) p)"

text \<open>Behind a tag: blanks, the digits, and one more byte, which is overwritten with NUL.\<close>

definition tag_number :: "string \<Rightarrow> u64 \<times> string" where
  "tag_number p =
     (let q = dropWhile (\<lambda>c. c = CHR '' '' \<or> c = CHR 0x09) p
      in (str2uint64_t (takeWhile is_digit q), drop 1 (dropWhile is_digit q)))"

lemma skip_line_le: "length (skip_line p) \<le> length p"
  unfolding skip_line_def using length_dropWhile_le [of "\<lambda>c. c \<noteq> CHR 0x0A" p] by simp

lemma skip_line_less:
  assumes "p \<noteq> []"
  shows "length (skip_line p) < length p"
proof -
  have "0 < length p" using assms by simp
  moreover have "length (dropWhile (\<lambda>c. c \<noteq> CHR 0x0A) p) \<le> length p" by (rule length_dropWhile_le)
  ultimately show ?thesis unfolding skip_line_def length_drop by linarith
qed

lemma tag_number_le: "length (snd (tag_number p)) \<le> length p"
proof -
  let ?q = "dropWhile (\<lambda>c. c = CHR '' '' \<or> c = CHR 0x09) p"
  have "length (dropWhile is_digit ?q) \<le> length ?q" "length ?q \<le> length p" by (rule length_dropWhile_le)+
  then have "length (dropWhile is_digit ?q) - 1 \<le> length p" by linarith
  then show ?thesis by (simp add: tag_number_def Let_def)
qed

lemma find_tag_shorter:
  "list_all (\<lambda>t. t \<noteq> []) ts \<Longrightarrow> find_tag i ts p = Some (j, r) \<Longrightarrow> length r < length p"
proof (induction i ts p rule: find_tag.induct)
  case (2 i t ts p)
  show ?case
  proof (cases "has_prefix t p")
    case True
    then have "length t \<le> length p" by (simp add: has_prefix_iff prefix_length_le)
    moreover have "0 < length t" using 2(2) by simp
    ultimately have "length (drop (length t) p) < length p" unfolding length_drop by linarith
    then show ?thesis using 2(3) True by auto
  next
    case False
    with 2 show ?thesis by simp
  qed
qed simp

lemma status_tags_not_Nil: "list_all (\<lambda>t. t \<noteq> []) status_tags"
  by (simp add: status_tags_def)

lemma find_status_tag_shorter: "find_tag 0 status_tags p = Some (j, r) \<Longrightarrow> length r < length p"
  by (rule find_tag_shorter [OF status_tags_not_Nil])

lemma status_step_shorter:
  "find_tag 0 status_tags p = Some (j, r) \<Longrightarrow> length (skip_line (snd (tag_number r))) < length p"
  using find_status_tag_shorter [of p j r] tag_number_le [of r] skip_line_le [of "snd (tag_number r)"] by simp

function status_loop :: "string \<Rightarrow> nat \<Rightarrow> process_status \<Rightarrow> process_status" where
  "status_loop p num_found ps =
     (if p = [] \<or> 7 \<le> num_found then ps
      else case find_tag 0 status_tags p of
             Some (i, r) \<Rightarrow>
               status_loop (skip_line (snd (tag_number r))) (num_found + 1) (set_status i (fst (tag_number r)) ps)
           | None \<Rightarrow> status_loop (skip_line p) num_found ps)"
  by pat_completeness auto
termination
  by (relation "measure (\<lambda>(p, n, ps). length p)") (auto simp: skip_line_less status_step_shorter)

declare status_loop.simps [simp del]

text \<open>\<open>smaps_open\<close>, \<open>smaps_rd\<close>: for the smaps file. \<open>st_open\<close> and \<open>st_rd\<close> are \<^verbatim>\<open>open\<close> and the one \<^verbatim>\<open>read\<close> of the
  status file; an open file is rewound.\<close>

definition collector_process_mem_usage ::
  "int \<Rightarrow> (nat \<Rightarrow> nat \<Rightarrow> string option) \<Rightarrow> int \<Rightarrow> file_read \<Rightarrow> process_status \<Rightarrow> (process_status \<times> int) option" where
  "collector_process_mem_usage smaps_open smaps_rd st_open st_rd ps =
     (if sint (ps_pid ps) \<le> 0 then Some (ps, - 1)
      else let s0 = (smaps ps)\<lparr>rss := 0, uss := 0, pss := 0, pss_anon := 0, pss_file := 0, pss_shmem := 0\<rparr>
           in case get_mss_from_smaps smaps_open smaps_rd s0 of
                None \<Rightarrow> None
              | Some (s1, r) \<Rightarrow>
                  let ps1 = ps\<lparr>smaps := s1\<rparr>
                  in if r < 0 then Some (ps1, - 1)
                     else let ps2 = (if mem_status_fd ps1 \<le> 0 then ps1\<lparr>mem_status_fd := st_open\<rparr> else ps1)
                          in if mem_status_fd ps1 \<le> 0 \<and> st_open < 0 then Some (ps2, - 1)
                             else case st_rd (XM_PROC_CONTENT_BUF_SIZE - 1) of
                                    None \<Rightarrow> Some (ps2\<lparr>mem_status_fd := 0\<rparr>, - 1)
                                  | Some bs \<Rightarrow>
                                      if bs = [] then Some (ps2\<lparr>mem_status_fd := 0\<rparr>, - 1)
                                      else Some (status_loop (cstr bs) 0 ps2, 0))"

section \<open>Open files\<close>

text \<open>An entry of the directory: its name, whether it is a link, and what \<^verbatim>\<open>readlinkat\<close> finds.\<close>

record dirent =
  d_name :: string
  d_is_lnk :: bool
  d_target :: "string option"

text \<open>\<^verbatim>\<open>sscanf(s, "socket:[%u]", &v)\<close>: the number, if there is one.\<close>

definition scan_u :: "string \<Rightarrow> u32 option" where
  "scan_u s0 =
     (let s = dropWhile is_space s0;
          t = (if s \<noteq> [] \<and> (hd s = CHR ''-'' \<or> hd s = CHR ''+'') then tl s else s);
          ds = takeWhile is_digit t;
          v = (if 2 ^ 64 \<le> dec_value 0 ds then - 1 else of_nat (dec_value 0 ds)) :: u64
      in if ds = [] then None
         else Some (ucast (if s \<noteq> [] \<and> hd s = CHR ''-'' \<and> dec_value 0 ds < 2 ^ 64 then - v else v)))"

definition count_sock :: "sock_info \<Rightarrow> sock_statistic \<Rightarrow> sock_statistic" where
  "count_sock i st =
     (let ss = sock_state i
      in case sock_type i of
           ST_TCP \<Rightarrow>
             if ss = SS_ESTABLISHED then st\<lparr>tcp_established := tcp_established st + 1\<rparr>
             else if ss = SS_CLOSE_WAIT then st\<lparr>tcp_close_wait := tcp_close_wait st + 1\<rparr>
             else if ss = SS_LISTEN then st\<lparr>tcp_listen := tcp_listen st + 1\<rparr> else st
         | ST_TCP6 \<Rightarrow>
             if ss = SS_ESTABLISHED then st\<lparr>tcp6_established := tcp6_established st + 1\<rparr>
             else if ss = SS_CLOSE_WAIT then st\<lparr>tcp6_close_wait := tcp6_close_wait st + 1\<rparr>
             else if ss = SS_LISTEN then st\<lparr>tcp6_listen := tcp6_listen st + 1\<rparr> else st
         | ST_UDP \<Rightarrow>
             if ss = SS_ESTABLISHED then st\<lparr>udp_established := udp_established st + 1\<rparr>
             else if ss = SS_CLOSE then st\<lparr>udp_close := udp_close st + 1\<rparr> else st
         | ST_UDP6 \<Rightarrow>
             if ss = SS_ESTABLISHED then st\<lparr>udp6_established := udp6_established st + 1\<rparr>
             else if ss = SS_CLOSE then st\<lparr>udp6_close := udp6_close st + 1\<rparr> else st
         | ST_UNIX \<Rightarrow>
             if ss = SS_ESTABLISHED then st\<lparr>unix_established := unix_established st + 1\<rparr>
             else if ss = SS_SYN_RECV then st\<lparr>unix_recv := unix_recv st + 1\<rparr> else st
         | _ \<Rightarrow> st)"

text \<open>One entry. \<open>find_sock\<close> is \<^verbatim>\<open>find_sock_info\<close>: the socket of an inode.\<close>

definition count_fd :: "(u32 \<Rightarrow> sock_info option) \<Rightarrow> dirent \<Rightarrow> process_status \<Rightarrow> process_status" where
  "count_fd find_sock e ps =
     (if d_name e \<noteq> [] \<and> is_digit (hd (d_name e))
      then let ps1 = ps\<lparr>process_open_fds := process_open_fds ps + 1\<rparr>
           in if \<not> d_is_lnk e then ps1
              else (case d_target e of
                      None \<Rightarrow> ps1
                    | Some target \<Rightarrow>
                        let lnk_path = cstr (take 31 target)
                        in if \<not> has_prefix ''socket:['' lnk_path then ps1
                           else (case scan_u (drop 8 lnk_path) of
                                   None \<Rightarrow> ps1
                                 | Some sock_ino \<Rightarrow>
                                     (case find_sock sock_ino of
                                        None \<Rightarrow> ps1
                                      | Some i \<Rightarrow> ps1\<lparr>ps_sst := count_sock i (ps_sst ps1)\<rparr>)))
      else ps)"

definition collector_process_fd_usage ::
  "(u32 \<Rightarrow> sock_info option) \<Rightarrow> dirent list option \<Rightarrow> process_status \<Rightarrow> process_status \<times> int" where
  "collector_process_fd_usage find_sock dir ps =
     (let ps0 = ps\<lparr>process_open_fds := 0, ps_sst := sst_zero\<rparr>
      in case dir of
           None \<Rightarrow> (ps0, - 1)
         | Some es \<Rightarrow> (fold (count_fd find_sock) es ps0, 0))"

section \<open>Out of memory scores\<close>

definition collector_process_oom :: "file_read \<Rightarrow> file_read \<Rightarrow> process_status \<Rightarrow> process_status \<times> int" where
  "collector_process_oom score adj ps =
     (case read_file_to_int64 score of
        (r, v) \<Rightarrow>
          if r < 0 then (ps, - 1)
          else (case read_file_to_int64 adj of
                  (r', w) \<Rightarrow> if r' < 0 then (ps, - 1)
                             else (ps\<lparr>oom_score := ucast v, oom_score_adj := ucast w\<rparr>, 0)))"

section \<open>One process\<close>

text \<open>What the kernel gives for the files of one process.\<close>

record proc_env =
  pe_stat :: file_io
  pe_smaps_open :: int
  pe_smaps_rd :: "nat \<Rightarrow> nat \<Rightarrow> string option"
  pe_status_open :: int
  pe_status_rd :: file_read
  pe_io :: file_io
  pe_fds :: "dirent list option"
  pe_oom_score :: file_read
  pe_oom_score_adj :: file_read

text \<open>\<^verbatim>\<open>COLLECTOR_PROCESS_USAGE\<close>: the five collectors in turn, up to the first that fails.\<close>

definition COLLECTOR_PROCESS_USAGE ::
  "u32 \<Rightarrow> (u32 \<Rightarrow> sock_info option) \<Rightarrow> proc_env \<Rightarrow> process_status \<Rightarrow> (process_status \<times> int) option" where
  "COLLECTOR_PROCESS_USAGE system_hz find_sock e ps =
     (case collector_process_cpu_usage system_hz (pe_stat e) ps of
        None \<Rightarrow> None
      | Some (ps1, r1) \<Rightarrow>
          if r1 \<noteq> 0 then Some (ps1, r1)
          else case collector_process_mem_usage (pe_smaps_open e) (pe_smaps_rd e) (pe_status_open e)
                      (pe_status_rd e) ps1 of
                 None \<Rightarrow> None
               | Some (ps2, r2) \<Rightarrow>
                   if r2 \<noteq> 0 then Some (ps2, r2)
                   else case collector_process_io_usage (pe_io e) ps2 of
                          None \<Rightarrow> None
                        | Some (ps3, r3) \<Rightarrow>
                            if r3 \<noteq> 0 then Some (ps3, r3)
                            else case collector_process_fd_usage find_sock (pe_fds e) ps3 of
                                   (ps4, r4) \<Rightarrow>
                                     if r4 \<noteq> 0 then Some (ps4, r4)
                                     else Some (collector_process_oom (pe_oom_score e) (pe_oom_score_adj e) ps4))"

section \<open>The stat file\<close>

definition default_seps :: string where
  "default_seps = [CHR '' '', CHR 0x09, CHR ''='', CHR 0x7C]"

text \<open>The separators once the parentheses are declared.\<close>

definition stat_seps :: "char \<Rightarrow> procfile_separator_type" where
  "stat_seps c = (if c = CHR '')'' then PF_CHAR_IS_CLOSE else if c = CHR ''('' then PF_CHAR_IS_OPEN
                  else seps_of default_seps c)"

definition stat_slot_ok :: "proc_file option \<Rightarrow> bool" where
  "stat_slot_ok slot \<longleftrightarrow>
     (\<forall>pf. slot = Some pf \<longrightarrow> procfile_ok pf \<and> pf_separators pf \<in> {seps_of default_seps, stat_seps})"

lemma open_default_seps:
  "procfile_open junk fd name None flags = procfile_open junk fd name (Some default_seps) flags"
  by (simp add: procfile_open_def procfile_set_separators_def default_seps_def)

lemma open_and_read_default: "open_and_read io name None flags slot = open_and_read io name (Some default_seps) flags slot"
  unfolding open_and_read_def open_default_seps ..

lemma seps_default_kinds:
  "seps_of default_seps c \<noteq> PF_CHAR_IS_OPEN" "seps_of default_seps c \<noteq> PF_CHAR_IS_CLOSE"
  "seps_of default_seps c \<noteq> PF_CHAR_IS_QUOTE"
  "seps_of default_seps CHR ''('' = PF_CHAR_IS_WORD" "seps_of default_seps CHR '')'' = PF_CHAR_IS_WORD"
  "seps_of default_seps CHR '' '' = PF_CHAR_IS_SEPARATOR" "seps_of default_seps CHR 0x0A = PF_CHAR_IS_NEWLINE"
  by (simp_all add: seps_of_def procfile_init_defseps_def default_seps_def is_space_def is_print_def)

text \<open>A file that was open before gets the parentheses, whether it had them or not.\<close>

lemma set_stat_parens:
  assumes "stat_slot_ok (Some pf)"
  shows "procfile_set_open_close pf (Some ''('') (Some '')'') = Some (pf\<lparr>pf_separators := stat_seps\<rparr>)"
proof -
  let ?r = "\<lambda>c. if pf_separators pf c = PF_CHAR_IS_OPEN \<or> pf_separators pf c = PF_CHAR_IS_CLOSE
    then PF_CHAR_IS_WORD else pf_separators pf c"
  have "(\<lambda>c. if c = CHR '')'' then PF_CHAR_IS_CLOSE else if c = CHR ''('' then PF_CHAR_IS_OPEN else ?r c) = stat_seps"
    using assms seps_default_kinds unfolding stat_slot_ok_def stat_seps_def fun_eq_iff
    by (auto simp: stat_seps_def)
  then show ?thesis by (simp add: procfile_set_open_close_def set_char_types_def Let_def)
qed

lemma lineword_0:
  assumes "procfile_ok pf" and "procfile_contents pf = ws # wss"
  shows "procfile_lineword pf 0 n = word_at ws n"
proof -
  have t: "tables_ok pf" using assms(1) by (simp add: procfile_ok_def)
  note c = procfile_lineword_contents [OF t]
  have l: "0 < procfile_lines pf" using c(1) assms(2) by simp
  have w: "procfile_linewords pf 0 = length ws" using c(2) [OF l] assms(2) by simp
  show ?thesis
  proof (cases "n < length ws")
    case True
    then show ?thesis using c(3) [OF l] w assms(2) by (simp add: word_at_def)
  next
    case False
    then show ?thesis using w by (simp add: word_at_def procfile_lineword_def)
  qed
qed

text \<open>The record after the words of a line are read, and the two ways to come there.\<close>

definition stat_of_words :: "u32 \<Rightarrow> string list \<Rightarrow> process_status \<Rightarrow> bool" where
  "stat_of_words hz ws ps \<longleftrightarrow>
     (let num = (\<lambda>n. str2uint64_t (word_at ws n)) in
      ps_ppid ps = str2uint32_t (word_at ws 3) \<and> ps_minflt_raw ps = num 9 \<and> ps_cminflt_raw ps = num 10 \<and>
      ps_majflt_raw ps = num 11 \<and> ps_cmajflt_raw ps = num 12 \<and> ps_utime_raw ps = num 13 - num 42 \<and>
      ps_stime_raw ps = num 14 \<and> ps_cutime_raw ps = num 15 - num 43 \<and> ps_cstime_raw ps = num 16 \<and>
      process_cpu_jiffies ps = num 13 - num 42 + num 14 + (num 15 - num 43) + num 16 \<and>
      ps_num_threads ps = str2int32_t (word_at ws 19) \<and> start_time ps = (num 21, hz))"

lemma read_stat_words:
  assumes "procfile_ok pf" and "procfile_contents pf = ws # wss"
  shows "stat_of_words hz ws (read_stat hz pf ps)"
    and "comm (read_stat hz pf ps) =
      (if word_at ws 1 \<noteq> comm ps then strlcpy_str (word_at ws 1) XM_PROC_COMM_SIZE else comm ps)"
    and "pf_proc_pid_stat (read_stat hz pf ps) = pf_proc_pid_stat ps"
  using lineword_0 [OF assms] by (simp_all add: read_stat_def stat_of_words_def stat_num_def Let_def)

lemma cpu_usage_open:
  assumes "stat_slot_ok (Some pf)" and "pf_proc_pid_stat ps = Some pf" and "reads_file (io_read io) c" and "NUL \<notin> set c"
    and "cut_text stat_seps c = ws # wss"
  obtains ps' where "collector_process_cpu_usage hz io ps = Some (ps', 0)" and "stat_of_words hz ws ps'"
    and "comm ps' = (if word_at ws 1 \<noteq> comm ps then strlcpy_str (word_at ws 1) XM_PROC_COMM_SIZE else comm ps)"
    and "stat_slot_ok (pf_proc_pid_stat ps')"
proof -
  let ?pf = "pf\<lparr>pf_separators := stat_seps\<rparr>"
  have "procfile_ok ?pf" using assms(1) by (simp add: stat_slot_ok_def procfile_ok_def tables_ok_def)
  from procfile_readall_ok [OF assms(3) this assms(4), of "io_junk io"] assms(5) obtain pf' where
    pf': "procfile_readall (io_read io) (io_junk io) ?pf = Some (Some pf')" "procfile_ok pf'"
    "procfile_contents pf' = ws # wss" "pf_separators pf' = stat_seps" by auto
  let ?ps = "ps\<lparr>pf_proc_pid_stat := Some pf'\<rparr>"
  note r = read_stat_words [OF pf'(2,3), where hz = hz and ps = ?ps]
  show ?thesis
  proof (rule that)
    show "collector_process_cpu_usage hz io ps = Some (read_stat hz pf' ?ps, 0)"
      using assms(2) pf'(1) set_stat_parens [OF assms(1)] by (simp add: collector_process_cpu_usage_def)
    show "stat_slot_ok (pf_proc_pid_stat (read_stat hz pf' ?ps))"
      using pf'(2,4) r(3) by (simp add: stat_slot_ok_def)
  qed (use r in simp_all)
qed

lemma cpu_usage_first:
  assumes "pf_proc_pid_stat ps = None" and "io_file io c" and "cut_text (seps_of default_seps) c = ws # wss"
  obtains ps' where "collector_process_cpu_usage hz io ps = Some (ps', 0)" and "stat_of_words hz ws ps'"
    and "comm ps' = (if word_at ws 1 \<noteq> comm ps then strlcpy_str (word_at ws 1) XM_PROC_COMM_SIZE else comm ps)"
    and "stat_slot_ok (pf_proc_pid_stat ps')"
proof -
  have "\<forall>x \<in> set default_seps. code_of x < (128::nat)" by (simp add: default_seps_def)
  then obtain pf' where pf': "open_and_read io (stat_full_filename ps) (Some default_seps)
      PROCFILE_FLAG_NO_ERROR_ON_FILE_IO None = Some (Some pf')" "slot_ok default_seps (Some pf')"
    "procfile_contents pf' = ws # wss"
    using open_and_read_ok [OF assms(2) slot_ok_None, of default_seps "stat_full_filename ps"
        PROCFILE_FLAG_NO_ERROR_ON_FILE_IO] assms(3) by metis
  have ok: "procfile_ok pf'" "pf_separators pf' = seps_of default_seps" using pf'(2) by (auto simp: slot_ok_def)
  let ?ps = "ps\<lparr>pf_proc_pid_stat := Some pf'\<rparr>"
  note r = read_stat_words [OF ok(1) pf'(3), where hz = hz and ps = ?ps]
  show ?thesis
  proof (rule that)
    show "collector_process_cpu_usage hz io ps = Some (read_stat hz pf' ?ps, 0)"
      using assms(1) pf'(1)
      by (auto simp: collector_process_cpu_usage_def open_and_read_def open_default_seps split: option.splits)
    show "stat_slot_ok (pf_proc_pid_stat (read_stat hz pf' ?ps))"
      using ok r(3) by (simp add: stat_slot_ok_def)
  qed (use r in simp_all)
qed

text \<open>The columns that are read as numbers.\<close>

definition stat_columns :: "nat list" where
  "stat_columns = [3, 9, 10, 11, 12, 13, 14, 15, 16, 19, 21, 42, 43]"

lemma line_text_table: "table_text [fs] = line_text fs"
  by (simp add: table_text_def)

lemma stat_cut:
  assumes "fields_ok stat_seps fs"
  shows "cut_text stat_seps (line_text fs) = [map snd fs, []]" and "NUL \<notin> set (line_text fs)"
proof -
  have "list_all (fields_ok stat_seps) [fs]" using assms by simp
  from cut_table [OF this] table_text_no_NUL [OF this] seps_default_kinds
  show "cut_text stat_seps (line_text fs) = [map snd fs, []]" and "NUL \<notin> set (line_text fs)"
    by (simp_all add: line_text_table stat_seps_def)
qed

section \<open>Properties\<close>


definition stat_value :: "nat \<Rightarrow> nat" where
  "stat_value n = (if n = 42 \<or> n = 43 then 1 else n)"

definition stat_example :: "string \<Rightarrow> (bool \<times> string) list" where
  "stat_example name =
     [(False, ''1''), (True, name), (False, ''S'')] @ map (\<lambda>n. (False, decimal (stat_value n))) [3..<45]"

definition stat_file :: proc_file where
  "stat_file =
     \<lparr>pf_filename = ''/proc/1/stat'', pf_flags = 1, pf_fd = 3, pf_len = 0, pf_size = 0, pf_lines = new_pflines,
      pf_words = new_pfwords, pf_separators = seps_of default_seps, pf_data = []\<rparr>"

lemma stat_file_ok: "stat_slot_ok (Some stat_file)"
  by (simp add: stat_slot_ok_def stat_file_def procfile_ok_def tables_ok_def new_pflines_def new_pfwords_def)

lemma digit_seps:
  assumes "is_digit c"
  shows "seps_of default_seps c = PF_CHAR_IS_WORD" and "stat_seps c = PF_CHAR_IS_WORD" and "c \<noteq> NUL"
proof -
  have a: "list_all (\<lambda>c. seps_of default_seps c = PF_CHAR_IS_WORD \<and> stat_seps c = PF_CHAR_IS_WORD \<and> c \<noteq> NUL) ''0123456789''"
    by code_simp
  show "seps_of default_seps c = PF_CHAR_IS_WORD" and "stat_seps c = PF_CHAR_IS_WORD" and "c \<noteq> NUL"
    using a is_digit_cases [OF assms] unfolding list_all_iff by blast+
qed

lemma decimal_word: "list_all (\<lambda>c. seps_of default_seps c = PF_CHAR_IS_WORD) (decimal n)"
  "list_all (\<lambda>c. stat_seps c = PF_CHAR_IS_WORD) (decimal n)" "NUL \<notin> set (decimal n)"
  using decimal_digits [of n] digit_seps unfolding list_all_iff by blast+

lemma stat_word_chars: "seps_of default_seps CHR ''a'' = PF_CHAR_IS_WORD" "seps_of default_seps CHR ''b'' = PF_CHAR_IS_WORD"
  "seps_of default_seps CHR ''S'' = PF_CHAR_IS_WORD" "seps_of default_seps CHR ''1'' = PF_CHAR_IS_WORD"
  by (simp_all add: seps_of_def default_seps_def procfile_init_defseps_def is_space_def is_print_def)

lemma stat_example_nth:
  assumes "2 < n" and "n < 45"
  shows "stat_example name ! n = (False, decimal (stat_value n))"
proof -
  obtain k where n: "n = k + 3" using assms(1) by (metis add.commute le_Suc_ex numeral_3_eq_3 Suc_leI numeral_2_eq_2)
  have "[3..<45] ! k = 3 + k" using assms(2) n by (intro nth_upt) simp
  then show ?thesis using assms(2) n
    by (simp add: stat_example_def nth_append numeral_3_eq_3 del: upt_rec_numeral)
qed

lemma stat_example_ok: "fields_ok stat_seps (stat_example ''a b'')"
proof -
  have "list_all (field_ok stat_seps) (map (\<lambda>n. (False, decimal (stat_value n))) [3..<45])"
    using decimal_word by (simp add: list_all_iff field_ok_def del: upt_rec_numeral)
  moreover have "list_all (field_ok stat_seps) [(False, ''1''), (True, ''a b''), (False, ''S'')]"
    by (simp add: field_ok_def stat_seps_def stat_word_chars seps_default_kinds)
  ultimately show ?thesis
    by (simp add: fields_ok_def stat_example_def last_map del: upt_rec_numeral)
qed


text \<open>The first read of a stat file does not declare the parentheses: a command with a space in it is
  cut in two words and every later column is read one place too early. The parent process is then
  what the state column spells, which is 0, and the times are other columns.\<close>

lemma process_stat_first_read_shifted:
  assumes "pf_proc_pid_stat ps = None" and "io_open io \<noteq> - 1" and "reads_file (io_read io) (line_text fs)"
    and "fs = p # (True, a @ '' '' @ b) # (False, [st]) # rest" and "\<not> is_digit st"
    and "fields_ok (seps_of default_seps) (p # (False, CHR ''('' # a) # (False, b @ '')'') # (False, [st]) # rest)"
    and "42 < length fs"
  shows "\<exists>ps'. collector_process_cpu_usage hz io ps = Some (ps', 0) \<and> ps_ppid ps' = 0 \<and>
    ps_minflt_raw ps' = str2uint64_t (snd (fs ! 8)) \<and>
    ps_utime_raw ps' = str2uint64_t (snd (fs ! 12)) - str2uint64_t (snd (fs ! 41)) \<and>
    ps_stime_raw ps' = str2uint64_t (snd (fs ! 13)) \<and> ps_num_threads ps' = str2int32_t (snd (fs ! 18))"
proof -
  let ?gs = "p # (False, CHR ''('' # a) # (False, b @ '')'') # (False, [st]) # rest"
  have tx: "line_text fs = line_text ?gs"
    using assms(4) by (cases rest) (simp_all add: field_text_def)
  have ok: "list_all (fields_ok (seps_of default_seps)) [?gs]" using assms(6) by simp
  have cut: "cut_text (seps_of default_seps) (line_text fs) = [map snd ?gs, []]"
    using cut_table [OF ok] seps_default_kinds by (simp add: tx line_text_table)
  have "io_file io (line_text fs)"
    using assms(2,3) table_text_no_NUL [OF ok] by (simp add: io_file_def tx line_text_table)
  then obtain ps' where ps': "collector_process_cpu_usage hz io ps = Some (ps', 0)" "stat_of_words hz (map snd ?gs) ps'"
    by (rule cpu_usage_first [OF assms(1) _ cut])
  have sh: "word_at (map snd ?gs) (Suc n) = snd (fs ! n)" if "1 < n" "n < length fs" for n
    using that assms(4) by (auto simp: word_at_def nth_Cons' split: if_splits)
  have "word_at (map snd ?gs) 3 = [st]" by (simp add: word_at_def)
  then have "ps_ppid ps' = 0"
    using ps'(2) assms(5) by (simp add: stat_of_words_def str2uint32_t_def Let_def)
  moreover have "word_at (map snd ?gs) 9 = snd (fs ! 8)" "word_at (map snd ?gs) 13 = snd (fs ! 12)"
    "word_at (map snd ?gs) 42 = snd (fs ! 41)" "word_at (map snd ?gs) 14 = snd (fs ! 13)"
    "word_at (map snd ?gs) 19 = snd (fs ! 18)"
    using sh [of 8] sh [of 12] sh [of 41] sh [of 13] sh [of 18] assms(7) by simp_all
  ultimately show ?thesis using ps' by (simp only: stat_of_words_def Let_def) simp
qed

lemma stat_example_first_ok:
  "fields_ok (seps_of default_seps) ((False, ''1'') # (False, CHR ''('' # ''a'') # (False, ''b'' @ '')'') # (False, ''S'') #
     map (\<lambda>n. (False, decimal (stat_value n))) [3..<45])"
proof -
  have "list_all (field_ok (seps_of default_seps)) (map (\<lambda>n. (False, decimal (stat_value n))) [3..<45])"
    using decimal_word by (simp add: list_all_iff field_ok_def del: upt_rec_numeral)
  moreover have "list_all (field_ok (seps_of default_seps)) [(False, ''1''), (False, CHR ''('' # ''a''), (False, ''b'' @ '')''), (False, ''S'')]"
    by (simp add: field_ok_def stat_word_chars seps_default_kinds)
  ultimately show ?thesis
    by (simp add: fields_ok_def last_map del: upt_rec_numeral)
qed

lemma process_stat_first_read_shifted_witness:
  "\<exists>ps'. collector_process_cpu_usage 100 (file_of (line_text (stat_example ''a b''))) ps_zero = Some (ps', 0) \<and>
     ps_ppid ps' = 0 \<and> ps_minflt_raw ps' = 8 \<and> ps_stime_raw ps' = 13"
proof -
  let ?fs = "stat_example ''a b''"
  have "io_file (file_of (line_text ?fs)) (line_text ?fs)" using stat_cut(2) [OF stat_example_ok] by simp
  then have rd: "io_open (file_of (line_text ?fs)) \<noteq> - 1" "reads_file (io_read (file_of (line_text ?fs))) (line_text ?fs)"
    by (simp_all add: io_file_def)
  have fs: "?fs = (False, ''1'') # (True, ''a'' @ '' '' @ ''b'') # (False, [CHR ''S'']) #
      map (\<lambda>n. (False, decimal (stat_value n))) [3..<45]"
    by (simp add: stat_example_def del: upt_rec_numeral)
  have st: "\<not> is_digit CHR ''S''" by (simp add: is_digit_def)
  have len: "42 < length ?fs" by (simp add: stat_example_def del: upt_rec_numeral)
  have "pf_proc_pid_stat ps_zero = None" by (simp add: ps_zero_def)
  from process_stat_first_read_shifted [OF this rd fs st stat_example_first_ok len, of 100]
  show ?thesis by (auto simp: stat_example_nth stat_value_def)
qed

section \<open>The status file\<close>

text \<open>A line of the file: one that no tag begins, or a size in kilobytes under the tag \<open>i\<close>.\<close>

datatype status_item = Plain string | Kb nat nat

fun status_text :: "status_item \<Rightarrow> string" where
  "status_text (Plain l) = l @ [newline]"
| "status_text (Kb i n) = status_tags ! i @ CHR 0x09 # decimal n @ '' kB'' @ [newline]"

fun item_ok :: "status_item \<Rightarrow> bool" where
  "item_ok (Plain l) = (newline \<notin> set l \<and> l \<noteq> [] \<and> NUL \<notin> set l \<and> find_tag 0 status_tags l = None)"
| "item_ok (Kb i n) = (i < 5)"

fun store_item :: "status_item \<Rightarrow> process_status \<Rightarrow> process_status" where
  "store_item (Plain l) ps = ps"
| "store_item (Kb i n) ps = set_status i (of_nat n) ps"

definition ctxt_text :: "nat \<Rightarrow> nat \<Rightarrow> string" where
  "ctxt_text n m = ''voluntary_ctxt_switches:'' @ CHR 0x09 # decimal n @ newline #
     ''nonvoluntary_ctxt_switches:'' @ CHR 0x09 # decimal m @ [newline]"

lemma has_prefix_line:
  "newline \<notin> set t \<Longrightarrow> newline \<notin> set l \<Longrightarrow> has_prefix t (l @ newline # r) = has_prefix t l"
proof (induction t arbitrary: l)
  case (Cons c t)
  then show ?case by (cases l) auto
qed simp

lemma has_prefix_le: "has_prefix t l \<Longrightarrow> length t \<le> length l"
  by (simp add: has_prefix_iff prefix_length_le)

lemma find_tag_line:
  assumes "list_all (\<lambda>t. newline \<notin> set t) ts" and "newline \<notin> set l"
  shows "find_tag i ts (l @ newline # r) = map_option (\<lambda>(j, x). (j, x @ newline # r)) (find_tag i ts l)"
  using assms(1) by (induction ts arbitrary: i) (auto simp: has_prefix_line assms(2) dest: has_prefix_le)

lemma status_tags_no_newline: "list_all (\<lambda>t. newline \<notin> set t) status_tags"
  by (simp add: status_tags_def)

lemma find_tag_hit:
  assumes "i < 7"
  shows "find_tag 0 status_tags (status_tags ! i @ x) = Some (i, x)"
proof -
  have "i \<in> {0, 1, 2, 3, 4, 5, 6}" using assms by (simp only: insert_iff empty_iff) presburger
  then show ?thesis by (elim insertE emptyE) (simp_all add: status_tags_def numeral_eq_Suc)
qed

lemma tag_number_eq:
  assumes "x \<noteq> [] \<and> \<not> is_digit (hd x)"
  shows "tag_number (CHR 0x09 # decimal n @ x) = (of_nat n, tl x)"
proof -
  let ?b = "\<lambda>c. c = CHR '' '' \<or> c = CHR 0x09"
  have "\<not> ?b (hd (decimal n))" using hd_decimal_digit [of n] by (auto simp: is_digit_def)
  then have q: "dropWhile ?b (decimal n @ x) = decimal n @ x"
    using decimal_not_Nil [of n] by (cases "decimal n") auto
  have "takeWhile is_digit (decimal n @ x) = decimal n" "dropWhile is_digit (decimal n @ x) = x"
    using assms decimal_digits [of n] by (auto simp: takeWhile_append dropWhile_append list_all_iff
        takeWhile_eq_Nil_iff dropWhile_eq_self_iff)
  with q show ?thesis by (simp add: tag_number_def Let_def drop_Suc)
qed

lemma skip_line_eq: "newline \<notin> set l \<Longrightarrow> skip_line (l @ newline # r) = r"
  by (simp add: skip_line_def)

lemma status_loop_plain:
  assumes "item_ok (Plain l)" and "k < 7"
  shows "status_loop (l @ newline # r) k ps = status_loop r k ps"
  using assms find_tag_line [OF status_tags_no_newline, of l 0 r] skip_line_eq [of l r]
  by (subst status_loop.simps) simp

lemma status_loop_kb:
  assumes "i < 7" and "k < 7"
  shows "status_loop (status_tags ! i @ CHR 0x09 # decimal n @ '' kB'' @ newline # r) k ps =
    status_loop r (k + 1) (set_status i (of_nat n) ps)"
  using assms skip_line_eq [of "''kB''" r]
  by (subst status_loop.simps) (simp add: find_tag_hit tag_number_eq is_digit_def)

text \<open>A number that ends its line takes the next line with it.\<close>

lemma status_loop_swallow:
  assumes "i < 7" and "k < 7" and "newline \<notin> set l"
  shows "status_loop (status_tags ! i @ CHR 0x09 # decimal n @ newline # l @ newline # r) k ps =
    status_loop r (k + 1) (set_status i (of_nat n) ps)"
  using assms skip_line_eq [of l r]
  by (subst status_loop.simps) (simp add: find_tag_hit tag_number_eq is_digit_def)

definition kb_count :: "status_item list \<Rightarrow> nat" where
  "kb_count items = length (filter (\<lambda>x. case x of Kb i n \<Rightarrow> True | Plain l \<Rightarrow> False) items)"

lemma status_loop_items:
  assumes "list_all item_ok items" and "kb_count items + k \<le> 6"
  shows "status_loop (concat (map status_text items) @ r) k ps =
    status_loop r (k + kb_count items) (fold store_item items ps)"
  using assms
proof (induction items arbitrary: k ps)
  case Nil
  then show ?case by (simp add: kb_count_def)
next
  case (Cons x items)
  show ?case
  proof (cases x)
    case (Plain l)
    with Cons show ?thesis using status_loop_plain [of l k] by (simp add: kb_count_def)
  next
    case (Kb i n)
    with Cons.prems have "i < 7" "k < 7" "kb_count items + (k + 1) \<le> 6" by (auto simp: kb_count_def)
    with Cons.IH [of "k + 1" "set_status i (of_nat n) ps"] Cons.prems(1) Kb status_loop_kb [of i k n]
    show ?thesis by (simp add: kb_count_def)
  qed
qed

lemma status_loop_ctxt:
  assumes "k < 7"
  shows "status_loop (ctxt_text n m) k ps = ps\<lparr>ps_nvcsw := of_nat n\<rparr>"
proof -
  have "newline \<notin> set (''nonvoluntary_ctxt_switches:'' @ CHR 0x09 # decimal m)"
    using is_digit_cases decimal_digits [of m] by (auto simp: list_all_iff is_digit_def)
  from status_loop_swallow [OF _ assms this, of 5 n "[]" ps]
  have "status_loop (ctxt_text n m) k ps = status_loop [] (k + 1) (set_status 5 (of_nat n) ps)"
    by (simp add: ctxt_text_def status_tags_def)
  then show ?thesis by (simp add: status_loop.simps set_status_def)
qed

fun kb_pairs :: "status_item list \<Rightarrow> (nat \<times> nat) list" where
  "kb_pairs [] = []"
| "kb_pairs (Plain l # items) = kb_pairs items"
| "kb_pairs (Kb i n # items) = (i, n) # kb_pairs items"

definition get_status :: "nat \<Rightarrow> process_status \<Rightarrow> u64" where
  "get_status i ps = [ps_vmsize ps, ps_rss_anon ps, ps_rss_file ps, ps_rss_shmem ps, ps_vmswap ps, ps_nvcsw ps, ps_nivcsw ps] ! i"

lemma get_set_status: "i < 7 \<Longrightarrow> j < 7 \<Longrightarrow> get_status j (set_status i v ps) = (if j = i then v else get_status j ps)"
proof -
  assume "i < 7" and "j < 7"
  then have "i \<in> {0, 1, 2, 3, 4, 5, 6}" "j \<in> {0, 1, 2, 3, 4, 5, 6}" by (simp_all only: insert_iff empty_iff) presburger+
  then show ?thesis by (elim insertE emptyE) (simp_all add: get_status_def set_status_def)
qed

lemma kb_pairs_facts:
  "kb_count items = length (kb_pairs items)" "list_all item_ok items \<Longrightarrow> (i, n) \<in> set (kb_pairs items) \<Longrightarrow> i < 5"
  by (induction items rule: kb_pairs.induct) (auto simp: kb_count_def)

lemma get_status_items:
  assumes "list_all item_ok items" and "distinct (map fst (kb_pairs items))" and "j < 7"
  shows "get_status j (fold store_item items ps) =
    (case map_of (kb_pairs items) j of None \<Rightarrow> get_status j ps | Some n \<Rightarrow> of_nat n)"
  using assms(1,2)
proof (induction items arbitrary: ps rule: kb_pairs.induct)
  case (3 i n items)
  have "map_of (kb_pairs items) i = None" using 3(3) by (simp add: map_of_eq_None_iff)
  with 3 assms(3) get_set_status [of i j] show ?case by (auto split: option.split)
qed simp_all

lemma get_status_nvcsw:
  assumes "j \<noteq> 5" and "j < 7"
  shows "get_status j (p\<lparr>ps_nvcsw := v\<rparr>) = get_status j p"
proof -
  have "j \<in> {0, 1, 2, 3, 4, 6}" using assms by (simp only: insert_iff empty_iff) presburger
  then show ?thesis by (elim insertE emptyE) (simp_all add: get_status_def)
qed

lemma smaps_store_items: "smaps (fold store_item items p) = smaps p"
proof (induction items arbitrary: p)
  case (Cons x items)
  then show ?case by (cases x) (simp_all add: set_status_def)
qed simp

lemma status_text_no_NUL:
  assumes "item_ok x"
  shows "NUL \<notin> set (status_text x)"
proof (cases x)
  case (Kb i k)
  then have "i \<in> {0, 1, 2, 3, 4}" using assms by (simp only: item_ok.simps insert_iff empty_iff) presburger
  then show ?thesis using decimal_word(3) [of k] by (elim insertE emptyE) (simp_all add: Kb status_tags_def)
qed (use assms in simp)

text \<open>C23: the sizes of a status file are all read, each into its field, whatever other lines the file has;
  of the two counts of context switches at its end only the first one is: a number that is the last
  thing on its line makes the reader skip the line below, so the involuntary switches keep their old
  value for ever.\<close>

theorem process_status_read:
  assumes "get_mss_from_smaps smaps_open smaps_rd
      ((smaps ps)\<lparr>rss := 0, uss := 0, pss := 0, pss_anon := 0, pss_file := 0, pss_shmem := 0\<rparr>) = Some (s1, 0)"
    and "0 < sint (ps_pid ps)" and "0 < mem_status_fd ps \<or> 0 \<le> st_open"
    and "st_rd (XM_PROC_CONTENT_BUF_SIZE - 1) = Some (concat (map status_text items) @ ctxt_text n m)"
    and "list_all item_ok items" and "distinct (map fst (kb_pairs items))" and "length (kb_pairs items) \<le> 6"
  shows "\<exists>ps'. collector_process_mem_usage smaps_open smaps_rd st_open st_rd ps = Some (ps', 0) \<and>
    smaps ps' = s1 \<and> ps_nvcsw ps' = of_nat n \<and> ps_nivcsw ps' = ps_nivcsw ps \<and>
    (\<forall>i < 5. get_status i ps' = (case map_of (kb_pairs items) i of None \<Rightarrow> get_status i ps | Some v \<Rightarrow> of_nat v))"
proof -
  let ?t = "concat (map status_text items) @ ctxt_text n m"
  let ?ps1 = "ps\<lparr>smaps := s1\<rparr>"
  let ?ps2 = "if mem_status_fd ?ps1 \<le> 0 then ?ps1\<lparr>mem_status_fd := st_open\<rparr> else ?ps1"
  have "NUL \<notin> set ?t"
    using assms(5) status_text_no_NUL decimal_word(3) by (fastforce simp: list_all_iff ctxt_text_def)
  then have c: "cstr ?t = ?t" by (auto simp: cstr_def takeWhile_eq_all_conv)
  have t: "?t \<noteq> []" by (simp add: ctxt_text_def)
  have "status_loop ?t 0 ?ps2 = (fold store_item items ?ps2)\<lparr>ps_nvcsw := of_nat n\<rparr>"
    using status_loop_items [OF assms(5), of 0 "ctxt_text n m" ?ps2] assms(7)
      status_loop_ctxt [of "kb_count items" n m] by (simp add: kb_pairs_facts(1))
  then have r: "collector_process_mem_usage smaps_open smaps_rd st_open st_rd ps =
      Some ((fold store_item items ?ps2)\<lparr>ps_nvcsw := of_nat n\<rparr>, 0)"
    using assms(1-4) t c by (auto simp: collector_process_mem_usage_def Let_def)
  have old: "map_of (kb_pairs items) j = None" if "5 \<le> j" for j
    using kb_pairs_facts(2) [OF assms(5)] that by (force simp: map_of_eq_None_iff)
  have e: "get_status j ?ps2 = get_status j ps" for j by (simp add: get_status_def)
  have "ps_nivcsw (fold store_item items ?ps2) = ps_nivcsw ps"
    using get_status_items [OF assms(5,6), of 6 ?ps2] old [of 6] by (simp add: get_status_def)
  then show ?thesis
    using r get_status_nvcsw get_status_items [OF assms(5,6)] e by (auto simp: smaps_store_items split: option.split)
qed

theorem process_status_read_witness:
  "\<exists>ps'. collector_process_mem_usage 3 (\<lambda>pos n. Some []) 4
       (\<lambda>n. Some (concat (map status_text [Plain ''Name: x'', Kb 0 12, Kb 4 7]) @ ctxt_text 5 6))
       (ps_zero\<lparr>ps_pid := 1\<rparr>) = Some (ps', 0) \<and>
     ps_vmsize ps' = 12 \<and> ps_vmswap ps' = 7 \<and> ps_nvcsw ps' = 5 \<and> ps_nivcsw ps' = 0"
proof -
  let ?items = "[Plain ''Name: x'', Kb 0 12, Kb 4 7]" and ?ps = "ps_zero\<lparr>ps_pid := 1\<rparr>"
  let ?s = "\<lparr>smaps_fd = 3, rss = 0, pss = 0, pss_anon = 0, pss_file = 0, pss_shmem = 0, uss = 0\<rparr>"
  have s: "get_mss_from_smaps 3 (\<lambda>pos n. Some []) ((smaps ?ps)\<lparr>rss := 0, uss := 0, pss := 0, pss_anon := 0,
      pss_file := 0, pss_shmem := 0\<rparr>) = Some (?s, 0)"
    by (simp add: get_mss_from_smaps_def smaps_read.simps ps_zero_def Let_def)
  have ok: "list_all item_ok ?items" "distinct (map fst (kb_pairs ?items))" "length (kb_pairs ?items) \<le> 6"
    by (simp_all add: status_tags_def)
  let ?rd = "\<lambda>n. Some (concat (map status_text ?items) @ ctxt_text 5 6)"
  have "\<exists>ps'. collector_process_mem_usage 3 (\<lambda>pos n. Some []) 4 ?rd ?ps = Some (ps', 0) \<and>
      smaps ps' = ?s \<and> ps_nvcsw ps' = of_nat 5 \<and> ps_nivcsw ps' = ps_nivcsw ?ps \<and>
      (\<forall>i < 5. get_status i ps' = (case map_of (kb_pairs ?items) i of None \<Rightarrow> get_status i ?ps | Some v \<Rightarrow> of_nat v))"
    by (rule process_status_read [OF s _ _ _ ok, where st_open = 4 and m = 6]) (simp_all add: ps_zero_def)
  then obtain ps' where r: "collector_process_mem_usage 3 (\<lambda>pos n. Some []) 4 ?rd ?ps = Some (ps', 0)"
    "ps_nvcsw ps' = 5" "ps_nivcsw ps' = 0"
    and g: "\<forall>i < 5. get_status i ps' = (case map_of (kb_pairs ?items) i of None \<Rightarrow> get_status i ?ps | Some v \<Rightarrow> of_nat v)"
    by (auto simp: ps_zero_def)
  have "ps_vmsize ps' = 12" "ps_vmswap ps' = 7"
    using g [rule_format, of 0] g [rule_format, of 4] by (simp_all add: get_status_def)
  with r show ?thesis by blast
qed

section \<open>The directory of open files\<close>

text \<open>What an open file is, and the entry that the kernel shows for it.\<close>

datatype fd_kind = Fd_file string | Fd_sock nat

fun fd_target :: "fd_kind \<Rightarrow> string" where
  "fd_target (Fd_file t) = t"
| "fd_target (Fd_sock n) = ''socket:['' @ decimal n @ '']''"

fun fd_kind_ok :: "fd_kind \<Rightarrow> bool" where
  "fd_kind_ok (Fd_file t) = (\<not> has_prefix ''socket:['' (cstr (take 31 t)))"
| "fd_kind_ok (Fd_sock n) = (n < 2 ^ 32)"

definition fd_entry :: "nat \<times> fd_kind \<Rightarrow> dirent" where
  "fd_entry f = \<lparr>d_name = decimal (fst f), d_is_lnk = True, d_target = Some (fd_target (snd f))\<rparr>"

definition is_dot :: "dirent \<Rightarrow> bool" where
  "is_dot e \<longleftrightarrow> d_name e = ''.'' \<or> d_name e = ''..''"

text \<open>The sockets among the open files that the socket table knows.\<close>

fun fd_socks :: "(u32 \<Rightarrow> sock_info option) \<Rightarrow> fd_kind list \<Rightarrow> sock_info list" where
  "fd_socks f [] = []"
| "fd_socks f (Fd_file t # ks) = fd_socks f ks"
| "fd_socks f (Fd_sock n # ks) = (case f (of_nat n) of None \<Rightarrow> fd_socks f ks | Some i \<Rightarrow> i # fd_socks f ks)"

text \<open>The counters and what each of them counts.\<close>

definition sock_counters :: "((sock_statistic \<Rightarrow> u16) \<times> SOCK_TYPE \<times> u32) list" where
  "sock_counters =
     [(tcp_established, ST_TCP, SS_ESTABLISHED), (tcp_close_wait, ST_TCP, SS_CLOSE_WAIT), (tcp_listen, ST_TCP, SS_LISTEN),
      (tcp6_established, ST_TCP6, SS_ESTABLISHED), (tcp6_close_wait, ST_TCP6, SS_CLOSE_WAIT),
      (tcp6_listen, ST_TCP6, SS_LISTEN), (udp_established, ST_UDP, SS_ESTABLISHED), (udp_close, ST_UDP, SS_CLOSE),
      (udp6_established, ST_UDP6, SS_ESTABLISHED), (udp6_close, ST_UDP6, SS_CLOSE),
      (unix_established, ST_UNIX, SS_ESTABLISHED), (unix_recv, ST_UNIX, SS_SYN_RECV)]"

lemmas SS_defs = SS_ESTABLISHED_def SS_CLOSE_WAIT_def SS_LISTEN_def SS_CLOSE_def SS_SYN_RECV_def

lemma count_sock_counter:
  assumes "(sel, ty, ss) \<in> set sock_counters"
  shows "sel (count_sock i st) = sel st + (if sock_type i = ty \<and> sock_state i = ss then 1 else 0)"
  using assms unfolding sock_counters_def list.set insert_iff empty_iff prod.inject
  by (cases "sock_type i") (elim disjE conjE FalseE; simp add: count_sock_def Let_def SS_defs)+

lemma scan_u_decimal:
  assumes "n < 2 ^ 32"
  shows "scan_u (decimal n @ '']'') = Some (of_nat n)"
proof -
  have h: "hd (decimal n @ '']'') = hd (decimal n)" by (simp add: hd_append)
  have d: "is_digit (hd (decimal n))" by (rule hd_decimal_digit)
  then have "\<not> is_space (hd (decimal n))" "hd (decimal n) \<noteq> CHR ''-''" "hd (decimal n) \<noteq> CHR ''+''"
    by (auto simp: is_digit_def is_space_def)
  moreover have "takeWhile is_digit (decimal n @ '']'') = decimal n"
    by (rule takeWhile_append_stop [OF decimal_digits]) (simp add: is_digit_def)
  moreover have "dropWhile is_space (decimal n @ '']'') = decimal n @ '']''"
    using \<open>\<not> is_space (hd (decimal n))\<close> h by (simp add: dropWhile_eq_self_iff)
  ultimately show ?thesis
    using assms h ucast_of_nat_small [of n] by (simp add: scan_u_def Let_def dec_value_decimal)
qed

lemma fd_sock_link:
  assumes "n < 2 ^ 32"
  shows "cstr (take 31 (fd_target (Fd_sock n))) = ''socket:['' @ decimal n @ '']''"
proof -
  have "length (decimal (unat (of_nat n :: u64))) \<le> 20" by (rule length_decimal_u64)
  then have "length (fd_target (Fd_sock n)) \<le> 31" using assms by (simp add: unat_of_nat take_bit_nat_eq_self)
  then have "take 31 (fd_target (Fd_sock n)) = ''socket:['' @ decimal n @ '']''" by (simp only: take_all_iff fd_target.simps)
  then show ?thesis using decimal_word(3) [of n] by (auto simp: cstr_def takeWhile_eq_all_conv)
qed

lemma count_fd_entry:
  assumes "fd_kind_ok k"
  shows "count_fd f (fd_entry (n, k)) ps =
    ps\<lparr>process_open_fds := process_open_fds ps + 1, ps_sst := fold count_sock (fd_socks f [k]) (ps_sst ps)\<rparr>"
proof -
  have d: "decimal n \<noteq> [] \<and> is_digit (hd (decimal n))" using hd_decimal_digit by simp
  show ?thesis
  proof (cases k)
    case (Fd_file t)
    with assms d show ?thesis by (simp add: count_fd_def fd_entry_def Let_def)
  next
    case (Fd_sock m)
    with assms have m: "m < 2 ^ 32" by simp
    then show ?thesis
      using d fd_sock_link [OF m] scan_u_decimal [OF m]
      by (simp add: count_fd_def fd_entry_def Fd_sock Let_def has_prefix_iff split: option.split)
  qed
qed

lemma fd_socks_Cons: "fd_socks f (k # ks) = fd_socks f [k] @ fd_socks f ks"
  by (cases k) (auto split: option.split)

lemma count_fds:
  assumes "list_all fd_kind_ok (map snd fds)"
  shows "fold (count_fd f) (map fd_entry fds) ps =
    ps\<lparr>process_open_fds := process_open_fds ps + of_nat (length fds),
       ps_sst := fold count_sock (fd_socks f (map snd fds)) (ps_sst ps)\<rparr>"
  using assms
proof (induction fds arbitrary: ps)
  case (Cons x fds)
  obtain n k where x: "x = (n, k)" by force
  with Cons count_fd_entry [of k f n ps] show ?case
    by (simp add: fd_socks_Cons [of f k "map snd fds"] add.assoc del: fd_socks.simps)
qed simp

lemma count_fd_dots: "list_all is_dot es \<Longrightarrow> fold (count_fd f) es ps = ps"
  by (induction es) (auto simp: is_dot_def count_fd_def is_digit_def)

lemma fold_count_sock:
  assumes "(sel, ty, ss) \<in> set sock_counters"
  shows "sel (fold count_sock is st) = sel st + of_nat (length (filter (\<lambda>i. sock_type i = ty \<and> sock_state i = ss) is))"
  by (induction "is" arbitrary: st) (simp_all add: count_sock_counter [OF assms])

text \<open>C22: the open files of a process are counted exactly, and every socket counter is the number of open
  sockets that the socket table knows with the counter's type and state, modulo the width of the
  counters; a link that does not name a socket, a socket that the table does not know and the two
  dot entries count for nothing.\<close>

theorem process_fds_counted:
  assumes "list_all is_dot dots" and "list_all fd_kind_ok (map snd fds)"
  shows "\<exists>ps'. collector_process_fd_usage f (Some (dots @ map fd_entry fds)) ps = (ps', 0) \<and>
    process_open_fds ps' = of_nat (length fds) \<and>
    (\<forall>(sel, ty, ss) \<in> set sock_counters. sel (ps_sst ps') =
       of_nat (length (filter (\<lambda>i. sock_type i = ty \<and> sock_state i = ss) (fd_socks f (map snd fds)))))"
proof -
  have "sel sst_zero = 0" if "(sel, ty, ss) \<in> set sock_counters" for sel ty ss
    using that by (auto simp: sock_counters_def sst_zero_def)
  then have "sel (fold count_sock is sst_zero) = of_nat (length (filter (\<lambda>i. sock_type i = ty \<and> sock_state i = ss) is))"
    if "(sel, ty, ss) \<in> set sock_counters" for sel ty ss "is"
    using fold_count_sock [OF that, of "is" sst_zero] that by simp
  then show ?thesis
    using count_fd_dots [OF assms(1)] count_fds [OF assms(2)]
    by (auto simp: collector_process_fd_usage_def Let_def)
qed

theorem process_fds_counted_witness:
  "\<exists>ps'. collector_process_fd_usage (\<lambda>n. Some \<lparr>ino = n, sock_type = ST_TCP, sock_state = 10\<rparr>)
       (Some ([\<lparr>d_name = ''.'', d_is_lnk = False, d_target = None\<rparr>] @ map fd_entry [(0, Fd_file ''/dev/null''), (3, Fd_sock 77)]))
       ps_zero = (ps', 0) \<and> process_open_fds ps' = 2 \<and> tcp_listen (ps_sst ps') = 1"
proof -
  let ?f = "\<lambda>n. Some \<lparr>ino = n, sock_type = ST_TCP, sock_state = 10\<rparr>"
  let ?dots = "[\<lparr>d_name = ''.'', d_is_lnk = False, d_target = None\<rparr>]"
  let ?fds = "[(0, Fd_file ''/dev/null''), (3, Fd_sock 77)]"
  have ok: "list_all is_dot ?dots" "list_all fd_kind_ok (map snd ?fds)" by (simp_all add: is_dot_def cstr_def)
  have "(tcp_listen, ST_TCP, SS_LISTEN) \<in> set sock_counters" by (simp add: sock_counters_def)
  with process_fds_counted [OF ok, of ?f ps_zero] show ?thesis
    by (fastforce simp: SS_LISTEN_def)
qed

end
