(* ===== verification/XM_FilterRule.thy ===== *)
theory XM_FilterRule
  imports XM_Strings
begin

text \<open>
  \<^verbatim>\<open>collectors/application/apps_filter_rule.c\<close> and the matcher of \<^verbatim>\<open>utils/regex.c\<close> it uses: the rules that
  say which processes form an application, made from the configuration. What PCRE2 and libconfig
  return and what the rule files hold are arguments. The outer \<open>None\<close> of a result is a write behind an
  allocated array or a loop that does not end.
\<close>

definition XM_APP_NAME_SIZE :: nat where "XM_APP_NAME_SIZE = 64"

section \<open>Regular expressions\<close>

text \<open>What \<^verbatim>\<open>pcre2_match\<close> returns for a subject: the result code and the pairs of offsets.\<close>

type_synonym pcre = "string \<Rightarrow> int \<times> (nat \<times> nat) list"

text \<open>The result code and the strings stored in \<^verbatim>\<open>re->values\<close>.\<close>

definition regex_match_values :: "pcre \<Rightarrow> string \<Rightarrow> int \<times> string list" where
  "regex_match_values match subject =
     (case match subject of
        (rc, ovector) \<Rightarrow>
          if rc < 0 then (rc, [])
          else (rc, map (\<lambda>(s, e). take (e - s) (drop s subject)) (take (nat rc) ovector)))"

section \<open>Rules\<close>

datatype app_bind_process_type = APP_BIND_PROCESSTREE | APP_BIND_PROCESS

record app_process_filter_rule =
  rule_enable :: i32
  rule_app_type_name :: string
  rule_app_name :: string
  assign_type :: app_bind_process_type
  keys :: "string list"
  key_count :: u16
  is_matched :: bool

record app_filter_rules =
  rule_list :: "app_process_filter_rule list"
  rule_count :: i16

text \<open>The two loops that fill \<^verbatim>\<open>rule->keys\<close>; \<open>room\<close> is the size of the array.\<close>

fun add_keys :: "nat \<Rightarrow> string list \<Rightarrow> app_process_filter_rule \<Rightarrow> app_process_filter_rule option" where
  "add_keys room [] rule = Some rule"
| "add_keys room (k # ks) rule =
     (if length (keys rule) < room
      then add_keys room ks (rule\<lparr>keys := keys rule @ [k], key_count := key_count rule + 1\<rparr>)
      else None)"

definition fill_filter_rule ::
  "pcre \<Rightarrow> bool \<Rightarrow> bool \<Rightarrow> i32 \<Rightarrow> string \<Rightarrow> string \<Rightarrow> int \<Rightarrow> string \<Rightarrow> string \<Rightarrow> app_process_filter_rule option option" where
  "fill_filter_rule match calloc_ok malloc_ok enable content app_type_name appname_match_index
     additional_filter_keywords app_bind_process_type =
     (case regex_match_values match content of
        (rc, values) \<Rightarrow>
          if rc < 2 then Some None
          else if rc \<le> appname_match_index then Some None
          else if \<not> calloc_ok then Some None
          else let rule = \<lparr>rule_enable = enable,
                           rule_app_type_name = strlcpy_str app_type_name XM_APP_NAME_SIZE,
                           rule_app_name = strlcpy_str (values ! nat appname_match_index) XM_APP_NAME_SIZE,
                           assign_type = (if app_bind_process_type = ''app-bind-processtree''
                                          then APP_BIND_PROCESSTREE else APP_BIND_PROCESS),
                           keys = [], key_count = 0, is_matched = False\<rparr>
               in case strsplit_count malloc_ok additional_filter_keywords '','' of
                    None \<Rightarrow> None
                  | Some (additional_keys, additional_key_count) \<Rightarrow>
                      let room = nat rc - 2 + additional_key_count;
                          matched = map (\<lambda>l. values ! l) (filter (\<lambda>l. int l \<noteq> appname_match_index) [1..<nat rc])
                      in case add_keys room matched rule of
                           None \<Rightarrow> None
                         | Some rule1 \<Rightarrow>
                             (case additional_keys of
                                None \<Rightarrow> Some (Some rule1)
                              | Some ks \<Rightarrow> map_option Some (add_keys room (take additional_key_count ks) rule1)))"

text \<open>\<^verbatim>\<open>list_add\<close> puts a rule in front.\<close>

definition add_rule :: "app_process_filter_rule option \<Rightarrow> app_filter_rules \<Rightarrow> app_filter_rules" where
  "add_rule rule rules =
     (case rule of None \<Rightarrow> rules
      | Some r \<Rightarrow> rules\<lparr>rule_list := r # rule_list rules, rule_count := rule_count rules + 1\<rparr>)"

fun add_contents ::
  "(string \<Rightarrow> app_process_filter_rule option option) \<Rightarrow> string list \<Rightarrow> app_filter_rules \<Rightarrow> app_filter_rules option" where
  "add_contents fill [] rules = Some rules"
| "add_contents fill (c # cs) rules =
     (case fill c of None \<Rightarrow> None | Some rule \<Rightarrow> add_contents fill cs (add_rule rule rules))"

text \<open>What a source stands for: the lines of a file, nothing for a file that cannot be opened, or
  itself. \<open>files\<close> is what the file system has under a name: nothing, or a file and, if it can be
  opened, its lines.\<close>

definition source_contents :: "(string \<Rightarrow> string list option option) \<Rightarrow> string \<Rightarrow> string list" where
  "source_contents files src =
     (case files src of
        Some (Some ls) \<Rightarrow> ls
      | Some None \<Rightarrow> []
      | None \<Rightarrow> [src])"

fun add_sources ::
  "(string \<Rightarrow> string list option option) \<Rightarrow> (string \<Rightarrow> app_process_filter_rule option option) \<Rightarrow> string list \<Rightarrow>
   app_filter_rules \<Rightarrow> app_filter_rules option" where
  "add_sources files fill [] rules = Some rules"
| "add_sources files fill (s # ss) rules =
     (case add_contents fill (source_contents files s) rules of
        None \<Rightarrow> None | Some rules' \<Rightarrow> add_sources files fill ss rules')"

text \<open>One group of the configuration. A \<open>None\<close> argument is a NULL pointer. \<open>compile\<close> is \<^verbatim>\<open>pcre2_compile\<close>.\<close>

definition generate_filter_rules ::
  "(string \<Rightarrow> pcre option) \<Rightarrow> (string \<Rightarrow> string list option option) \<Rightarrow> bool \<Rightarrow> bool \<Rightarrow> i32 \<Rightarrow> string option \<Rightarrow> string \<Rightarrow>
   string option \<Rightarrow> int \<Rightarrow> string \<Rightarrow> string \<Rightarrow> app_filter_rules \<Rightarrow> (app_filter_rules \<times> int) option" where
  "generate_filter_rules compile files calloc_ok malloc_ok enable filter_sources_str app_type_name
     filter_regex_pattern appname_match_index additional_filter_keywords app_bind_process_type filter_rules =
     (case (filter_sources_str, filter_regex_pattern) of
        (Some sources, Some pattern) \<Rightarrow>
          if appname_match_index < 1 then Some (filter_rules, - 1)
          else (case compile pattern of
                  None \<Rightarrow> Some (filter_rules, - 1)
                | Some match \<Rightarrow>
                    (case strsplit malloc_ok sources '','' of
                       None \<Rightarrow> None
                     | Some None \<Rightarrow> Some (filter_rules, sint (rule_count filter_rules))
                     | Some (Some srcs) \<Rightarrow>
                         map_option (\<lambda>rules. (rules, sint (rule_count rules)))
                           (add_sources files
                              (\<lambda>content. fill_filter_rule match calloc_ok malloc_ok enable content app_type_name
                                 appname_match_index additional_filter_keywords app_bind_process_type)
                              srcs filter_rules)))
      | _ \<Rightarrow> Some (filter_rules, - 1))"

text \<open>An element of the configuration as libconfig shows it.\<close>

record config_elem =
  elem_name :: string
  elem_is_group :: bool
  elem_enable :: "i32 option"
  elem_type :: "string option"
  elem_filter_sources :: "string option"
  elem_filter_regex_pattern :: "string option"
  elem_additional_filter_keywords :: "string option"
  elem_appname_match_index :: "int option"
  elem_app_bind_process_type :: "string option"

text \<open>Only when every setting is found, the group is used.\<close>

definition add_elem ::
  "(string \<Rightarrow> pcre option) \<Rightarrow> (string \<Rightarrow> string list option option) \<Rightarrow> bool \<Rightarrow> bool \<Rightarrow> config_elem \<Rightarrow>
   app_filter_rules \<Rightarrow> app_filter_rules option" where
  "add_elem compile files calloc_ok malloc_ok e rules =
     (if has_prefix ''app_'' (elem_name e) \<and> elem_is_group e
      then (case (elem_enable e, elem_type e, elem_filter_sources e, elem_filter_regex_pattern e,
                  elem_additional_filter_keywords e, elem_appname_match_index e, elem_app_bind_process_type e) of
              (Some enable, Some app_type, Some sources, Some pattern, Some keywords, Some index, Some bind) \<Rightarrow>
                map_option fst (generate_filter_rules compile files calloc_ok malloc_ok enable (Some sources)
                  app_type (Some pattern) index keywords bind rules)
            | _ \<Rightarrow> Some rules)
      else Some rules)"

text \<open>\<open>Inl\<close>: an element is missing and NULL is returned.\<close>

fun add_elems ::
  "(string \<Rightarrow> pcre option) \<Rightarrow> (string \<Rightarrow> string list option option) \<Rightarrow> bool \<Rightarrow> bool \<Rightarrow> config_elem option list \<Rightarrow>
   app_filter_rules \<Rightarrow> (unit + app_filter_rules) option" where
  "add_elems compile files calloc_ok malloc_ok [] rules = Some (Inr rules)"
| "add_elems compile files calloc_ok malloc_ok (None # es) rules = Some (Inl ())"
| "add_elems compile files calloc_ok malloc_ok (Some e # es) rules =
     (case add_elem compile files calloc_ok malloc_ok e rules of
        None \<Rightarrow> None | Some rules' \<Rightarrow> add_elems compile files calloc_ok malloc_ok es rules')"

definition create_filter_rules ::
  "(string \<Rightarrow> pcre option) \<Rightarrow> (string \<Rightarrow> string list option option) \<Rightarrow> bool \<Rightarrow> bool \<Rightarrow> config_elem option list option \<Rightarrow>
   app_filter_rules option option" where
  "create_filter_rules compile files calloc_ok malloc_ok cs =
     (case cs of
        None \<Rightarrow> Some None
      | Some elems \<Rightarrow>
          if elems = [] then Some None
          else if \<not> calloc_ok then Some None
          else (case add_elems compile files calloc_ok malloc_ok elems \<lparr>rule_list = [], rule_count = 0\<rparr> of
                  None \<Rightarrow> None
                | Some (Inl u) \<Rightarrow> Some None
                | Some (Inr rules) \<Rightarrow> Some (Some rules)))"

definition clean_filter_rules :: "app_filter_rules \<Rightarrow> app_filter_rules" where
  "clean_filter_rules rules = rules\<lparr>rule_list := map (\<lambda>r. r\<lparr>is_matched := False\<rparr>) (rule_list rules)\<rparr>"

section \<open>What the rules are\<close>

text \<open>PCRE2's contract: a match reports as many pairs of offsets as its result code says.\<close>

definition pcre_ok :: "pcre \<Rightarrow> bool" where
  "pcre_ok match \<longleftrightarrow> (\<forall>s rc ov. match s = (rc, ov) \<longrightarrow> nat rc \<le> length ov)"

text \<open>The reference: the rule that a text gives, if it matches. The keys are the groups of the match but
  the one that is the name, and the additional keywords.\<close>

definition rule_of ::
  "pcre \<Rightarrow> i32 \<Rightarrow> string \<Rightarrow> nat \<Rightarrow> string list \<Rightarrow> string \<Rightarrow> string \<Rightarrow> app_process_filter_rule option" where
  "rule_of match enable app_type index keywords bind content =
     (let vs = snd (regex_match_values match content);
          ks = map (\<lambda>l. vs ! l) (filter (\<lambda>l. l \<noteq> index) [1..<length vs]) @ keywords
      in if length vs < 2 \<or> length vs \<le> index then None
         else Some \<lparr>rule_enable = enable, rule_app_type_name = strlcpy_str app_type XM_APP_NAME_SIZE,
                    rule_app_name = strlcpy_str (vs ! index) XM_APP_NAME_SIZE,
                    assign_type = (if bind = ''app-bind-processtree'' then APP_BIND_PROCESSTREE else APP_BIND_PROCESS),
                    keys = ks, key_count = of_nat (length ks), is_matched = False\<rparr>)"

lemma add_keys_eq:
  "length (keys rule) + length ks \<le> room \<Longrightarrow>
   add_keys room ks rule = Some (rule\<lparr>keys := keys rule @ ks, key_count := key_count rule + of_nat (length ks)\<rparr>)"
  by (induction room ks rule rule: add_keys.induct) (simp_all add: add.assoc)

lemma length_upt_without:
  assumes "1 \<le> k" and "k < n"
  shows "length (filter (\<lambda>l. l \<noteq> k) [1..<n]) = n - 2"
proof -
  have "[1..<n] = [1..<k] @ k # [Suc k..<n]"
    using assms upt_add_eq_append [of 1 k "n - k"] by (simp add: upt_conv_Cons)
  then show ?thesis using assms by simp
qed

lemma regex_values_length:
  assumes "pcre_ok match" and "regex_match_values match s = (rc, vs)"
  shows "length vs = nat rc"
proof -
  obtain rc' ov where m: "match s = (rc', ov)" by force
  with assms(1) have "nat rc' \<le> length ov" by (simp add: pcre_ok_def)
  with m assms(2) show ?thesis by (auto simp: regex_match_values_def split: if_splits)
qed

text \<open>The keys just fit into the array that is allocated for them.\<close>

lemma fill_filter_rule_eq:
  assumes "pcre_ok match" and "1 \<le> index" and "strsplit_impl True kw '','' = Some (Some ws, length ws)"
  shows "fill_filter_rule match True True enable content app_type (int index) kw bind =
    Some (rule_of match enable app_type index ws bind content)"
proof -
  obtain rc vs where m: "regex_match_values match content = (rc, vs)" by force
  note len = regex_values_length [OF assms(1) m]
  show ?thesis
  proof (cases "rc < 2 \<or> rc \<le> int index")
    case True
    with m len show ?thesis by (auto simp: fill_filter_rule_def rule_of_def)
  next
    case False
    with len have n: "2 \<le> length vs" "index < length vs" "nat rc = length vs" by auto
    have "length (filter (\<lambda>l. l \<noteq> index) [1..<length vs]) = length vs - 2"
      using length_upt_without [OF assms(2) n(2)] .
    with False m n assms(3) show ?thesis
      by (simp add: fill_filter_rule_def rule_of_def strsplit_count_def add_keys_eq Let_def)
  qed
qed

lemma add_contents_eq:
  "\<forall>c \<in> set cs. fill c = Some (f c) \<Longrightarrow>
   add_contents fill cs rules =
     Some (rules\<lparr>rule_list := rev (List.map_filter f cs) @ rule_list rules,
                 rule_count := rule_count rules + of_nat (length (List.map_filter f cs))\<rparr>)"
  by (induction cs arbitrary: rules)
     (auto simp: List.map_filter_simps add_rule_def add.assoc split: option.split)

lemma map_filter_append: "List.map_filter f (xs @ ys) = List.map_filter f xs @ List.map_filter f ys"
  by (simp add: List.map_filter_def)

lemma add_sources_eq:
  "\<forall>c. fill c = Some (f c) \<Longrightarrow>
   add_sources files fill ss rules =
     Some (rules\<lparr>rule_list := rev (List.map_filter f (concat (map (source_contents files) ss))) @ rule_list rules,
                 rule_count := rule_count rules + of_nat (length (List.map_filter f (concat (map (source_contents files) ss))))\<rparr>)"
  by (induction ss arbitrary: rules) (simp_all add: add_contents_eq [of _ fill f] List.map_filter_simps map_filter_append add.assoc)

section \<open>Properties\<close>


definition word_match :: pcre where
  "word_match s = (if 2 \<le> length s then (3, [(0, length s), (0, 1), (1, length s)]) else (- 1, []))"


end
