(* ===== verification/XM_Apps.thy ===== *)
theory XM_Apps
  imports XM_Process XM_FilterRule
begin

text \<open>
  \<^verbatim>\<open>collectors/application/apps_status.c\<close>: the applications, the processes that belong to them, and the
  sums of a round. An application is known by the address of its record: \<open>app_list\<close> is the linked list
  of addresses, \<open>app_mem\<close> gives the record at an address. The table from process ids to association
  records is the hash table of Collections-C, an argument (\<open>'h cc_table\<close>) with the contract \<open>cc_spec\<close>;
  \<open>assoc_mem\<close> gives the record that is stored under a process id. Whether a memory pool has a unit and
  whether the metrics library accepts a collector are arguments.
\<close>

record app_status =
  app_name :: string
  app_type_name :: string
  app_pid :: pid
  process_count :: i32
  as_minflt_raw :: u64
  as_cminflt_raw :: u64
  as_majflt_raw :: u64
  as_cmajflt_raw :: u64
  as_utime_raw :: u64
  as_stime_raw :: u64
  as_cutime_raw :: u64
  as_cstime_raw :: u64
  app_total_jiffies :: u64
  as_num_threads :: i32
  as_vmsize :: u64
  as_vmrss :: u64
  as_rss_anon :: u64
  as_rss_file :: u64
  as_rss_shmem :: u64
  as_vmswap :: u64
  as_pss :: u64
  as_pss_anon :: u64
  as_pss_file :: u64
  as_pss_shmem :: u64
  as_uss :: u64
  as_io_logical_bytes_read :: u64
  as_io_logical_bytes_written :: u64
  as_io_read_calls :: u64
  as_io_write_calls :: u64
  as_io_storage_bytes_read :: u64
  as_io_storage_bytes_written :: u64
  as_io_cancelled_write_bytes :: i32
  open_fds :: i32
  as_sst :: sock_statistic
  max_oom_score :: i16
  max_oom_score_adj :: i16
  as_nvcsw :: u64
  as_nivcsw :: u64

record app_assoc_process =
  as_target :: nat
  ps_target :: process_status
  update :: bool

record 'h cc_table =
  cc_has :: "'h \<Rightarrow> pid \<Rightarrow> bool"
  cc_add :: "'h \<Rightarrow> pid \<Rightarrow> 'h"
  cc_remove :: "'h \<Rightarrow> pid \<Rightarrow> 'h"
  cc_keys :: "'h \<Rightarrow> pid list"

record 'h apps_state =
  app_list :: "nat list"
  app_mem :: "nat \<Rightarrow> app_status"
  assoc_tab :: 'h
  assoc_mem :: "pid \<Rightarrow> app_assoc_process"

text \<open>What the rest of the system gives: a unit for an application, memory for an association and for a
  process, the metrics registry, \<^verbatim>\<open>/proc\<close> (the names and whether they are directories), the command lines
  and the children of processes, their files, the socket table and the clock.\<close>

record apps_env =
  env_as_unit :: "nat list \<Rightarrow> nat option"
  env_aap_unit :: "pid \<Rightarrow> bool"
  env_ps_unit :: "pid \<Rightarrow> bool"
  env_register :: "string \<Rightarrow> bool"
  env_proc_dir :: "(string \<times> bool) list option"
  env_cmdline :: "pid \<Rightarrow> bool \<times> file_read"
  env_children :: "pid \<Rightarrow> string option"
  env_proc :: "pid \<Rightarrow> proc_env"
  env_find_sock :: "u32 \<Rightarrow> sock_info option"
  env_hz :: u32

definition XM_PROC_CMD_LINE_MAX :: nat where "XM_PROC_CMD_LINE_MAX = 4096"

section \<open>Applications\<close>

text \<open>The values that are cleared at the start of a round.\<close>

definition zero_appstatus :: "app_status \<Rightarrow> app_status" where
  "zero_appstatus as =
     as\<lparr>as_minflt_raw := 0, as_cmajflt_raw := 0, as_majflt_raw := 0, as_utime_raw := 0, as_stime_raw := 0,
        as_cutime_raw := 0, as_cstime_raw := 0, app_total_jiffies := 0, as_num_threads := 0, as_vmsize := 0,
        as_vmrss := 0, as_rss_anon := 0, as_rss_file := 0, as_rss_shmem := 0, as_vmswap := 0, as_pss := 0,
        as_uss := 0, as_io_logical_bytes_read := 0, as_io_logical_bytes_written := 0, as_io_read_calls := 0,
        as_io_write_calls := 0, as_io_storage_bytes_read := 0, as_io_storage_bytes_written := 0,
        as_io_cancelled_write_bytes := 0, open_fds := 0, as_sst := sst_zero\<rparr>"

definition zero_all_appstatus :: "'h apps_state \<Rightarrow> 'h apps_state \<times> int" where
  "zero_all_appstatus s =
     (s\<lparr>app_mem := (\<lambda>a. if a \<in> set (app_list s) then zero_appstatus (app_mem s a) else app_mem s a)\<rparr>,
      int (length (app_list s)))"

text \<open>A record of zero bytes with a name, a type and a process id.\<close>

definition new_app_status :: "pid \<Rightarrow> string \<Rightarrow> string \<Rightarrow> app_status" where
  "new_app_status pid name type_name =
     \<lparr>app_name = strlcpy_str name XM_APP_NAME_SIZE, app_type_name = strlcpy_str type_name XM_APP_NAME_SIZE,
      app_pid = pid, process_count = 0, as_minflt_raw = 0, as_cminflt_raw = 0, as_majflt_raw = 0,
      as_cmajflt_raw = 0, as_utime_raw = 0, as_stime_raw = 0, as_cutime_raw = 0, as_cstime_raw = 0,
      app_total_jiffies = 0, as_num_threads = 0, as_vmsize = 0, as_vmrss = 0, as_rss_anon = 0, as_rss_file = 0,
      as_rss_shmem = 0, as_vmswap = 0, as_pss = 0, as_pss_anon = 0, as_pss_file = 0, as_pss_shmem = 0, as_uss = 0,
      as_io_logical_bytes_read = 0, as_io_logical_bytes_written = 0, as_io_read_calls = 0, as_io_write_calls = 0,
      as_io_storage_bytes_read = 0, as_io_storage_bytes_written = 0, as_io_cancelled_write_bytes = 0, open_fds = 0,
      as_sst = sst_zero, max_oom_score = 0, max_oom_score_adj = 0, as_nvcsw = 0, as_nivcsw = 0\<rparr>"

text \<open>The search in the list: the first application of the name decides.\<close>

definition find_app :: "'h apps_state \<Rightarrow> string \<Rightarrow> nat option" where
  "find_app s name = List.find (\<lambda>a. app_name (app_mem s a) = name) (app_list s)"

definition get_app_status ::
  "apps_env \<Rightarrow> pid \<Rightarrow> string \<Rightarrow> string \<Rightarrow> 'h apps_state \<Rightarrow> 'h apps_state \<times> nat option" where
  "get_app_status e pid name type_name s =
     (case find_app s name of
        Some a \<Rightarrow> (s, if app_pid (app_mem s a) = pid then Some a else None)
      | None \<Rightarrow>
          (case env_as_unit e (app_list s) of
             None \<Rightarrow> (s, None)
           | Some a \<Rightarrow>
               if \<not> env_register e name then (s, None)
               else (s\<lparr>app_mem := (app_mem s)(a := new_app_status pid name type_name),
                       app_list := app_list s @ [a]\<rparr>, Some a)))"

section \<open>Associations\<close>

definition add_process_count :: "i32 \<Rightarrow> nat \<Rightarrow> 'h apps_state \<Rightarrow> 'h apps_state" where
  "add_process_count n a s =
     s\<lparr>app_mem := (app_mem s)(a := (app_mem s a)\<lparr>process_count := process_count (app_mem s a) + n\<rparr>)\<rparr>"

definition del_app_assoc_process :: "'h cc_table \<Rightarrow> pid \<Rightarrow> bool \<Rightarrow> 'h apps_state \<Rightarrow> 'h apps_state" where
  "del_app_assoc_process T k remove_from_hashtable s =
     (let aap = assoc_mem s k;
          s1 = (if remove_from_hashtable
                then s\<lparr>assoc_tab := cc_remove T (assoc_tab s) (ps_pid (ps_target aap))\<rparr> else s)
      in add_process_count (- 1) (as_target aap) s1)"

text \<open>The state and whether there is an association now. \<open>None\<close>: a process id that is not positive, or no
  memory for the process, which are written through NULL.\<close>

definition get_app_assoc_process ::
  "'h cc_table \<Rightarrow> apps_env \<Rightarrow> nat \<Rightarrow> pid \<Rightarrow> pid \<Rightarrow> string \<Rightarrow> 'h apps_state \<Rightarrow> ('h apps_state \<times> bool) option" where
  "get_app_assoc_process T e a pid apid name s =
     (let have = cc_has T (assoc_tab s) pid;
          t = as_target (assoc_mem s pid)
      in if have \<and> app_pid (app_mem s t) = apid \<and> app_name (app_mem s t) = name then Some (s, True)
         else let s1 = (if have then del_app_assoc_process T pid True s else s)
              in if \<not> env_aap_unit e pid then Some (s1, False)
                 else (case new_process_status pid True (env_ps_unit e pid) of
                         Some (Some ps) \<Rightarrow>
                           Some (add_process_count 1 a
                             (s1\<lparr>assoc_mem := (assoc_mem s1)(pid := \<lparr>as_target = a, ps_target = ps, update = False\<rparr>),
                                 assoc_tab := cc_add T (assoc_tab s1) (ps_pid ps)\<rparr>), True)
                       | _ \<Rightarrow> None))"

fun get_app_assoc_processes ::
  "'h cc_table \<Rightarrow> apps_env \<Rightarrow> nat \<Rightarrow> pid list \<Rightarrow> pid \<Rightarrow> string \<Rightarrow> 'h apps_state \<Rightarrow> 'h apps_state option" where
  "get_app_assoc_processes T e a [] apid name s = Some s"
| "get_app_assoc_processes T e a (p # ps) apid name s =
     (case get_app_assoc_process T e a p apid name s of
        None \<Rightarrow> None | Some (s', b) \<Rightarrow> get_app_assoc_processes T e a ps apid name s')"

section \<open>Matching\<close>

text \<open>The loop over the keys of a rule: how many are still to be found when it is left.\<close>

fun match_keys :: "string \<Rightarrow> string list \<Rightarrow> u16 \<Rightarrow> u16" where
  "match_keys cmd_line [] must_match_count = must_match_count"
| "match_keys cmd_line (k # ks) must_match_count =
     (case strstr cmd_line k of
        Some br \<Rightarrow> match_keys cmd_line ks (must_match_count - 1)
      | None \<Rightarrow> must_match_count)"

text \<open>The loop over the rules: the rules before the first match, the rule, the rules behind it.\<close>

fun find_rule ::
  "string \<Rightarrow> app_process_filter_rule list \<Rightarrow>
   (app_process_filter_rule list \<times> app_process_filter_rule \<times> app_process_filter_rule list) option" where
  "find_rule cmd_line [] = None"
| "find_rule cmd_line (r # rs) =
     (if (rule_enable r = 0 \<or> is_matched r) \<or> match_keys cmd_line (take (unat (key_count r)) (keys r)) (key_count r) \<noteq> 0
      then map_option (\<lambda>(pre, x, post). (r # pre, x, post)) (find_rule cmd_line rs)
      else Some ([], r, rs))"

text \<open>The rest of \<^verbatim>\<open>__match_app_process\<close> with the command line that was read.\<close>

definition match_cmd_line ::
  "'h cc_table \<Rightarrow> apps_env \<Rightarrow> pid \<Rightarrow> string \<Rightarrow> app_filter_rules \<times> 'h apps_state \<Rightarrow>
   ((app_filter_rules \<times> 'h apps_state) \<times> int) option" where
  "match_cmd_line T e pid cmd_line st =
     (case st of (afr, s) \<Rightarrow>
      (case find_rule cmd_line (rule_list afr) of
         None \<Rightarrow> Some ((afr, s), 0)
       | Some (pre, rule, post) \<Rightarrow>
           (case get_app_status e pid (rule_app_name rule) (rule_app_type_name rule) s of
              (s1, None) \<Rightarrow> Some ((afr, s1), - 1)
            | (s1, Some a) \<Rightarrow>
                let afr1 = afr\<lparr>rule_list := pre @ rule\<lparr>is_matched := True\<rparr> # post\<rparr>
                in (case get_app_assoc_process T e a pid pid (rule_app_name rule) s1 of
                      None \<Rightarrow> None
                    | Some (s2, False) \<Rightarrow> Some ((afr1, s2), - 1)
                    | Some (s2, True) \<Rightarrow>
                        if assign_type rule = APP_BIND_PROCESSTREE
                        then (case get_process_descendant_pids (env_children e) pid of
                                None \<Rightarrow> None
                              | Some (n, pids) \<Rightarrow>
                                  if n \<noteq> - 1
                                  then map_option (\<lambda>s3. ((afr1, s3), 0))
                                         (get_app_assoc_processes T e a pids pid (rule_app_name rule) s2)
                                  else Some ((afr1, s2), 0))
                        else Some ((afr1, s2), 0)))))"

definition match_app_process ::
  "'h cc_table \<Rightarrow> apps_env \<Rightarrow> pid \<Rightarrow> app_filter_rules \<times> 'h apps_state \<Rightarrow> ((app_filter_rules \<times> 'h apps_state) \<times> int) option" where
  "match_app_process T e pid st =
     (case read_proc_pid_cmdline (fst (env_cmdline e pid)) (snd (env_cmdline e pid))
             (replicate XM_PROC_CMD_LINE_MAX NUL) (XM_PROC_CMD_LINE_MAX - 1) of
        (ret, buf) \<Rightarrow> if ret < 0 then Some (st, - 1) else match_cmd_line T e pid (cstr buf) st)"

text \<open>For evaluation: what is matched without the buffer it is read into.\<close>

lemma match_app_process_code [code]:
  "match_app_process T e pid st =
     (case (if fst (env_cmdline e pid) then snd (env_cmdline e pid) (XM_PROC_CMD_LINE_MAX - 1) else None) of
        None \<Rightarrow> Some (st, - 1)
      | Some bs \<Rightarrow> match_cmd_line T e pid (map (\<lambda>c. if c = NUL then CHR '' '' else c) bs) st)"
proof -
  let ?n = "XM_PROC_CMD_LINE_MAX - 1" and ?b = "replicate XM_PROC_CMD_LINE_MAX NUL"
  have u: "\<exists>b. strlcpy ?b ''<unknown>'' ?n = (b, 9)"
    using strlcpy_eq [of "''<unknown>''" ?n ?b] by (simp add: XM_PROC_CMD_LINE_MAX_def)
  have c: "cstr (map (\<lambda>c. if c = NUL then CHR '' '' else c) bs @ NUL # r) = map (\<lambda>c. if c = NUL then CHR '' '' else c) bs"
    for bs r by (rule cstr_append_NUL) auto
  show ?thesis
    using u c by (auto simp: match_app_process_def read_proc_pid_cmdline_code XM_PROC_CMD_LINE_MAX_def split: option.split)
qed

text \<open>A name of \<^verbatim>\<open>/proc\<close> that is a process id.\<close>

definition dir_pid :: "string \<times> bool \<Rightarrow> pid option" where
  "dir_pid d =
     (case d of (name, is_dir) \<Rightarrow>
        if \<not> is_dir \<or> name = [] \<or> \<not> is_digit (hd name) then None
        else (case str2int64_t name of
                (v, rest) \<Rightarrow> if rest = name \<or> rest \<noteq> [] then None else Some (ucast v)))"

fun match_dir ::
  "'h cc_table \<Rightarrow> apps_env \<Rightarrow> (string \<times> bool) list \<Rightarrow> app_filter_rules \<times> 'h apps_state \<Rightarrow> (app_filter_rules \<times> 'h apps_state) option" where
  "match_dir T e [] st = Some st"
| "match_dir T e (d # ds) st =
     (case dir_pid d of
        None \<Rightarrow> match_dir T e ds st
      | Some pid \<Rightarrow>
          (case match_app_process T e pid st of
             None \<Rightarrow> None | Some (st', r) \<Rightarrow> match_dir T e ds st'))"

definition update_app_collection ::
  "'h cc_table \<Rightarrow> apps_env \<Rightarrow> app_filter_rules \<times> 'h apps_state \<Rightarrow> ((app_filter_rules \<times> 'h apps_state) \<times> int) option" where
  "update_app_collection T e st =
     (case env_proc_dir e of
        None \<Rightarrow> Some (st, - 1)
      | Some ds \<Rightarrow> map_option (\<lambda>st'. (st', 0)) (match_dir T e ds st))"

section \<open>Usage\<close>

definition gather_sock_statistics :: "sock_statistic \<Rightarrow> sock_statistic \<Rightarrow> sock_statistic" where
  "gather_sock_statistics app ps =
     app\<lparr>tcp_established := tcp_established app + tcp_established ps,
         tcp_close_wait := tcp_close_wait app + tcp_close_wait ps,
         tcp_listen := tcp_listen app + tcp_listen ps,
         tcp6_established := tcp6_established ps,
         tcp6_close_wait := tcp6_close_wait app + tcp6_close_wait ps,
         tcp6_listen := tcp6_listen app + tcp6_listen ps,
         udp_established := udp_established app + udp_established ps,
         udp_close := udp_close app + udp_close ps,
         udp6_established := udp6_established app + udp6_established ps,
         udp6_close := udp6_close app + udp6_close ps,
         unix_established := unix_established app + unix_established ps,
         unix_recv := unix_recv app + unix_recv ps\<rparr>"

definition gather_process :: "process_status \<Rightarrow> app_status \<Rightarrow> app_status" where
  "gather_process ps as =
     (let worse = sint (max_oom_score as) + sint (max_oom_score_adj as) < sint (oom_score ps) + sint (oom_score_adj ps)
      in as\<lparr>as_minflt_raw := as_minflt_raw as + ps_minflt_raw ps,
            as_cminflt_raw := as_cminflt_raw as + ps_cminflt_raw ps,
            as_majflt_raw := as_majflt_raw as + ps_majflt_raw ps,
            as_cmajflt_raw := as_cmajflt_raw as + ps_cmajflt_raw ps,
            as_utime_raw := as_utime_raw as + ps_utime_raw ps,
            as_stime_raw := as_stime_raw as + ps_stime_raw ps,
            as_cutime_raw := as_cutime_raw as + ps_cutime_raw ps,
            as_cstime_raw := as_cstime_raw as + ps_cstime_raw ps,
            app_total_jiffies := app_total_jiffies as + process_cpu_jiffies ps,
            as_num_threads := as_num_threads as + ps_num_threads ps,
            as_vmsize := as_vmsize as + ps_vmsize ps,
            as_vmrss := as_vmrss as + rss (smaps ps),
            as_rss_anon := as_rss_anon as + ps_rss_anon ps,
            as_rss_file := as_rss_file as + ps_rss_file ps,
            as_rss_shmem := as_rss_shmem as + ps_rss_shmem ps,
            as_vmswap := as_vmswap as + ps_vmswap ps,
            as_pss := as_pss as + pss (smaps ps),
            as_pss_anon := as_pss_anon as + pss_anon (smaps ps),
            as_pss_file := as_pss_file as + pss_file (smaps ps),
            as_pss_shmem := as_pss_shmem as + pss_shmem (smaps ps),
            as_uss := as_uss as + uss (smaps ps),
            as_io_logical_bytes_read := as_io_logical_bytes_read as + ps_io_logical_bytes_read ps,
            as_io_logical_bytes_written := as_io_logical_bytes_written as + ps_io_logical_bytes_written ps,
            as_io_read_calls := as_io_read_calls as + ps_io_read_calls ps,
            as_io_write_calls := as_io_write_calls as + ps_io_write_calls ps,
            as_io_storage_bytes_read := as_io_storage_bytes_read as + ps_io_storage_bytes_read ps,
            as_io_storage_bytes_written := as_io_storage_bytes_written as + ps_io_storage_bytes_written ps,
            as_io_cancelled_write_bytes := as_io_cancelled_write_bytes as + ps_io_cancelled_write_bytes ps,
            open_fds := open_fds as + process_open_fds ps,
            as_sst := gather_sock_statistics (as_sst as) (ps_sst ps),
            as_nvcsw := as_nvcsw as + ps_nvcsw ps,
            as_nivcsw := as_nivcsw as + ps_nivcsw ps,
            max_oom_score := (if worse then oom_score ps else max_oom_score as),
            max_oom_score_adj := (if worse then oom_score_adj ps else max_oom_score_adj as)\<rparr>)"

text \<open>One entry of the table.\<close>

definition collect_process :: "apps_env \<Rightarrow> pid \<Rightarrow> 'h apps_state \<Rightarrow> 'h apps_state option" where
  "collect_process e key_pid s =
     (let aap = (assoc_mem s key_pid)\<lparr>update := False\<rparr>;
          as = app_mem s (as_target aap)
      in case COLLECTOR_PROCESS_USAGE (env_hz e) (env_find_sock e) (env_proc e key_pid) (ps_target aap) of
           None \<Rightarrow> None
         | Some (ps, ret) \<Rightarrow>
             if ret = 0 \<and> ps_pid ps = key_pid \<and> (ps_pid ps = app_pid as \<or> ps_ppid ps = app_pid as)
             then Some (s\<lparr>assoc_mem := (assoc_mem s)(key_pid := aap\<lparr>ps_target := ps, update := True\<rparr>),
                          app_mem := (app_mem s)(as_target aap := gather_process ps as)\<rparr>)
             else Some (s\<lparr>assoc_mem := (assoc_mem s)(key_pid := aap\<lparr>ps_target := ps\<rparr>)\<rparr>))"

fun collect_processes :: "apps_env \<Rightarrow> pid list \<Rightarrow> 'h apps_state \<Rightarrow> 'h apps_state option" where
  "collect_processes e [] s = Some s"
| "collect_processes e (k # ks) s =
     (case collect_process e k s of None \<Rightarrow> None | Some s' \<Rightarrow> collect_processes e ks s')"

text \<open>The second loop: \<^verbatim>\<open>cc_hashtable_iter_remove\<close> takes the current entry out.\<close>

definition sweep_process :: "'h cc_table \<Rightarrow> pid \<Rightarrow> 'h apps_state \<Rightarrow> 'h apps_state" where
  "sweep_process T k s =
     (if \<not> update (assoc_mem s k)
      then del_app_assoc_process T k False (s\<lparr>assoc_tab := cc_remove T (assoc_tab s) k\<rparr>) else s)"

definition sweep_processes :: "'h cc_table \<Rightarrow> 'h apps_state \<Rightarrow> 'h apps_state" where
  "sweep_processes T s = fold (sweep_process T) (cc_keys T (assoc_tab s)) s"

definition sweep_apps :: "'h apps_state \<Rightarrow> 'h apps_state" where
  "sweep_apps s = s\<lparr>app_list := filter (\<lambda>a. process_count (app_mem s a) \<noteq> 0) (app_list s)\<rparr>"

text \<open>The round up to the removal of the applications that have no process left.\<close>

definition collect_and_sweep :: "'h cc_table \<Rightarrow> apps_env \<Rightarrow> 'h apps_state \<Rightarrow> ('h apps_state \<times> int) option" where
  "collect_and_sweep T e s =
     (case zero_all_appstatus s of
        (s0, n) \<Rightarrow>
          if n = 0 then Some (s0, 0)
          else (case collect_processes e (cc_keys T (assoc_tab s0)) s0 of
                  None \<Rightarrow> None
                | Some s1 \<Rightarrow> Some (sweep_apps (sweep_processes T s1), 0)))"

section \<open>Metrics\<close>

datatype app_metric =
  metric_minflt | metric_vm_cminflt | metric_majflt | metric_vm_cmajflt | metric_cpu_utime | metric_cpu_stime
| metric_cpu_cutime | metric_cpu_cstime | metric_cpu_total_jiffies | metric_num_threads | metric_vmsize_kilobytes
| metric_vmrss_kilobytes | metric_mem_rss_anon_kilobytes | metric_mem_rss_file_kilobytes
| metric_mem_rss_shmem_kilobytes | metric_mem_vmswap_kilobytes | metric_mem_pss_kilobytes
| metric_mem_pss_anon_kilobytes | metric_mem_pss_file_kilobytes | metric_mem_pss_shmem_kilobytes
| metric_mem_uss_kilobytes | metric_io_logical_bytes_read | metric_io_logical_bytes_written | metric_io_read_calls
| metric_io_write_calls | metric_io_storage_bytes_read | metric_io_storage_bytes_written
| metric_io_cancelled_write_bytes | metric_open_fds | metric_sock_fds | metric_max_oom_score
| metric_max_oom_score_adj | metric_nvcsw | metric_nivcsw

text \<open>The gauges that a new application gets, each with the number of its labels.\<close>

definition app_gauges :: "(app_metric \<times> nat) list" where
  "app_gauges =
     map (\<lambda>m. (m, 2))
       [metric_majflt, metric_minflt, metric_vm_cminflt, metric_vm_cmajflt, metric_cpu_utime, metric_cpu_stime,
        metric_cpu_cutime, metric_cpu_cstime, metric_cpu_total_jiffies, metric_num_threads, metric_vmsize_kilobytes,
        metric_vmrss_kilobytes, metric_mem_rss_anon_kilobytes, metric_mem_rss_file_kilobytes,
        metric_mem_rss_shmem_kilobytes, metric_mem_vmswap_kilobytes, metric_mem_pss_kilobytes,
        metric_mem_pss_anon_kilobytes, metric_mem_pss_file_kilobytes, metric_mem_pss_shmem_kilobytes,
        metric_mem_uss_kilobytes, metric_io_logical_bytes_read, metric_io_logical_bytes_written, metric_io_read_calls,
        metric_io_write_calls, metric_io_storage_bytes_read, metric_io_storage_bytes_written,
        metric_io_cancelled_write_bytes, metric_open_fds, metric_max_oom_score, metric_max_oom_score_adj,
        metric_nvcsw, metric_nivcsw] @ [(metric_sock_fds, 4)]"

text \<open>The values of a round: the gauge, the value and the labels behind the name and the type.\<close>

definition set_app_sock_metrics :: "app_status \<Rightarrow> (app_metric \<times> int \<times> string list) list" where
  "set_app_sock_metrics as =
     (let st = as_sst as; nt = [app_name as, app_type_name as]
      in map (\<lambda>(v, ss, ty). (metric_sock_fds, uint v, nt @ [sock_state_name ss, ty]))
           [(tcp_established st, SS_ESTABLISHED, ''Tcp''), (tcp_close_wait st, SS_CLOSE_WAIT, ''Tcp''),
            (tcp_listen st, SS_LISTEN, ''Tcp''), (tcp6_established st, SS_ESTABLISHED, ''Tcp6''),
            (tcp6_close_wait st, SS_CLOSE_WAIT, ''Tcp6''), (tcp6_listen st, SS_LISTEN, ''Tcp6''),
            (udp_established st, SS_ESTABLISHED, ''Udp''), (udp6_close st, SS_CLOSE, ''Udp''),
            (udp6_established st, SS_ESTABLISHED, ''Udp6''), (udp_close st, SS_CLOSE, ''Udp6''),
            (unix_established st, SS_ESTABLISHED, ''UnixDomain''), (unix_recv st, SS_SYN_RECV, ''UnixDomain'')])"

definition set_app_metrics :: "app_status \<Rightarrow> (app_metric \<times> int \<times> string list) list" where
  "set_app_metrics as =
     map (\<lambda>(m, v). (m, v, [app_name as, app_type_name as]))
       [(metric_minflt, uint (as_minflt_raw as)), (metric_vm_cminflt, uint (as_cminflt_raw as)),
        (metric_majflt, uint (as_majflt_raw as)), (metric_vm_cmajflt, uint (as_cmajflt_raw as)),
        (metric_cpu_utime, uint (as_utime_raw as)), (metric_cpu_stime, uint (as_stime_raw as)),
        (metric_cpu_cutime, uint (as_cutime_raw as)), (metric_cpu_cstime, uint (as_cstime_raw as)),
        (metric_cpu_total_jiffies, uint (app_total_jiffies as)), (metric_num_threads, sint (as_num_threads as)),
        (metric_vmsize_kilobytes, uint (as_vmsize as)), (metric_vmrss_kilobytes, uint (as_vmrss as)),
        (metric_mem_rss_anon_kilobytes, uint (as_rss_anon as)), (metric_mem_rss_file_kilobytes, uint (as_rss_file as)),
        (metric_mem_rss_shmem_kilobytes, uint (as_rss_shmem as)), (metric_mem_vmswap_kilobytes, uint (as_vmswap as)),
        (metric_mem_pss_kilobytes, uint (as_pss as)), (metric_mem_pss_anon_kilobytes, uint (as_pss_anon as)),
        (metric_mem_pss_file_kilobytes, uint (as_pss_file as)), (metric_mem_pss_shmem_kilobytes, uint (as_pss_shmem as)),
        (metric_mem_uss_kilobytes, uint (as_uss as)),
        (metric_io_logical_bytes_read, uint (as_io_logical_bytes_read as)),
        (metric_io_logical_bytes_written, uint (as_io_logical_bytes_written as)),
        (metric_io_read_calls, uint (as_io_read_calls as)), (metric_io_write_calls, uint (as_io_write_calls as)),
        (metric_io_storage_bytes_read, uint (as_io_storage_bytes_read as)),
        (metric_io_storage_bytes_written, uint (as_io_storage_bytes_written as)),
        (metric_io_cancelled_write_bytes, sint (as_io_cancelled_write_bytes as)),
        (metric_open_fds, sint (open_fds as)), (metric_max_oom_score, sint (max_oom_score as)),
        (metric_max_oom_score_adj, sint (max_oom_score_adj as)),
        (metric_nvcsw, uint (as_nvcsw as)), (metric_nivcsw, uint (as_nivcsw as))] @
     set_app_sock_metrics as"

definition set_apps_metrics :: "'h apps_state \<Rightarrow> (app_metric \<times> int \<times> string list) list" where
  "set_apps_metrics s = concat (map (\<lambda>a. set_app_metrics (app_mem s a)) (app_list s))"

text \<open>The whole round: the state, the values given to the gauges, and the result.\<close>

definition collecting_apps_usage ::
  "'h cc_table \<Rightarrow> apps_env \<Rightarrow> 'h apps_state \<Rightarrow> ('h apps_state \<times> (app_metric \<times> int \<times> string list) list \<times> int) option" where
  "collecting_apps_usage T e s =
     map_option (\<lambda>(s', r). (s', set_apps_metrics s', r)) (collect_and_sweep T e s)"

text \<open>At the end of the program: the associations, then the applications.\<close>

definition free_apps_collector :: "'h cc_table \<Rightarrow> 'h apps_state \<Rightarrow> 'h apps_state" where
  "free_apps_collector T s =
     (fold (\<lambda>k s. del_app_assoc_process T k False (s\<lparr>assoc_tab := cc_remove T (assoc_tab s) k\<rparr>))
        (cc_keys T (assoc_tab s)) s)\<lparr>app_list := []\<rparr>"

section \<open>Contracts\<close>

definition cc_spec :: "'h cc_table \<Rightarrow> bool" where
  "cc_spec T \<longleftrightarrow>
     (\<forall>h k. cc_has T (cc_add T h k) = (cc_has T h)(k := True)) \<and>
     (\<forall>h k. cc_has T (cc_remove T h k) = (cc_has T h)(k := False)) \<and>
     (\<forall>h. distinct (cc_keys T h) \<and> set (cc_keys T h) = {k. cc_has T h k})"

definition as_unit_ok :: "apps_env \<Rightarrow> bool" where
  "as_unit_ok e \<longleftrightarrow> (\<forall>as a. env_as_unit e as = Some a \<longrightarrow> a \<notin> set as)"

text \<open>A list of keys is such a table.\<close>

definition list_table :: "pid list cc_table" where
  "list_table =
     \<lparr>cc_has = (\<lambda>h k. k \<in> set h), cc_add = (\<lambda>h k. k # h), cc_remove = (\<lambda>h k. filter (\<lambda>x. x \<noteq> k) h),
      cc_keys = remdups\<rparr>"

lemma list_table_spec: "cc_spec list_table"
  by (auto simp: cc_spec_def list_table_def fun_eq_iff)

lemma cc_specD:
  assumes "cc_spec T"
  shows "cc_has T (cc_add T h k) = (cc_has T h)(k := True)" and "cc_has T (cc_remove T h k) = (cc_has T h)(k := False)"
    and "distinct (cc_keys T h)" and "set (cc_keys T h) = {k. cc_has T h k}"
  using assms by (simp_all add: cc_spec_def)

section \<open>The invariant\<close>

text \<open>The processes of an application.\<close>

definition members :: "'h cc_table \<Rightarrow> 'h apps_state \<Rightarrow> nat \<Rightarrow> pid set" where
  "members T s a = {k. cc_has T (assoc_tab s) k \<and> as_target (assoc_mem s k) = a}"

text \<open>Applications have different names, every association leads to an application of the list and is
  stored under the id of its process, and the counts of processes are right.\<close>

definition apps_inv :: "'h cc_table \<Rightarrow> 'h apps_state \<Rightarrow> bool" where
  "apps_inv T s \<longleftrightarrow> distinct (app_list s) \<and> inj_on (\<lambda>a. app_name (app_mem s a)) (set (app_list s)) \<and>
     (\<forall>k. cc_has T (assoc_tab s) k \<longrightarrow> 0 < sint k \<and> as_target (assoc_mem s k) \<in> set (app_list s) \<and>
        ps_pid (ps_target (assoc_mem s k)) = k) \<and>
     (\<forall>a \<in> set (app_list s). process_count (app_mem s a) = of_nat (card (members T s a)))"

lemma add_process_count_fields [simp]:
  "app_list (add_process_count n a s) = app_list s" "assoc_tab (add_process_count n a s) = assoc_tab s"
  "assoc_mem (add_process_count n a s) = assoc_mem s"
  "app_mem (add_process_count n a s) =
     (app_mem s)(a := (app_mem s a)\<lparr>process_count := process_count (app_mem s a) + n\<rparr>)"
  by (simp_all add: add_process_count_def)

lemma apps_invD:
  assumes "apps_inv T s" and "cc_has T (assoc_tab s) k"
  shows "0 < sint k" and "as_target (assoc_mem s k) \<in> set (app_list s)" and "ps_pid (ps_target (assoc_mem s k)) = k"
  using assms by (auto simp: apps_inv_def)

lemma card_members_pos:
  assumes "apps_inv T s" and "of_nat (card (members T s a)) = (0 :: i32)"
  shows "members T s a = {}"
proof -
  have "0 \<notin> members T s a" using assms(1) by (auto simp: apps_inv_def members_def)
  then have "members T s a \<subset> UNIV" by blast
  then have "card (members T s a) < card (UNIV :: pid set)" by (intro psubset_card_mono) simp_all
  then have "card (members T s a) < 2 ^ 32" by (simp add: card_word)
  then have "unat (of_nat (card (members T s a)) :: i32) = card (members T s a)"
    by (simp add: unat_of_nat take_bit_nat_eq_self)
  then have "card (members T s a) = 0" using assms(2) by simp
  then show ?thesis by simp
qed

text \<open>Taking an association out.\<close>

lemma del_assoc_ok:
  assumes T: "cc_spec T" and inv: "apps_inv T s" and k: "cc_has T (assoc_tab s) k"
  defines "s' \<equiv> del_app_assoc_process T k True s"
  shows "apps_inv T s'" and "cc_has T (assoc_tab s') = (cc_has T (assoc_tab s))(k := False)"
    and "app_list s' = app_list s" and "assoc_mem s' = assoc_mem s"
    and "\<exists>n. app_mem s' a = (app_mem s a)\<lparr>process_count := n\<rparr>"
proof -
  let ?a = "as_target (assoc_mem s k)"
  note kk = apps_invD [OF inv k]
  have s': "s' = add_process_count (- 1) ?a (s\<lparr>assoc_tab := cc_remove T (assoc_tab s) k\<rparr>)"
    by (simp add: s'_def del_app_assoc_process_def kk(3) Let_def)
  show h: "cc_has T (assoc_tab s') = (cc_has T (assoc_tab s))(k := False)"
    by (simp add: s' cc_specD(2) [OF T])
  show l: "app_list s' = app_list s" and am: "assoc_mem s' = assoc_mem s" by (simp_all add: s')
  show "\<exists>n. app_mem s' a = (app_mem s a)\<lparr>process_count := n\<rparr>"
    by (cases "a = ?a") (auto simp: s' intro: exI [of _ "process_count (app_mem s a)"])
  have m: "members T s' b = members T s b - {k}" for b
    by (auto simp: members_def h am)
  have "k \<in> members T s ?a" using k by (simp add: members_def)
  then have c: "card (members T s ?a) = Suc (card (members T s' ?a))"
    unfolding m by (metis card_Suc_Diff1 finite)
  have o: "members T s' b = members T s b" if "b \<noteq> ?a" for b using that by (auto simp: members_def h am)
  have "process_count (app_mem s' b) = of_nat (card (members T s' b))" if "b \<in> set (app_list s)" for b
    using inv that c o [of b] by (cases "b = ?a") (auto simp: s' apps_inv_def)
  moreover have "app_name (app_mem s' b) = app_name (app_mem s b)" for b by (simp add: s')
  then have "inj_on (\<lambda>a. app_name (app_mem s' a)) (set (app_list s))"
    using inv by (simp add: apps_inv_def)
  ultimately show "apps_inv T s'"
    using inv unfolding apps_inv_def h l am by auto
qed

text \<open>Putting an association in.\<close>

lemma add_assoc_ok:
  assumes T: "cc_spec T" and inv: "apps_inv T s" and k: "\<not> cc_has T (assoc_tab s) k" and pos: "0 < sint k"
    and a: "a \<in> set (app_list s)" and ps: "ps_pid ps = k"
    and s': "s' = add_process_count 1 a
      (s\<lparr>assoc_mem := (assoc_mem s)(k := \<lparr>as_target = a, ps_target = ps, update = u\<rparr>),
         assoc_tab := cc_add T (assoc_tab s) k\<rparr>)"
  shows "apps_inv T s'"
proof -
  have h: "cc_has T (assoc_tab s') = (cc_has T (assoc_tab s))(k := True)" by (simp add: s' cc_specD(1) [OF T])
  have am: "assoc_mem s' = (assoc_mem s)(k := \<lparr>as_target = a, ps_target = ps, update = u\<rparr>)"
    and l: "app_list s' = app_list s" by (simp_all add: s')
  have m: "members T s' a = insert k (members T s a)" by (auto simp: members_def h am)
  have o: "members T s' b = members T s b" if "b \<noteq> a" for b
    using that k by (auto simp: members_def h am)
  have "k \<notin> members T s a" using k by (simp add: members_def)
  then have c: "card (members T s' a) = Suc (card (members T s a))" unfolding m by simp
  have "process_count (app_mem s' b) = of_nat (card (members T s' b))" if "b \<in> set (app_list s)" for b
    using inv that c o [of b] by (cases "b = a") (auto simp: s' apps_inv_def)
  moreover have "app_name (app_mem s' b) = app_name (app_mem s b)" for b by (simp add: s')
  then have "inj_on (\<lambda>a. app_name (app_mem s' a)) (set (app_list s))"
    using inv by (simp add: apps_inv_def)
  moreover have "0 < sint k' \<and> as_target (assoc_mem s' k') \<in> set (app_list s) \<and> ps_pid (ps_target (assoc_mem s' k')) = k'"
    if "cc_has T (assoc_tab s') k'" for k'
    using that apps_invD [OF inv, of k'] pos a ps by (cases "k' = k") (auto simp: h am)
  ultimately show "apps_inv T s'" using inv unfolding apps_inv_def l by simp
qed

section \<open>Updating the collection\<close>

definition names_ok :: "app_filter_rules \<Rightarrow> bool" where
  "names_ok afr \<longleftrightarrow> (\<forall>r \<in> set (rule_list afr). NUL \<notin> set (rule_app_name r) \<and> length (rule_app_name r) < XM_APP_NAME_SIZE)"

lemma find_app_None: "find_app s name = None \<Longrightarrow> a \<in> set (app_list s) \<Longrightarrow> app_name (app_mem s a) \<noteq> name"
  by (auto simp: find_app_def find_None_iff)

lemma find_app_Some: "find_app s name = Some a \<Longrightarrow> a \<in> set (app_list s) \<and> app_name (app_mem s a) = name"
  by (auto simp: find_app_def find_Some_iff)

lemma get_app_status_ok:
  assumes e: "as_unit_ok e" and inv: "apps_inv T s" and name: "NUL \<notin> set name" "length name < XM_APP_NAME_SIZE"
    and g: "get_app_status e pid name type_name s = (s', r)"
  shows "apps_inv T s' \<and> (\<forall>a. r = Some a \<longrightarrow> a \<in> set (app_list s') \<and> app_name (app_mem s' a) = name)"
proof (cases "find_app s name")
  case (Some a)
  with g inv show ?thesis using find_app_Some [OF Some] by (auto simp: get_app_status_def split: if_splits)
next
  case None
  show ?thesis
  proof (cases "env_as_unit e (app_list s)")
    case None
    with g inv \<open>find_app s name = None\<close> show ?thesis by (simp add: get_app_status_def)
  next
    case (Some a)
    show ?thesis
    proof (cases "env_register e name")
      case False
      with g inv \<open>find_app s name = None\<close> Some show ?thesis by (simp add: get_app_status_def)
    next
      case True
      let ?n = "new_app_status pid name type_name"
      have s': "s' = s\<lparr>app_mem := (app_mem s)(a := ?n), app_list := app_list s @ [a]\<rparr>" and r: "r = Some a"
        using g None Some True by (simp_all add: get_app_status_def)
      have a: "a \<notin> set (app_list s)" using e Some by (auto simp: as_unit_ok_def)
      have nm: "app_name ?n = name" using name by (simp add: new_app_status_def XM_APP_NAME_SIZE_def)
      have m: "members T s' b = members T s b" for b by (simp add: members_def s')
      have "members T s a = {}" using apps_invD(2) [OF inv] a by (auto simp: members_def)
      then have "process_count (app_mem s' b) = of_nat (card (members T s' b))" if "b \<in> set (app_list s')" for b
        using inv that a unfolding m by (cases "b = a") (auto simp: s' apps_inv_def new_app_status_def)
      moreover have "inj_on (\<lambda>b. app_name (app_mem s' b)) (set (app_list s'))"
      proof (rule inj_onI)
        fix b c assume bc: "b \<in> set (app_list s')" "c \<in> set (app_list s')" "app_name (app_mem s' b) = app_name (app_mem s' c)"
        have "app_name (app_mem s d) \<noteq> name" if "d \<in> set (app_list s)" for d using find_app_None [OF None that] .
        with bc a nm have "b = a \<longleftrightarrow> c = a" by (auto simp: s' split: if_splits)
        with bc inv show "b = c" by (auto simp: s' apps_inv_def inj_on_def split: if_splits)
      qed
      ultimately have "apps_inv T s'" using inv a unfolding apps_inv_def by (auto simp: s')
      with r nm show ?thesis by (simp add: s')
    qed
  qed
qed

lemma get_app_assoc_process_ok:
  assumes T: "cc_spec T" and inv: "apps_inv T s" and a: "a \<in> set (app_list s)"
    and g: "get_app_assoc_process T e a pid apid name s = Some (s', b)"
  shows "apps_inv T s' \<and> app_list s' = app_list s"
proof -
  define have_old where "have_old = cc_has T (assoc_tab s) pid"
  define s1 where "s1 = (if have_old then del_app_assoc_process T pid True s else s)"
  have s1: "apps_inv T s1" "app_list s1 = app_list s" "\<not> cc_has T (assoc_tab s1) pid"
    using del_assoc_ok(1-3) [OF T inv, of pid] inv by (auto simp: s1_def have_old_def)
  consider "s' = s" | "s' = s1"
    | ps where "new_process_status pid True (env_ps_unit e pid) = Some (Some ps)"
      "s' = add_process_count 1 a (s1\<lparr>assoc_mem := (assoc_mem s1)(pid := \<lparr>as_target = a, ps_target = ps, update = False\<rparr>),
         assoc_tab := cc_add T (assoc_tab s1) (ps_pid ps)\<rparr>)"
    using g by (auto simp: get_app_assoc_process_def Let_def s1_def have_old_def split: if_splits option.splits)
  then show ?thesis
  proof cases
    case (3 ps)
    have "ps_pid ps = pid" "0 < sint pid" using 3(1) by (auto simp: new_process_status_def split: if_splits)
    with add_assoc_ok [OF T s1(1,3), of a ps s' False] 3(2) a s1(2) show ?thesis by simp
  qed (use inv s1 in auto)
qed

lemma get_app_assoc_processes_ok:
  assumes T: "cc_spec T" and "apps_inv T s" and "a \<in> set (app_list s)"
    and "get_app_assoc_processes T e a pids apid name s = Some s'"
  shows "apps_inv T s'"
  using assms(2-)
proof (induction pids arbitrary: s)
  case (Cons p ps)
  then obtain s1 b where s1: "get_app_assoc_process T e a p apid name s = Some (s1, b)"
    "get_app_assoc_processes T e a ps apid name s1 = Some s'" by (auto split: option.splits)
  from get_app_assoc_process_ok [OF T Cons.prems(1,2) s1(1)] Cons.IH [of s1] s1(2) Cons.prems(2)
  show ?case by simp
qed simp

lemma find_rule_split: "find_rule cmd rs = Some (pre, r, post) \<Longrightarrow> rs = pre @ r # post"
  by (induction rs arbitrary: pre) (auto split: if_splits)

lemma match_cmd_line_ok:
  assumes T: "cc_spec T" and e: "as_unit_ok e" and inv: "apps_inv T s" and nm: "names_ok afr"
    and m: "match_cmd_line T e pid cmd (afr, s) = Some ((afr', s'), r)"
  shows "apps_inv T s' \<and> names_ok afr'"
proof (cases "find_rule cmd (rule_list afr)")
  case None
  with m inv nm show ?thesis by (auto simp: match_cmd_line_def)
next
  case (Some x)
  then obtain pre rule post where f: "find_rule cmd (rule_list afr) = Some (pre, rule, post)" by (cases x) auto
  note sp = find_rule_split [OF f]
  let ?afr = "afr\<lparr>rule_list := pre @ rule\<lparr>is_matched := True\<rparr> # post\<rparr>"
  have nm': "names_ok ?afr" using nm by (auto simp: names_ok_def sp)
  have name: "NUL \<notin> set (rule_app_name rule)" "length (rule_app_name rule) < XM_APP_NAME_SIZE"
    using nm by (auto simp: names_ok_def sp)
  obtain s1 r1 where g: "get_app_status e pid (rule_app_name rule) (rule_app_type_name rule) s = (s1, r1)" by force
  note ok1 = get_app_status_ok [OF e inv name g]
  show ?thesis
  proof (cases r1)
    case None
    with m f g ok1 nm show ?thesis by (auto simp: match_cmd_line_def)
  next
    case (Some a)
    then have a: "apps_inv T s1" "a \<in> set (app_list s1)" using ok1 by auto
    from m f g Some obtain s2 b where
      h: "get_app_assoc_process T e a pid pid (rule_app_name rule) s1 = Some (s2, b)"
      by (auto simp: match_cmd_line_def Let_def split: option.splits)
    note ok2 = get_app_assoc_process_ok [OF T a h]
    have "afr' = ?afr \<and> (s' = s2 \<or> (\<exists>pids. get_app_assoc_processes T e a pids pid (rule_app_name rule) s2 = Some s'))"
      using m f g Some h
      by (cases b) (auto simp: match_cmd_line_def Let_def split: if_splits option.splits)
    with nm' ok2 get_app_assoc_processes_ok [OF T, of s2 a] a(2) show ?thesis by auto
  qed
qed

lemma match_app_process_ok:
  assumes "cc_spec T" and "as_unit_ok e" and "apps_inv T s" and "names_ok afr"
    and "match_app_process T e pid (afr, s) = Some ((afr', s'), r)"
  shows "apps_inv T s' \<and> names_ok afr'"
  using assms(3-5) match_cmd_line_ok [OF assms(1-4)] by (auto simp: match_app_process_def split: prod.splits if_splits)

lemma match_dir_ok:
  assumes "cc_spec T" and "as_unit_ok e" and "apps_inv T s" and "names_ok afr"
    and "match_dir T e ds (afr, s) = Some (afr', s')"
  shows "apps_inv T s' \<and> names_ok afr'"
  using assms(3-)
proof (induction ds arbitrary: afr s)
  case (Cons d ds)
  show ?case
  proof (cases "dir_pid d")
    case None
    with Cons show ?thesis by simp
  next
    case (Some pid)
    with Cons.prems obtain afr1 s1 r where "match_app_process T e pid (afr, s) = Some ((afr1, s1), r)"
      "match_dir T e ds (afr1, s1) = Some (afr', s')" by (auto split: option.splits)
    with Cons.IH match_app_process_ok [OF assms(1,2) Cons.prems(1,2)] show ?thesis by blast
  qed
qed simp

lemma update_app_collection_ok:
  assumes "cc_spec T" and "as_unit_ok e" and "apps_inv T s" and "names_ok afr"
    and "update_app_collection T e (afr, s) = Some ((afr', s'), r)"
  shows "apps_inv T s' \<and> names_ok afr'"
proof (cases "env_proc_dir e")
  case None
  with assms show ?thesis by (simp add: update_app_collection_def)
next
  case (Some ds)
  with assms(5) have "match_dir T e ds (afr, s) = Some (afr', s')" by (auto simp: update_app_collection_def)
  with match_dir_ok [OF assms(1-4)] show ?thesis by blast
qed

section \<open>Collecting\<close>

lemma status_loop_pid: "ps_pid (status_loop p n ps) = ps_pid ps"
proof (induction p n ps rule: status_loop.induct)
  case (1 p n ps)
  have st: "ps_pid (set_status i v ps) = ps_pid ps" for i v by (simp add: set_status_def)
  show ?case
  proof (cases "p = [] \<or> 7 \<le> n")
    case True
    then show ?thesis by (subst status_loop.simps) simp
  next
    case False
    show ?thesis
    proof (cases "find_tag 0 status_tags p")
      case None
      from 1(1) [OF False None] False None show ?thesis by (subst status_loop.simps) simp
    next
      case (Some x)
      obtain i r where x: "x = (i, r)" by force
      from 1(2) [OF False Some x [symmetric]] False Some x st show ?thesis by (subst status_loop.simps) simp
    qed
  qed
qed

lemma count_fds_pid: "ps_pid (fold (count_fd f) es ps) = ps_pid ps"
proof (induction es arbitrary: ps)
  case (Cons x es)
  have "ps_pid (count_fd f x ps) = ps_pid ps" by (simp add: count_fd_def Let_def split: option.split)
  with Cons show ?case by simp
qed simp

text \<open>No collector changes the process id.\<close>

lemma collectors_pid:
  "collector_process_cpu_usage hz io ps = Some (ps', r) \<Longrightarrow> ps_pid ps' = ps_pid ps"
  "collector_process_mem_usage so sr st srd ps = Some (ps', r) \<Longrightarrow> ps_pid ps' = ps_pid ps"
  "collector_process_io_usage io ps = Some (ps', r) \<Longrightarrow> ps_pid ps' = ps_pid ps"
  "collector_process_fd_usage f es ps = (ps', r) \<Longrightarrow> ps_pid ps' = ps_pid ps"
  "collector_process_oom sc adj ps = (ps', r) \<Longrightarrow> ps_pid ps' = ps_pid ps"
proof -
  show "collector_process_cpu_usage hz io ps = Some (ps', r) \<Longrightarrow> ps_pid ps' = ps_pid ps"
    by (auto simp: collector_process_cpu_usage_def Let_def read_stat_def split: option.splits if_splits)
  show "collector_process_mem_usage so sr st srd ps = Some (ps', r) \<Longrightarrow> ps_pid ps' = ps_pid ps"
    by (auto simp: collector_process_mem_usage_def Let_def status_loop_pid split: option.splits if_splits)
  show "collector_process_io_usage io ps = Some (ps', r) \<Longrightarrow> ps_pid ps' = ps_pid ps"
    by (auto simp: collector_process_io_usage_def read_io_def split: option.splits)
  show "collector_process_fd_usage f es ps = (ps', r) \<Longrightarrow> ps_pid ps' = ps_pid ps"
    by (auto simp: collector_process_fd_usage_def Let_def count_fds_pid split: option.splits)
  show "collector_process_oom sc adj ps = (ps', r) \<Longrightarrow> ps_pid ps' = ps_pid ps"
    by (auto simp: collector_process_oom_def split: prod.splits if_splits)
qed

lemma usage_pid: "COLLECTOR_PROCESS_USAGE hz f e ps = Some (ps', r) \<Longrightarrow> ps_pid ps' = ps_pid ps"
  by (auto simp: COLLECTOR_PROCESS_USAGE_def dest!: collectors_pid split: option.splits prod.splits if_splits)

text \<open>What a process contributes to its application in a round, if it does.\<close>

definition usage :: "apps_env \<Rightarrow> 'h apps_state \<Rightarrow> pid \<Rightarrow> process_status option" where
  "usage e s k =
     (case COLLECTOR_PROCESS_USAGE (env_hz e) (env_find_sock e) (env_proc e k) (ps_target (assoc_mem s k)) of
        None \<Rightarrow> None
      | Some (ps, ret) \<Rightarrow>
          if ret = 0 \<and> ps_pid ps = k \<and>
             (ps_pid ps = app_pid (app_mem s (as_target (assoc_mem s k))) \<or>
              ps_ppid ps = app_pid (app_mem s (as_target (assoc_mem s k))))
          then Some ps else None)"

definition app_usage :: "apps_env \<Rightarrow> 'h apps_state \<Rightarrow> pid list \<Rightarrow> nat \<Rightarrow> process_status list" where
  "app_usage e s ks a = List.map_filter (usage e s) (filter (\<lambda>k. as_target (assoc_mem s k) = a) ks)"

definition readable :: "apps_env \<Rightarrow> 'h apps_state \<Rightarrow> pid \<Rightarrow> bool" where
  "readable e s k \<longleftrightarrow>
     COLLECTOR_PROCESS_USAGE (env_hz e) (env_find_sock e) (env_proc e k) (ps_target (assoc_mem s k)) \<noteq> None"

lemma gather_process_frame [simp]:
  "app_pid (gather_process ps as) = app_pid as" "app_name (gather_process ps as) = app_name as"
  "process_count (gather_process ps as) = process_count as"
  by (simp_all add: gather_process_def Let_def)

lemma collect_process_ok:
  assumes "readable e s k"
  obtains s' where "collect_process e k s = Some s'"
    and "app_list s' = app_list s" and "assoc_tab s' = assoc_tab s"
    and "\<And>k'. k' \<noteq> k \<Longrightarrow> assoc_mem s' k' = assoc_mem s k'"
    and "as_target (assoc_mem s' k) = as_target (assoc_mem s k)"
    and "ps_pid (ps_target (assoc_mem s' k)) = ps_pid (ps_target (assoc_mem s k))"
    and "update (assoc_mem s' k) \<longleftrightarrow> usage e s k \<noteq> None"
    and "\<And>a. app_mem s' a = fold gather_process (app_usage e s [k] a) (app_mem s a)"
proof -
  let ?a = "as_target (assoc_mem s k)"
  obtain ps ret where c: "COLLECTOR_PROCESS_USAGE (env_hz e) (env_find_sock e) (env_proc e k) (ps_target (assoc_mem s k)) = Some (ps, ret)"
    using assms by (auto simp: readable_def)
  note pid = usage_pid [OF c]
  have u: "usage e s k = (if ret = 0 \<and> ps_pid ps = k \<and> (ps_pid ps = app_pid (app_mem s ?a) \<or> ps_ppid ps = app_pid (app_mem s ?a))
      then Some ps else None)" by (simp add: usage_def c)
  show ?thesis
  proof (cases "usage e s k")
    case None
    with u c pid show ?thesis
      by (intro that [of "s\<lparr>assoc_mem := (assoc_mem s)(k := (assoc_mem s k)\<lparr>update := False, ps_target := ps\<rparr>)\<rparr>"])
        (auto simp: collect_process_def Let_def app_usage_def List.map_filter_simps split: if_splits)
  next
    case (Some ps')
    with u c pid show ?thesis
      by (intro that [of "s\<lparr>assoc_mem := (assoc_mem s)(k := (assoc_mem s k)\<lparr>ps_target := ps, update := True\<rparr>),
            app_mem := (app_mem s)(?a := gather_process ps (app_mem s ?a))\<rparr>"])
        (auto simp: collect_process_def Let_def app_usage_def List.map_filter_simps split: if_splits)
  qed
qed

lemma fold_gather_frame [simp]:
  "app_pid (fold gather_process qs as) = app_pid as" "app_name (fold gather_process qs as) = app_name as"
  "process_count (fold gather_process qs as) = process_count as"
  by (induction qs arbitrary: as) simp_all

lemma app_usage_Cons: "app_usage e s (k # ks) a = app_usage e s [k] a @ app_usage e s ks a"
  by (simp add: app_usage_def List.map_filter_simps split: option.split)

lemma collect_processes_ok:
  assumes "distinct ks" and "\<forall>k \<in> set ks. readable e s k"
  shows "\<exists>s'. collect_processes e ks s = Some s' \<and> app_list s' = app_list s \<and> assoc_tab s' = assoc_tab s \<and>
    (\<forall>k. as_target (assoc_mem s' k) = as_target (assoc_mem s k) \<and>
       ps_pid (ps_target (assoc_mem s' k)) = ps_pid (ps_target (assoc_mem s k))) \<and>
    (\<forall>k \<in> set ks. update (assoc_mem s' k) \<longleftrightarrow> usage e s k \<noteq> None) \<and>
    (\<forall>k. k \<notin> set ks \<longrightarrow> assoc_mem s' k = assoc_mem s k) \<and>
    (\<forall>a. app_mem s' a = fold gather_process (app_usage e s ks a) (app_mem s a))"
  using assms
proof (induction ks arbitrary: s)
  case Nil
  then show ?case by (simp add: app_usage_def List.map_filter_simps)
next
  case (Cons k ks)
  have "readable e s k" using Cons.prems by simp
  from collect_process_ok [OF this] obtain s1 where s1: "collect_process e k s = Some s1"
    "app_list s1 = app_list s" "assoc_tab s1 = assoc_tab s"
    "\<And>k'. k' \<noteq> k \<Longrightarrow> assoc_mem s1 k' = assoc_mem s k'"
    "as_target (assoc_mem s1 k) = as_target (assoc_mem s k)"
    "ps_pid (ps_target (assoc_mem s1 k)) = ps_pid (ps_target (assoc_mem s k))"
    "update (assoc_mem s1 k) \<longleftrightarrow> usage e s k \<noteq> None"
    "\<And>a. app_mem s1 a = fold gather_process (app_usage e s [k] a) (app_mem s a)" by blast
  have ne: "k' \<noteq> k" if "k' \<in> set ks" for k' using Cons.prems(1) that by auto
  have us: "usage e s1 k' = usage e s k'" "readable e s1 k' = readable e s k'" if "k' \<in> set ks" for k'
    unfolding usage_def readable_def s1(4) [OF ne [OF that]] s1(8) fold_gather_frame by simp_all
  have tg: "as_target (assoc_mem s1 k') = as_target (assoc_mem s k') \<and>
      ps_pid (ps_target (assoc_mem s1 k')) = ps_pid (ps_target (assoc_mem s k'))" for k'
    using s1(4-6) by (cases "k' = k") auto
  have au: "app_usage e s1 ks a = app_usage e s ks a" for a
    unfolding app_usage_def List.map_filter_def using us(1) tg by (auto cong: filter_cong map_cong)
  have "distinct ks" "\<forall>k \<in> set ks. readable e s1 k" using Cons.prems us(2) by auto
  from Cons.IH [OF this] obtain s' where
    "collect_processes e ks s1 = Some s'" "app_list s' = app_list s1" "assoc_tab s' = assoc_tab s1"
    "\<forall>k. as_target (assoc_mem s' k) = as_target (assoc_mem s1 k) \<and>
       ps_pid (ps_target (assoc_mem s' k)) = ps_pid (ps_target (assoc_mem s1 k))"
    "\<forall>k \<in> set ks. update (assoc_mem s' k) \<longleftrightarrow> usage e s1 k \<noteq> None"
    "\<forall>k. k \<notin> set ks \<longrightarrow> assoc_mem s' k = assoc_mem s1 k"
    "\<forall>a. app_mem s' a = fold gather_process (app_usage e s1 ks a) (app_mem s1 a)" by blast
  with s1 us(1) tg au Cons.prems(1) show ?case
    by (intro exI [of _ s']) (auto simp: app_usage_Cons [of e s k ks])
qed

section \<open>Sweeping\<close>

lemma sweep_process_del:
  assumes "ps_pid (ps_target (assoc_mem s k)) = k"
  shows "sweep_process T k s = (if update (assoc_mem s k) then s else del_app_assoc_process T k True s)"
  using assms by (simp add: sweep_process_def del_app_assoc_process_def Let_def)

lemma sweep_loop_ok:
  assumes "cc_spec T" and "apps_inv T s" and "distinct ks" and "\<forall>k \<in> set ks. cc_has T (assoc_tab s) k"
  defines "s' \<equiv> fold (sweep_process T) ks s"
  shows "apps_inv T s' \<and> app_list s' = app_list s \<and> assoc_mem s' = assoc_mem s \<and>
    (\<forall>k. cc_has T (assoc_tab s') k \<longleftrightarrow> cc_has T (assoc_tab s) k \<and> (k \<in> set ks \<longrightarrow> update (assoc_mem s k))) \<and>
    (\<forall>a. \<exists>n. app_mem s' a = (app_mem s a)\<lparr>process_count := n\<rparr>)"
  using assms(2-4) unfolding s'_def
proof (induction ks arbitrary: s)
  case Nil
  have "\<exists>n. app_mem s a = (app_mem s a)\<lparr>process_count := n\<rparr>" for a
    by (rule exI [of _ "process_count (app_mem s a)"]) simp
  with Nil show ?case by auto
next
  case (Cons k ks)
  have k: "cc_has T (assoc_tab s) k" using Cons.prems by simp
  note sw = sweep_process_del [OF apps_invD(3) [OF Cons.prems(1) k], of T]
  show ?case
  proof (cases "update (assoc_mem s k)")
    case True
    with Cons.IH [OF Cons.prems(1)] Cons.prems sw show ?thesis by auto
  next
    case False
    let ?s = "del_app_assoc_process T k True s"
    note d = del_assoc_ok [OF assms(1) Cons.prems(1) k]
    have "distinct ks" "\<forall>k \<in> set ks. cc_has T (assoc_tab ?s) k" using Cons.prems(2,3) d(2) by auto
    note ih = Cons.IH [OF d(1) this]
    have "\<exists>n. app_mem (fold (sweep_process T) ks ?s) a = (app_mem s a)\<lparr>process_count := n\<rparr>" for a
    proof -
      obtain n where "app_mem (fold (sweep_process T) ks ?s) a = (app_mem ?s a)\<lparr>process_count := n\<rparr>" using ih by blast
      moreover obtain m where "app_mem ?s a = (app_mem s a)\<lparr>process_count := m\<rparr>" using d(5) by blast
      ultimately show ?thesis by auto
    qed
    moreover have "fold (sweep_process T) (k # ks) s = fold (sweep_process T) ks ?s" using sw False by simp
    ultimately show ?thesis using ih False Cons.prems(2) d(3,4) by (auto simp: d(2))
  qed
qed

lemma sweep_apps_ok:
  assumes "apps_inv T s"
  shows "apps_inv T (sweep_apps s)" and "a \<in> set (app_list (sweep_apps s)) \<longleftrightarrow> a \<in> set (app_list s) \<and> members T s a \<noteq> {}"
proof -
  have m: "members T (sweep_apps s) b = members T s b" for b by (simp add: members_def sweep_apps_def)
  have z: "process_count (app_mem s b) = 0 \<longleftrightarrow> members T s b = {}" if "b \<in> set (app_list s)" for b
    using assms that card_members_pos [OF assms, of b] by (auto simp: apps_inv_def)
  then show "a \<in> set (app_list (sweep_apps s)) \<longleftrightarrow> a \<in> set (app_list s) \<and> members T s a \<noteq> {}"
    by (auto simp: sweep_apps_def)
  have "as_target (assoc_mem s k) \<in> set (app_list (sweep_apps s))" if "cc_has T (assoc_tab s) k" for k
  proof -
    have "k \<in> members T s (as_target (assoc_mem s k))" using that by (simp add: members_def)
    with apps_invD(2) [OF assms that] z show ?thesis by (auto simp: sweep_apps_def)
  qed
  moreover have "inj_on (\<lambda>a. app_name (app_mem s a)) (set (app_list (sweep_apps s)))"
    using assms by (auto simp: apps_inv_def sweep_apps_def intro: inj_on_subset)
  ultimately show "apps_inv T (sweep_apps s)"
    using assms m unfolding apps_inv_def by (auto simp: sweep_apps_def)
qed

text \<open>Clearing the values and gathering does not touch what the invariant speaks of.\<close>

lemma apps_inv_cong:
  assumes "apps_inv T s" and "app_list s' = app_list s" and "assoc_tab s' = assoc_tab s"
    and "\<And>k. as_target (assoc_mem s' k) = as_target (assoc_mem s k) \<and>
      ps_pid (ps_target (assoc_mem s' k)) = ps_pid (ps_target (assoc_mem s k))"
    and "\<And>a. app_name (app_mem s' a) = app_name (app_mem s a) \<and> process_count (app_mem s' a) = process_count (app_mem s a)"
  shows "apps_inv T s'"
proof -
  have "members T s' a = members T s a" for a using assms(3,4) by (simp add: members_def)
  with assms show ?thesis by (simp add: apps_inv_def)
qed

lemma zero_appstatus_frame [simp]:
  "app_name (zero_appstatus as) = app_name as" "process_count (zero_appstatus as) = process_count as"
  "app_pid (zero_appstatus as) = app_pid as"
  by (simp_all add: zero_appstatus_def)

text \<open>A whole round.\<close>

lemma collecting_ok:
  assumes T: "cc_spec T" and inv: "apps_inv T s" and rd: "\<forall>k \<in> set (cc_keys T (assoc_tab s)). readable e s k"
  obtains s' where "collect_and_sweep T e s = Some (s', 0)" and "apps_inv T s'"
    and "\<And>k. cc_has T (assoc_tab s') k \<longleftrightarrow> cc_has T (assoc_tab s) k \<and> usage e s k \<noteq> None"
    and "\<And>a. a \<in> set (app_list s') \<longleftrightarrow> a \<in> set (app_list s) \<and> app_usage e s (cc_keys T (assoc_tab s)) a \<noteq> []"
    and "\<And>a. a \<in> set (app_list s') \<Longrightarrow> \<exists>n. app_mem s' a =
      (fold gather_process (app_usage e s (cc_keys T (assoc_tab s)) a) (zero_appstatus (app_mem s a)))\<lparr>process_count := n\<rparr>"
    and "\<And>k. as_target (assoc_mem s' k) = as_target (assoc_mem s k)"
proof -
  define s0 where "s0 = fst (zero_all_appstatus s)"
  let ?ks = "cc_keys T (assoc_tab s)"
  have s0: "app_list s0 = app_list s" "assoc_tab s0 = assoc_tab s" "assoc_mem s0 = assoc_mem s"
    "\<And>a. a \<in> set (app_list s) \<Longrightarrow> app_mem s0 a = zero_appstatus (app_mem s a)"
    "\<And>a. app_name (app_mem s0 a) = app_name (app_mem s a) \<and> process_count (app_mem s0 a) = process_count (app_mem s a) \<and>
      app_pid (app_mem s0 a) = app_pid (app_mem s a)"
    by (simp_all add: s0_def zero_all_appstatus_def)
  have inv0: "apps_inv T s0" by (rule apps_inv_cong [OF inv]) (use s0 in auto)
  have pid0: "app_pid (app_mem s0 a) = app_pid (app_mem s a)" for a using s0(5) by blast
  have us: "usage e s0 k = usage e s k" "readable e s0 k = readable e s k" for k
    unfolding usage_def readable_def s0(3) pid0 by simp_all
  have au: "app_usage e s0 ks a = app_usage e s ks a" for ks a
    unfolding app_usage_def List.map_filter_def using us(1) by (simp add: s0(3))
  show ?thesis
  proof (cases "app_list s = []")
    case True
    with apps_invD(2) [OF inv] have "\<not> cc_has T (assoc_tab s) k" for k by auto
    with True inv0 s0 show ?thesis
      by (intro that [of s0]) (auto simp: collect_and_sweep_def zero_all_appstatus_def s0_def)
  next
    case False
    have dk: "distinct ?ks" and sk: "set ?ks = {k. cc_has T (assoc_tab s) k}" using cc_specD(3,4) [OF T] by auto
    have "\<forall>k \<in> set ?ks. readable e s0 k" using rd us(2) by simp
    from collect_processes_ok [OF dk this] obtain s1 where s1: "collect_processes e ?ks s0 = Some s1"
      "app_list s1 = app_list s0" "assoc_tab s1 = assoc_tab s0"
      "\<forall>k. as_target (assoc_mem s1 k) = as_target (assoc_mem s0 k) \<and>
        ps_pid (ps_target (assoc_mem s1 k)) = ps_pid (ps_target (assoc_mem s0 k))"
      "\<forall>k \<in> set ?ks. update (assoc_mem s1 k) \<longleftrightarrow> usage e s k \<noteq> None"
      "\<forall>a. app_mem s1 a = fold gather_process (app_usage e s ?ks a) (app_mem s0 a)"
      unfolding us au by blast
    have inv1: "apps_inv T s1" by (rule apps_inv_cong [OF inv0]) (use s1 in auto)
    have "\<forall>k \<in> set ?ks. cc_has T (assoc_tab s1) k" using sk by (simp add: s1(3) s0(2))
    note sw = sweep_loop_ok [OF T inv1 dk this]
    define s2 where "s2 = fold (sweep_process T) ?ks s1"
    note sw = sw [folded s2_def]
    have has: "cc_has T (assoc_tab s2) k \<longleftrightarrow> cc_has T (assoc_tab s) k \<and> usage e s k \<noteq> None" for k
      using sw s1(3,5) s0(2) sk by auto
    have mem: "members T s2 a \<noteq> {} \<longleftrightarrow> app_usage e s ?ks a \<noteq> []" for a
      using sk by (auto simp: members_def has sw s1(4) s0(3) app_usage_def List.map_filter_def filter_empty_conv)
    have inv2: "apps_inv T s2" using sw by simp
    note sa = sweep_apps_ok [OF inv2]
    show ?thesis
    proof (rule that [of "sweep_apps s2"])
      show "collect_and_sweep T e s = Some (sweep_apps s2, 0)"
        using False s1(1-3) s0(1,2)
        by (simp add: collect_and_sweep_def zero_all_appstatus_def s0_def s2_def sweep_processes_def)
      show "apps_inv T (sweep_apps s2)" by (rule sa(1))
      show "cc_has T (assoc_tab (sweep_apps s2)) k \<longleftrightarrow> cc_has T (assoc_tab s) k \<and> usage e s k \<noteq> None" for k
        using has by (simp add: sweep_apps_def)
      show l: "a \<in> set (app_list (sweep_apps s2)) \<longleftrightarrow> a \<in> set (app_list s) \<and> app_usage e s ?ks a \<noteq> []" for a
        using sa(2) [of a] mem sw s1(2) s0(1) by simp
      show "\<exists>n. app_mem (sweep_apps s2) a =
          (fold gather_process (app_usage e s ?ks a) (zero_appstatus (app_mem s a)))\<lparr>process_count := n\<rparr>"
        if a: "a \<in> set (app_list (sweep_apps s2))" for a
      proof -
        have "a \<in> set (app_list s)" using a l by blast
        moreover obtain n where "app_mem s2 a = (app_mem s1 a)\<lparr>process_count := n\<rparr>" using sw by blast
        ultimately show ?thesis using s1(6) s0(4) by (auto simp: sweep_apps_def)
      qed
      show "as_target (assoc_mem (sweep_apps s2) k) = as_target (assoc_mem s k)" for k
        using sw s1(4) s0(3) by (simp add: sweep_apps_def)
    qed
  qed
qed

end
