(* ===== verification/XM_AppUsage.thy ===== *)
theory XM_AppUsage
  imports XM_Apps
begin

text \<open>
  What the application collector of theory \<open>XM_Apps\<close> guarantees over its whole life: the states that
  updates of the collection and rounds of collecting lead to, the sums that a round leaves in an
  application, the choice of the rule for a process, and the gauges.
\<close>

section \<open>Reachable states\<close>

inductive apps_reachable :: "'h cc_table \<Rightarrow> 'h apps_state \<Rightarrow> bool" for T where
  init: "app_list s = [] \<Longrightarrow> cc_keys T (assoc_tab s) = [] \<Longrightarrow> apps_reachable T s"
| update_collection: "apps_reachable T s \<Longrightarrow> as_unit_ok e \<Longrightarrow> names_ok afr \<Longrightarrow>
    update_app_collection T e (afr, s) = Some ((afr', s'), r) \<Longrightarrow> apps_reachable T s'"
| collect: "apps_reachable T s \<Longrightarrow> collecting_apps_usage T e s = Some (s', ms, r) \<Longrightarrow> apps_reachable T s'"

text \<open>A round that comes to its end has read every process.\<close>

lemma collect_processes_readable:
  assumes "distinct ks" and "collect_processes e ks s = Some s'"
  shows "\<forall>k \<in> set ks. readable e s k"
  using assms
proof (induction ks arbitrary: s)
  case (Cons k ks)
  have n: "collect_process e k s = None" if "\<not> readable e s k"
    using that by (simp add: collect_process_def Let_def readable_def del: not_None_eq)
  have k: "readable e s k"
  proof (rule ccontr)
    assume "\<not> readable e s k"
    with n Cons.prems(2) show False by simp
  qed
  obtain s1 where s1: "collect_process e k s = Some s1"
    "\<And>k'. k' \<noteq> k \<Longrightarrow> assoc_mem s1 k' = assoc_mem s k'"
    by (rule collect_process_ok [OF k]) (rule that, assumption+)
  with Cons have "\<forall>k' \<in> set ks. readable e s1 k'" by simp
  moreover have "readable e s1 k' = readable e s k'" if "k' \<in> set ks" for k'
  proof -
    have "k' \<noteq> k" using that Cons.prems(1) by auto
    from s1(2) [OF this] show ?thesis by (simp add: readable_def del: not_None_eq)
  qed
  ultimately show ?case using k by simp
qed simp

lemma collecting_readable:
  assumes "cc_spec T" and "apps_inv T s" and "collect_and_sweep T e s = Some (s', r)"
  shows "\<forall>k \<in> set (cc_keys T (assoc_tab s)). readable e s k"
proof (cases "app_list s = []")
  case True
  then show ?thesis using apps_invD(2) [OF assms(2)] cc_specD(4) [OF assms(1)] by auto
next
  case False
  let ?s0 = "fst (zero_all_appstatus s)"
  have "collect_processes e (cc_keys T (assoc_tab s)) ?s0 \<noteq> None"
    using assms(3) False by (auto simp: collect_and_sweep_def zero_all_appstatus_def split: option.splits)
  then have "\<forall>k \<in> set (cc_keys T (assoc_tab s)). readable e ?s0 k"
    using collect_processes_readable cc_specD(3) [OF assms(1)] by blast
  then show ?thesis by (simp add: readable_def zero_all_appstatus_def)
qed

lemma reachable_inv:
  assumes "cc_spec T" and "apps_reachable T s"
  shows "apps_inv T s"
  using assms(2)
proof induction
  case (init s)
  with cc_specD(4) [OF assms(1), of "assoc_tab s"] show ?case by (simp add: apps_inv_def)
next
  case (update_collection s e afr afr' s' r)
  then show ?case using update_app_collection_ok [OF assms(1)] by blast
next
  case (collect s e s' ms r)
  then have c: "collect_and_sweep T e s = Some (s', r)" by (auto simp: collecting_apps_usage_def)
  from collecting_ok [OF assms(1) collect.IH collecting_readable [OF assms(1) collect.IH c]] c
  show ?case by auto
qed

text \<open>A round, for a reachable state: it returns, and this is what it leaves.\<close>

lemma round_ok:
  assumes "cc_spec T" and "apps_inv T s" and "collecting_apps_usage T e s = Some (s', ms, r)"
  shows "r = 0" and "ms = set_apps_metrics s'" and "cc_has T (assoc_tab s') k \<longleftrightarrow> cc_has T (assoc_tab s) k \<and> usage e s k \<noteq> None"
    and "a \<in> set (app_list s') \<longleftrightarrow> a \<in> set (app_list s) \<and> app_usage e s (cc_keys T (assoc_tab s)) a \<noteq> []"
    and "a \<in> set (app_list s') \<Longrightarrow> \<exists>n. app_mem s' a =
      (fold gather_process (app_usage e s (cc_keys T (assoc_tab s)) a) (zero_appstatus (app_mem s a)))\<lparr>process_count := n\<rparr>"
    and "as_target (assoc_mem s' k) = as_target (assoc_mem s k)"
proof -
  have c: "collect_and_sweep T e s = Some (s', r)" and ms: "ms = set_apps_metrics s'"
    using assms(3) by (auto simp: collecting_apps_usage_def)
  from collecting_ok [OF assms(1,2) collecting_readable [OF assms(1,2) c]] obtain s1 where
    s1: "collect_and_sweep T e s = Some (s1, 0)"
    "\<And>k. cc_has T (assoc_tab s1) k \<longleftrightarrow> cc_has T (assoc_tab s) k \<and> usage e s k \<noteq> None"
    "\<And>a. a \<in> set (app_list s1) \<longleftrightarrow> a \<in> set (app_list s) \<and> app_usage e s (cc_keys T (assoc_tab s)) a \<noteq> []"
    "\<And>a. a \<in> set (app_list s1) \<Longrightarrow> \<exists>n. app_mem s1 a =
      (fold gather_process (app_usage e s (cc_keys T (assoc_tab s)) a) (zero_appstatus (app_mem s a)))\<lparr>process_count := n\<rparr>"
    "\<And>k. as_target (assoc_mem s1 k) = as_target (assoc_mem s k)"
    by metis
  have "s1 = s'" "r = 0" using s1(1) c by auto
  then show "r = 0" and "ms = set_apps_metrics s'" and "cc_has T (assoc_tab s') k \<longleftrightarrow> cc_has T (assoc_tab s) k \<and> usage e s k \<noteq> None"
    and "a \<in> set (app_list s') \<longleftrightarrow> a \<in> set (app_list s) \<and> app_usage e s (cc_keys T (assoc_tab s)) a \<noteq> []"
    and "a \<in> set (app_list s') \<Longrightarrow> \<exists>n. app_mem s' a =
      (fold gather_process (app_usage e s (cc_keys T (assoc_tab s)) a) (zero_appstatus (app_mem s a)))\<lparr>process_count := n\<rparr>"
    and "as_target (assoc_mem s' k) = as_target (assoc_mem s k)"
    using s1(2-5) ms by blast+
qed

section \<open>Sums\<close>

text \<open>The fields that are sums over the processes of a round: the field of the application, the field
  of the process.\<close>

definition round_sums :: "((app_status \<Rightarrow> u64) \<times> (process_status \<Rightarrow> u64)) list" where
  "round_sums =
     [(as_minflt_raw, ps_minflt_raw), (as_majflt_raw, ps_majflt_raw), (as_cmajflt_raw, ps_cmajflt_raw),
      (as_utime_raw, ps_utime_raw), (as_stime_raw, ps_stime_raw), (as_cutime_raw, ps_cutime_raw),
      (as_cstime_raw, ps_cstime_raw), (app_total_jiffies, process_cpu_jiffies), (as_vmsize, ps_vmsize),
      (as_vmrss, \<lambda>ps. rss (smaps ps)), (as_rss_anon, ps_rss_anon), (as_rss_file, ps_rss_file),
      (as_rss_shmem, ps_rss_shmem), (as_vmswap, ps_vmswap), (as_pss, \<lambda>ps. pss (smaps ps)),
      (as_uss, \<lambda>ps. uss (smaps ps)), (as_io_logical_bytes_read, ps_io_logical_bytes_read),
      (as_io_logical_bytes_written, ps_io_logical_bytes_written), (as_io_read_calls, ps_io_read_calls),
      (as_io_write_calls, ps_io_write_calls), (as_io_storage_bytes_read, ps_io_storage_bytes_read),
      (as_io_storage_bytes_written, ps_io_storage_bytes_written)]"

definition round_sums32 :: "((app_status \<Rightarrow> i32) \<times> (process_status \<Rightarrow> i32)) list" where
  "round_sums32 =
     [(as_num_threads, ps_num_threads), (as_io_cancelled_write_bytes, ps_io_cancelled_write_bytes),
      (open_fds, process_open_fds)]"

text \<open>The fields that are gathered but never cleared: they grow from round to round.\<close>

definition running_sums :: "((app_status \<Rightarrow> u64) \<times> (process_status \<Rightarrow> u64)) list" where
  "running_sums =
     [(as_cminflt_raw, ps_cminflt_raw), (as_pss_anon, \<lambda>ps. pss_anon (smaps ps)),
      (as_pss_file, \<lambda>ps. pss_file (smaps ps)), (as_pss_shmem, \<lambda>ps. pss_shmem (smaps ps)),
      (as_nvcsw, ps_nvcsw), (as_nivcsw, ps_nivcsw)]"

lemma fold_gather_sum:
  fixes af :: "app_status \<Rightarrow> 'a::len word"
  assumes "\<And>ps as. af (gather_process ps as) = af as + pf ps"
  shows "af (fold gather_process qs as) = af as + sum_list (map pf qs)"
  by (induction qs arbitrary: as) (simp_all add: assms add.assoc)

lemma round_sums_step:
  "(af, pf) \<in> set round_sums \<Longrightarrow> af (gather_process ps as) = af as + pf ps"
  "(ag, pg) \<in> set round_sums32 \<Longrightarrow> ag (gather_process ps as) = ag as + pg ps"
  "(ah, ph) \<in> set running_sums \<Longrightarrow> ah (gather_process ps as) = ah as + ph ps"
  by (auto simp: round_sums_def round_sums32_def running_sums_def gather_process_def Let_def)

lemma sums_zero:
  "(af, pf) \<in> set round_sums \<Longrightarrow> af (zero_appstatus as) = 0"
  "(ag, pg) \<in> set round_sums32 \<Longrightarrow> ag (zero_appstatus as) = 0"
  "(ah, ph) \<in> set running_sums \<Longrightarrow> ah (zero_appstatus as) = ah as"
  by (auto simp: round_sums_def round_sums32_def running_sums_def zero_appstatus_def)

lemma sums_count:
  "(af, pf) \<in> set round_sums \<Longrightarrow> af (as\<lparr>process_count := n\<rparr>) = af as"
  "(ag, pg) \<in> set round_sums32 \<Longrightarrow> ag (as\<lparr>process_count := n\<rparr>) = ag as"
  "(ah, ph) \<in> set running_sums \<Longrightarrow> ah (as\<lparr>process_count := n\<rparr>) = ah as"
  by (auto simp: round_sums_def round_sums32_def running_sums_def)

text \<open>The OOM score of the process that is most likely to be killed.\<close>

definition oom_total :: "app_status \<Rightarrow> int" where
  "oom_total as = sint (max_oom_score as) + sint (max_oom_score_adj as)"

lemma fold_gather_oom:
  "oom_total (fold gather_process qs as) = fold max (map (\<lambda>ps. sint (oom_score ps) + sint (oom_score_adj ps)) qs) (oom_total as)"
proof (induction qs arbitrary: as)
  case (Cons q qs)
  have "oom_total (gather_process q as) = max (sint (oom_score q) + sint (oom_score_adj q)) (oom_total as)"
    by (simp add: oom_total_def gather_process_def Let_def)
  with Cons show ?case by simp
qed simp

text \<open>The socket counters of a process are those of its open files.\<close>

lemma usage_socks:
  assumes "usage e s k = Some ps" and "pe_fds (env_proc e k) = Some (dots @ map fd_entry fds)"
    and "list_all is_dot dots" and "list_all fd_kind_ok (map snd fds)"
  shows "ps_sst ps = fold count_sock (fd_socks (env_find_sock e) (map snd fds)) sst_zero"
proof -
  have oom: "ps_sst ps2 = ps_sst ps1" if "collector_process_oom x y ps1 = (ps2, r)" for x y ps1 ps2 r
    using that by (auto simp: collector_process_oom_def split: prod.splits if_splits)
  have fd: "ps_sst ps2 = fold count_sock (fd_socks (env_find_sock e) (map snd fds)) sst_zero"
    if "collector_process_fd_usage (env_find_sock e) (pe_fds (env_proc e k)) ps1 = (ps2, r)" for ps1 ps2 r
    using that count_fd_dots [OF assms(3)] count_fds [OF assms(4)]
    by (auto simp: collector_process_fd_usage_def assms(2) Let_def)
  have "COLLECTOR_PROCESS_USAGE (env_hz e) (env_find_sock e) (env_proc e k) (ps_target (assoc_mem s k)) = Some (ps, 0)"
    using assms(1) by (auto simp: usage_def split: option.splits if_splits)
  then show ?thesis
    by (auto simp: COLLECTOR_PROCESS_USAGE_def dest!: oom fd split: option.splits prod.splits if_splits)
qed

text \<open>Whether a process can be read does not depend on its open files.\<close>

lemma usage_any_fds:
  assumes "COLLECTOR_PROCESS_USAGE hz f e ps = Some (ps', 0)"
  shows "\<exists>ps''. COLLECTOR_PROCESS_USAGE hz g (e\<lparr>pe_fds := Some es\<rparr>) ps = Some (ps'', 0)"
proof -
  have "snd (collector_process_oom x y p) = snd (collector_process_oom x y q)" for x y p q
    by (simp add: collector_process_oom_def split: prod.split)
  with assms show ?thesis
    by (auto simp: COLLECTOR_PROCESS_USAGE_def collector_process_fd_usage_def Let_def prod_eq_iff
        split: option.splits prod.splits if_splits) metis
qed

lemma gather_sock_counter:
  assumes "(sel, ty, ss) \<in> set sock_counters" and "(ty, ss) \<noteq> (ST_TCP6, SS_ESTABLISHED)"
  shows "sel (as_sst (gather_process ps as)) = sel (as_sst as) + sel (ps_sst ps)"
  using assms by (auto simp: sock_counters_def gather_process_def gather_sock_statistics_def Let_def)

lemma sum_usage:
  fixes sel :: "process_status \<Rightarrow> 'a::len word"
  assumes "\<And>k ps. k \<in> set ks \<Longrightarrow> usage e s k = Some ps \<Longrightarrow> sel ps = of_nat (length (filter P (L k)))"
  shows "sum_list (map sel (List.map_filter (usage e s) ks)) =
    of_nat (length (filter P (concat (map L (filter (\<lambda>k. usage e s k \<noteq> None) ks)))))"
  using assms
proof (induction ks)
  case (Cons k ks)
  then show ?case by (cases "usage e s k") (simp_all add: List.map_filter_simps)
qed (simp add: List.map_filter_simps)

section \<open>Rules\<close>

text \<open>A rule applies to a command line when it is enabled, has not been used in this round and all its
  keys occur.\<close>

definition applies :: "string \<Rightarrow> app_process_filter_rule \<Rightarrow> bool" where
  "applies cmd r \<longleftrightarrow> rule_enable r \<noteq> 0 \<and> \<not> is_matched r \<and> list_all (\<lambda>k. sublist k cmd) (keys r)"

definition keys_counted :: "app_process_filter_rule \<Rightarrow> bool" where
  "keys_counted r \<longleftrightarrow> key_count r = of_nat (length (keys r)) \<and> length (keys r) < 2 ^ 16"

lemma match_keys_zero:
  assumes "length ks \<le> n" and "n < 2 ^ 16"
  shows "match_keys cmd ks (of_nat n) = 0 \<longleftrightarrow> length ks = n \<and> list_all (\<lambda>k. sublist k cmd) ks"
  using assms
proof (induction ks arbitrary: n)
  case Nil
  then have "unat (of_nat n :: u16) = n" by (simp add: unat_of_nat take_bit_nat_eq_self)
  then show ?case by (auto simp: unat_eq_0 [symmetric])
next
  case (Cons k ks)
  then obtain m where n: "n = Suc m" by (cases n) auto
  have "unat (of_nat n :: u16) = n" using Cons.prems by (simp add: unat_of_nat take_bit_nat_eq_self)
  then have nz: "(of_nat n :: u16) \<noteq> 0" using n by (metis unat_0 nat.distinct(1))
  have s: "(of_nat n :: u16) - 1 = of_nat m" by (simp add: n)
  show ?case
  proof (cases "strstr cmd k")
    case None
    with nz show ?thesis using strstr_None_iff [of cmd k] by simp
  next
    case (Some br)
    with Cons.IH [of m] Cons.prems n s strstr_None_iff [of cmd k] show ?thesis by simp
  qed
qed

lemma applies_iff:
  assumes "keys_counted r"
  shows "\<not> ((rule_enable r = 0 \<or> is_matched r) \<or> match_keys cmd (take (unat (key_count r)) (keys r)) (key_count r) \<noteq> 0)
    \<longleftrightarrow> applies cmd r"
proof -
  have "unat (key_count r) = length (keys r)"
    using assms by (simp add: keys_counted_def unat_of_nat take_bit_nat_eq_self)
  moreover have "match_keys cmd (keys r) (of_nat (length (keys r))) = 0 \<longleftrightarrow> list_all (\<lambda>k. sublist k cmd) (keys r)"
    using match_keys_zero [of "keys r" "length (keys r)" cmd] assms by (simp add: keys_counted_def)
  ultimately show ?thesis using assms by (auto simp: applies_def keys_counted_def)
qed

section \<open>Examples\<close>

definition example_rule :: app_process_filter_rule where
  "example_rule = \<lparr>rule_enable = 1, rule_app_type_name = ''t'', rule_app_name = ''sh'',
     assign_type = APP_BIND_PROCESS, keys = [''s'', ''-x''], key_count = 2, is_matched = False\<rparr>"

definition example_rules :: app_filter_rules where
  "example_rules = \<lparr>rule_list = [example_rule], rule_count = 1\<rparr>"

definition example_proc :: proc_env where
  "example_proc =
     \<lparr>pe_stat = file_of [], pe_smaps_open = 3, pe_smaps_rd = (\<lambda>pos n. Some []),
      pe_status_open = 4, pe_status_rd = (\<lambda>n. Some (''VmSize: 12 kB'' @ [CHR 0x0A])),
      pe_io = file_of [], pe_fds = Some (map fd_entry [(3, Fd_sock 7)]), pe_oom_score = (\<lambda>n. Some ''2''),
      pe_oom_score_adj = (\<lambda>n. Some ''0'')\<rparr>"

definition example_env :: apps_env where
  "example_env =
     \<lparr>env_as_unit = (\<lambda>as. Some (Suc (sum_list as))), env_aap_unit = (\<lambda>_. True), env_ps_unit = (\<lambda>_. True),
      env_register = (\<lambda>_. True), env_proc_dir = Some [(''self'', True), (''7'', True)],
      env_cmdline = (\<lambda>_. (True, \<lambda>n. Some (''sh'' @ NUL # ''-x''))), env_children = (\<lambda>_. None),
      env_proc = (\<lambda>_. example_proc), env_find_sock = (\<lambda>i. if i = 7 then Some \<lparr>ino = 7, sock_type = ST_TCP, sock_state = 1\<rparr> else None), env_hz = 100\<rparr>"

definition example_start :: "pid list apps_state" where
  "example_start =
     \<lparr>app_list = [], app_mem = (\<lambda>_. new_app_status 0 [] []), assoc_tab = [],
      assoc_mem = (\<lambda>k. \<lparr>as_target = 0, ps_target = ps_zero, update = False\<rparr>)\<rparr>"

lemma example_env_ok: "as_unit_ok example_env"
proof -
  have "Suc (sum_list as) \<notin> set as" for as :: "nat list" using member_le_sum_list [of "Suc (sum_list as)" as] by auto
  then show ?thesis by (simp add: as_unit_ok_def example_env_def)
qed

text \<open>The state after the first update of the collection and the one after a round.\<close>

definition example_updated :: "pid list apps_state" where
  "example_updated =
     snd (fst (the (update_app_collection list_table example_env (example_rules, example_start))))"

definition example_collected :: "pid list apps_state" where
  "example_collected = fst (the (collecting_apps_usage list_table example_env example_updated))"

lemma example_update_eval:
  "map_option (\<lambda>((afr, s), r). (rule_count afr, app_list s, assoc_tab s, app_name (app_mem s 1), app_pid (app_mem s 1),
      as_target (assoc_mem s 7), ps_target (assoc_mem s 7)))
    (update_app_collection list_table example_env (example_rules, example_start)) =
   Some (1, [1], [7], ''sh'', 7, 1, the (the (new_process_status 7 True True)))"
  by code_simp

lemma example_usage_eval:
  "map_option snd (COLLECTOR_PROCESS_USAGE 100 (\<lambda>_. None) (example_proc\<lparr>pe_fds := Some []\<rparr>)
     (the (the (new_process_status 7 True True)))) = Some 0"
  by code_simp

lemma example_update:
  obtains afr r where "update_app_collection list_table example_env (example_rules, example_start) = Some ((afr, example_updated), r)"
    and "rule_count afr = 1"
  using example_update_eval by (auto simp: example_updated_def)

lemma example_updated_state:
  "app_list example_updated = [1]" "assoc_tab example_updated = [7]" "app_name (app_mem example_updated 1) = ''sh''"
  "app_pid (app_mem example_updated 1) = 7" "as_target (assoc_mem example_updated 7) = 1"
  "ps_target (assoc_mem example_updated 7) = the (the (new_process_status 7 True True))"
  using example_update_eval by (auto simp: example_updated_def)

lemma example_reachable: "apps_reachable list_table example_updated"
proof -
  obtain afr r where u: "update_app_collection list_table example_env (example_rules, example_start) =
      Some ((afr, example_updated), r)" by (rule example_update)
  have "names_ok example_rules"
    by (simp add: names_ok_def example_rules_def example_rule_def XM_APP_NAME_SIZE_def)
  moreover have "apps_reachable list_table example_start"
    by (rule apps_reachable.init) (simp_all add: example_start_def list_table_def)
  ultimately show ?thesis using apps_reachable.update_collection [OF _ example_env_ok _ u] by blast
qed

lemma example_usage: "usage example_env example_updated 7 \<noteq> None" "readable example_env example_updated 7"
proof -
  obtain ps where ps: "COLLECTOR_PROCESS_USAGE (env_hz example_env) (env_find_sock example_env) (env_proc example_env 7)
      (ps_target (assoc_mem example_updated 7)) = Some (ps, 0)"
    using example_usage_eval usage_any_fds [of 100 _ "example_proc\<lparr>pe_fds := Some []\<rparr>" _ _ "env_find_sock example_env"
        "map fd_entry [(3, Fd_sock 7)]"]
    by (fastforce simp: example_updated_state(6) example_env_def example_proc_def)
  have "ps_pid (the (the (new_process_status 7 True True))) = 7" by (simp add: new_process_status_def)
  then have "ps_pid ps = 7" using usage_pid [OF ps] by (simp add: example_updated_state)
  then show "usage example_env example_updated 7 \<noteq> None"
    unfolding usage_def ps by (simp add: example_updated_state del: One_nat_def)
  show "readable example_env example_updated 7" by (simp add: readable_def ps)
qed

lemma example_collected_state:
  "collecting_apps_usage list_table example_env example_updated = Some (example_collected, set_apps_metrics example_collected, 0)"
  "set (app_list example_collected) = {1}" "cc_has list_table (assoc_tab example_collected) 7"
proof -
  have ks: "cc_keys list_table (assoc_tab example_updated) = [7]" "cc_has list_table (assoc_tab example_updated) 7"
    by (simp_all add: list_table_def example_updated_state)
  then have rd: "\<forall>k \<in> set (cc_keys list_table (assoc_tab example_updated)). readable example_env example_updated k"
    using example_usage(2) by simp
  obtain s where s: "collect_and_sweep list_table example_env example_updated = Some (s, 0)"
    by (rule collecting_ok [OF list_table_spec reachable_inv [OF list_table_spec example_reachable] rd]) (rule that)
  then show c: "collecting_apps_usage list_table example_env example_updated =
      Some (example_collected, set_apps_metrics example_collected, 0)"
    by (simp add: collecting_apps_usage_def example_collected_def)
  note rk = round_ok [OF list_table_spec reachable_inv [OF list_table_spec example_reachable] c]
  show "cc_has list_table (assoc_tab example_collected) 7" using rk(3) [of 7] ks example_usage(1) by blast
  have "app_usage example_env example_updated [7] 1 \<noteq> []"
    using example_usage(1) by (auto simp: app_usage_def List.map_filter_simps example_updated_state simp del: One_nat_def)
  then have "a \<in> set (app_list example_collected) \<longleftrightarrow> a \<in> {1}" for a
    using rk(4) [of a] unfolding ks example_updated_state(1) by (cases "a = 1") simp_all
  then show "set (app_list example_collected) = {1}" by blast
qed

lemma example_collected_members:
  "{k. cc_has list_table (assoc_tab example_collected) k \<and> as_target (assoc_mem example_collected k) = 1} = {7}"
proof -
  note rk = round_ok [OF list_table_spec reachable_inv [OF list_table_spec example_reachable] example_collected_state(1)]
  have "cc_has list_table (assoc_tab example_updated) k \<longleftrightarrow> k = 7" for k
    by (simp add: list_table_def example_updated_state)
  then show ?thesis using rk(3) rk(6) [of 7] example_collected_state(3) example_updated_state(5) by auto
qed

section \<open>Properties\<close>

text \<open>C7: in every state that updates of the collection and rounds of collecting lead to, no process is
  attached to an application that has left the list, every association is stored under the id of its
  own process, the process count of an application is the number of processes attached to it, and
  the search by name finds every application of the list.\<close>

theorem apps_no_dangling:
  assumes "cc_spec T" and "apps_reachable T s"
  shows "(\<forall>k. cc_has T (assoc_tab s) k \<longrightarrow>
      as_target (assoc_mem s k) \<in> set (app_list s) \<and> ps_pid (ps_target (assoc_mem s k)) = k \<and> 0 < sint k) \<and>
    (\<forall>a \<in> set (app_list s). process_count (app_mem s a) =
      of_nat (card {k. cc_has T (assoc_tab s) k \<and> as_target (assoc_mem s k) = a}) \<and>
      find_app s (app_name (app_mem s a)) = Some a)"
proof (intro conjI ballI)
  note inv = reachable_inv [OF assms]
  show "\<forall>k. cc_has T (assoc_tab s) k \<longrightarrow>
      as_target (assoc_mem s k) \<in> set (app_list s) \<and> ps_pid (ps_target (assoc_mem s k)) = k \<and> 0 < sint k"
    using apps_invD [OF inv] by blast
  fix a assume a: "a \<in> set (app_list s)"
  with inv show "process_count (app_mem s a) =
      of_nat (card {k. cc_has T (assoc_tab s) k \<and> as_target (assoc_mem s k) = a})"
    by (simp add: apps_inv_def members_def)
  from a have "find_app s (app_name (app_mem s a)) \<noteq> None" using find_app_None by blast
  then obtain b where b: "find_app s (app_name (app_mem s a)) = Some b" by blast
  with find_app_Some [OF b] a inv show "find_app s (app_name (app_mem s a)) = Some a"
    by (auto simp: apps_inv_def inj_on_def)
qed

theorem apps_no_dangling_witness:
  "as_target (assoc_mem example_updated 7) \<in> {1} \<and> ps_pid (ps_target (assoc_mem example_updated 7)) = 7 \<and>
   process_count (app_mem example_updated 1) = 1 \<and> find_app example_updated ''sh'' = Some 1"
proof -
  note p = apps_no_dangling [OF list_table_spec example_reachable]
  have h: "cc_has list_table (assoc_tab example_updated) k \<longleftrightarrow> k = 7" for k
    by (simp add: list_table_def example_updated_state)
  have a: "as_target (assoc_mem example_updated 7) \<in> {1} \<and> ps_pid (ps_target (assoc_mem example_updated 7)) = 7"
    using conjunct1 [OF p] h by (simp add: example_updated_state)
  then have "{k. cc_has list_table (assoc_tab example_updated) k \<and> as_target (assoc_mem example_updated k) = 1} = {7}"
    using h by auto
  with a conjunct2 [OF p] show ?thesis by (simp add: example_updated_state del: One_nat_def)
qed

text \<open>C6: a round that runs to its end keeps exactly the processes whose values could be read and which are
  the first process of their application or a child of it, and exactly the applications that have
  such a process. Every cleared value of an application is the sum of the values of these processes,
  as 64-bit or 32-bit numbers; the values that are not cleared grow by this sum. The gauges get the
  values of exactly the applications that stay.\<close>

theorem apps_usage_sums:
  assumes T: "cc_spec T" and s: "apps_reachable T s" and c: "collecting_apps_usage T e s = Some (s', ms, r)"
  defines "us \<equiv> app_usage e s (cc_keys T (assoc_tab s))"
  shows "(\<forall>k. cc_has T (assoc_tab s') k \<longleftrightarrow> cc_has T (assoc_tab s) k \<and> usage e s k \<noteq> None) \<and>
    (\<forall>a. a \<in> set (app_list s') \<longleftrightarrow> a \<in> set (app_list s) \<and> us a \<noteq> []) \<and>
    (\<forall>a \<in> set (app_list s').
      (\<forall>(af, pf) \<in> set round_sums. af (app_mem s' a) = sum_list (map pf (us a))) \<and>
      (\<forall>(af, pf) \<in> set round_sums32. af (app_mem s' a) = sum_list (map pf (us a))) \<and>
      (\<forall>(af, pf) \<in> set running_sums. af (app_mem s' a) = af (app_mem s a) + sum_list (map pf (us a)))) \<and>
    ms = concat (map (\<lambda>a. set_app_metrics (app_mem s' a)) (app_list s'))"
proof (intro conjI ballI)
  note inv = reachable_inv [OF T s]
  note ok = round_ok [OF T inv c, folded us_def]
  show "\<forall>k. cc_has T (assoc_tab s') k \<longleftrightarrow> cc_has T (assoc_tab s) k \<and> usage e s k \<noteq> None" using ok(3) by blast
  show "\<forall>a. a \<in> set (app_list s') \<longleftrightarrow> a \<in> set (app_list s) \<and> us a \<noteq> []" using ok(4) by blast
  show "ms = concat (map (\<lambda>a. set_app_metrics (app_mem s' a)) (app_list s'))" using ok(2) by (simp add: set_apps_metrics_def)
  fix a assume "a \<in> set (app_list s')"
  from ok(5) [OF this] obtain n where
    a: "app_mem s' a = (fold gather_process (us a) (zero_appstatus (app_mem s a)))\<lparr>process_count := n\<rparr>" by blast
  have "af (app_mem s' a) = sum_list (map pf (us a))" if "(af, pf) \<in> set round_sums" for af pf
    using fold_gather_sum [OF round_sums_step(1) [OF that]] sums_zero(1) [OF that] sums_count(1) [OF that]
    by (simp add: a)
  then show "case x of (af, pf) \<Rightarrow> af (app_mem s' a) = sum_list (map pf (us a))" if "x \<in> set round_sums" for x
    using that by (cases x) simp
  have "af (app_mem s' a) = sum_list (map pf (us a))" if "(af, pf) \<in> set round_sums32" for af pf
    using fold_gather_sum [OF round_sums_step(2) [OF that]] sums_zero(2) [OF that] sums_count(2) [OF that]
    by (simp add: a)
  then show "case x of (af, pf) \<Rightarrow> af (app_mem s' a) = sum_list (map pf (us a))" if "x \<in> set round_sums32" for x
    using that by (cases x) simp
  have "af (app_mem s' a) = af (app_mem s a) + sum_list (map pf (us a))" if "(af, pf) \<in> set running_sums" for af pf
    using fold_gather_sum [OF round_sums_step(3) [OF that]] sums_zero(3) [OF that] sums_count(3) [OF that]
    by (simp add: a)
  then show "case x of (af, pf) \<Rightarrow> af (app_mem s' a) = af (app_mem s a) + sum_list (map pf (us a))" if "x \<in> set running_sums" for x
    using that by (cases x) simp
qed

theorem apps_usage_sums_witness:
  "usage example_env example_updated 7 \<noteq> None \<and>
   as_vmsize (app_mem example_collected 1) =
     sum_list (map ps_vmsize (app_usage example_env example_updated (cc_keys list_table (assoc_tab example_updated)) 1)) \<and>
   open_fds (app_mem example_collected 1) =
     sum_list (map process_open_fds (app_usage example_env example_updated (cc_keys list_table (assoc_tab example_updated)) 1)) \<and>
   as_nvcsw (app_mem example_collected 1) = as_nvcsw (app_mem example_updated 1) +
     sum_list (map ps_nvcsw (app_usage example_env example_updated (cc_keys list_table (assoc_tab example_updated)) 1))"
proof -
  note p = apps_usage_sums [OF list_table_spec example_reachable example_collected_state(1)]
  have one: "1 \<in> set (app_list example_collected)" by (simp add: example_collected_state)
  note example_collected_state(3)
  moreover have "(as_vmsize, ps_vmsize) \<in> set round_sums" "(open_fds, process_open_fds) \<in> set round_sums32"
    "(as_nvcsw, ps_nvcsw) \<in> set running_sums" by (simp_all add: round_sums_def round_sums32_def running_sums_def)
  ultimately show ?thesis using p one by fast
qed

text \<open>A process that is neither the first process of its application nor a child of it is dropped by
  the next round, although the descendants of all generations were attached to the application.\<close>

lemma apps_grandchild_dropped:
  assumes "cc_spec T" and "apps_reachable T s" and "collecting_apps_usage T e s = Some (s', ms, r)"
    and "COLLECTOR_PROCESS_USAGE (env_hz e) (env_find_sock e) (env_proc e k) (ps_target (assoc_mem s k)) = Some (ps, 0)"
    and "k \<noteq> app_pid (app_mem s (as_target (assoc_mem s k)))"
    and "ps_ppid ps \<noteq> app_pid (app_mem s (as_target (assoc_mem s k)))"
  shows "\<not> cc_has T (assoc_tab s') k"
proof -
  have "usage e s k = None" using assms(4-6) by (simp add: usage_def)
  then show ?thesis using round_ok(3) [OF assms(1) reachable_inv [OF assms(1,2)] assms(3)] by simp
qed

text \<open>C8: when no process of an application can be read any more, one round removes the application, whatever
  else happens in the round; from then on a new process is accepted as an application of the same
  name as soon as there is memory for it and the metrics registry takes its collector.\<close>

theorem ended_app_restarts:
  assumes T: "cc_spec T" and s: "apps_reachable T s" and c: "collecting_apps_usage T e s = Some (s', ms, r)"
    and a: "a \<in> set (app_list s)"
    and dead: "\<And>k. cc_has T (assoc_tab s) k \<Longrightarrow> as_target (assoc_mem s k) = a \<Longrightarrow> usage e s k = None"
    and new: "env_as_unit e' (app_list s') = Some b" "env_register e' (app_name (app_mem s a))"
  shows "a \<notin> set (app_list s') \<and>
    (\<exists>s''. get_app_status e' pid (app_name (app_mem s a)) ty s' = (s'', Some b) \<and> app_list s'' = app_list s' @ [b] \<and>
      app_pid (app_mem s'' b) = pid)"
proof
  note inv = reachable_inv [OF T s]
  note rk = round_ok [OF T inv c]
  have "app_usage e s (cc_keys T (assoc_tab s)) a = []"
    using dead cc_specD(4) [OF T] by (auto simp: app_usage_def List.map_filter_def filter_empty_conv)
  then show out: "a \<notin> set (app_list s')" using rk(4) by blast
  have "app_name (app_mem s' x) \<noteq> app_name (app_mem s a)" if x: "x \<in> set (app_list s')" for x
  proof -
    have "app_name (app_mem s' x) = app_name (app_mem s x)" using rk(5) [OF x] by auto
    moreover have "x \<in> set (app_list s)" "x \<noteq> a" using rk(4) x out by auto
    ultimately show ?thesis using inv a by (auto simp: apps_inv_def inj_on_def)
  qed
  then have "find_app s' (app_name (app_mem s a)) = None" by (auto simp: find_app_def find_None_iff)
  then show "\<exists>s''. get_app_status e' pid (app_name (app_mem s a)) ty s' = (s'', Some b) \<and> app_list s'' = app_list s' @ [b] \<and>
      app_pid (app_mem s'' b) = pid"
    using new by (simp add: get_app_status_def new_app_status_def)
qed

text \<open>The process of the example ends: its files cannot be opened.\<close>

definition example_end :: apps_env where
  "example_end = example_env\<lparr>env_proc := (\<lambda>_. example_proc\<lparr>pe_stat := (file_of [])\<lparr>io_open := - 1\<rparr>\<rparr>)\<rparr>"

lemma example_end_eval:
  "map_option snd (collector_process_cpu_usage 100 ((file_of [])\<lparr>io_open := - 1\<rparr>)
     (the (the (new_process_status 7 True True)))) = Some (- 1)"
  by code_simp

lemma example_end_usage:
  "usage example_end example_updated 7 = None" "readable example_end example_updated 7"
proof -
  obtain ps r where ps: "COLLECTOR_PROCESS_USAGE (env_hz example_end) (env_find_sock example_end) (env_proc example_end 7)
      (ps_target (assoc_mem example_updated 7)) = Some (ps, r)" "r \<noteq> 0"
    using example_end_eval
    by (auto simp: COLLECTOR_PROCESS_USAGE_def example_updated_state(6) example_end_def example_env_def
        split: option.splits prod.splits if_splits)
  then show "usage example_end example_updated 7 = None" unfolding usage_def by simp
  show "readable example_end example_updated 7" by (simp add: readable_def ps)
qed

theorem ended_app_restarts_witness:
  "\<exists>s' ms r s''. collecting_apps_usage list_table example_end example_updated = Some (s', ms, r) \<and> 1 \<notin> set (app_list s') \<and>
     get_app_status example_env 9 ''sh'' ''t'' s' = (s'', Some (Suc (sum_list (app_list s'))))"
proof -
  have k: "cc_has list_table (assoc_tab example_updated) k \<longleftrightarrow> k = 7" for k
    by (simp add: list_table_def example_updated_state)
  then have rd: "\<forall>k \<in> set (cc_keys list_table (assoc_tab example_updated)). readable example_end example_updated k"
    using example_end_usage(2) cc_specD(4) [OF list_table_spec] by simp
  obtain s' where "collect_and_sweep list_table example_end example_updated = Some (s', 0)"
    by (rule collecting_ok [OF list_table_spec reachable_inv [OF list_table_spec example_reachable] rd]) (rule that)
  then have c: "collecting_apps_usage list_table example_end example_updated = Some (s', set_apps_metrics s', 0)"
    by (simp add: collecting_apps_usage_def)
  have new: "env_as_unit example_env (app_list s') = Some (Suc (sum_list (app_list s')))"
    "env_register example_env (app_name (app_mem example_updated 1))" by (simp_all add: example_env_def)
  have one: "1 \<in> set (app_list example_updated)" by (simp add: example_updated_state)
  have dead: "usage example_end example_updated j = None" if "cc_has list_table (assoc_tab example_updated) j" for j
    using that k example_end_usage(1) by simp
  from ended_app_restarts [OF list_table_spec example_reachable c one dead new, of 9 "''t''"] c
  show ?thesis unfolding example_updated_state(3) by blast
qed

text \<open>At the end of the program nothing stays attached.\<close>

lemma free_apps_collector_empty:
  assumes "cc_spec T"
  shows "app_list (free_apps_collector T s) = []" and "\<not> cc_has T (assoc_tab (free_apps_collector T s)) k"
proof -
  let ?f = "\<lambda>k s. del_app_assoc_process T k False (s\<lparr>assoc_tab := cc_remove T (assoc_tab s) k\<rparr>)"
  have "cc_has T (assoc_tab (fold ?f ks s)) = (\<lambda>k. cc_has T (assoc_tab s) k \<and> k \<notin> set ks)" for ks s
    by (induction ks arbitrary: s) (auto simp: fun_eq_iff del_app_assoc_process_def Let_def cc_specD(2) [OF assms])
  then show "\<not> cc_has T (assoc_tab (free_apps_collector T s)) k"
    using cc_specD(4) [OF assms] by (simp add: free_apps_collector_def)
qed (simp add: free_apps_collector_def)

text \<open>The rule that is taken for a command line is the first one of the list that is enabled, not yet used
  in this round, and has all its keys in the command line; when there is none, none is taken.\<close>

lemma first_rule_taken:
  assumes "list_all keys_counted rs"
  shows "(find_rule cmd rs = Some (pre, r, post) \<longleftrightarrow>
      rs = pre @ r # post \<and> applies cmd r \<and> list_all (\<lambda>r. \<not> applies cmd r) pre) \<and>
    (find_rule cmd rs = None \<longleftrightarrow> list_all (\<lambda>r. \<not> applies cmd r) rs)"
proof
  show "find_rule cmd rs = Some (pre, r, post) \<longleftrightarrow>
      rs = pre @ r # post \<and> applies cmd r \<and> list_all (\<lambda>r. \<not> applies cmd r) pre"
    using assms
  proof (induction rs arbitrary: pre)
    case (Cons x xs)
    have x: "find_rule cmd (x # xs) = (if applies cmd x then Some ([], x, xs)
        else map_option (\<lambda>(pre, x', post). (x # pre, x', post)) (find_rule cmd xs))"
      using applies_iff [of x cmd] Cons.prems unfolding find_rule.simps list.pred_inject by metis
    show ?case
    proof (cases pre)
      case Nil
      then show ?thesis unfolding x by auto
    next
      case (Cons p ps)
      with Cons.IH [of ps] Cons.prems show ?thesis unfolding x by auto
    qed
  qed simp
  show "find_rule cmd rs = None \<longleftrightarrow> list_all (\<lambda>r. \<not> applies cmd r) rs"
    using assms
  proof (induction rs)
    case (Cons x xs)
    with applies_iff [of x cmd] show ?case by auto
  qed simp
qed

lemma first_rule_taken_witness:
  "find_rule ''a sh -x'' [example_rule\<lparr>is_matched := True\<rparr>, example_rule] =
     Some ([example_rule\<lparr>is_matched := True\<rparr>], example_rule, [])"
proof -
  have ok: "list_all keys_counted [example_rule\<lparr>is_matched := True\<rparr>, example_rule]"
    by (simp add: keys_counted_def example_rule_def)
  have "applies ''a sh -x'' example_rule"
    by (simp add: applies_def example_rule_def sublist_code)
  moreover have "\<not> applies ''a sh -x'' (example_rule\<lparr>is_matched := True\<rparr>)" by (simp add: applies_def)
  ultimately show ?thesis
    using first_rule_taken [OF ok, of "''a sh -x''" "[example_rule\<lparr>is_matched := True\<rparr>]" example_rule "[]"]
    by (simp del: find_rule.simps)
qed


end
