(* ===== verification/XM_Clocks.thy ===== *)
theory XM_Clocks
  imports XM_Prelude
begin

text \<open>
  \<^verbatim>\<open>utils/clocks.c\<close>: the heartbeat that paces the loops of the plugins, and the conversion of a date to
  seconds. The clocks are an argument: the \<open>i\<close>-th reading gives the outcome of both calls of
  \<^verbatim>\<open>clock_gettime\<close>, and a sleep only decides what the next reading is. Not returning from the wait is
  \<open>None\<close>, and so is a division by zero.
\<close>

section \<open>Heartbeat\<close>

record heartbeat =
  monotonic :: u64
  realtime :: u64

text \<open>\<open>None\<close>: the call fails. Seconds and nanoseconds.\<close>

type_synonym timespec = "(u64 \<times> u64) option"

definition now_usec :: "timespec \<Rightarrow> u64" where
  "now_usec ts = (case ts of None \<Rightarrow> 0 | Some (tv_sec, tv_nsec) \<Rightarrow> tv_sec * 1000000 + (tv_nsec mod 1000000000) div 1000)"

definition heartbeat_init :: heartbeat where
  "heartbeat_init = \<lparr>monotonic = 0, realtime = 0\<rparr>"

definition read_clocks :: "(nat \<Rightarrow> timespec \<times> timespec) \<Rightarrow> nat \<Rightarrow> heartbeat" where
  "read_clocks clk i = \<lparr>monotonic = now_usec (fst (clk i)), realtime = now_usec (snd (clk i))\<rparr>"

text \<open>The loop that sleeps until the next tick: the reading that ends it, and its number.\<close>

partial_function (option) heartbeat_wait ::
  "(nat \<Rightarrow> timespec \<times> timespec) \<Rightarrow> u64 \<Rightarrow> nat \<Rightarrow> heartbeat \<Rightarrow> (heartbeat \<times> nat) option" where
  "heartbeat_wait clk next_monotonic i now =
     (if monotonic now < next_monotonic then heartbeat_wait clk next_monotonic (i + 1) (read_clocks clk (i + 1))
      else Some (now, i))"

declare heartbeat_wait.simps [code]

text \<open>The new heartbeat, the number of the last reading and the time since the heartbeat before.\<close>

definition heartbeat_next ::
  "(nat \<Rightarrow> timespec \<times> timespec) \<Rightarrow> u64 \<Rightarrow> nat \<Rightarrow> heartbeat \<Rightarrow> (heartbeat \<times> nat \<times> u64) option" where
  "heartbeat_next clk tick i hb =
     (if tick = 0 then None
      else
        let now = read_clocks clk i;
            next_monotonic = monotonic now - monotonic now mod tick + tick
        in case heartbeat_wait clk next_monotonic i now of
             None \<Rightarrow> None
           | Some (now', j) \<Rightarrow>
               if realtime hb \<noteq> 0 then Some (now', j, realtime now' - realtime hb) else Some (now', j, 0))"

definition USEC_PER_SEC :: u64 where "USEC_PER_SEC = 1000000"

text \<open>\<^verbatim>\<open>update_every * USEC_PER_SEC\<close> and the like: a negative number of seconds
  becomes a huge unsigned one.\<close>

definition step_usecs :: "i32 \<Rightarrow> u64" where
  "step_usecs secs = scast secs * USEC_PER_SEC"

text \<open>The clocks let the next \<open>n\<close> heartbeats of a loop come.\<close>

fun beats :: "(nat \<Rightarrow> timespec \<times> timespec) \<Rightarrow> u64 \<Rightarrow> nat \<Rightarrow> nat \<Rightarrow> heartbeat \<Rightarrow> bool" where
  "beats clk tick 0 i hb = True"
| "beats clk tick (Suc n) i hb =
     (case heartbeat_next clk tick i hb of None \<Rightarrow> False | Some (hb', j, dt) \<Rightarrow> beats clk tick n (j + 1) hb')"

section \<open>Seconds since 1970\<close>

definition mktime64 :: "u32 \<Rightarrow> u32 \<Rightarrow> u32 \<Rightarrow> u32 \<Rightarrow> u32 \<Rightarrow> u32 \<Rightarrow> i64" where
  "mktime64 year0 mon0 day hour minute sec =
     (let m = mon0 - 2;
          (mon, year) = (if 0 \<ge> sint m then (m + 12, year0 - 1) else (m, year0));
          days = ucast (year div 4 - year div 100 + year div 400 + 367 * mon div 12 + day) + ucast (year * 365) - 719499
      in ((days * 24 + ucast hour) * 60 + ucast minute) * 60 + ucast sec)"

section \<open>Waiting for the next tick\<close>

lemma heartbeat_wait_ends:
  assumes "next \<le> monotonic (read_clocks clk j)" and "i \<le> j"
  shows "\<exists>k \<ge> i. heartbeat_wait clk next i (read_clocks clk i) = Some (read_clocks clk k, k) \<and>
    next \<le> monotonic (read_clocks clk k) \<and> (\<forall>l. i \<le> l \<and> l < k \<longrightarrow> monotonic (read_clocks clk l) < next)"
  using assms(2)
proof (induction "j - i" arbitrary: i)
  case 0
  then have "i = j" by simp
  with assms(1) show ?case by (intro exI [of _ i], subst heartbeat_wait.simps) (auto simp: not_less)
next
  case (Suc n)
  show ?case
  proof (cases "monotonic (read_clocks clk i) < next")
    case True
    from Suc(2) have "n = j - (i + 1)" "i + 1 \<le> j" by simp_all
    with Suc(1) obtain k where k: "i + 1 \<le> k" "heartbeat_wait clk next (i + 1) (read_clocks clk (i + 1)) = Some (read_clocks clk k, k)"
      "next \<le> monotonic (read_clocks clk k)" "\<forall>l. i + 1 \<le> l \<and> l < k \<longrightarrow> monotonic (read_clocks clk l) < next" by blast
    moreover have "heartbeat_wait clk next i (read_clocks clk i) = Some (read_clocks clk k, k)"
      using True k(2) by (subst heartbeat_wait.simps) simp
    moreover have "\<forall>l. i \<le> l \<and> l < k \<longrightarrow> monotonic (read_clocks clk l) < next"
      using True k(4) by (metis Suc_eq_plus1 not_less_eq_eq order_antisym_conv)
    ultimately show ?thesis by (intro exI [of _ k]) simp
  next
    case False
    then show ?thesis by (intro exI [of _ i], subst heartbeat_wait.simps) (auto simp: not_less)
  qed
qed

lemma next_tick:
  fixes m tick :: u64
  assumes "tick \<noteq> 0" and "unat m + unat tick < 2 ^ 64"
  shows "unat (m - m mod tick + tick) = (unat m div unat tick + 1) * unat tick"
proof -
  have r: "unat m - unat m mod unat tick = unat m div unat tick * unat tick" by (simp add: minus_mod_eq_div_mult)
  have "m mod tick \<le> m" by (simp add: word_le_nat_alt unat_mod)
  then have s: "unat (m - m mod tick) = unat m div unat tick * unat tick" by (simp add: unat_sub unat_mod r)
  have "unat m div unat tick * unat tick \<le> unat m" by simp
  then have "unat (m - m mod tick) + unat tick < 2 ^ 64" using assms(2) unfolding s by linarith
  then show ?thesis using s by (simp add: unat_word_ariths(1))
qed

section \<open>The calendar\<close>

definition leap :: "nat \<Rightarrow> bool" where
  "leap y \<longleftrightarrow> y mod 4 = 0 \<and> y mod 100 \<noteq> 0 \<or> y mod 400 = 0"

definition year_days :: "nat \<Rightarrow> nat" where "year_days y = (if leap y then 366 else 365)"

definition month_days :: "nat \<Rightarrow> nat \<Rightarrow> nat" where
  "month_days y m = (if m = 2 then (if leap y then 29 else 28) else if m \<in> {4, 6, 9, 11} then 30 else 31)"

text \<open>The seconds from the start of 1970, counted year by year and month by month.\<close>

definition epoch_seconds :: "nat \<Rightarrow> nat \<Rightarrow> nat \<Rightarrow> nat \<Rightarrow> nat \<Rightarrow> nat \<Rightarrow> nat" where
  "epoch_seconds y mo d h mi s =
     ((((\<Sum>z = 1970..<y. year_days z) + (\<Sum>z = 1..<mo. month_days y z) + (d - 1)) * 24 + h) * 60 + mi) * 60 + s"

definition year_sum :: "nat \<Rightarrow> int" where
  "year_sum y = 365 * int y + int (y div 4) - int (y div 100) + int (y div 400)"

lemma year_sum_Suc: "year_sum (Suc y) = year_sum y + int (year_days (Suc y))"
proof -
  have "Suc y mod 100 = 0 \<Longrightarrow> Suc y mod 4 = 0" "Suc y mod 400 = 0 \<Longrightarrow> Suc y mod 100 = 0" by presburger+
  then show ?thesis by (auto simp: year_sum_def year_days_def leap_def div_Suc)
qed

lemma year_sum_years: "1970 \<le> y \<Longrightarrow> int (\<Sum>z = 1970..<y. year_days z) = year_sum (y - 1) - 719162"
proof (induction y rule: nat_induct_at_least)
  case base
  then show ?case by (simp add: year_sum_def)
next
  case (Suc y)
  then have "year_sum y = year_sum (y - 1) + int (year_days y)" using year_sum_Suc [of "y - 1"] by simp
  with Suc show ?case by simp
qed

lemma month_sum:
  assumes "1 \<le> mo" and "mo \<le> 12"
  shows "(\<Sum>z = 1..<mo. month_days y z) =
    (if mo \<le> 2 then 367 * (mo + 10) div 12 - 336 else 367 * (mo - 2) div 12 + (if leap y then 30 else 29))"
proof -
  have "mo \<in> set [1..<13]" using assms by simp
  moreover have "[1..<13] = [1, 2, 3, 4, 5, 6, 7, 8, 9, 10, 11, 12 :: nat]" by (simp add: upt_rec)
  ultimately have "mo \<in> {1, 2, 3, 4, 5, 6, 7, 8, 9, 10, 11, 12}" by (simp only: list.set)
  moreover have "\<forall>mo \<in> {1, 2, 3, 4, 5, 6, 7, 8, 9, 10, 11, 12}. sum_list (map (month_days y) [1..<mo]) =
      (if mo \<le> 2 then 367 * (mo + 10) div 12 - 336 else 367 * (mo - 2) div 12 + (if leap y then 30 else 29))"
    by (simp add: month_days_def upt_rec)
  ultimately show ?thesis unfolding interv_sum_list_conv_sum_set_nat set_upt by blast
qed

text \<open>The number of days as the code adds it up, on natural numbers.\<close>

definition day_count :: "nat \<Rightarrow> nat \<Rightarrow> nat \<Rightarrow> int" where
  "day_count y mo d =
     (let (m, z) = (if mo \<le> 2 then (mo + 10, y - 1) else (mo - 2, y))
      in int (z div 4 - z div 100 + z div 400 + (367 * m div 12 + d)) + int (z * 365) - 719499)"

lemma day_count_correct:
  assumes "1970 \<le> y" and "1 \<le> mo" and "mo \<le> 12" and "1 \<le> d"
  shows "day_count y mo d = int ((\<Sum>z = 1970..<y. year_days z) + (\<Sum>z = 1..<mo. month_days y z) + (d - 1))"
proof -
  have c: "int (z div 4 - z div 100 + z div 400 + x) + int (z * 365) = year_sum z + int x" for z x
  proof -
    have "z div 100 \<le> z div 4" by (rule div_le_mono2) simp_all
    then show ?thesis by (simp add: year_sum_def of_nat_diff)
  qed
  have s: "year_sum y = year_sum (y - 1) + int (year_days y)" using year_sum_Suc [of "y - 1"] assms(1) by simp
  note e = year_sum_years [OF assms(1)] month_sum [OF assms(2,3), of y]
  show ?thesis
  proof (cases "mo \<le> 2")
    case True
    then have "mo = 1 \<or> mo = 2" using assms(2) by linarith
    then have m: "int (367 * (mo + 10) div 12 - 336) = int (367 * (mo + 10) div 12) - 336" by auto
    have "day_count y mo d = year_sum (y - 1) + int (367 * (mo + 10) div 12 + d) - 719499"
      using True by (simp only: day_count_def Let_def if_True prod.case c)
    with True e m assms(4) show ?thesis by (simp add: of_nat_diff)
  next
    case False
    have "day_count y mo d = year_sum y + int (367 * (mo - 2) div 12 + d) - 719499"
      using False by (simp only: day_count_def Let_def if_False prod.case c)
    with False e s assms(4) show ?thesis by (simp add: of_nat_diff year_days_def)
  qed
qed

lemma ucast_nat32: "n < 2 ^ 32 \<Longrightarrow> ucast (of_nat n :: u32) = (of_nat n :: i64)"
  by (simp add: unsigned_of_nat take_bit_nat_eq_self)

lemma mktime64_days:
  assumes "1970 \<le> y" and "y < 2 ^ 20" and "1 \<le> mo" and "mo \<le> 12" and "d \<le> 31"
  shows "mktime64 (of_nat y) (of_nat mo) (of_nat d) hour minute sec =
    of_int (((day_count y mo d * 24 + uint hour) * 60 + uint minute) * 60 + uint sec)"
proof -
  define m z where "m = (if mo \<le> 2 then mo + 10 else mo - 2)" and "z = (if mo \<le> 2 then y - 1 else y)"
  have b: "m \<le> 12" "z < 2 ^ 20" using assms by (auto simp: m_def z_def)
  have e: "int (z div 4 - z div 100 + z div 400 + (367 * m div 12 + d)) + int (z * 365) - 719499 = day_count y mo d"
    by (simp add: day_count_def m_def z_def)
  have w: "unat (of_nat x :: u32) = x" if "x < 2 ^ 32" for x using that by (simp add: unsigned_of_nat take_bit_nat_eq_self)
  have dv: "(of_nat x :: u32) div of_nat n = of_nat (x div n)" if "x < 2 ^ 32" "n < 2 ^ 32" for x n
    using that by (intro word_unat_eq_iff [THEN iffD2]) (simp add: unat_div w le_less_trans [OF div_le_dividend])
  have p: "(if 0 \<ge> sint ((of_nat mo :: u32) - 2) then (of_nat mo - 2 + 12, (of_nat y :: u32) - 1) else (of_nat mo - 2, of_nat y)) =
      (of_nat m :: u32, of_nat z :: u32)"
  proof (cases "mo \<le> 2")
    case True
    then have "mo = 1 \<or> mo = 2" using assms(3) by linarith
    then show ?thesis using assms(1) by (auto simp: m_def z_def)
  next
    case False
    then obtain k where k: "mo = k + 2" "1 \<le> k" "k \<le> 10" using assms(4)
      by (intro that [of "mo - 2"]) simp_all
    then have "(of_nat mo :: u32) - 2 = of_nat k" "sint (of_nat k :: u32) = int k"
      by (simp_all add: signed_of_nat signed_take_bit_int_eq_self)
    with k False show ?thesis by (simp add: m_def z_def)
  qed
  define N where "N = z div 4 - z div 100 + z div 400 + (367 * m div 12 + d)"
  have "(of_nat z :: u32) div 4 - of_nat z div 100 + of_nat z div 400 + 367 * of_nat m div 12 + of_nat d =
      of_nat N"
  proof -
    have "z div 100 \<le> z div 4" by (rule div_le_mono2) simp_all
    then show ?thesis using dv [of z 4] dv [of z 100] dv [of z 400] dv [of "367 * m" 12] b by (simp add: N_def of_nat_diff)
  qed
  moreover have "N < 2 ^ 32"
  proof -
    have "z div 4 \<le> z" "z div 400 \<le> z" "367 * m div 12 \<le> 367 * m" by simp_all
    moreover have "z < 1048576" using b by simp
    ultimately have "z div 4 - z div 100 + z div 400 + (367 * m div 12 + d) < 4294967296" using b(1) assms(5) by linarith
    then show ?thesis by (simp add: N_def)
  qed
  ultimately have A: "ucast ((of_nat z :: u32) div 4 - of_nat z div 100 + of_nat z div 400 + 367 * of_nat m div 12 + of_nat d) =
      (of_nat N :: i64)" by (simp only: ucast_nat32)
  have B: "ucast ((of_nat z :: u32) * 365) = (of_nat (z * 365) :: i64)"
  proof -
    have "ucast (of_nat (z * 365) :: u32) = (of_nat (z * 365) :: i64)" using b by (intro ucast_nat32) simp
    then show ?thesis by simp
  qed
  show ?thesis unfolding mktime64_def Let_def p prod.case A B e [symmetric] N_def [symmetric] by simp
qed

section \<open>Properties\<close>

text \<open>C39: the heartbeat. When the monotonic clock reaches the next multiple of the tick, the wait ends, at
  the first reading that is not before that multiple: two heartbeats never fall into the same tick. The
  first heartbeat reports no time, every later one what the wall clock says has passed since the one
  before.\<close>

theorem heartbeat_next_tick:
  assumes "tick \<noteq> 0" and "m = monotonic (read_clocks clk i)" and "unat m + unat tick < 2 ^ 64" and "i \<le> j"
    and "(unat m div unat tick + 1) * unat tick \<le> unat (monotonic (read_clocks clk j))"
  shows "\<exists>k \<ge> i. heartbeat_next clk tick i hb = Some (read_clocks clk k, k,
      if realtime hb = 0 then 0 else realtime (read_clocks clk k) - realtime hb) \<and>
    unat m div unat tick < unat (monotonic (read_clocks clk k)) div unat tick \<and>
    (\<forall>l. i \<le> l \<and> l < k \<longrightarrow> unat (monotonic (read_clocks clk l)) < (unat m div unat tick + 1) * unat tick)"
proof -
  let ?n = "m - m mod tick + tick"
  note n = next_tick [OF assms(1,3)]
  have "?n \<le> monotonic (read_clocks clk j)" using assms(5) by (simp add: word_le_nat_alt n)
  from heartbeat_wait_ends [OF this assms(4)] obtain k where k: "i \<le> k"
    "heartbeat_wait clk ?n i (read_clocks clk i) = Some (read_clocks clk k, k)" "?n \<le> monotonic (read_clocks clk k)"
    "\<forall>l. i \<le> l \<and> l < k \<longrightarrow> monotonic (read_clocks clk l) < ?n" by blast
  have "0 < unat tick" using assms(1) by (simp add: unat_gt_0)
  then have "unat m div unat tick < unat (monotonic (read_clocks clk k)) div unat tick"
    using k(3) n by (simp add: word_le_nat_alt less_eq_div_iff_mult_less_eq Suc_le_eq [symmetric])
  with k assms(1,2) n show ?thesis
    by (intro exI [of _ k]) (auto simp: heartbeat_next_def Let_def word_less_nat_alt)
qed

text \<open>C40: the conversion of a date counts the calendar: for every valid date from 1970 on, \<^verbatim>\<open>mktime64\<close> gives
  the seconds that the years, the months (February with the leap day), the days and the time of day add
  up to.\<close>

theorem mktime64_correct:
  assumes "1970 \<le> y" and "y < 2 ^ 20" and "1 \<le> mo" and "mo \<le> 12" and "1 \<le> d" and "d \<le> month_days y mo"
    and "h < 24" and "mi < 60" and "s < 60"
  shows "sint (mktime64 (of_nat y) (of_nat mo) (of_nat d) (of_nat h) (of_nat mi) (of_nat s)) =
    int (epoch_seconds y mo d h mi s)"
proof -
  have d: "d \<le> 31" using assms(6) by (auto simp: month_days_def split: if_splits)
  have u: "uint (of_nat x :: u32) = int x" if "x < 60" for x
    using that by (simp add: unsigned_of_nat take_bit_nat_eq_self)
  let ?D = "(\<Sum>z = 1970..<y. year_days z) + (\<Sum>z = 1..<mo. month_days y z) + (d - 1)"
  have "mktime64 (of_nat y) (of_nat mo) (of_nat d) (of_nat h) (of_nat mi) (of_nat s) = of_int (int (epoch_seconds y mo d h mi s))"
    unfolding mktime64_days [OF assms(1-4) d]
  proof (rule arg_cong [where f = of_int])
    have "uint (of_nat h :: u32) = int h" "uint (of_nat mi :: u32) = int mi" "uint (of_nat s :: u32) = int s"
      using u assms(7-9) by simp_all
    then show "((day_count y mo d * 24 + uint (of_nat h :: u32)) * 60 + uint (of_nat mi :: u32)) * 60 + uint (of_nat s :: u32) =
        int (epoch_seconds y mo d h mi s)"
      unfolding day_count_correct [OF assms(1,3-5)] by (simp add: epoch_seconds_def)
  qed
  moreover have "epoch_seconds y mo d h mi s < 2 ^ 63"
  proof -
    have "(\<Sum>z = 1970..<y. year_days z) \<le> (\<Sum>z = 1970..<y. 366)" by (rule sum_mono) (simp add: year_days_def)
    then have "(\<Sum>z = 1970..<y. year_days z) \<le> 366 * y" by simp
    moreover have "(\<Sum>z = 1..<mo. month_days y z) \<le> (\<Sum>z = 1..<mo. 31)" by (rule sum_mono) (simp add: month_days_def)
    then have "(\<Sum>z = 1..<mo. month_days y z) \<le> 31 * 12" using assms(4) by simp
    moreover have "y < 1048576" using assms(2) by simp
    moreover define D where "D = ?D"
    ultimately have "D \<le> 366 * 1048576 + 31 * 12 + 31" using d unfolding D_def by linarith
    then have "D \<le> 383779219" by simp
    then have "D * 24 + h \<le> 9210701279" using assms(7) by linarith
    moreover have r: "x * 60 + z < a * 60 + 60" if "x \<le> a" "z < 60" for x z a :: nat using that by linarith
    ultimately have "(D * 24 + h) * 60 + mi \<le> 9210701280 * 60" using r [of "D * 24 + h" 9210701279 mi] assms(8) by simp
    then have "((D * 24 + h) * 60 + mi) * 60 + s < 40000000000000" using r [of "(D * 24 + h) * 60 + mi" "9210701280 * 60" s] assms(9) by simp
    then have "epoch_seconds y mo d h mi s < 40000000000000" unfolding epoch_seconds_def D_def .
    then show ?thesis by simp
  qed
  ultimately show ?thesis by (simp add: signed_of_nat signed_take_bit_int_eq_self)
qed

theorem mktime64_correct_witness: "sint (mktime64 2000 3 1 0 0 1) = int (epoch_seconds 2000 3 1 0 0 1)"
proof -
  have "sint (mktime64 (of_nat 2000) (of_nat 3) (of_nat 1) (of_nat 0) (of_nat 0) (of_nat 1)) = int (epoch_seconds 2000 3 1 0 0 1)"
    by (rule mktime64_correct) (simp_all add: month_days_def)
  then show ?thesis by simp
qed

theorem heartbeat_next_tick_witness:
  "\<exists>k \<ge> 0. heartbeat_next (\<lambda>i. (Some (of_nat i, 0), Some (7, 0))) 1000000 0 heartbeat_init =
     Some (read_clocks (\<lambda>i. (Some (of_nat i, 0), Some (7, 0))) k, k, 0)"
proof -
  let ?clk = "\<lambda>i. (Some (of_nat i :: u64, 0 :: u64), Some (7 :: u64, 0 :: u64))"
  have "\<exists>k \<ge> 0. heartbeat_next ?clk 1000000 0 heartbeat_init = Some (read_clocks ?clk k, k,
      if realtime heartbeat_init = 0 then 0 else realtime (read_clocks ?clk k) - realtime heartbeat_init) \<and>
    unat (0 :: u64) div unat (1000000 :: u64) < unat (monotonic (read_clocks ?clk k)) div unat (1000000 :: u64) \<and>
    (\<forall>l. 0 \<le> l \<and> l < k \<longrightarrow> unat (monotonic (read_clocks ?clk l)) <
      (unat (0 :: u64) div unat (1000000 :: u64) + 1) * unat (1000000 :: u64))"
    by (rule heartbeat_next_tick [where j = 1]) (simp_all add: read_clocks_def now_usec_def)
  then show ?thesis by (auto simp: heartbeat_init_def)
qed

end
