(* ===== verification/XM_AppPlugin.thy ===== *)
theory XM_AppPlugin
  imports XM_AppUsage XM_Clocks
begin

text \<open>
  \<^verbatim>\<open>collectors/application/plugin_apps.c\<close>: the thread that keeps the filter rules, the applications and the
  socket table up to date, each with its own period, and collects in every round. Here the rules, the
  applications, the processes and the sockets meet: the socket table that one part of a round fills is
  the one the file descriptors of the processes are looked up in. The clock and the exit flag, which
  another thread sets, are inputs of a round.
\<close>

record collector_appstat =
  update_every :: i32
  update_every_for_app :: i32
  update_every_for_filter_rules :: i32
  update_every_for_app_sock_diag :: i32
  last_update_for_app_usec :: u64
  last_update_for_filter_rules_usecs :: u64
  last_update_for_app_sock_diag_usecs :: u64

text \<open>The settings, with \<open>None\<close> for one that the configuration does not have.\<close>

definition appstat_collector_routine_init ::
  "(string \<Rightarrow> i32 option) \<Rightarrow> collector_appstat \<Rightarrow> collector_appstat" where
  "appstat_collector_routine_init appconfig c =
     (let get = (\<lambda>key def. case appconfig (''collector_plugin_appstatus.'' @ key) of None \<Rightarrow> def | Some v \<Rightarrow> v)
      in c\<lparr>update_every := get ''update_every'' 1, update_every_for_app := get ''update_every_for_app'' 10,
           update_every_for_filter_rules := get ''update_every_for_filter_rules'' 60,
           update_every_for_app_sock_diag := get ''update_every_for_app_sock_diag'' 3,
           last_update_for_app_usec := 0, last_update_for_filter_rules_usecs := 0\<rparr>)"

record ('h, 'g) app_plugin =
  collector :: collector_appstat
  afr :: app_filter_rules
  apps :: "'h apps_state"
  socks :: "'g sock_info_mgr"

text \<open>What a round meets: the clock, the values of the exit flag at the places where it is read, the
  configuration, the state of the system and the files of \<^verbatim>\<open>/proc/net\<close>.\<close>

record round_env =
  now_usecs :: u64
  exit_flag :: "nat \<Rightarrow> bool"
  new_rules :: "app_filter_rules option option"
  sys_env :: apps_env
  net_files :: "SOCK_TYPE \<Rightarrow> file_io"

text \<open>\<^verbatim>\<open>find_sock_info\<close>, as the collector of file descriptors uses it.\<close>

definition find_sock :: "'g lfht \<Rightarrow> 'g sock_info_mgr \<Rightarrow> u32 \<Rightarrow> sock_info option" where
  "find_sock H m i =
     (case find_sock_info_i H m i (Some \<lparr>ino = 0, sock_type = ST_UNKNOWN, sock_state = 0\<rparr>) of
        (r, res) \<Rightarrow> if r = 0 then res else None)"

section \<open>A round\<close>

definition round_rules :: "round_env \<Rightarrow> ('h, 'g) app_plugin \<Rightarrow> ('h, 'g) app_plugin option" where
  "round_rules e p =
     (let c = collector p
      in if \<not> exit_flag e 0 \<and>
            step_usecs (update_every_for_filter_rules c) \<le> now_usecs e - last_update_for_filter_rules_usecs c
         then map_option
                (\<lambda>tmp_afr. p\<lparr>afr := (case tmp_afr of Some r \<Rightarrow> r | None \<Rightarrow> afr p),
                             collector := c\<lparr>last_update_for_filter_rules_usecs := now_usecs e\<rparr>\<rparr>)
                (new_rules e)
         else Some p)"

definition round_apps :: "'h cc_table \<Rightarrow> round_env \<Rightarrow> ('h, 'g) app_plugin \<Rightarrow> ('h, 'g) app_plugin option" where
  "round_apps T e p =
     (let c = collector p
      in if \<not> exit_flag e 1 \<and> 0 < sint (rule_count (afr p)) \<and>
            step_usecs (update_every_for_app c) \<le> now_usecs e - last_update_for_app_usec c
         then map_option
                (\<lambda>((afr', s'), r). p\<lparr>afr := afr', apps := s',
                                     collector := c\<lparr>last_update_for_app_usec := now_usecs e\<rparr>\<rparr>)
                (update_app_collection T (sys_env e) (clean_filter_rules (afr p), apps p))
         else Some p)"

definition round_socks ::
  "'g lfht \<Rightarrow> (mempool \<Rightarrow> nat option) \<Rightarrow> round_env \<Rightarrow> ('h, 'g) app_plugin \<Rightarrow> ('h, 'g) app_plugin option" where
  "round_socks H mem e p =
     (let c = collector p
      in if \<not> exit_flag e 2 \<and>
            step_usecs (update_every_for_app_sock_diag c) \<le> now_usecs e - last_update_for_app_sock_diag_usecs c
         then map_option
                (\<lambda>m. p\<lparr>socks := m, collector := c\<lparr>last_update_for_app_sock_diag_usecs := now_usecs e\<rparr>\<rparr>)
                (collect_socks_info_i H mem (net_files e) (socks p))
         else Some p)"

definition round_collect ::
  "'h cc_table \<Rightarrow> 'g lfht \<Rightarrow> round_env \<Rightarrow> ('h, 'g) app_plugin \<Rightarrow>
   (('h, 'g) app_plugin \<times> (app_metric \<times> int \<times> string list) list) option" where
  "round_collect T H e p =
     (if \<not> exit_flag e 3 \<and> 0 < sint (rule_count (afr p))
      then map_option (\<lambda>(s', ms, r). (p\<lparr>apps := s'\<rparr>, ms))
             (collecting_apps_usage T ((sys_env e)\<lparr>env_find_sock := find_sock H (socks p)\<rparr>) (apps p))
      else Some (p, []))"

text \<open>The body of the loop: the state behind it and the values given to the gauges.\<close>

definition appstat_round ::
  "'h cc_table \<Rightarrow> 'g lfht \<Rightarrow> (mempool \<Rightarrow> nat option) \<Rightarrow> round_env \<Rightarrow> ('h, 'g) app_plugin \<Rightarrow>
   (('h, 'g) app_plugin \<times> (app_metric \<times> int \<times> string list) list) option" where
  "appstat_round T H mem e p =
     (case round_rules e p of
        None \<Rightarrow> None
      | Some p1 \<Rightarrow>
          (case round_apps T e p1 of
             None \<Rightarrow> None
           | Some p2 \<Rightarrow>
               (case round_socks H mem e p2 of
                  None \<Rightarrow> None
                | Some p3 \<Rightarrow> round_collect T H e p3)))"

section \<open>The life of the thread\<close>

text \<open>A round in a sane system: the pool hands out unused units, the new rules come from
  \<open>create_filter_rules\<close>, and the files of \<^verbatim>\<open>/proc/net\<close> can be read and list a socket once.\<close>

definition round_env_ok :: "round_env \<Rightarrow> (SOCK_TYPE \<Rightarrow> string) \<Rightarrow> bool" where
  "round_env_ok e c \<longleftrightarrow> as_unit_ok (sys_env e) \<and>
     (\<forall>r. new_rules e = Some (Some r) \<longrightarrow> (\<exists>compile files a b cs. create_filter_rules compile files a b cs = Some (Some r))) \<and>
     (\<forall>ty. io_file (net_files e ty) (c ty)) \<and> distinct (map ino (all_sock_rows c))"

inductive appstat_reachable ::
  "'h cc_table \<Rightarrow> 'g lfht \<Rightarrow> (mempool \<Rightarrow> nat option) \<Rightarrow> ('h, 'g) app_plugin \<Rightarrow> bool" for T H mem where
  start: "app_list (apps p) = [] \<Longrightarrow> cc_keys T (assoc_tab (apps p)) = [] \<Longrightarrow> sock_reachable H mem (socks p) \<Longrightarrow>
    create_filter_rules compile files a b cs = Some (Some (afr p)) \<Longrightarrow> appstat_reachable T H mem p"
| round: "appstat_reachable T H mem p \<Longrightarrow> round_env_ok e c \<Longrightarrow> appstat_round T H mem e p = Some (p', ms) \<Longrightarrow>
    appstat_reachable T H mem p'"
| callback: "appstat_reachable T H mem p \<Longrightarrow> rcu_calls (socks p) = a # as \<Longrightarrow>
    free_sock_info_node (socks p) a = Some m \<Longrightarrow> appstat_reachable T H mem (p\<lparr>socks := m\<lparr>rcu_calls := as\<rparr>\<rparr>)"

section \<open>Names of rules\<close>

text \<open>The rules are made by \<^verbatim>\<open>__fill_filter_rule\<close> only, which copies the name into a buffer.\<close>

definition name_fits :: "app_process_filter_rule \<Rightarrow> bool" where
  "name_fits r \<longleftrightarrow> NUL \<notin> set (rule_app_name r) \<and> length (rule_app_name r) < XM_APP_NAME_SIZE"

lemma names_ok_alt: "names_ok rules \<longleftrightarrow> list_all name_fits (rule_list rules)"
  by (simp add: names_ok_def name_fits_def list_all_iff)

lemma add_keys_name: "add_keys room ks rule = Some rule' \<Longrightarrow> rule_app_name rule' = rule_app_name rule"
  by (induction room ks rule rule: add_keys.induct) (auto split: if_splits)

lemma fill_name_fits:
  assumes "fill_filter_rule match a b enable content ty i kw bind = Some (Some r)"
  shows "name_fits r"
proof -
  have "\<exists>v. rule_app_name r = strlcpy_str v XM_APP_NAME_SIZE"
    using assms by (auto simp: fill_filter_rule_def Let_def dest!: add_keys_name split: prod.splits if_splits option.splits)
  moreover have "0 < XM_APP_NAME_SIZE" by (simp add: XM_APP_NAME_SIZE_def)
  ultimately show ?thesis by (auto simp: name_fits_def strlcpy_str_fits) (simp add: strlcpy_str_def)
qed

lemma add_contents_names:
  assumes "\<And>c r. fill c = Some (Some r) \<Longrightarrow> name_fits r" and "names_ok rules" and "add_contents fill cs rules = Some rules'"
  shows "names_ok rules'"
  using assms(2,3)
proof (induction cs arbitrary: rules)
  case (Cons c cs)
  then obtain r where r: "fill c = Some r" "add_contents fill cs (add_rule r rules) = Some rules'"
    by (auto split: option.splits)
  have "names_ok (add_rule r rules)"
    using Cons.prems(1) assms(1) r(1) by (auto simp: add_rule_def names_ok_alt split: option.split)
  with Cons.IH r(2) show ?case by blast
qed simp

lemma add_sources_names:
  assumes "\<And>c r. fill c = Some (Some r) \<Longrightarrow> name_fits r" and "names_ok rules" and "add_sources files fill ss rules = Some rules'"
  shows "names_ok rules'"
  using assms(2,3)
proof (induction ss arbitrary: rules)
  case (Cons s ss)
  then obtain r where r: "add_contents fill (source_contents files s) rules = Some r"
    "add_sources files fill ss r = Some rules'" by (auto split: option.splits)
  have "names_ok r" by (rule add_contents_names [OF _ Cons.prems(1) r(1)]) (rule assms(1))
  with Cons.IH r(2) show ?case by blast
qed simp

lemma generate_names:
  assumes "names_ok rules"
    and "generate_filter_rules compile files a b enable src ty pat i kw bind rules = Some (rules', n)"
  shows "names_ok rules'"
proof -
  have "rules' = rules \<or> (\<exists>match srcs. add_sources files
      (\<lambda>content. fill_filter_rule match a b enable content ty i kw bind) srcs rules = Some rules')"
    using assms(2) by (auto simp: generate_filter_rules_def split: option.splits if_splits)
  moreover have "names_ok rules'" if "add_sources files
      (\<lambda>content. fill_filter_rule match a b enable content ty i kw bind) srcs rules = Some rules'" for match srcs
    by (rule add_sources_names [OF _ assms(1) that]) (rule fill_name_fits)
  ultimately show ?thesis using assms(1) by blast
qed

lemma add_elems_names:
  assumes "names_ok rules" and "add_elems compile files a b es rules = Some (Inr rules')"
  shows "names_ok rules'"
  using assms
proof (induction compile files a b es rules rule: add_elems.induct)
  case (3 compile files a b e es rules)
  then obtain rules1 where r: "add_elem compile files a b e rules = Some rules1"
    "add_elems compile files a b es rules1 = Some (Inr rules')" by (auto split: option.splits)
  have "names_ok rules1"
    using r(1) 3(2) by (auto simp: add_elem_def dest: generate_names split: if_splits option.splits)
  with 3(1) r show ?case by blast
qed auto

lemma create_names: "create_filter_rules compile files a b cs = Some (Some rules) \<Longrightarrow> names_ok rules"
  by (auto simp: create_filter_rules_def names_ok_def split: option.splits if_splits sum.splits
      dest!: add_elems_names [rotated])

lemma clean_names: "names_ok rules \<Longrightarrow> names_ok (clean_filter_rules rules)"
  by (auto simp: names_ok_def clean_filter_rules_def)

section \<open>The parts together\<close>

lemma appstat_roundE:
  assumes "appstat_round T H mem e p = Some (p', ms)"
  obtains p1 p2 p3 where "round_rules e p = Some p1" and "round_apps T e p1 = Some p2"
    and "round_socks H mem e p2 = Some p3" and "round_collect T H e p3 = Some (p', ms)"
  using assms by (auto simp: appstat_round_def split: option.splits)

definition plugin_ok :: "'h cc_table \<Rightarrow> 'g lfht \<Rightarrow> (mempool \<Rightarrow> nat option) \<Rightarrow> ('h, 'g) app_plugin \<Rightarrow> bool" where
  "plugin_ok T H mem p \<longleftrightarrow> apps_reachable T (apps p) \<and> sock_reachable H mem (socks p) \<and> names_ok (afr p)"

lemma round_rules_ok:
  assumes "plugin_ok T H mem p" and "round_env_ok e c" and "round_rules e p = Some p'"
  shows "plugin_ok T H mem p' \<and> socks p' = socks p \<and> apps p' = apps p \<and>
    update_every_for_app_sock_diag (collector p') = update_every_for_app_sock_diag (collector p) \<and>
    last_update_for_app_sock_diag_usecs (collector p') = last_update_for_app_sock_diag_usecs (collector p)"
proof -
  have "names_ok r" if "new_rules e = Some (Some r)" for r
    using assms(2) that create_names unfolding round_env_ok_def by blast
  with assms(1,3) show ?thesis
    by (auto simp: round_rules_def plugin_ok_def Let_def split: if_splits option.splits)
qed

lemma round_apps_ok:
  assumes "cc_spec T" and "plugin_ok T H mem p" and "round_env_ok e c" and "round_apps T e p = Some p'"
  shows "plugin_ok T H mem p' \<and> socks p' = socks p \<and>
    update_every_for_app_sock_diag (collector p') = update_every_for_app_sock_diag (collector p) \<and>
    last_update_for_app_sock_diag_usecs (collector p') = last_update_for_app_sock_diag_usecs (collector p)"
proof -
  have u: "apps_reachable T s' \<and> names_ok a'"
    if "update_app_collection T (sys_env e) (clean_filter_rules (afr p), apps p) = Some ((a', s'), r)" for a' s' r
  proof -
    have e: "as_unit_ok (sys_env e)" using assms(3) by (simp add: round_env_ok_def)
    have s: "apps_reachable T (apps p)" "names_ok (clean_filter_rules (afr p))"
      using assms(2) clean_names by (auto simp: plugin_ok_def)
    from apps_reachable.update_collection [OF s(1) e s(2) that]
      update_app_collection_ok [OF assms(1) e reachable_inv [OF assms(1) s(1)] s(2) that] show ?thesis by blast
  qed
  from assms(2,4) u show ?thesis
    by (auto simp: round_apps_def plugin_ok_def Let_def split: if_splits)
qed

lemma round_socks_ok:
  assumes "plugin_ok T H mem p" and "round_env_ok e c" and "round_socks H mem e p = Some p'"
  shows "plugin_ok T H mem p' \<and> apps p' = apps p \<and> afr p' = afr p"
proof -
  have "sock_reachable H mem m" if "collect_socks_info_i H mem (net_files e) (socks p) = Some m" for m
    using sock_reachable.reach_collect [OF _ _ _ that, of c] assms(1,2) by (auto simp: plugin_ok_def round_env_ok_def)
  with assms(1,3) show ?thesis by (auto simp: round_socks_def plugin_ok_def Let_def split: if_splits)
qed

lemma round_collect_ok:
  assumes "plugin_ok T H mem p" and "round_collect T H e p = Some (p', ms)"
  shows "plugin_ok T H mem p'"
proof -
  have "apps_reachable T s'" if "collecting_apps_usage T e' (apps p) = Some (s', m, r)" for e' s' m r
    using apps_reachable.collect [OF _ that] assms(1) by (simp add: plugin_ok_def)
  with assms show ?thesis by (auto simp: round_collect_def plugin_ok_def split: if_splits)
qed

lemma appstat_reachable_ok:
  assumes "cc_spec T" and "appstat_reachable T H mem p"
  shows "plugin_ok T H mem p"
  using assms(2)
proof induction
  case (start p compile files a b cs)
  then show ?case by (auto simp: plugin_ok_def create_names intro: apps_reachable.init)
next
  case (round p e c p' ms)
  obtain p1 p2 p3 where r: "round_rules e p = Some p1" "round_apps T e p1 = Some p2"
    "round_socks H mem e p2 = Some p3" "round_collect T H e p3 = Some (p', ms)"
    by (rule appstat_roundE [OF round(3)])
  have "plugin_ok T H mem p1" using round_rules_ok [OF round.IH round(2) r(1)] by blast
  then have "plugin_ok T H mem p2" using round_apps_ok [OF assms(1) _ round(2) r(2)] by blast
  then have "plugin_ok T H mem p3" using round_socks_ok [OF _ round(2) r(3)] by blast
  then show ?case by (rule round_collect_ok [OF _ r(4)])
next
  case (callback p a as m)
  then show ?case using sock_reachable.reach_callback [of H mem "socks p"] by (auto simp: plugin_ok_def)
qed

text \<open>The socket table after its part of a round.\<close>

definition row_of :: "sock_info list \<Rightarrow> u32 \<Rightarrow> sock_info option" where
  "row_of rows = map_of (map (\<lambda>i. (ino i, i)) rows)"

lemma find_sock_rows:
  assumes "lfht_spec H" and "memory_ok mem" and "sock_reachable H mem m" and "\<forall>ty. io_file (io ty) (c ty)"
    and "distinct (map ino (all_sock_rows c))" and "collect_socks_info_i H mem io m = Some m'"
  shows "find_sock H m' = row_of (all_sock_rows c)"
proof
  fix k
  have ok: "sock_inv H m" "counters_one (sock_table H m)" using sock_reachable_ok [OF assms(1-3)] by auto
  obtain m1 where "collect_socks_info_i H mem io m = Some m1" "sock_table H m1 = sock_round c (sock_table H m)"
    by (rule collect_socks_ok [OF assms(1,2) ok(1) assms(4)])
  with assms(6) have t: "sock_table H m' = sock_round c (sock_table H m)" by simp
  note l = sock_round_listed [OF ok(2) assms(5)] and u = sock_round_unlisted [OF ok(2)]
  show "find_sock H m' k = row_of (all_sock_rows c) k"
  proof (cases "k \<in> ino ` set (all_sock_rows c)")
    case True
    then obtain i where i: "i \<in> set (all_sock_rows c)" "k = ino i" by blast
    have "distinct (map fst (map (\<lambda>i. (ino i, i)) (all_sock_rows c)))" using assms(5) by (simp add: comp_def)
    with i have "row_of (all_sock_rows c) k = Some i" by (auto simp: row_of_def map_of_eq_Some_iff)
    with i l [OF i(1)] show ?thesis by (simp add: find_sock_def find_sock_info_table t)
  next
    case False
    then have "row_of (all_sock_rows c) k = None" by (auto simp: row_of_def map_of_eq_None_iff image_image)
    with u [OF False] show ?thesis by (simp add: find_sock_def find_sock_info_table t)
  qed
qed

section \<open>Property\<close>

text \<open>C5: in a round that refreshes the socket table, every socket counter of an application (but the one of
  the established TCP sockets of version 6) is the number of open sockets of the processes that
  belong to it which \<^verbatim>\<open>/proc/net\<close> lists with the type and the state of the counter, modulo 65536. This
  holds after any number of earlier rounds, in every state of the rules, the applications and the
  table.\<close>

theorem appstat_sockets:
  assumes T: "cc_spec T" and H: "lfht_spec H" and mem: "memory_ok mem" and p: "appstat_reachable T H mem p"
    and e: "round_env_ok e c" and flag: "\<not> exit_flag e 2" "\<not> exit_flag e 3"
    and due: "step_usecs (update_every_for_app_sock_diag (collector p))
        \<le> now_usecs e - last_update_for_app_sock_diag_usecs (collector p)"
    and fds: "\<And>k. pe_fds (env_proc (sys_env e) k) = Some (dots k @ map fd_entry (fds k))"
      "\<And>k. list_all is_dot (dots k)" "\<And>k. list_all fd_kind_ok (map snd (fds k))"
    and rnd: "appstat_round T H mem e p = Some (p', ms)" and rules: "0 < sint (rule_count (afr p'))"
    and a: "a \<in> set (app_list (apps p'))"
    and sel: "(sel, ty, ss) \<in> set sock_counters" "(ty, ss) \<noteq> (ST_TCP6, SS_ESTABLISHED)"
  shows "\<exists>ks. distinct ks \<and> set ks = {k. cc_has T (assoc_tab (apps p')) k \<and> as_target (assoc_mem (apps p') k) = a} \<and>
    sel (as_sst (app_mem (apps p') a)) =
      of_nat (length (filter (\<lambda>i. sock_type i = ty \<and> sock_state i = ss)
        (concat (map (\<lambda>k. fd_socks (row_of (all_sock_rows c)) (map snd (fds k))) ks))))"
proof -
  obtain p1 p2 p3 where r: "round_rules e p = Some p1" "round_apps T e p1 = Some p2"
    "round_socks H mem e p2 = Some p3" "round_collect T H e p3 = Some (p', ms)"
    by (rule appstat_roundE [OF rnd])
  note ok1 = round_rules_ok [OF appstat_reachable_ok [OF T p] e r(1)]
  note ok2 = round_apps_ok [OF T conjunct1 [OF ok1] e r(2)]
  note ok3 = round_socks_ok [OF conjunct1 [OF ok2] e r(3)]
  let ?f = "row_of (all_sock_rows c)" and ?e = "(sys_env e)\<lparr>env_find_sock := find_sock H (socks p3)\<rparr>"
  have cs: "collect_socks_info_i H mem (net_files e) (socks p2) = Some (socks p3)"
    using r(3) flag(1) due ok1 ok2 by (auto simp: round_socks_def Let_def)
  have "sock_reachable H mem (socks p2)" "\<forall>ty. io_file (net_files e ty) (c ty)" "distinct (map ino (all_sock_rows c))"
    using ok2 e by (auto simp: plugin_ok_def round_env_ok_def)
  then have f: "find_sock H (socks p3) = ?f" by (rule find_sock_rows [OF H mem _ _ _ cs])
  have "afr p' = afr p3" using r(4) by (auto simp: round_collect_def split: if_splits)
  with r(4) flag(2) rules obtain x where c: "collecting_apps_usage T ?e (apps p3) = Some (apps p', ms, x)"
    by (auto simp: round_collect_def)
  have inv: "apps_inv T (apps p3)" using ok3 reachable_inv [OF T] by (auto simp: plugin_ok_def)
  note rk = round_ok [OF T inv c]
  let ?all = "filter (\<lambda>k. as_target (assoc_mem (apps p3) k) = a) (cc_keys T (assoc_tab (apps p3)))"
  let ?ks = "filter (\<lambda>k. usage ?e (apps p3) k \<noteq> None) ?all"
  have "distinct ?ks" using cc_specD(3) [OF T] by simp
  moreover have "set ?ks = {k. cc_has T (assoc_tab (apps p')) k \<and> as_target (assoc_mem (apps p') k) = a}"
    using cc_specD(4) [OF T] rk(3,6) by auto
  moreover have "sel (as_sst (app_mem (apps p') a)) = sum_list (map (\<lambda>ps. sel (ps_sst ps)) (List.map_filter (usage ?e (apps p3)) ?all))"
  proof -
    obtain n where "app_mem (apps p') a = (fold gather_process (List.map_filter (usage ?e (apps p3)) ?all)
        (zero_appstatus (app_mem (apps p3) a)))\<lparr>process_count := n\<rparr>"
      using rk(5) [OF a] unfolding app_usage_def by blast
    moreover have "sel (as_sst (zero_appstatus as)) = 0" for as
      using sel(1) by (auto simp: zero_appstatus_def sock_counters_def sst_zero_def)
    ultimately show ?thesis
      using fold_gather_sum [of "\<lambda>as. sel (as_sst as)" "\<lambda>ps. sel (ps_sst ps)", OF gather_sock_counter [OF sel]] by simp
  qed
  moreover have "sel (ps_sst ps) = of_nat (length (filter (\<lambda>i. sock_type i = ty \<and> sock_state i = ss) (fd_socks ?f (map snd (fds k)))))"
    if "usage ?e (apps p3) k = Some ps" for k ps
  proof -
    have "ps_sst ps = fold count_sock (fd_socks ?f (map snd (fds k))) sst_zero"
      using usage_socks [OF that _ fds(2,3), of k k] fds(1) f by simp
    moreover have "sel sst_zero = 0" using sel(1) by (auto simp: sock_counters_def sst_zero_def)
    ultimately show ?thesis using fold_count_sock [OF sel(1)] by simp
  qed
  then have "sum_list (map (\<lambda>ps. sel (ps_sst ps)) (List.map_filter (usage ?e (apps p3)) ?all)) =
      of_nat (length (filter (\<lambda>i. sock_type i = ty \<and> sock_state i = ss) (concat (map (\<lambda>k. fd_socks ?f (map snd (fds k))) ?ks))))"
    by (intro sum_usage)
  ultimately show ?thesis by (intro exI [of _ ?ks] conjI) simp_all
qed

section \<open>Example\<close>

definition example_match :: pcre where
  "example_match s = (if length s = 2 then (3, [(0, 2), (0, 2), (0, 1)]) else (- 1, []))"

definition example_config :: "config_elem option list option" where
  "example_config =
     Some [Some \<lparr>elem_name = ''app_x'', elem_is_group = True, elem_enable = Some 1, elem_type = Some ''t'',
       elem_filter_sources = Some ''sh'', elem_filter_regex_pattern = Some ''p'',
       elem_additional_filter_keywords = Some ''-x'', elem_appname_match_index = Some 1,
       elem_app_bind_process_type = Some ''x''\<rparr>]"

lemma example_rules_created:
  "create_filter_rules (\<lambda>_. Some example_match) (\<lambda>_. None) True True example_config = Some (Some example_rules)"
  by code_simp

definition example_plugin :: "(pid list, (u32 \<times> nat) list) app_plugin" where
  "example_plugin =
     \<lparr>collector = appstat_collector_routine_init (\<lambda>_. None)
        \<lparr>update_every = 0, update_every_for_app = 0, update_every_for_filter_rules = 0,
         update_every_for_app_sock_diag = 0, last_update_for_app_usec = 0, last_update_for_filter_rules_usecs = 0,
         last_update_for_app_sock_diag_usecs = 0\<rparr>,
      afr = example_rules, apps = example_start, socks = sock_example\<rparr>"

definition example_round :: round_env where
  "example_round =
     \<lparr>now_usecs = 20000000, exit_flag = (\<lambda>_. False), new_rules = Some None, sys_env = example_env,
      net_files = (\<lambda>ty. file_of (tcp_files (tcp_header @ tcp_line) ty))\<rparr>"

lemma example_plugin_reachable: "appstat_reachable list_table alist_table top_memory example_plugin"
proof (rule appstat_reachable.start)
  show "create_filter_rules (\<lambda>_. Some example_match) (\<lambda>_. None) True True example_config = Some (Some (afr example_plugin))"
    using example_rules_created by (simp add: example_plugin_def)
qed (simp_all add: example_plugin_def example_start_def list_table_def sock_example_reachable)

lemma example_net:
  "\<forall>ty. io_file (net_files example_round ty) (tcp_files (tcp_header @ tcp_line) ty)"
  "distinct (map ino (all_sock_rows (tcp_files (tcp_header @ tcp_line))))"
proof -
  have "NUL \<notin> set (tcp_header @ tcp_line)" by (simp add: tcp_texts)
  from io_tcp [OF this] show "\<forall>ty. io_file (net_files example_round ty) (tcp_files (tcp_header @ tcp_line) ty)"
    by (simp add: example_round_def)
  show "distinct (map ino (all_sock_rows (tcp_files (tcp_header @ tcp_line))))" by (simp add: all_rows_tcp tcp_rows_1)
qed

lemma example_round_ok: "round_env_ok example_round (tcp_files (tcp_header @ tcp_line))"
  using example_net example_env_ok by (simp add: round_env_ok_def example_round_def)

lemma example_round_result:
  obtains p' ms where "appstat_round list_table alist_table top_memory example_round example_plugin = Some (p', ms)"
    and "apps p' = example_collected" and "rule_count (afr p') = 1"
proof -
  let ?p = example_plugin and ?e = example_round
  obtain rules r where u: "update_app_collection list_table example_env (example_rules, example_start) = Some ((rules, example_updated), r)"
    "rule_count rules = 1" by (rule example_update)
  have cl: "clean_filter_rules example_rules = example_rules"
    by (simp add: clean_filter_rules_def example_rules_def example_rule_def)
  have r1: "round_rules ?e ?p = Some ?p"
    by (simp add: round_rules_def example_round_def example_plugin_def appstat_collector_routine_init_def step_usecs_def
        USEC_PER_SEC_def Let_def)
  define p2 where "p2 = ?p\<lparr>afr := rules, apps := example_updated,
      collector := (collector ?p)\<lparr>last_update_for_app_usec := now_usecs ?e\<rparr>\<rparr>"
  have r2: "round_apps list_table ?e ?p = Some p2"
    using u cl by (simp add: round_apps_def p2_def example_round_def example_plugin_def appstat_collector_routine_init_def
        step_usecs_def USEC_PER_SEC_def Let_def example_rules_def)
  have inv: "sock_inv alist_table sock_example"
    using sock_reachable_ok [OF alist_table_spec top_memory_ok sock_example_reachable] by blast
  obtain m where m: "collect_socks_info_i alist_table top_memory (net_files ?e) sock_example = Some m"
    by (rule collect_socks_ok [OF alist_table_spec top_memory_ok inv example_net(1)]) (rule that)
  define p3 where "p3 = p2\<lparr>socks := m, collector := (collector p2)\<lparr>last_update_for_app_sock_diag_usecs := now_usecs ?e\<rparr>\<rparr>"
  have r3: "round_socks alist_table top_memory ?e p2 = Some p3"
    using m by (simp add: round_socks_def p3_def p2_def example_round_def example_plugin_def
        appstat_collector_routine_init_def step_usecs_def USEC_PER_SEC_def Let_def)
  have "find_sock alist_table m = row_of (all_sock_rows (tcp_files (tcp_header @ tcp_line)))"
    by (rule find_sock_rows [OF alist_table_spec top_memory_ok sock_example_reachable example_net m])
  then have "find_sock alist_table (socks p3) = env_find_sock example_env"
    by (auto simp: p3_def row_of_def all_rows_tcp tcp_rows_1 example_env_def)
  then have "round_collect list_table alist_table ?e p3 = Some (p3\<lparr>apps := example_collected\<rparr>, set_apps_metrics example_collected)"
    using example_collected_state(1) u(2) by (simp add: round_collect_def example_round_def p3_def p2_def)
  with r1 r2 r3 show ?thesis using u(2)
    by (intro that [of "p3\<lparr>apps := example_collected\<rparr>" "set_apps_metrics example_collected"])
      (simp_all add: appstat_round_def p3_def p2_def)
qed

theorem appstat_sockets_witness:
  "tcp_established (as_sst (app_mem example_collected 1)) = 1"
proof -
  obtain p' ms where r: "appstat_round list_table alist_table top_memory example_round example_plugin = Some (p', ms)"
    "apps p' = example_collected" "rule_count (afr p') = 1" by (rule example_round_result)
  have due: "step_usecs (update_every_for_app_sock_diag (collector example_plugin))
      \<le> now_usecs example_round - last_update_for_app_sock_diag_usecs (collector example_plugin)"
    by (simp add: example_plugin_def example_round_def appstat_collector_routine_init_def step_usecs_def USEC_PER_SEC_def Let_def)
  have flags: "\<not> exit_flag example_round 2" "\<not> exit_flag example_round 3" by (simp_all add: example_round_def)
  have sel: "(tcp_established, ST_TCP, SS_ESTABLISHED) \<in> set sock_counters" "(ST_TCP, SS_ESTABLISHED) \<noteq> (ST_TCP6, SS_ESTABLISHED)"
    by (simp_all add: sock_counters_def)
  have "\<exists>ks. distinct ks \<and>
      set ks = {k. cc_has list_table (assoc_tab (apps p')) k \<and> as_target (assoc_mem (apps p') k) = 1} \<and>
      tcp_established (as_sst (app_mem (apps p') 1)) =
        of_nat (length (filter (\<lambda>i. sock_type i = ST_TCP \<and> sock_state i = SS_ESTABLISHED)
          (concat (map (\<lambda>k. fd_socks (row_of (all_sock_rows (tcp_files (tcp_header @ tcp_line)))) (map snd [(3::nat, Fd_sock 7)])) ks))))"
    by (rule appstat_sockets [OF list_table_spec alist_table_spec top_memory_ok example_plugin_reachable example_round_ok
          flags due _ _ _ r(1) _ _ sel, where dots = "\<lambda>_. []" and fds = "\<lambda>_. [(3, Fd_sock 7)]"])
      (simp_all add: r example_collected_state example_round_def example_env_def example_proc_def del: One_nat_def)
  then obtain ks where ks: "distinct ks"
    "set ks = {k. cc_has list_table (assoc_tab example_collected) k \<and> as_target (assoc_mem example_collected k) = 1}"
    "tcp_established (as_sst (app_mem example_collected 1)) = of_nat (length (filter (\<lambda>i. sock_type i = ST_TCP \<and> sock_state i = SS_ESTABLISHED)
      (concat (map (\<lambda>k. fd_socks (row_of (all_sock_rows (tcp_files (tcp_header @ tcp_line)))) (map snd [(3::nat, Fd_sock 7)])) ks))))"
    by (auto simp: r(2))
  have "set ks = {7}" using ks(2) example_collected_members by simp
  moreover have "length ks = 1" using ks(1) calculation distinct_card by fastforce
  ultimately have "ks = [7]" by (cases ks) auto
  with ks(3) show ?thesis by (simp add: row_of_def all_rows_tcp tcp_rows_1 SS_ESTABLISHED_def)
qed

end
