(* ===== verification/XM_Cgroups.thy ===== *)
theory XM_Cgroups
  imports XM_Strings XM_Pattern
begin

text \<open>
  \<^verbatim>\<open>plugin_cgroups\<close>: the objects that stand for the control groups of the system
  (\<^verbatim>\<open>cgroups_mgr.c\<close>), the kind of hierarchy (\<^verbatim>\<open>cgroups_utils.c\<close>), the settings of the plugin
  (\<^verbatim>\<open>plugin_cgroups.c\<close>) and the listener for memory pressure (\<^verbatim>\<open>cgroups_subsys_memory.c\<close>). An object is
  known by its address: \<open>cg_mem\<close> has the allocated ones. One thread discovers the groups and publishes
  the list of objects that another thread collects from; the steps of both, with the mutex and the
  condition variable, are the relation \<open>cg_step\<close>. The directories, the memory, the metrics registry and
  the configuration are arguments.
\<close>

datatype cgroups_type = CGROUPS_FAILED | CGROUPS_V1 | CGROUPS_V2

section \<open>The kind of hierarchy\<close>

text \<open>What a command prints, line by line, and whether its end was clean; \<open>None\<close>: it could not be started.\<close>

type_synonym command = "(string list \<times> bool) option"

fun scan_hierarchy :: "string list \<Rightarrow> cgroups_type \<Rightarrow> cgroups_type" where
  "scan_hierarchy [] ty = ty"
| "scan_hierarchy (l # ls) ty =
     (if strstr l ''default-hierarchy=legacy'' \<noteq> None \<or> strstr l ''default-hierarchy=hybrid'' \<noteq> None then CGROUPS_V1
      else if strstr l ''default-hierarchy=unified'' \<noteq> None then CGROUPS_V2
      else scan_hierarchy ls ty)"

text \<open>The global \<^verbatim>\<open>cg_type\<close> afterwards and the value returned; \<open>cmdline\<close> is the text of \<^verbatim>\<open>/proc/cmdline\<close>,
  \<open>None\<close> if it cannot be read or is empty.\<close>

definition get_cgroups_type ::
  "command \<Rightarrow> command \<Rightarrow> string option \<Rightarrow> cgroups_type \<Rightarrow> cgroups_type \<times> cgroups_type" where
  "get_cgroups_type filesystems systemctl cmdline ty =
     (case filesystems of
        None \<Rightarrow> (ty, CGROUPS_FAILED)
      | Some (ls, ok) \<Rightarrow>
          if \<not> ok then (ty, CGROUPS_FAILED)
          else if \<not> list_ex (\<lambda>l. strstr l ''cgroup2'' \<noteq> None) ls then (CGROUPS_V1, CGROUPS_V1)
          else (case systemctl of
                  None \<Rightarrow> (ty, CGROUPS_FAILED)
                | Some (ls', ok') \<Rightarrow>
                    let t1 = scan_hierarchy ls' ty
                    in if \<not> ok' then (CGROUPS_FAILED, CGROUPS_FAILED)
                       else if t1 = CGROUPS_V1 then (t1, CGROUPS_V1)
                       else let t2 = (case cmdline of
                                        None \<Rightarrow> t1
                                      | Some b \<Rightarrow>
                                          if strstr b ''systemd.unified_cgroup_hierarchy=0'' \<noteq> None then CGROUPS_V1
                                          else if strstr b ''systemd.unified_cgroup_hierarchy=1'' \<noteq> None then CGROUPS_V2
                                          else t1)
                            in (t2, t2)))"

section \<open>Data\<close>

record plugin_cgroups_ctx =
  max_cgroups_num :: i32
  cs_cpuacct_enable :: bool
  cs_memory_enable :: bool
  cs_cpuset_enable :: bool
  cs_blkio_enable :: bool
  cs_device_enable :: bool
  cs_cpuacct_path :: "string option"
  cs_memory_path :: "string option"
  cs_cpuset_path :: "string option"
  cs_blkio_path :: "string option"
  cs_device_path :: "string option"
  unified_path :: "string option"
  cgroups_matching :: "simple_pattern list"
  cgroups_subpaths_matching :: "simple_pattern list"

datatype cg_file =
  cpuacct_cpu_stat_filename | cpuacct_cpuacct_stat_filename | cpuacct_cpu_shares_filename
| cpuacct_cpu_cfs_period_us_filename | cpuacct_cpu_cfs_quota_us_filename | cpuacct_usage_all_filename
| cpuacct_usage_filename | cpuacct_usage_user_filename | cpuacct_usage_sys_filename | memory_stat_filename
| memory_usage_in_bytes_filename | memory_limit_in_bytes_filename | memory_failcnt_filename
| memory_max_usage_in_bytes_filename | blkio_throttle_io_service_bytes_filename
| blkio_throttle_io_serviced_filename | blkio_io_merged_filename | blkio_io_queued_filename
| unified_io_stat_filename | unified_cpu_max_filename | unified_cpu_stat_filename | unified_memory_stat_filename
| unified_memory_current_filename | unified_memory_max_filename | unified_cpu_pressure | unified_io_pressure
| unified_memory_pressure

record xm_cgroup_obj =
  cg_id :: string
  cg_hash :: u32
  find_flag :: bool
  cg_files :: "cg_file \<Rightarrow> string option"
  mem_pressure_low_level_evt_fd :: int
  mem_pressure_medium_level_evt_fd :: int
  mem_pressure_critical_level_evt_fd :: int

record xm_cgroup_objs_mgr =
  cg_discovery_list :: "nat list"
  cg_collection_list :: "nat list"
  cg_mem :: "nat \<Rightarrow> xm_cgroup_obj option"
  curr_cgroup_count :: i32
  do_discovery :: bool
  mgr_exit_flag :: bool

text \<open>A directory: it cannot be opened, or has entries with a name and whether they are directories.\<close>

datatype dtree = Closed | Dir "(string \<times> bool \<times> dtree) list"

text \<open>The outcomes of the system calls that set up a listener: \<^verbatim>\<open>eventfd\<close>, both \<^verbatim>\<open>open\<close> and \<^verbatim>\<open>write\<close>.\<close>

record listener_io =
  l_eventfd :: int
  l_pressure_fd :: int
  l_ctrl_fd :: int
  l_written :: int

record cg_env =
  e_type :: cgroups_type
  e_alloc :: "(nat \<Rightarrow> xm_cgroup_obj option) \<Rightarrow> nat option"
  e_register :: "string \<Rightarrow> bool"
  e_listener :: "string \<Rightarrow> string \<Rightarrow> listener_io"
  e_dir :: "string \<Rightarrow> dtree"

section \<open>Settings\<close>

text \<open>The look-ups of the configuration, with a default.\<close>

record cg_config =
  conf_int :: "string \<Rightarrow> i32 option"
  conf_bool :: "string \<Rightarrow> bool option"
  conf_str :: "string \<Rightarrow> string \<Rightarrow> string option"

definition with_default :: "'a \<Rightarrow> 'a option \<Rightarrow> 'a" where
  "with_default d v = (case v of None \<Rightarrow> d | Some x \<Rightarrow> x)"

text \<open>The result of the routine and the context; the periods are the first two numbers.\<close>

definition cgroup_collector_routine_init ::
  "cgroups_type \<Rightarrow> cg_config \<Rightarrow> i32 \<times> i32 \<times> plugin_cgroups_ctx \<Rightarrow> (i32 \<times> i32 \<times> plugin_cgroups_ctx) \<times> int" where
  "cgroup_collector_routine_init ty conf c =
     (case c of (every, interval, ctx) \<Rightarrow>
      if ty = CGROUPS_FAILED then (c, 0)
      else
        let base = ''collector_plugin_cgroups''; v1 = base @ ''.cg_base_path.v1''; v2 = base @ ''.cg_base_path.v2'';
            str = (\<lambda>p k d. Some (with_default d (conf_str conf p k)));
            ctx1 = ctx\<lparr>max_cgroups_num := with_default 1000 (conf_int conf ''max_cgroups_num''),
                       cs_cpuacct_enable := with_default True (conf_bool conf ''cs_cpuacct_enable''),
                       cs_memory_enable := with_default True (conf_bool conf ''cs_memory_enable''),
                       cs_cpuset_enable := with_default False (conf_bool conf ''cs_cpuset_enable''),
                       cs_blkio_enable := with_default False (conf_bool conf ''cs_blkio_enable''),
                       cs_device_enable := with_default False (conf_bool conf ''cs_device_enable'')\<rparr>;
            ctx2 = (if ty = CGROUPS_V1
                    then ctx1\<lparr>cs_cpuacct_path := conf_str conf v1 ''cs_cpuacct_path'',
                              cs_memory_path := str v1 ''cs_memory_path'' ''/sys/fs/cgroup/memory'',
                              cs_cpuset_path := str v1 ''cs_cpuset_path'' ''/sys/fs/cgroup/cpuset'',
                              cs_blkio_path := str v1 ''cs_blkio_path'' ''/sys/fs/cgroup/blkio'',
                              cs_device_path := str v1 ''cs_device_path'' ''/sys/fs/cgroup/devices''\<rparr>
                    else ctx1\<lparr>unified_path := str v2 ''unified_path'' ''/sys/fs/cgroup''\<rparr>);
            times = (with_default 1 (conf_int conf ''update_every''),
                     with_default 10 (conf_int conf ''update_all_cgroups_interval_secs''))
        in (case conf_str conf base ''cgroups_matching'' of
              None \<Rightarrow> ((fst times, snd times, ctx2), - 1)
            | Some p \<Rightarrow>
                let ctx3 = ctx2\<lparr>cgroups_matching := simple_pattern_create (Some p) None SIMPLE_PATTERN_EXACT\<rparr>
                in (case conf_str conf base ''cgroups_subpaths_matching'' of
                      None \<Rightarrow> ((fst times, snd times, ctx3), - 1)
                    | Some q \<Rightarrow>
                        ((fst times, snd times,
                          ctx3\<lparr>cgroups_subpaths_matching := simple_pattern_create (Some q) None SIMPLE_PATTERN_EXACT\<rparr>), 0))))"

section \<open>Objects\<close>

definition find_cgroup_obj :: "string \<Rightarrow> xm_cgroup_objs_mgr \<Rightarrow> nat option" where
  "find_cgroup_obj cid s =
     List.find (\<lambda>a. case cg_mem s a of
                      None \<Rightarrow> False
                    | Some obj \<Rightarrow> cg_hash obj = simple_hash cid \<and> cg_id obj = cid) (cg_discovery_list s)"

text \<open>The state and the new object, if there is one. The outer \<open>None\<close>: there is no memory and the code
  writes through NULL.\<close>

definition add_cgroup_obj ::
  "plugin_cgroups_ctx \<Rightarrow> cg_env \<Rightarrow> string \<Rightarrow> xm_cgroup_objs_mgr \<Rightarrow> (xm_cgroup_objs_mgr \<times> nat option) option" where
  "add_cgroup_obj ctx e cid0 s =
     (let cid = (if cid0 = [] then ''/'' else cid0)
      in if sint (max_cgroups_num ctx) < sint (curr_cgroup_count s) then Some (s, None)
         else if \<not> simple_pattern_matches (cgroups_matching ctx) (Some cid) then Some (s, None)
         else (case e_alloc e (cg_mem s) of
                 None \<Rightarrow> None
               | Some a \<Rightarrow>
                   if \<not> e_register e cid then Some (s, None)
                   else let obj = \<lparr>cg_id = cid, cg_hash = simple_hash cid, find_flag = True, cg_files = (\<lambda>_. None),
                                   mem_pressure_low_level_evt_fd = - 1, mem_pressure_medium_level_evt_fd = - 1,
                                   mem_pressure_critical_level_evt_fd = - 1\<rparr>
                        in Some (s\<lparr>cg_mem := (cg_mem s)(a \<mapsto> obj),
                                   cg_discovery_list := cg_discovery_list s @ [a],
                                   curr_cgroup_count := curr_cgroup_count s + 1\<rparr>, Some a)))"

definition release_cgroup_obj :: "nat \<Rightarrow> xm_cgroup_objs_mgr \<Rightarrow> xm_cgroup_objs_mgr" where
  "release_cgroup_obj a s = s\<lparr>curr_cgroup_count := curr_cgroup_count s - 1, cg_mem := (cg_mem s)(a := None)\<rparr>"

definition unset_all_cgroup_obj_find_flag :: "xm_cgroup_objs_mgr \<Rightarrow> xm_cgroup_objs_mgr" where
  "unset_all_cgroup_obj_find_flag s =
     s\<lparr>cg_mem := (\<lambda>a. if a \<in> set (cg_discovery_list s) then map_option (\<lambda>obj. obj\<lparr>find_flag := False\<rparr>) (cg_mem s a)
                      else cg_mem s a)\<rparr>"

text \<open>One turn of the loop that removes the objects whose flag is not set.\<close>

definition cleanup_cgroup_obj :: "nat \<Rightarrow> xm_cgroup_objs_mgr \<Rightarrow> xm_cgroup_objs_mgr" where
  "cleanup_cgroup_obj a s =
     (case cg_mem s a of
        Some obj \<Rightarrow>
          if find_flag obj then s
          else release_cgroup_obj a (s\<lparr>cg_discovery_list := remove1 a (cg_discovery_list s)\<rparr>)
      | None \<Rightarrow> s)"

definition cleanup_all_cgroup_objs :: "xm_cgroup_objs_mgr \<Rightarrow> xm_cgroup_objs_mgr" where
  "cleanup_all_cgroup_objs s = fold cleanup_cgroup_obj (cg_discovery_list s) s"

section \<open>Files and listeners\<close>

definition cg_path :: "string option \<Rightarrow> string \<Rightarrow> string \<Rightarrow> string" where
  "cg_path base cid file = (case base of None \<Rightarrow> ''(null)'' | Some b \<Rightarrow> b) @ ''/'' @ cid @ ''/'' @ file"

definition v1_files :: "(cg_file \<times> (plugin_cgroups_ctx \<Rightarrow> string option) \<times> string) list" where
  "v1_files =
     [(cpuacct_cpu_stat_filename, cs_cpuacct_path, ''cpu.stat''),
      (cpuacct_cpuacct_stat_filename, cs_cpuacct_path, ''cpuacct.stat''),
      (cpuacct_cpu_shares_filename, cs_cpuacct_path, ''cpu.shares''),
      (cpuacct_cpu_cfs_period_us_filename, cs_cpuacct_path, ''cpu.cfs_period_us''),
      (cpuacct_cpu_cfs_quota_us_filename, cs_cpuacct_path, ''cpu.cfs_quota_us''),
      (cpuacct_usage_all_filename, cs_cpuacct_path, ''cpuacct.usage_all''),
      (cpuacct_usage_filename, cs_cpuacct_path, ''cpuacct.usage''),
      (cpuacct_usage_user_filename, cs_cpuacct_path, ''cpuacct.usage_user''),
      (cpuacct_usage_sys_filename, cs_cpuacct_path, ''cpuacct.usage_sys''),
      (memory_stat_filename, cs_memory_path, ''memory.stat''),
      (memory_usage_in_bytes_filename, cs_memory_path, ''memory.usage_in_bytes''),
      (memory_limit_in_bytes_filename, cs_memory_path, ''memory.limit_in_bytes''),
      (memory_failcnt_filename, cs_memory_path, ''memory.failcnt''),
      (memory_max_usage_in_bytes_filename, cs_memory_path, ''memory.max_usage_in_bytes''),
      (blkio_throttle_io_service_bytes_filename, cs_blkio_path, ''blkio.throttle.io_service_bytes''),
      (blkio_throttle_io_serviced_filename, cs_blkio_path, ''blkio.throttle.io_serviced''),
      (blkio_io_merged_filename, cs_blkio_path, ''blkio.io_merged''),
      (blkio_io_queued_filename, cs_blkio_path, ''blkio.io_queued'')]"

definition v2_files :: "(cg_file \<times> (plugin_cgroups_ctx \<Rightarrow> string option) \<times> string) list" where
  "v2_files =
     [(unified_io_stat_filename, unified_path, ''io.stat''), (unified_cpu_max_filename, unified_path, ''cpu.max''),
      (unified_cpu_stat_filename, unified_path, ''cpu.stat''),
      (unified_memory_stat_filename, unified_path, ''memory.stat''),
      (unified_memory_current_filename, unified_path, ''memory.current''),
      (unified_memory_max_filename, unified_path, ''memory.max''),
      (unified_cpu_pressure, unified_path, ''cpu.pressure''), (unified_io_pressure, unified_path, ''io.pressure''),
      (unified_memory_pressure, unified_path, ''memory.pressure'')]"

definition make_cgroup_obj_metric_files :: "plugin_cgroups_ctx \<Rightarrow> cgroups_type \<Rightarrow> xm_cgroup_obj \<Rightarrow> xm_cgroup_obj" where
  "make_cgroup_obj_metric_files ctx ty obj =
     (let tab = (if ty = CGROUPS_V1 then v1_files else if ty = CGROUPS_V2 then v2_files else [])
      in obj\<lparr>cg_files := fold (\<lambda>(f, base, name) m. m(f \<mapsto> cg_path (base ctx) (cg_id obj) name)) tab (cg_files obj)\<rparr>)"

definition init_cgroup_memory_pressure_listener :: "cgroups_type \<Rightarrow> listener_io \<Rightarrow> int" where
  "init_cgroup_memory_pressure_listener ty io =
     (if ty = CGROUPS_V1
      then if l_eventfd io = - 1 then - 1
           else if l_pressure_fd io = - 1 \<or> l_ctrl_fd io = - 1 \<or> l_written io < 0 then - 1
           else l_eventfd io
      else - 1)"

section \<open>Discovery\<close>

definition found_cgroup_in_dir ::
  "plugin_cgroups_ctx \<Rightarrow> cg_env \<Rightarrow> string \<Rightarrow> xm_cgroup_objs_mgr \<Rightarrow> xm_cgroup_objs_mgr option" where
  "found_cgroup_in_dir ctx e cid s =
     (case find_cgroup_obj cid s of
        Some a \<Rightarrow> Some (s\<lparr>cg_mem := (cg_mem s)(a := map_option (\<lambda>obj. obj\<lparr>find_flag := True\<rparr>) (cg_mem s a))\<rparr>)
      | None \<Rightarrow>
          (case add_cgroup_obj ctx e cid s of
             None \<Rightarrow> None
           | Some (s1, None) \<Rightarrow> Some s1
           | Some (s1, Some a) \<Rightarrow>
               let fd = (\<lambda>level. init_cgroup_memory_pressure_listener (e_type e) (e_listener e cid level))
               in Some (s1\<lparr>cg_mem := (cg_mem s1)(a := map_option
                    (\<lambda>obj. (make_cgroup_obj_metric_files ctx (e_type e) obj)
                       \<lparr>mem_pressure_low_level_evt_fd := fd ''low'', mem_pressure_medium_level_evt_fd := fd ''medium'',
                        mem_pressure_critical_level_evt_fd := fd ''critical''\<rparr>) (cg_mem s1 a))\<rparr>)))"

text \<open>The walk through the directories: \<open>rel\<close> is the path below the base directory, \<open>enabled\<close> the filter
  for subdirectories, \<open>cb\<close> the callback.\<close>

fun find_dir_in_subdirs ::
  "(string \<Rightarrow> bool) \<Rightarrow> (string \<Rightarrow> 's \<Rightarrow> 's option) \<Rightarrow> string \<Rightarrow> dtree \<Rightarrow> 's \<Rightarrow> ('s \<times> i32) option"
and find_dir_entries ::
  "(string \<Rightarrow> bool) \<Rightarrow> (string \<Rightarrow> 's \<Rightarrow> 's option) \<Rightarrow> string \<Rightarrow> (string \<times> bool \<times> dtree) list \<Rightarrow> 's \<Rightarrow> i32 \<Rightarrow> ('s \<times> i32) option"
where
  "find_dir_in_subdirs enabled cb rel Closed s = Some (s, - 1)"
| "find_dir_in_subdirs enabled cb rel (Dir es) s =
     (case cb (if rel = [] then ''/'' else rel) s of
        None \<Rightarrow> None
      | Some s1 \<Rightarrow> find_dir_entries enabled cb rel es s1 1)"
| "find_dir_entries enabled cb rel [] s ret = Some (s, ret)"
| "find_dir_entries enabled cb rel ((name, is_dir, t) # es) s ret =
     (if is_dir \<and> name \<noteq> ''.'' \<and> name \<noteq> ''..'' \<and> enabled (if rel = [] then ''/'' else rel)
      then (case find_dir_in_subdirs enabled cb (rel @ ''/'' @ name) t s of
              None \<Rightarrow> None
            | Some (s1, ret2) \<Rightarrow>
                find_dir_entries enabled cb rel es s1 (if 0 < sint ret2 then ret + ret2 else ret))
      else find_dir_entries enabled cb rel es s ret)"

text \<open>The subsystems that are walked, in turn.\<close>

definition subsystems :: "plugin_cgroups_ctx \<Rightarrow> cgroups_type \<Rightarrow> (bool \<times> string option) list" where
  "subsystems ctx ty =
     (if ty = CGROUPS_V1
      then [(cs_cpuacct_enable ctx, cs_cpuacct_path ctx), (cs_memory_enable ctx, cs_memory_path ctx),
            (cs_cpuset_enable ctx, cs_cpuset_path ctx), (cs_blkio_enable ctx, cs_blkio_path ctx),
            (cs_device_enable ctx, cs_device_path ctx)]
      else [(True, unified_path ctx)])"

text \<open>\<open>None\<close>: the path is NULL, or the memory is exhausted.\<close>

fun walk_subsystems ::
  "(string \<Rightarrow> bool) \<Rightarrow> (string \<Rightarrow> 's \<Rightarrow> 's option) \<Rightarrow> (string \<Rightarrow> dtree) \<Rightarrow> (bool \<times> string option) list \<Rightarrow> 's \<Rightarrow> 's option" where
  "walk_subsystems enabled cb dir [] s = Some s"
| "walk_subsystems enabled cb dir ((on, path) # ps) s =
     (if \<not> on then walk_subsystems enabled cb dir ps s
      else case path of
             None \<Rightarrow> None
           | Some p \<Rightarrow> (case find_dir_in_subdirs enabled cb [] (dir p) s of
                          None \<Rightarrow> None
                        | Some (s1, ret) \<Rightarrow> walk_subsystems enabled cb dir ps s1))"

definition cgroups_discovery ::
  "plugin_cgroups_ctx \<Rightarrow> cg_env \<Rightarrow> xm_cgroup_objs_mgr \<Rightarrow> xm_cgroup_objs_mgr option" where
  "cgroups_discovery ctx e s =
     walk_subsystems (\<lambda>r. simple_pattern_matches (cgroups_subpaths_matching ctx) (Some r)) (found_cgroup_in_dir ctx e)
       (e_dir e) (subsystems ctx (e_type e)) (unset_all_cgroup_obj_find_flag s)"

text \<open>The part of the discovery thread that holds the mutex: clean up and copy the list.\<close>

definition publish :: "xm_cgroup_objs_mgr \<Rightarrow> xm_cgroup_objs_mgr" where
  "publish s = (let s1 = cleanup_all_cgroup_objs s in s1\<lparr>cg_collection_list := cg_discovery_list s1\<rparr>)"

text \<open>The objects that the collecting thread reads; \<open>None\<close>: one of them has been released.\<close>

definition cgroups_mgr_collect_metrics :: "xm_cgroup_objs_mgr \<Rightarrow> xm_cgroup_obj list option" where
  "cgroups_mgr_collect_metrics s =
     (if list_all (\<lambda>a. cg_mem s a \<noteq> None) (cg_collection_list s)
      then Some (map (\<lambda>a. the (cg_mem s a)) (cg_collection_list s)) else None)"

definition cgroups_mgr_init :: "xm_cgroup_objs_mgr" where
  "cgroups_mgr_init =
     \<lparr>cg_discovery_list = [], cg_collection_list = [], cg_mem = (\<lambda>_. None), curr_cgroup_count = 0,
      do_discovery = False, mgr_exit_flag = False\<rparr>"

definition cgroups_mgr_start_discovery :: "xm_cgroup_objs_mgr \<Rightarrow> xm_cgroup_objs_mgr" where
  "cgroups_mgr_start_discovery s = s\<lparr>do_discovery := True\<rparr>"

text \<open>The last part of \<^verbatim>\<open>cgroups_mgr_fini\<close>, after the discovery thread has ended.\<close>

definition cgroups_mgr_free :: "xm_cgroup_objs_mgr \<Rightarrow> xm_cgroup_objs_mgr" where
  "cgroups_mgr_free s =
     fold (\<lambda>a s. release_cgroup_obj a (s\<lparr>cg_discovery_list := remove1 a (cg_discovery_list s)\<rparr>)) (cg_discovery_list s) s"

section \<open>The threads\<close>

text \<open>Where the discovery thread is: at the head of the loop; holding the mutex before the test of
  \<^verbatim>\<open>do_discovery\<close>; holding it after the test failed; waiting for the condition; walking, with the
  directories that are still to be visited; at the end.\<close>

datatype disc_pc = At_loop | At_check | At_wait | Waiting | Walking "string list" | Ended

fun holds_mutex :: "disc_pc \<Rightarrow> bool" where
  "holds_mutex At_check = True"
| "holds_mutex At_wait = True"
| "holds_mutex _ = False"

text \<open>\<^verbatim>\<open>pthread_cond_signal\<close> wakes the thread only if it waits.\<close>

fun woken :: "disc_pc \<Rightarrow> disc_pc" where
  "woken Waiting = At_check"
| "woken pc = pc"

text \<open>The directories of a walk, in the order of the callbacks.\<close>

fun dir_paths :: "(string \<Rightarrow> bool) \<Rightarrow> string \<Rightarrow> dtree \<Rightarrow> string list"
and entry_paths :: "(string \<Rightarrow> bool) \<Rightarrow> string \<Rightarrow> (string \<times> bool \<times> dtree) list \<Rightarrow> string list" where
  "dir_paths enabled rel Closed = []"
| "dir_paths enabled rel (Dir es) = (if rel = [] then ''/'' else rel) # entry_paths enabled rel es"
| "entry_paths enabled rel [] = []"
| "entry_paths enabled rel ((name, is_dir, t) # es) =
     (if is_dir \<and> name \<noteq> ''.'' \<and> name \<noteq> ''..'' \<and> enabled (if rel = [] then ''/'' else rel)
      then dir_paths enabled (rel @ ''/'' @ name) t else []) @ entry_paths enabled rel es"

definition discovery_paths :: "plugin_cgroups_ctx \<Rightarrow> cg_env \<Rightarrow> string list" where
  "discovery_paths ctx e =
     concat (map (\<lambda>(on, path). if on then dir_paths (\<lambda>r. simple_pattern_matches (cgroups_subpaths_matching ctx) (Some r)) []
       (e_dir e (the path)) else []) (subsystems ctx (e_type e)))"

definition alloc_ok :: "cg_env \<Rightarrow> bool" where
  "alloc_ok e \<longleftrightarrow> (\<forall>m a. e_alloc e m = Some a \<longrightarrow> m a = None)"

inductive cg_step ::
  "plugin_cgroups_ctx \<Rightarrow> xm_cgroup_objs_mgr \<times> disc_pc \<Rightarrow> xm_cgroup_objs_mgr \<times> disc_pc \<Rightarrow> bool" for ctx where
  loop_end: "mgr_exit_flag s \<Longrightarrow> cg_step ctx (s, At_loop) (s, Ended)"
| loop_lock: "\<not> mgr_exit_flag s \<Longrightarrow> cg_step ctx (s, At_loop) (s, At_check)"
| check_fails: "\<not> do_discovery s \<Longrightarrow> cg_step ctx (s, At_check) (s, At_wait)"
| start_wait: "cg_step ctx (s, At_wait) (s, Waiting)"
| spurious: "cg_step ctx (s, Waiting) (s, At_check)"
| check_end: "do_discovery s \<Longrightarrow> mgr_exit_flag s \<Longrightarrow> cg_step ctx (s, At_check) (s\<lparr>do_discovery := False\<rparr>, Ended)"
| check_walk: "do_discovery s \<Longrightarrow> \<not> mgr_exit_flag s \<Longrightarrow> cg_step ctx (s, At_check)
    (unset_all_cgroup_obj_find_flag (s\<lparr>do_discovery := False\<rparr>), Walking (discovery_paths ctx e))"
| walk: "alloc_ok e \<Longrightarrow> found_cgroup_in_dir ctx e p s = Some s' \<Longrightarrow> cg_step ctx (s, Walking (p # ps)) (s', Walking ps)"
| publish: "cg_step ctx (s, Walking []) (publish s, At_loop)"
| start: "\<not> holds_mutex pc \<Longrightarrow> cg_step ctx (s, pc) (cgroups_mgr_start_discovery s, woken pc)"
| fini: "cg_step ctx (s, pc) (s\<lparr>mgr_exit_flag := True, do_discovery := True\<rparr>, woken pc)"

inductive cg_reachable :: "plugin_cgroups_ctx \<Rightarrow> xm_cgroup_objs_mgr \<times> disc_pc \<Rightarrow> bool" for ctx where
  at_start: "cg_reachable ctx (cgroups_mgr_init, At_loop)"
| step: "cg_reachable ctx x \<Longrightarrow> cg_step ctx x y \<Longrightarrow> cg_reachable ctx y"

inductive_cases cg_step_waitingE: "cg_step ctx (s, Waiting) y"

section \<open>The walk\<close>

fun run_callbacks :: "(string \<Rightarrow> 's \<Rightarrow> 's option) \<Rightarrow> string list \<Rightarrow> 's \<Rightarrow> 's option" where
  "run_callbacks cb [] s = Some s"
| "run_callbacks cb (p # ps) s = (case cb p s of None \<Rightarrow> None | Some s1 \<Rightarrow> run_callbacks cb ps s1)"

lemma run_callbacks_append:
  "run_callbacks cb (ps @ qs) s = (case run_callbacks cb ps s of None \<Rightarrow> None | Some s1 \<Rightarrow> run_callbacks cb qs s1)"
  by (induction ps arbitrary: s) (auto split: option.split)

lemma find_dir_paths:
  "map_option fst (find_dir_in_subdirs enabled cb rel t s) = run_callbacks cb (dir_paths enabled rel t) s"
  "map_option fst (find_dir_entries enabled cb rel es s ret) = run_callbacks cb (entry_paths enabled rel es) s"
proof (induction enabled cb rel t s and enabled cb rel es s ret rule: find_dir_in_subdirs_find_dir_entries.induct)
  case (4 enabled cb rel name is_dir t es s ret)
  let ?go = "is_dir \<and> name \<noteq> ''.'' \<and> name \<noteq> ''..'' \<and> enabled (if rel = [] then ''/'' else rel)"
  show ?case
  proof (cases ?go)
    case True
    show ?thesis
    proof (cases "find_dir_in_subdirs enabled cb (rel @ ''/'' @ name) t s")
      case None
      with 4(1) True show ?thesis by (simp add: run_callbacks_append)
    next
      case (Some x)
      obtain s1 ret2 where x: "x = (s1, ret2)" by force
      with 4(1) True Some have "run_callbacks cb (dir_paths enabled (rel @ ''/'' @ name) t) s = Some s1"
        by (metis option.map(2) fst_conv)
      with 4(2) [OF True Some x [symmetric]] True Some x show ?thesis by (simp add: run_callbacks_append)
    qed
  next
    case False
    with 4(3) show ?thesis by auto
  qed
qed (auto split: option.split)

lemma walk_paths:
  "list_all (\<lambda>(on, path). on \<longrightarrow> path \<noteq> None) ps \<Longrightarrow>
   walk_subsystems enabled cb dir ps s =
     run_callbacks cb (concat (map (\<lambda>(on, path). if on then dir_paths enabled [] (dir (the path)) else []) ps)) s"
proof (induction ps arbitrary: s)
  case (Cons x ps)
  obtain on path where x: "x = (on, path)" by force
  show ?case
  proof (cases on)
    case True
    with Cons.prems x obtain p where p: "path = Some p" by auto
    with find_dir_paths(1) [symmetric, of cb enabled "[]" "dir p" s] Cons True x show ?thesis
      by (cases "find_dir_in_subdirs enabled cb [] (dir p) s") (auto simp: run_callbacks_append)
  next
    case False
    with Cons x show ?thesis by simp
  qed
qed simp

lemma cgroups_discovery_paths:
  assumes "list_all (\<lambda>(on, path). on \<longrightarrow> path \<noteq> None) (subsystems ctx (e_type e))"
  shows "cgroups_discovery ctx e s =
    run_callbacks (found_cgroup_in_dir ctx e) (discovery_paths ctx e) (unset_all_cgroup_obj_find_flag s)"
  using walk_paths [OF assms] by (simp add: cgroups_discovery_def discovery_paths_def)

section \<open>The invariant\<close>

definition name_at :: "xm_cgroup_objs_mgr \<Rightarrow> nat \<Rightarrow> (string \<times> u32) option" where
  "name_at s a = map_option (\<lambda>obj. (cg_id obj, cg_hash obj)) (cg_mem s a)"

text \<open>The objects of the list are exactly the allocated ones, one for each name, their names pass the
  filter, the count is right and at most one above the limit, and nothing is published that is not in
  the list.\<close>

definition cg_inv :: "plugin_cgroups_ctx \<Rightarrow> xm_cgroup_objs_mgr \<Rightarrow> bool" where
  "cg_inv ctx s \<longleftrightarrow> distinct (cg_discovery_list s) \<and> set (cg_discovery_list s) = dom (name_at s) \<and>
     (\<forall>a b n h h'. name_at s a = Some (n, h) \<longrightarrow> name_at s b = Some (n, h') \<longrightarrow> a = b) \<and>
     (\<forall>a n h. name_at s a = Some (n, h) \<longrightarrow> h = simple_hash n \<and> simple_pattern_matches (cgroups_matching ctx) (Some n)) \<and>
     sint (curr_cgroup_count s) = int (length (cg_discovery_list s)) \<and>
     int (length (cg_discovery_list s)) \<le> max 0 (sint (max_cgroups_num ctx) + 1) \<and>
     set (cg_collection_list s) \<subseteq> set (cg_discovery_list s)"

definition limit_ok :: "plugin_cgroups_ctx \<Rightarrow> bool" where
  "limit_ok ctx \<longleftrightarrow> sint (max_cgroups_num ctx) < 2 ^ 31 - 1"

lemma dom_name_at: "dom (name_at s) = dom (cg_mem s)"
  by (auto simp: name_at_def dom_def)

lemma cg_inv_obj:
  assumes "cg_inv ctx s" and "cg_mem s a = Some obj"
  shows "a \<in> set (cg_discovery_list s)" and "cg_hash obj = simple_hash (cg_id obj)"
    and "simple_pattern_matches (cgroups_matching ctx) (Some (cg_id obj))"
    and "cg_mem s b = Some obj' \<Longrightarrow> cg_id obj' = cg_id obj \<Longrightarrow> b = a"
proof -
  have n: "name_at s a = Some (cg_id obj, cg_hash obj)" using assms(2) by (simp add: name_at_def)
  then show "a \<in> set (cg_discovery_list s)" "cg_hash obj = simple_hash (cg_id obj)"
    "simple_pattern_matches (cgroups_matching ctx) (Some (cg_id obj))"
    using assms(1) unfolding cg_inv_def by blast+
  assume "cg_mem s b = Some obj'" "cg_id obj' = cg_id obj"
  then have "name_at s b = Some (cg_id obj, cg_hash obj')" by (simp add: name_at_def)
  with n assms(1) show "b = a" unfolding cg_inv_def by blast
qed

text \<open>The view of a state: the names and their flags.\<close>

definition cg_flags :: "xm_cgroup_objs_mgr \<Rightarrow> string \<Rightarrow> bool option" where
  "cg_flags s p = (case find_cgroup_obj p s of None \<Rightarrow> None | Some a \<Rightarrow> map_option find_flag (cg_mem s a))"

lemma find_cgroup_obj_iff:
  assumes "cg_inv ctx s"
  shows "find_cgroup_obj p s = Some a \<longleftrightarrow> (\<exists>obj. cg_mem s a = Some obj \<and> cg_id obj = p)"
proof -
  have f: "\<exists>obj. cg_mem s b = Some obj \<and> cg_id obj = p" if "find_cgroup_obj p s = Some b" for b
    using that by (auto simp: find_cgroup_obj_def find_Some_iff split: option.splits)
  have "find_cgroup_obj p s = Some a" if a: "cg_mem s a = Some obj" "cg_id obj = p" for obj
  proof -
    have "find_cgroup_obj p s \<noteq> None"
      using cg_inv_obj(1,2) [OF assms a(1)] a by (auto simp: find_cgroup_obj_def find_None_iff split: option.splits)
    then obtain b where b: "find_cgroup_obj p s = Some b" by blast
    with f [OF b] cg_inv_obj(4) [OF assms a(1)] a(2) show ?thesis by auto
  qed
  with f show ?thesis by blast
qed

lemma cg_flags_obj:
  assumes "cg_inv ctx s" and "cg_mem s a = Some obj"
  shows "cg_flags s (cg_id obj) = Some (find_flag obj)"
proof -
  have "find_cgroup_obj (cg_id obj) s = Some a" using find_cgroup_obj_iff [OF assms(1)] assms(2) by blast
  then show ?thesis by (simp add: cg_flags_def assms(2))
qed

lemma cg_flags_SomeD:
  assumes "cg_inv ctx s" and "cg_flags s p = Some f"
  obtains a obj where "find_cgroup_obj p s = Some a" and "cg_mem s a = Some obj" and "cg_id obj = p" and "find_flag obj = f"
proof -
  obtain a where a: "find_cgroup_obj p s = Some a" "map_option find_flag (cg_mem s a) = Some f"
    using assms(2) by (auto simp: cg_flags_def split: option.splits)
  moreover obtain obj where "cg_mem s a = Some obj" "cg_id obj = p"
    using find_cgroup_obj_iff [OF assms(1)] a(1) by blast
  ultimately show ?thesis by (intro that) auto
qed

lemma cg_flags_None:
  assumes "cg_inv ctx s"
  shows "find_cgroup_obj p s = None \<longleftrightarrow> cg_flags s p = None"
proof (cases "find_cgroup_obj p s")
  case (Some a)
  then obtain obj where "cg_mem s a = Some obj" using find_cgroup_obj_iff [OF assms] by blast
  with Some show ?thesis by (simp add: cg_flags_def)
qed (simp add: cg_flags_def)

text \<open>How to find out the view of a state from its objects.\<close>

lemma cg_flagsI:
  assumes "cg_inv ctx s" and "\<And>a obj. cg_mem s a = Some obj \<Longrightarrow> F (cg_id obj) = Some (find_flag obj)"
    and "\<And>p f. F p = Some f \<Longrightarrow> \<exists>a obj. cg_mem s a = Some obj \<and> cg_id obj = p"
  shows "cg_flags s = F"
proof
  fix p
  show "cg_flags s p = F p"
  proof (cases "F p")
    case None
    have "cg_flags s p \<noteq> Some f" for f
    proof
      assume "cg_flags s p = Some f"
      then obtain a obj where "cg_mem s a = Some obj" "cg_id obj = p" by (rule cg_flags_SomeD [OF assms(1)])
      with assms(2) None show False by fastforce
    qed
    with None show ?thesis by (cases "cg_flags s p") auto
  next
    case (Some f)
    then obtain a obj where a: "cg_mem s a = Some obj" "cg_id obj = p" using assms(3) by blast
    with cg_flags_obj [OF assms(1) a(1)] assms(2) [OF a(1)] show ?thesis by simp
  qed
qed

lemma cg_inv_cong:
  assumes "cg_inv ctx s" and "name_at s' = name_at s" and "cg_discovery_list s' = cg_discovery_list s"
    and "cg_collection_list s' = cg_collection_list s" and "curr_cgroup_count s' = curr_cgroup_count s"
  shows "cg_inv ctx s'"
  using assms(1) unfolding cg_inv_def assms(2-5) by blast

text \<open>Setting one object: a new one, or the one that has this name.\<close>

lemma put_obj:
  assumes inv: "cg_inv ctx s" "cg_inv ctx s'" and m: "cg_mem s' = (cg_mem s)(a \<mapsto> obj)"
    and o: "\<And>b x. cg_mem s b = Some x \<Longrightarrow> b = a \<longleftrightarrow> cg_id x = cg_id obj"
  shows "cg_flags s' = (cg_flags s)(cg_id obj \<mapsto> find_flag obj)"
proof (rule cg_flagsI [OF inv(2)])
  fix b x assume b: "cg_mem s' b = Some x"
  show "((cg_flags s)(cg_id obj \<mapsto> find_flag obj)) (cg_id x) = Some (find_flag x)"
  proof (cases "b = a")
    case True
    with b m show ?thesis by simp
  next
    case False
    with b m have "cg_mem s b = Some x" by simp
    with o False cg_flags_obj [OF inv(1)] show ?thesis by auto
  qed
next
  fix p f assume "((cg_flags s)(cg_id obj \<mapsto> find_flag obj)) p = Some f"
  then consider "p = cg_id obj" | "p \<noteq> cg_id obj" "cg_flags s p = Some f" by (auto split: if_splits)
  then show "\<exists>b x. cg_mem s' b = Some x \<and> cg_id x = p"
  proof cases
    case 1
    then show ?thesis using m by auto
  next
    case 2
    from 2(2) obtain b x where b: "cg_mem s b = Some x" "cg_id x = p" by (rule cg_flags_SomeD [OF inv(1)])
    with 2(1) o have "b \<noteq> a" by blast
    with b m show ?thesis by auto
  qed
qed

lemma unset_ok:
  assumes "cg_inv ctx s"
  shows "cg_inv ctx (unset_all_cgroup_obj_find_flag s)"
    and "cg_flags (unset_all_cgroup_obj_find_flag s) = (\<lambda>p. map_option (\<lambda>_. False) (cg_flags s p))"
proof -
  let ?s = "unset_all_cgroup_obj_find_flag s"
  have out: "cg_mem s a = None" if "a \<notin> set (cg_discovery_list s)" for a
    using assms dom_name_at [of s] that by (auto simp: cg_inv_def)
  have m: "cg_mem ?s a = map_option (\<lambda>obj. obj\<lparr>find_flag := False\<rparr>) (cg_mem s a)" for a
    by (cases "a \<in> set (cg_discovery_list s)") (simp_all add: unset_all_cgroup_obj_find_flag_def out)
  show inv: "cg_inv ctx ?s"
  proof (rule cg_inv_cong [OF assms])
    show "name_at ?s = name_at s" by (rule ext) (simp add: name_at_def m option.map_comp comp_def)
  qed (simp_all add: unset_all_cgroup_obj_find_flag_def)
  show "cg_flags ?s = (\<lambda>p. map_option (\<lambda>_. False) (cg_flags s p))"
  proof (rule cg_flagsI [OF inv])
    fix a obj assume "cg_mem ?s a = Some obj"
    then obtain x where "cg_mem s a = Some x" "obj = x\<lparr>find_flag := False\<rparr>" by (auto simp: m)
    with cg_flags_obj [OF assms] show "map_option (\<lambda>_. False) (cg_flags s (cg_id obj)) = Some (find_flag obj)" by fastforce
  next
    fix p f assume "map_option (\<lambda>_. False) (cg_flags s p) = Some f"
    then obtain g where "cg_flags s p = Some g" by auto
    then obtain a x where "cg_mem s a = Some x" "cg_id x = p" by (rule cg_flags_SomeD [OF assms])
    then have "cg_mem ?s a = Some (x\<lparr>find_flag := False\<rparr>)" "cg_id (x\<lparr>find_flag := False\<rparr>) = p" by (simp_all add: m)
    then show "\<exists>a obj. cg_mem ?s a = Some obj \<and> cg_id obj = p" by blast
  qed
qed

section \<open>Adding and releasing\<close>

lemma sint_add_one:
  assumes "sint (x :: i32) < 2 ^ 31 - 1"
  shows "sint (x + 1) = sint x + 1"
proof -
  have "- (2 ^ 31) \<le> sint x" using sint_ge [of x] by simp
  with assms show ?thesis by (simp add: sint_word_ariths signed_take_bit_int_eq_self)
qed

text \<open>What a callback does to the names: a known one is marked, a new one that passes the filter, fits
  below the limit and can be registered is added.\<close>

definition accepted :: "plugin_cgroups_ctx \<Rightarrow> cg_env \<Rightarrow> string \<Rightarrow> bool" where
  "accepted ctx e cid \<longleftrightarrow> simple_pattern_matches (cgroups_matching ctx) (Some cid) \<and> e_register e cid"

definition found_flags :: "plugin_cgroups_ctx \<Rightarrow> cg_env \<Rightarrow> string \<Rightarrow> xm_cgroup_objs_mgr \<Rightarrow> string \<Rightarrow> bool option" where
  "found_flags ctx e cid s =
     (if cg_flags s cid \<noteq> None \<or> (sint (curr_cgroup_count s) \<le> sint (max_cgroups_num ctx) \<and> accepted ctx e cid)
      then (cg_flags s)(cid \<mapsto> True) else cg_flags s)"

lemma found_known:
  assumes inv: "cg_inv ctx s" and f: "found_cgroup_in_dir ctx e cid s = Some s'" and k: "find_cgroup_obj cid s = Some a"
  shows "cg_inv ctx s' \<and> cg_flags s' = (cg_flags s)(cid \<mapsto> True) \<and> cg_collection_list s' = cg_collection_list s \<and>
    cg_discovery_list s' = cg_discovery_list s"
proof -
  obtain x where x: "cg_mem s a = Some x" "cg_id x = cid" using find_cgroup_obj_iff [OF inv] k by blast
  let ?x = "x\<lparr>find_flag := True\<rparr>"
  have s': "s' = s\<lparr>cg_mem := (cg_mem s)(a \<mapsto> ?x)\<rparr>" using f k x by (simp add: found_cgroup_in_dir_def)
  have inv': "cg_inv ctx s'"
  proof (rule cg_inv_cong [OF inv])
    show "name_at s' = name_at s" by (rule ext) (simp add: name_at_def s' x)
  qed (simp_all add: s')
  have "b = a \<longleftrightarrow> cg_id y = cg_id ?x" if "cg_mem s b = Some y" for b y
    using that x cg_inv_obj(4) [OF inv x(1) that] by auto
  from put_obj [OF inv inv' _ this] x inv' show ?thesis by (simp add: s')
qed

lemma found_new:
  assumes inv: "cg_inv ctx s" and e: "alloc_ok e" and lim: "limit_ok ctx" and ne: "cid \<noteq> []"
    and f: "found_cgroup_in_dir ctx e cid s = Some s'" and n: "find_cgroup_obj cid s = None"
    and c: "sint (curr_cgroup_count s) \<le> sint (max_cgroups_num ctx)" "accepted ctx e cid"
  shows "cg_inv ctx s' \<and> cg_flags s' = (cg_flags s)(cid \<mapsto> True) \<and> cg_collection_list s' = cg_collection_list s \<and>
    (\<exists>a. cg_discovery_list s' = cg_discovery_list s @ [a])"
proof -
  have m: "simple_pattern_matches (cgroups_matching ctx) (Some cid)" "e_register e cid" using c(2) by (auto simp: accepted_def)
  obtain a where a: "e_alloc e (cg_mem s) = Some a"
    using f n c(1) m ne by (auto simp: found_cgroup_in_dir_def add_cgroup_obj_def Let_def split: option.splits)
  let ?fd = "\<lambda>level. init_cgroup_memory_pressure_listener (e_type e) (e_listener e cid level)"
  define x where "x = (make_cgroup_obj_metric_files ctx (e_type e)
      \<lparr>cg_id = cid, cg_hash = simple_hash cid, find_flag = True, cg_files = (\<lambda>_. None),
       mem_pressure_low_level_evt_fd = - 1, mem_pressure_medium_level_evt_fd = - 1, mem_pressure_critical_level_evt_fd = - 1\<rparr>)
      \<lparr>mem_pressure_low_level_evt_fd := ?fd ''low'', mem_pressure_medium_level_evt_fd := ?fd ''medium'',
       mem_pressure_critical_level_evt_fd := ?fd ''critical''\<rparr>"
  have x: "cg_id x = cid" "cg_hash x = simple_hash cid" "find_flag x"
    by (simp_all add: x_def make_cgroup_obj_metric_files_def Let_def)
  have s': "s' = s\<lparr>cg_discovery_list := cg_discovery_list s @ [a], curr_cgroup_count := curr_cgroup_count s + 1,
      cg_mem := (cg_mem s)(a \<mapsto> x)\<rparr>"
    using f n c(1) m ne a by (simp add: found_cgroup_in_dir_def add_cgroup_obj_def Let_def x_def)
  have free: "cg_mem s a = None" using e a by (simp add: alloc_ok_def)
  have other: "cg_id y \<noteq> cid" if "cg_mem s b = Some y" for b y
    using find_cgroup_obj_iff [OF inv, of cid b] n that by auto
  have n': "name_at s' = (name_at s)(a \<mapsto> (cid, simple_hash cid))" by (rule ext) (simp add: name_at_def s' x)
  have new: "name_at s b \<noteq> Some (cid, h)" for b h using other by (auto simp: name_at_def)
  have "sint (curr_cgroup_count s + 1) = sint (curr_cgroup_count s) + 1"
    by (rule sint_add_one) (use c lim in \<open>auto simp: limit_ok_def\<close>)
  moreover have "a \<notin> dom (name_at s)" using free by (simp add: dom_name_at domIff)
  ultimately have inv': "cg_inv ctx s'"
    using inv c new unfolding cg_inv_def n' by (auto simp: s' accepted_def)
  have "b = a \<longleftrightarrow> cg_id y = cg_id x" if "cg_mem s b = Some y" for b y using that free other x by auto
  from put_obj [OF inv inv' _ this] x inv' show ?thesis by (simp add: s')
qed

lemma found_ok:
  assumes inv: "cg_inv ctx s" and e: "alloc_ok e" and lim: "limit_ok ctx" and ne: "cid \<noteq> []"
    and f: "found_cgroup_in_dir ctx e cid s = Some s'"
  shows "cg_inv ctx s' \<and> cg_flags s' = found_flags ctx e cid s \<and> cg_collection_list s' = cg_collection_list s \<and>
    length (cg_discovery_list s') \<le> Suc (length (cg_discovery_list s))"
proof (cases "find_cgroup_obj cid s")
  case (Some a)
  with found_known [OF inv f Some] cg_flags_None [OF inv, of cid] show ?thesis by (auto simp: found_flags_def)
next
  case None
  then have nf: "cg_flags s cid = None" using cg_flags_None [OF inv] by simp
  show ?thesis
  proof (cases "sint (curr_cgroup_count s) \<le> sint (max_cgroups_num ctx) \<and> accepted ctx e cid")
    case True
    with found_new [OF inv e lim ne f None] show ?thesis by (auto simp: found_flags_def)
  next
    case False
    with f None ne have "s' = s"
      by (auto simp: found_cgroup_in_dir_def add_cgroup_obj_def accepted_def Let_def split: option.splits if_splits)
    with inv nf False show ?thesis by (auto simp: found_flags_def)
  qed
qed

text \<open>Cleaning up.\<close>

definition flag_at :: "xm_cgroup_objs_mgr \<Rightarrow> nat \<Rightarrow> bool" where
  "flag_at s a = (case cg_mem s a of None \<Rightarrow> True | Some obj \<Rightarrow> find_flag obj)"

lemma cleanup_step:
  assumes "a \<in> set (cg_discovery_list s)" and "cg_mem s a \<noteq> None"
  shows "cleanup_cgroup_obj a s =
    (if flag_at s a then s
     else s\<lparr>cg_discovery_list := remove1 a (cg_discovery_list s), curr_cgroup_count := curr_cgroup_count s - 1,
            cg_mem := (cg_mem s)(a := None)\<rparr>)"
  using assms by (auto simp: cleanup_cgroup_obj_def release_cgroup_obj_def flag_at_def)

lemma cleanup_loop:
  assumes "distinct (cg_discovery_list s)" and "set (cg_discovery_list s) = dom (cg_mem s)" and "distinct as"
    and "set as \<subseteq> set (cg_discovery_list s)"
  shows "fold cleanup_cgroup_obj as s =
    s\<lparr>cg_discovery_list := filter (\<lambda>a. a \<in> set as \<longrightarrow> flag_at s a) (cg_discovery_list s),
      curr_cgroup_count := curr_cgroup_count s - of_nat (length (filter (\<lambda>a. \<not> flag_at s a) as)),
      cg_mem := (\<lambda>a. if a \<in> set as \<and> \<not> flag_at s a then None else cg_mem s a)\<rparr>"
  using assms
proof (induction as arbitrary: s)
  case (Cons a as)
  have a: "a \<in> set (cg_discovery_list s)" "cg_mem s a \<noteq> None" "a \<notin> set as" "set as \<subseteq> set (cg_discovery_list s)"
    using Cons.prems by auto
  show ?case
  proof (cases "flag_at s a")
    case True
    have "filter (\<lambda>b. b \<in> set as \<longrightarrow> flag_at s b) (cg_discovery_list s) =
        filter (\<lambda>b. b \<in> set (a # as) \<longrightarrow> flag_at s b) (cg_discovery_list s)"
      using True by (intro filter_cong) auto
    moreover have "(\<lambda>b. if b \<in> set as \<and> \<not> flag_at s b then None else cg_mem s b) =
        (\<lambda>b. if b \<in> set (a # as) \<and> \<not> flag_at s b then None else cg_mem s b)" using True by auto
    ultimately show ?thesis using Cons.IH [of s] Cons.prems True a cleanup_step [OF a(1,2)] by simp
  next
    case False
    define s1 where "s1 = s\<lparr>cg_discovery_list := remove1 a (cg_discovery_list s), curr_cgroup_count := curr_cgroup_count s - 1,
      cg_mem := (cg_mem s)(a := None)\<rparr>"
    have fl: "flag_at s1 b = flag_at s b" if "b \<noteq> a" for b using that by (simp add: flag_at_def s1_def)
    have fa: "flag_at s1 b = flag_at s b" if "b \<in> set as" for b using that a(3) by (intro fl) auto
    have p: "distinct (cg_discovery_list s1)" "set (cg_discovery_list s1) = dom (cg_mem s1)" "distinct as"
      "set as \<subseteq> set (cg_discovery_list s1)" using Cons.prems a by (auto simp: set_remove1_eq s1_def)
    have l: "filter (\<lambda>b. b \<in> set as \<longrightarrow> flag_at s1 b) (cg_discovery_list s1) =
        filter (\<lambda>b. b \<in> set (a # as) \<longrightarrow> flag_at s b) (cg_discovery_list s)"
    proof -
      have "cg_discovery_list s1 = filter (\<lambda>b. b \<noteq> a) (cg_discovery_list s)"
        by (auto simp: s1_def distinct_remove1_removeAll [OF Cons.prems(1)] removeAll_filter_not_eq intro: filter_cong)
      moreover have "filter (\<lambda>b. (b \<in> set as \<longrightarrow> flag_at s1 b) \<and> b \<noteq> a) (cg_discovery_list s) =
          filter (\<lambda>b. b \<in> set (a # as) \<longrightarrow> flag_at s b) (cg_discovery_list s)"
      proof (rule filter_cong [OF refl])
        fix b show "((b \<in> set as \<longrightarrow> flag_at s1 b) \<and> b \<noteq> a) = (b \<in> set (a # as) \<longrightarrow> flag_at s b)"
          using False fa [of b] a(3) by auto
      qed
      ultimately show ?thesis by (simp add: conj_commute)
    qed
    have "filter (\<lambda>b. \<not> flag_at s1 b) as = filter (\<lambda>b. \<not> flag_at s b) as"
      by (rule filter_cong) (simp_all add: fa)
    then have n: "curr_cgroup_count s1 - of_nat (length (filter (\<lambda>b. \<not> flag_at s1 b) as)) =
        curr_cgroup_count s - of_nat (length (filter (\<lambda>b. \<not> flag_at s b) (a # as)))"
      using False by (simp add: s1_def)
    have m: "(\<lambda>b. if b \<in> set as \<and> \<not> flag_at s1 b then None else cg_mem s1 b) =
        (\<lambda>b. if b \<in> set (a # as) \<and> \<not> flag_at s b then None else cg_mem s b)"
    proof
      fix b show "(if b \<in> set as \<and> \<not> flag_at s1 b then None else cg_mem s1 b) =
          (if b \<in> set (a # as) \<and> \<not> flag_at s b then None else cg_mem s b)"
        using False fa [of b] a(3) by (cases "b = a") (auto simp: s1_def)
    qed
    have "fold cleanup_cgroup_obj (a # as) s = fold cleanup_cgroup_obj as s1"
      using False cleanup_step [OF a(1,2)] by (simp add: s1_def)
    then show ?thesis unfolding Cons.IH [OF p] l n m by (simp add: s1_def)
  qed
qed simp

lemma publish_ok:
  assumes inv: "cg_inv ctx s" and lim: "limit_ok ctx"
  shows "cg_inv ctx (publish s)"
    and "cg_flags (publish s) = (\<lambda>p. if cg_flags s p = Some True then Some True else None)"
    and "cg_collection_list (publish s) = cg_discovery_list (publish s)"
proof -
  let ?l = "cg_discovery_list s" and ?m = "\<lambda>a. if flag_at s a then cg_mem s a else None"
  have d: "distinct ?l" "set ?l = dom (cg_mem s)" using inv dom_name_at by (auto simp: cg_inv_def)
  have "(\<lambda>a. if a \<in> set ?l \<and> \<not> flag_at s a then None else cg_mem s a) = ?m"
    using d(2) by (auto simp: fun_eq_iff)
  moreover have "filter (\<lambda>a. a \<in> set ?l \<longrightarrow> flag_at s a) ?l = filter (flag_at s) ?l" by (rule filter_cong) auto
  ultimately have p: "publish s = s\<lparr>cg_discovery_list := filter (flag_at s) ?l,
      curr_cgroup_count := curr_cgroup_count s - of_nat (length (filter (\<lambda>a. \<not> flag_at s a) ?l)),
      cg_mem := ?m, cg_collection_list := filter (flag_at s) ?l\<rparr>"
    using cleanup_loop [OF d d(1) subset_refl] by (simp add: publish_def cleanup_all_cgroup_objs_def)
  have n: "name_at (publish s) = (\<lambda>a. if flag_at s a then name_at s a else None)"
    by (rule ext) (simp add: name_at_def p)
  have len: "length (filter (flag_at s) ?l) + length (filter (\<lambda>a. \<not> flag_at s a) ?l) = length ?l"
    by (rule sum_length_filter_compl)
  have small: "int (length ?l) < 2 ^ 31" using inv lim by (auto simp: cg_inv_def limit_ok_def)
  have "sint (curr_cgroup_count s) = int (length ?l)" using inv by (simp add: cg_inv_def)
  then have "curr_cgroup_count s = of_nat (length ?l)"
    using small sint_of_nat_small [where 'a = 32, of "length ?l"]
    by (intro signed_word_eqI [where 'a = int]) simp
  then have "curr_cgroup_count s - of_nat (length (filter (\<lambda>a. \<not> flag_at s a) ?l)) = of_nat (length (filter (flag_at s) ?l))"
    using len by (metis add_diff_cancel_right' of_nat_add)
  moreover have "sint (of_nat (length (filter (flag_at s) ?l)) :: i32) = int (length (filter (flag_at s) ?l))"
    using small len by (simp add: sint_of_nat_small)
  moreover have "int (length (filter (flag_at s) ?l)) \<le> max 0 (sint (max_cgroups_num ctx) + 1)"
  proof -
    have "int (length (filter (flag_at s) ?l)) \<le> int (length ?l)" by simp
    also have "\<dots> \<le> max 0 (sint (max_cgroups_num ctx) + 1)" using inv unfolding cg_inv_def by blast
    finally show ?thesis .
  qed
  ultimately show inv': "cg_inv ctx (publish s)"
    using inv unfolding cg_inv_def n by (auto simp: p dom_def split: if_splits)
  show "cg_collection_list (publish s) = cg_discovery_list (publish s)" by (simp add: p)
  show "cg_flags (publish s) = (\<lambda>p. if cg_flags s p = Some True then Some True else None)"
  proof (rule cg_flagsI [OF inv'])
    fix a obj assume "cg_mem (publish s) a = Some obj"
    then have "cg_mem s a = Some obj" "flag_at s a" by (auto simp: p split: if_splits)
    then have "find_flag obj" "cg_flags s (cg_id obj) = Some (find_flag obj)"
      using cg_flags_obj [OF inv] by (auto simp: flag_at_def)
    then show "(if cg_flags s (cg_id obj) = Some True then Some True else None) = Some (find_flag obj)" by simp
  next
    fix q f assume "(if cg_flags s q = Some True then Some True else None) = Some f"
    then have "cg_flags s q = Some True" by (simp split: if_splits)
    then obtain a obj where "cg_mem s a = Some obj" "cg_id obj = q" "find_flag obj" by (rule cg_flags_SomeD [OF inv]) simp
    then show "\<exists>a obj. cg_mem (publish s) a = Some obj \<and> cg_id obj = q" by (auto simp: p flag_at_def)
  qed
qed

section \<open>Reachable states\<close>

lemma paths_nonempty:
  "p \<in> set (dir_paths enabled rel t) \<Longrightarrow> p \<noteq> []"
  "p \<in> set (entry_paths enabled rel es) \<Longrightarrow> p \<noteq> []"
  by (induction enabled rel t and enabled rel es rule: dir_paths_entry_paths.induct) (auto split: if_splits)

lemma discovery_paths_nonempty: "p \<in> set (discovery_paths ctx e) \<Longrightarrow> p \<noteq> []"
  using paths_nonempty(1) by (auto simp: discovery_paths_def split: if_splits)

fun pending :: "disc_pc \<Rightarrow> string list" where
  "pending (Walking ps) = ps"
| "pending _ = []"

lemma pending_woken [simp]: "pending (woken pc) = pending pc"
  by (cases pc) simp_all

lemma cg_inv_init: "cg_inv ctx cgroups_mgr_init"
  by (simp add: cg_inv_def cgroups_mgr_init_def name_at_def dom_def)

lemma cg_inv_flags:
  assumes "cg_inv ctx s" and "cg_mem s' = cg_mem s" and "cg_discovery_list s' = cg_discovery_list s"
    and "cg_collection_list s' = cg_collection_list s" and "curr_cgroup_count s' = curr_cgroup_count s"
  shows "cg_inv ctx s'"
proof (rule cg_inv_cong [OF assms(1) _ assms(3-5)])
  show "name_at s' = name_at s" by (rule ext) (simp add: name_at_def assms(2))
qed

lemma cg_step_inv:
  assumes "cg_step ctx x y" and "limit_ok ctx" and "cg_inv ctx (fst x)" and "[] \<notin> set (pending (snd x))"
  shows "cg_inv ctx (fst y) \<and> [] \<notin> set (pending (snd y))"
  using assms(1,3,4)
proof cases
  case (check_walk s e)
  have "cg_inv ctx (s\<lparr>do_discovery := False\<rparr>)" using assms(3) check_walk by (auto intro: cg_inv_flags)
  from unset_ok(1) [OF this] check_walk discovery_paths_nonempty show ?thesis by auto
next
  case (walk e p s s' ps)
  with found_ok [OF _ _ assms(2), of s e p s'] assms(3,4) show ?thesis by auto
next
  case (publish s)
  with publish_ok(1) [OF _ assms(2)] assms(3) show ?thesis by simp
qed (auto simp: cgroups_mgr_start_discovery_def intro: cg_inv_flags)

lemma cg_reachable_inv:
  assumes "cg_reachable ctx x" and "limit_ok ctx"
  shows "cg_inv ctx (fst x)" and "[] \<notin> set (pending (snd x))"
proof -
  have "cg_inv ctx (fst x) \<and> [] \<notin> set (pending (snd x))"
    using assms(1) by induction (use cg_inv_init cg_step_inv assms(2) in auto)
  then show "cg_inv ctx (fst x)" "[] \<notin> set (pending (snd x))" by auto
qed

section \<open>A complete discovery\<close>

text \<open>There is memory for one more object.\<close>

definition memory_left :: "cg_env \<Rightarrow> bool" where
  "memory_left e \<longleftrightarrow> (\<forall>m. finite (dom m) \<longrightarrow> e_alloc e m \<noteq> None)"

lemma found_defined:
  assumes "memory_left e" and "cg_inv ctx s"
  shows "found_cgroup_in_dir ctx e p s \<noteq> None"
proof -
  have "finite (dom (cg_mem s))" using assms(2) dom_name_at [of s] by (metis List.finite_set cg_inv_def)
  then obtain a where "e_alloc e (cg_mem s) = Some a" using assms(1) by (auto simp: memory_left_def)
  then show ?thesis by (auto simp: found_cgroup_in_dir_def add_cgroup_obj_def Let_def split: option.split)
qed

text \<open>Every directory that the walk meets and that is accepted is marked, none of the limits being
  reached; nothing else is.\<close>

lemma run_found:
  assumes "cg_inv ctx s" and "alloc_ok e" and "memory_left e" and "limit_ok ctx" and "[] \<notin> set ps"
    and "int (length (cg_discovery_list s)) + int (length ps) \<le> sint (max_cgroups_num ctx)"
  shows "\<exists>s'. run_callbacks (found_cgroup_in_dir ctx e) ps s = Some s' \<and> cg_inv ctx s' \<and>
    cg_flags s' = (\<lambda>p. if p \<in> set ps \<and> (cg_flags s p \<noteq> None \<or> accepted ctx e p) then Some True else cg_flags s p)"
  using assms(1,5-6)
proof (induction ps arbitrary: s)
  case (Cons p ps)
  obtain s1 where s1: "found_cgroup_in_dir ctx e p s = Some s1"
    using found_defined [OF assms(3) Cons.prems(1)] by blast
  have "p \<noteq> []" using Cons.prems(2) by auto
  note f = found_ok [OF Cons.prems(1) assms(2,4) this s1]
  have "sint (curr_cgroup_count s) \<le> sint (max_cgroups_num ctx)" using Cons.prems(1,3) by (simp add: cg_inv_def)
  then have fl: "cg_flags s1 = (if cg_flags s p \<noteq> None \<or> accepted ctx e p then (cg_flags s)(p \<mapsto> True) else cg_flags s)"
    using f by (auto simp: found_flags_def)
  have "cg_inv ctx s1" "[] \<notin> set ps" "int (length (cg_discovery_list s1)) + int (length ps) \<le> sint (max_cgroups_num ctx)"
    using f Cons.prems(2,3) by auto
  from Cons.IH [OF this] obtain s' where s': "run_callbacks (found_cgroup_in_dir ctx e) ps s1 = Some s'" "cg_inv ctx s'"
    "cg_flags s' = (\<lambda>p. if p \<in> set ps \<and> (cg_flags s1 p \<noteq> None \<or> accepted ctx e p) then Some True else cg_flags s1 p)" by blast
  have "cg_flags s' = (\<lambda>q. if q \<in> set (p # ps) \<and> (cg_flags s q \<noteq> None \<or> accepted ctx e q) then Some True else cg_flags s q)"
    unfolding s'(3) fl by (auto simp: fun_eq_iff)
  with s1 s'(1,2) show ?case by simp
qed auto

text \<open>The steps of an undisturbed walk are the discovery.\<close>

lemma reach_walk:
  assumes "alloc_ok e" and "cg_reachable ctx (s, Walking ps)" and "run_callbacks (found_cgroup_in_dir ctx e) ps s = Some s'"
  shows "cg_reachable ctx (s', Walking [])"
  using assms(2,3)
proof (induction ps arbitrary: s)
  case (Cons p ps)
  then obtain s1 where s1: "found_cgroup_in_dir ctx e p s = Some s1" "run_callbacks (found_cgroup_in_dir ctx e) ps s1 = Some s'"
    by (auto split: option.splits)
  from cg_reachable.step [OF Cons.prems(1) cg_step.walk [OF assms(1) s1(1)]] Cons.IH s1(2) show ?case by blast
qed simp

lemma reach_discovery:
  assumes "alloc_ok e" and "cg_reachable ctx (s, At_check)" and "do_discovery s" and "\<not> mgr_exit_flag s"
    and "list_all (\<lambda>(on, path). on \<longrightarrow> path \<noteq> None) (subsystems ctx (e_type e))"
    and "cgroups_discovery ctx e (s\<lparr>do_discovery := False\<rparr>) = Some s'"
  shows "cg_reachable ctx (publish s', At_loop)"
proof -
  have w: "cg_reachable ctx (unset_all_cgroup_obj_find_flag (s\<lparr>do_discovery := False\<rparr>), Walking (discovery_paths ctx e))"
    by (rule cg_reachable.step [OF assms(2) cg_step.check_walk [OF assms(3,4)]])
  have "cg_reachable ctx (s', Walking [])"
    by (rule reach_walk [OF assms(1) w assms(6) [unfolded cgroups_discovery_paths [OF assms(5)]]])
  then show ?thesis by (rule cg_reachable.step [OF _ cg_step.publish])
qed

lemma collect_published:
  assumes "cg_inv ctx s" and "cg_collection_list s = cg_discovery_list s"
  obtains objs where "cgroups_mgr_collect_metrics s = Some objs" and "distinct (map cg_id objs)"
    and "cg_id ` set objs = dom (cg_flags s)"
proof -
  let ?l = "cg_discovery_list s"
  have l: "distinct ?l" "set ?l = dom (cg_mem s)" using assms(1) dom_name_at by (auto simp: cg_inv_def)
  have c: "cgroups_mgr_collect_metrics s = Some (map (\<lambda>a. the (cg_mem s a)) ?l)"
    using l(2) by (auto simp: cgroups_mgr_collect_metrics_def assms(2) list_all_iff)
  have "inj_on (\<lambda>a. cg_id (the (cg_mem s a))) (set ?l)"
  proof (rule inj_onI)
    fix a b assume "a \<in> set ?l" "b \<in> set ?l" and eq: "cg_id (the (cg_mem s a)) = cg_id (the (cg_mem s b))"
    then obtain x y where "cg_mem s a = Some x" "cg_mem s b = Some y" using l(2) by blast
    with eq cg_inv_obj(4) [OF assms(1), of b y a x] show "a = b" by simp
  qed
  then have "distinct (map cg_id (map (\<lambda>a. the (cg_mem s a)) ?l))"
    using l(1) by (simp add: distinct_map comp_def)
  moreover have "cg_id ` set (map (\<lambda>a. the (cg_mem s a)) ?l) = dom (cg_flags s)"
  proof (intro set_eqI iffI)
    fix p assume "p \<in> cg_id ` set (map (\<lambda>a. the (cg_mem s a)) ?l)"
    then obtain a x where "cg_mem s a = Some x" "p = cg_id x" using l(2) by auto
    with cg_flags_obj [OF assms(1)] show "p \<in> dom (cg_flags s)" by fastforce
  next
    fix p assume "p \<in> dom (cg_flags s)"
    then obtain f where "cg_flags s p = Some f" by blast
    then obtain a x where "cg_mem s a = Some x" "cg_id x = p" by (rule cg_flags_SomeD [OF assms(1)])
    with l(2) show "p \<in> cg_id ` set (map (\<lambda>a. the (cg_mem s a)) ?l)" by force
  qed
  ultimately show ?thesis by (intro that [OF c])
qed

section \<open>Properties\<close>

text \<open>C9: in every interleaving of the discovery thread with the thread that collects, the collecting thread
  never meets an object that has been released; the objects of the discovery list are exactly the
  allocated ones, their number is the count that is kept, and there is at most one more than the
  configured maximum.\<close>

theorem cgroups_collect_safe:
  assumes "limit_ok ctx" and "cg_reachable ctx (s, pc)"
  shows "(\<exists>objs. cgroups_mgr_collect_metrics s = Some objs) \<and> set (cg_discovery_list s) = dom (cg_mem s) \<and>
    sint (curr_cgroup_count s) = int (length (cg_discovery_list s)) \<and>
    int (length (cg_discovery_list s)) \<le> max 0 (sint (max_cgroups_num ctx) + 1)"
proof (intro conjI)
  have inv: "cg_inv ctx s" using cg_reachable_inv(1) [OF assms(2,1)] by simp
  then show d: "set (cg_discovery_list s) = dom (cg_mem s)" using dom_name_at by (auto simp: cg_inv_def)
  with inv have "\<forall>a \<in> set (cg_collection_list s). cg_mem s a \<noteq> None" by (auto simp: cg_inv_def)
  then show "\<exists>objs. cgroups_mgr_collect_metrics s = Some objs"
    by (auto simp: cgroups_mgr_collect_metrics_def list_all_iff)
  show "sint (curr_cgroup_count s) = int (length (cg_discovery_list s))"
    "int (length (cg_discovery_list s)) \<le> max 0 (sint (max_cgroups_num ctx) + 1)"
    using inv by (auto simp: cg_inv_def)
qed

text \<open>C18: after a discovery the collecting thread sees exactly one object for every directory that the walk
  visits and whose path passes the filter, and no other: groups that vanished are gone, new ones are
  there. The walk visits the subdirectories of the directories that pass the filter for subpaths.
  This holds from every reachable state, as long as the maximum is not reached, the paths are
  configured, there is memory and the metrics registry takes every new group.\<close>

theorem cgroups_discovered:
  assumes lim: "limit_ok ctx" and reach: "cg_reachable ctx (s, pc)" and alloc: "alloc_ok e" "memory_left e"
    and reg: "\<forall>p. e_register e p"
    and paths: "list_all (\<lambda>(on, path). on \<longrightarrow> path \<noteq> None) (subsystems ctx (e_type e))"
    and room: "int (length (cg_discovery_list s)) + int (length (discovery_paths ctx e)) \<le> sint (max_cgroups_num ctx)"
  shows "\<exists>s' objs. cgroups_discovery ctx e s = Some s' \<and> cgroups_mgr_collect_metrics (publish s') = Some objs \<and>
    distinct (map cg_id objs) \<and>
    cg_id ` set objs = {p \<in> set (discovery_paths ctx e). simple_pattern_matches (cgroups_matching ctx) (Some p)}"
proof -
  let ?u = "unset_all_cgroup_obj_find_flag s" and ?ps = "discovery_paths ctx e"
  have inv: "cg_inv ctx s" using cg_reachable_inv(1) [OF reach lim] by simp
  note u = unset_ok [OF inv]
  have "[] \<notin> set ?ps" using discovery_paths_nonempty by blast
  moreover have "int (length (cg_discovery_list ?u)) + int (length ?ps) \<le> sint (max_cgroups_num ctx)"
    using room by (simp add: unset_all_cgroup_obj_find_flag_def)
  ultimately obtain s' where run: "run_callbacks (found_cgroup_in_dir ctx e) ?ps ?u = Some s'"
    and r: "cg_inv ctx s'" "cg_flags s' = (\<lambda>p. if p \<in> set ?ps \<and> (cg_flags ?u p \<noteq> None \<or> accepted ctx e p)
      then Some True else cg_flags ?u p)"
    using run_found [OF u(1) alloc lim] by blast
  have known: "simple_pattern_matches (cgroups_matching ctx) (Some p)" if kn: "cg_flags s p \<noteq> None" for p
  proof -
    obtain f where "cg_flags s p = Some f" using kn by blast
    then obtain a x where "cg_mem s a = Some x" "cg_id x = p" by (rule cg_flags_SomeD [OF inv])
    with cg_inv_obj(3) [OF inv] show ?thesis by blast
  qed
  note pub = publish_ok [OF r(1) lim]
  have "dom (cg_flags (publish s')) = {p. cg_flags s' p = Some True}" by (auto simp: pub(2) dom_def)
  also have "\<dots> = {p \<in> set ?ps. simple_pattern_matches (cgroups_matching ctx) (Some p)}"
    using known reg by (auto simp: r(2) u(2) accepted_def split: if_splits)
  finally show ?thesis
    using collect_published [OF pub(1,3)] run cgroups_discovery_paths [OF paths, of s] by metis
qed

text \<open>C38: \<^verbatim>\<open>cgroups_mgr_fini\<close> can wait for ever. It sets the flags and signals the condition without the
  mutex; when the discovery thread has just seen that there is nothing to do and is about to wait, the
  signal is lost, and the thread waits although the exit flag is set and no other signal will come.\<close>

theorem cgroups_fini_signal_lost:
  "\<exists>s. cg_reachable ctx (s, Waiting) \<and> mgr_exit_flag s \<and> do_discovery s"
proof -
  have "cg_reachable ctx (cgroups_mgr_init, At_check)"
    by (rule cg_reachable.step [OF cg_reachable.at_start cg_step.loop_lock]) (simp add: cgroups_mgr_init_def)
  then have "cg_reachable ctx (cgroups_mgr_init, At_wait)"
    by (rule cg_reachable.step [OF _ cg_step.check_fails]) (simp add: cgroups_mgr_init_def)
  from cg_reachable.step [OF this cg_step.fini]
  have "cg_reachable ctx (cgroups_mgr_init\<lparr>mgr_exit_flag := True, do_discovery := True\<rparr>, At_wait)" by simp
  from cg_reachable.step [OF this cg_step.start_wait] show ?thesis
    by (intro exI [of _ "cgroups_mgr_init\<lparr>mgr_exit_flag := True, do_discovery := True\<rparr>"]) simp
qed

text \<open>At the configured maximum one more object is still accepted.\<close>

lemma add_at_limit:
  assumes "curr_cgroup_count s = max_cgroups_num ctx" and "simple_pattern_matches (cgroups_matching ctx) (Some cid)"
    and "e_alloc e (cg_mem s) = Some a" and "e_register e cid" and "cid \<noteq> []"
  shows "\<exists>s'. add_cgroup_obj ctx e cid s = Some (s', Some a) \<and> curr_cgroup_count s' = max_cgroups_num ctx + 1"
  using assms by (simp add: add_cgroup_obj_def Let_def)

text \<open>The end releases every object.\<close>

lemma cgroups_mgr_free_all:
  assumes "cg_inv ctx s"
  shows "cg_mem (cgroups_mgr_free s) = (\<lambda>_. None)" and "cg_discovery_list (cgroups_mgr_free s) = []"
proof -
  let ?f = "\<lambda>a s. release_cgroup_obj a (s\<lparr>cg_discovery_list := remove1 a (cg_discovery_list s)\<rparr>)"
  have m: "cg_mem (fold ?f as s) = (\<lambda>b. if b \<in> set as then None else cg_mem s b)" for as s
    by (induction as arbitrary: s) (auto simp: release_cgroup_obj_def fun_eq_iff)
  have l: "cg_discovery_list (fold ?f as s) = fold remove1 as (cg_discovery_list s)" for as s
    by (induction as arbitrary: s) (auto simp: release_cgroup_obj_def)
  have r: "fold remove1 as as = []" for as :: "nat list" by (induction as) simp_all
  have "set (cg_discovery_list s) = dom (cg_mem s)" using assms dom_name_at by (auto simp: cg_inv_def)
  then show "cg_mem (cgroups_mgr_free s) = (\<lambda>_. None)" by (auto simp: cgroups_mgr_free_def m)
  show "cg_discovery_list (cgroups_mgr_free s) = []" by (simp add: cgroups_mgr_free_def l r)
qed

section \<open>Example\<close>

definition cg_example_ctx :: plugin_cgroups_ctx where
  "cg_example_ctx =
     \<lparr>max_cgroups_num = 5, cs_cpuacct_enable = True, cs_memory_enable = True, cs_cpuset_enable = False,
      cs_blkio_enable = False, cs_device_enable = False, cs_cpuacct_path = None, cs_memory_path = None,
      cs_cpuset_path = None, cs_blkio_path = None, cs_device_path = None, unified_path = Some ''/c'',
      cgroups_matching = simple_pattern_create (Some ''*a'') None SIMPLE_PATTERN_EXACT,
      cgroups_subpaths_matching = simple_pattern_create (Some ''*'') None SIMPLE_PATTERN_EXACT\<rparr>"

definition cg_example_env :: cg_env where
  "cg_example_env =
     \<lparr>e_type = CGROUPS_V2, e_alloc = (\<lambda>m. if finite (dom m) then Some (Suc (Max (insert 0 (dom m)))) else None),
      e_register = (\<lambda>_. True),
      e_listener = (\<lambda>_ _. \<lparr>l_eventfd = 3, l_pressure_fd = 4, l_ctrl_fd = 5, l_written = 1\<rparr>),
      e_dir = (\<lambda>_. Dir [(''.'', True, Closed), (''x'', False, Closed), (''a'', True, Dir [(''b'', True, Closed)])])\<rparr>"

lemma cg_example_alloc: "alloc_ok cg_example_env" "memory_left cg_example_env"
proof -
  have "m (Suc (Max (insert 0 (dom m)))) = None" if "finite (dom m)" for m :: "nat \<Rightarrow> xm_cgroup_obj option"
  proof (rule ccontr)
    assume "m (Suc (Max (insert 0 (dom m)))) \<noteq> None"
    then have "Suc (Max (insert 0 (dom m))) \<in> insert 0 (dom m)" by blast
    with that have "Suc (Max (insert 0 (dom m))) \<le> Max (insert 0 (dom m))" by (intro Max_ge) auto
    then show False by simp
  qed
  then show "alloc_ok cg_example_env" by (auto simp: alloc_ok_def cg_example_env_def split: if_splits)
  show "memory_left cg_example_env" by (simp add: memory_left_def cg_example_env_def)
qed

lemma cg_example_match:
  "simple_pattern_matches (cgroups_subpaths_matching cg_example_ctx) (Some ''/'') = True"
  "simple_pattern_matches (cgroups_subpaths_matching cg_example_ctx) (Some ''/a'') = True"
  "simple_pattern_matches (cgroups_matching cg_example_ctx) (Some ''/'') = False"
  "simple_pattern_matches (cgroups_matching cg_example_ctx) (Some ''/a'') = True"
  by code_simp+

lemma cg_example_paths: "discovery_paths cg_example_ctx cg_example_env = [''/'', ''/a'']"
  by (simp add: discovery_paths_def subsystems_def cg_example_env_def cg_example_match)

lemma cg_example_ready:
  "limit_ok cg_example_ctx" "list_all (\<lambda>(on, path). on \<longrightarrow> path \<noteq> None) (subsystems cg_example_ctx (e_type cg_example_env))"
  "sint (max_cgroups_num cg_example_ctx) = 5"
  by (simp_all add: limit_ok_def cg_example_ctx_def cg_example_env_def subsystems_def)

theorem cgroups_discovered_witness:
  "\<exists>s' objs. cgroups_discovery cg_example_ctx cg_example_env cgroups_mgr_init = Some s' \<and>
     cgroups_mgr_collect_metrics (publish s') = Some objs \<and> cg_id ` set objs = {''/a''}"
proof -
  have "int (length (cg_discovery_list cgroups_mgr_init)) + int (length (discovery_paths cg_example_ctx cg_example_env))
      \<le> sint (max_cgroups_num cg_example_ctx)"
    using cg_example_ready(3) by (simp add: cg_example_paths cgroups_mgr_init_def)
  moreover have "\<forall>p. e_register cg_example_env p" by (simp add: cg_example_env_def)
  ultimately have "\<exists>s' objs. cgroups_discovery cg_example_ctx cg_example_env cgroups_mgr_init = Some s' \<and>
      cgroups_mgr_collect_metrics (publish s') = Some objs \<and> distinct (map cg_id objs) \<and>
      cg_id ` set objs = {p \<in> set (discovery_paths cg_example_ctx cg_example_env).
        simple_pattern_matches (cgroups_matching cg_example_ctx) (Some p)}"
    by (intro cgroups_discovered [OF cg_example_ready(1) cg_reachable.at_start cg_example_alloc _ cg_example_ready(2)])
  moreover have "{p \<in> set (discovery_paths cg_example_ctx cg_example_env).
      simple_pattern_matches (cgroups_matching cg_example_ctx) (Some p)} = {''/a''}"
    by (auto simp: cg_example_paths cg_example_match)
  ultimately show ?thesis by metis
qed

theorem cgroups_collect_safe_witness:
  "\<exists>s objs. cg_reachable cg_example_ctx (s, Walking [''/'', ''/a'']) \<and> cgroups_mgr_collect_metrics s = Some objs \<and>
     int (length (cg_discovery_list s)) \<le> 6"
proof -
  let ?s = "cgroups_mgr_init\<lparr>do_discovery := True\<rparr>"
  have "cg_reachable cg_example_ctx (?s, At_loop)"
    using cg_reachable.step [OF cg_reachable.at_start cg_step.start] by (simp add: cgroups_mgr_start_discovery_def)
  from cg_reachable.step [OF this cg_step.loop_lock] have "cg_reachable cg_example_ctx (?s, At_check)"
    by (simp add: cgroups_mgr_init_def)
  from cg_reachable.step [OF this cg_step.check_walk [where e = cg_example_env]]
  have r: "cg_reachable cg_example_ctx (unset_all_cgroup_obj_find_flag (?s\<lparr>do_discovery := False\<rparr>), Walking [''/'', ''/a''])"
    by (simp add: cgroups_mgr_init_def cg_example_paths)
  from cgroups_collect_safe [OF cg_example_ready(1) r] r show ?thesis
    by (auto simp: cg_example_ctx_def)
qed

end
