(* ===== verification/XM_KeywordFiles.thy ===== *)
theory XM_KeywordFiles
  imports XM_ARL XM_Procfile
begin

text \<open>
  What the collectors of \<^verbatim>\<open>collectors/proc\<close> that fill static variables through a keyword list have in
  common: opening and reading the file, a round over a list, and what a series of rounds leaves in the
  variables. The static variables of a collector are cells; the address of a variable is its position
  in the list of declarations. The name of the file comes from the configuration once and is kept.
\<close>

section \<open>Static variables and configuration\<close>

fun addr_of :: "string list \<Rightarrow> string \<Rightarrow> nat" where
  "addr_of [] x = 0"
| "addr_of (y # ys) x = (if x = y then 0 else Suc (addr_of ys x))"

definition PROCFILE_FLAG_DEFAULT :: u32 where "PROCFILE_FLAG_DEFAULT = 0"

text \<open>The pointer to the name, then the value of the look-up in the configuration, then the default.\<close>

definition monitor_file :: "string option \<Rightarrow> string option \<Rightarrow> string \<Rightarrow> string" where
  "monitor_file cached conf def = (case cached of Some f \<Rightarrow> f | None \<Rightarrow> (case conf of Some f \<Rightarrow> f | None \<Rightarrow> def))"

text \<open>A list made with the default processor for numbers, and its keywords.\<close>

definition arl_bind :: "string list \<Rightarrow> (string \<times> string) list \<Rightarrow> ARL_BASE \<Rightarrow> ARL_BASE" where
  "arl_bind vars kws b = foldl (\<lambda>b (k, x). arl_expect b k (Some (addr_of vars x))) b kws"

text \<open>A value that a gauge is set to: the metric, the number and the label.\<close>

type_synonym gauge_value = "string \<times> u64 \<times> string"

text \<open>Rounds of a collector, with what it gives in each of them.\<close>

fun run_rounds :: "('io \<Rightarrow> 's \<Rightarrow> ('s \<times> 'o) option) \<Rightarrow> 'io list \<Rightarrow> 's \<Rightarrow> ('s \<times> 'o list) option" where
  "run_rounds coll [] s = Some (s, [])"
| "run_rounds coll (io # ios) s =
     (case coll io s of
        None \<Rightarrow> None
      | Some (s1, out) \<Rightarrow> map_option (\<lambda>(s2, outs). (s2, out # outs)) (run_rounds coll ios s1))"

section \<open>The keywords of a file\<close>

text \<open>The first two words of the lines that have two; the reference view of the same.\<close>

definition line_pairs :: "proc_file \<Rightarrow> (string \<times> string) list" where
  "line_pairs pf =
     map (\<lambda>l. (procfile_lineword pf l 0, procfile_lineword pf l 1))
       (filter (\<lambda>l. 2 \<le> procfile_linewords pf l) [0..<procfile_lines pf])"

definition text_pairs :: "string list list \<Rightarrow> (string \<times> string) list" where
  "text_pairs ls = map (\<lambda>ws. (ws ! 0, ws ! 1)) (filter (\<lambda>ws. 2 \<le> length ws) ls)"

lemma line_pairs_contents:
  assumes "tables_ok pf"
  shows "line_pairs pf = text_pairs (procfile_contents pf)"
proof -
  let ?c = "procfile_contents pf"
  note c = procfile_lineword_contents [OF assms]
  have w: "procfile_lineword pf l w = ?c ! l ! w" if "l < length ?c" "2 \<le> length (?c ! l)" "w < 2" for l w
    using c(3) [of l w] c(1,2) that by simp
  have "filter (\<lambda>l. 2 \<le> procfile_linewords pf l) [0..<procfile_lines pf] = filter (\<lambda>l. 2 \<le> length (?c ! l)) [0..<length ?c]"
    using c(1,2) by (intro filter_cong) auto
  moreover have "text_pairs ?c = map (\<lambda>l. (?c ! l ! 0, ?c ! l ! 1)) (filter (\<lambda>l. 2 \<le> length (?c ! l)) [0..<length ?c])"
    unfolding text_pairs_def by (subst (1) map_nth [symmetric]) (simp add: filter_map comp_def del: map_nth)
  moreover have "map (\<lambda>l. (procfile_lineword pf l 0, procfile_lineword pf l 1)) (filter (\<lambda>l. 2 \<le> length (?c ! l)) [0..<length ?c]) =
      map (\<lambda>l. (?c ! l ! 0, ?c ! l ! 1)) (filter (\<lambda>l. 2 \<le> length (?c ! l)) [0..<length ?c])"
    by (intro map_cong) (auto intro!: w)
  ultimately show ?thesis by (simp add: line_pairs_def)
qed

section \<open>The contract of a list that remembers its keywords\<close>

text \<open>A keyword list that also remembers which keywords it has seen since the last sweep.\<close>

locale seeing_list = keyword_list ok target nfound nwanted check put
  for ok :: "'b \<Rightarrow> bool" and target :: "'b \<Rightarrow> string \<Rightarrow> 't option" and nfound nwanted :: "'b \<Rightarrow> nat"
    and check :: "'b \<Rightarrow> string \<Rightarrow> string \<Rightarrow> 'm \<Rightarrow> ('b \<times> 'm \<times> bool) option"
    and put :: "'t option \<Rightarrow> string \<Rightarrow> string \<Rightarrow> 'm \<Rightarrow> 'm" +
  fixes seen :: "'b \<Rightarrow> string set"
  assumes check_seen: "ok b \<Longrightarrow> check b k v m = Some (b', m', stop) \<Longrightarrow> seen b' = insert k (seen b)"
begin

text \<open>When the wanted number is not below the number of lines with a target, every keyword of the
  file that has a target is seen.\<close>

lemma scan_seen:
  "ok b \<Longrightarrow> nfound b + length (filter (\<lambda>(k, v). target b k \<noteq> None) ls) \<le> nwanted b \<Longrightarrow>
   scan_lines check b ls m = Some (b', m') \<Longrightarrow>
   seen b \<subseteq> seen b' \<and> (\<forall>(k, v) \<in> set ls. target b k \<noteq> None \<longrightarrow> k \<in> seen b')"
proof (induction ls arbitrary: b m)
  case (Cons kv ls)
  obtain k v where kv: "kv = (k, v)" by (cases kv)
  obtain b1 where b1: "check b k v m = Some (b1, put (target b k) k v m, nfound b1 = nwanted b1)"
    "ok b1" "target b1 = target b" "nwanted b1 = nwanted b"
    "nfound b1 = nfound b + (if target b k = None then 0 else 1)"
    using check_total [OF Cons.prems(1)] by blast
  have s: "seen b1 = insert k (seen b)" using check_seen [OF Cons.prems(1) b1(1)] .
  have le: "nfound b1 + length (filter (\<lambda>(k, v). target b k \<noteq> None) ls) \<le> nwanted b"
    using Cons.prems(2) b1(5) kv by (auto split: if_splits)
  show ?case
  proof (cases "nfound b1 = nwanted b1")
    case True
    then have "length (filter (\<lambda>(k, v). target b k \<noteq> None) ls) = 0" using le b1(4) by linarith
    then have "\<forall>(k, v) \<in> set ls. target b k = None" by (auto simp: filter_empty_conv)
    with True b1(1) Cons.prems(3) kv s show ?thesis by auto
  next
    case False
    with Cons.IH [OF b1(2)] le b1 Cons.prems(3) kv s show ?thesis by auto
  qed
qed simp

end

definition seen_names :: "ARL_BASE \<Rightarrow> string set" where
  "seen_names b = e_name ` {e \<in> set (entries b). is_found e}"

lemma seen_names_marked:
  assumes "set es' = insert (mark_found x) R" and "R \<subseteq> S" and "S \<subseteq> insert x R"
  shows "e_name ` {e \<in> set es'. is_found e} = insert (e_name x) (e_name ` {e \<in> S. is_found e})"
proof -
  have "{e \<in> set es'. is_found e} = insert (mark_found x) {e \<in> R. is_found e}" using assms(1) by auto
  then have "e_name ` {e \<in> set es'. is_found e} = insert (e_name x) (e_name ` {e \<in> R. is_found e})" by simp
  also have "\<dots> = insert (e_name x) (e_name ` {e \<in> S. is_found e})" using assms(2,3) by auto
  finally show ?thesis .
qed

lemma seen_names_split:
  assumes "set es = insert x (set es')" and "is_found x"
  shows "e_name ` {e \<in> set es. is_found e} = insert (e_name x) (e_name ` {e \<in> set es'. is_found e})"
  using assms by auto

lemma arl_check_seen:
  assumes ok: "arl_ok b" "next_keyword b \<noteq> None" and c: "arl_check b k v m = Some (b', m', stop)"
  shows "seen_names b' = insert k (seen_names b)"
proof -
  obtain n where n: "next_keyword b = Some n" using ok(2) by blast
  let ?es = "entries b"
  have nl: "n < length ?es" "distinct (map e_name ?es)" using ok(1) n by (auto simp: arl_ok_def)
  show ?thesis
  proof (cases "k = e_name (?es ! n)")
    case True
    then have u: "entries b' = ?es[n := mark_found (?es ! n)]"
      using c n by (auto simp: arl_check_def mark_found_def Let_def split: option.splits)
    have "set (?es[n := mark_found (?es ! n)]) = insert (mark_found (?es ! n)) (set ?es - {?es ! n})"
      using nl by (intro set_update_distinct) (auto simp: distinct_map)
    from seen_names_marked [OF this, of "set ?es"] show ?thesis
      unfolding seen_names_def u using True by blast
  next
    case False
    then have r: "arl_find_or_create_and_relink b k v m = Some (b', m', stop)"
      using c n by (simp add: arl_check_def)
    show ?thesis
    proof (cases "arl_find (simple_hash k) k ?es")
      case None
      let ?e = "\<lparr> e_name = k, e_hash = simple_hash k, e_dst = None,
        e_flags = ARL_ENTRY_FLAG_DYNAMIC OR ARL_ENTRY_FLAG_FOUND, e_processor = None \<rparr>"
      have "entries b' = take n ?es @ ?e # drop n ?es"
        using r n None by (auto simp: arl_find_or_create_and_relink_def arl_link_def Let_def)
      moreover have "set ?es = set (take n ?es) \<union> set (drop n ?es)" by (metis append_take_drop_id set_append)
      ultimately have "set (entries b') = insert ?e (set ?es)" by auto
      moreover have "is_found ?e" by (simp add: flag_defs bit_or_iff)
      ultimately show ?thesis using seen_names_split by (simp add: seen_names_def)
    next
      case (Some i)
      note i = arl_find_Some [OF Some]
      let ?r = "take i ?es @ drop (Suc i) ?es" and ?n' = "if i < n then n - 1 else n"
      have "entries b' = take ?n' ?r @ mark_found (?es ! i) # drop ?n' ?r"
        using r n Some by (auto simp: arl_find_or_create_and_relink_def arl_link_def mark_found_def Let_def
            split: option.splits if_splits)
      moreover have "set ?r = set (take ?n' ?r) \<union> set (drop ?n' ?r)" by (metis append_take_drop_id set_append)
      ultimately have s: "set (entries b') = insert (mark_found (?es ! i)) (set ?r)" by auto
      have "set ?es = insert (?es ! i) (set ?r)"
        using i id_take_nth_drop [of i ?es] by (metis Un_insert_right list.simps(15) set_append)
      then show ?thesis using seen_names_marked [OF s, of "set ?es"] i by (auto simp: seen_names_def)
    qed
  qed
qed

interpretation arl_seen: seeing_list "\<lambda>b. arl_ok b \<and> next_keyword b \<noteq> None \<and> 0 < rechecks b" arl_target found wanted
  arl_check store_value seen_names
proof
  fix b k v m
  assume "arl_ok b \<and> next_keyword b \<noteq> None \<and> 0 < rechecks b"
  moreover from this obtain b' where "arl_check_post b k b'"
    "arl_check b k v m = Some (b', store_value (arl_target b k) k v m, found b' = wanted b')"
    using arl_check_total by blast
  ultimately show "\<exists>b'. arl_check b k v m = Some (b', store_value (arl_target b k) k v m, found b' = wanted b') \<and>
      (arl_ok b' \<and> next_keyword b' \<noteq> None \<and> 0 < rechecks b') \<and> arl_target b' = arl_target b \<and> wanted b' = wanted b \<and>
      found b' = found b + (if arl_target b k = None then 0 else 1)"
    unfolding arl_check_post_def by auto
qed (auto simp: store_value_def arl_check_seen)

section \<open>Rounds over a list\<close>

text \<open>The state of a list between rounds: \<open>K\<close> are the keywords with a variable that the file has.\<close>

definition arl_for :: "(string \<Rightarrow> (nat \<times> processor) option) \<Rightarrow> string set \<Rightarrow> ARL_BASE \<Rightarrow> bool" where
  "arl_for t K b \<longleftrightarrow> arl_ok b \<and> arl_target b = t \<and> 0 < rechecks b \<and> card K \<le> wanted b \<and>
     (0 < iteration b \<longrightarrow> K \<subseteq> seen_names b)"

lemma arl_sweep_wanted:
  "arl_sweep wee kept es w f = (es', w', f') \<Longrightarrow>
   w' = w + (if wee then 0 else length (filter (\<lambda>e. is_found e \<and> is_expected e) es))"
proof (induction es arbitrary: kept w f)
  case (Cons e es)
  then show ?case by (fastforce simp: arl_sweep_Cons split: if_splits)
qed simp

lemma target_expected:
  assumes "arl_ok b" and "arl_target b k \<noteq> None"
  obtains e where "e \<in> set (entries b)" and "e_name e = k" and "is_expected e"
proof -
  have "k \<in> e_name ` set (entries b)" using assms(2) arl_target_None [of k b] by (rule contrapos_np)
  then obtain e where e: "e \<in> set (entries b)" "e_name e = k" by blast
  from arl_target_entry [OF assms(1) e(1)] e(2) assms(2) have "target_of e \<noteq> None" by auto
  then have "e_dst e \<noteq> None" by (auto simp: target_of_def split: option.splits)
  moreover have "arl_entry_ok e" using assms(1) e(1) by (simp add: arl_ok_def list_all_iff)
  ultimately have "is_expected e" unfolding arl_entry_ok_def by blast
  with e show ?thesis by (rule that)
qed

lemma card_expected:
  assumes "arl_ok b" and "\<forall>k \<in> K. arl_target b k \<noteq> None"
  shows "card K \<le> expected b" and "K \<subseteq> seen_names b \<Longrightarrow> card K \<le> length (filter (\<lambda>e. is_found e \<and> is_expected e) (entries b))"
proof -
  have d: "distinct (map e_name (entries b))" and x: "expected b = length (filter is_expected (entries b))"
    using assms(1) by (simp_all add: arl_ok_def)
  have "K \<subseteq> e_name ` set (filter is_expected (entries b))"
  proof
    fix k assume "k \<in> K"
    then obtain e where "e \<in> set (entries b)" "e_name e = k" "is_expected e"
      using target_expected [OF assms(1)] assms(2) by metis
    then show "k \<in> e_name ` set (filter is_expected (entries b))" by auto
  qed
  then have "card K \<le> card (e_name ` set (filter is_expected (entries b)))" by (intro card_mono) simp_all
  also have "\<dots> \<le> length (filter is_expected (entries b))" by (metis card_length length_map set_map)
  finally show "card K \<le> expected b" unfolding x .
  assume s: "K \<subseteq> seen_names b"
  have "K \<subseteq> e_name ` set (filter (\<lambda>e. is_found e \<and> is_expected e) (entries b))"
  proof
    fix k assume k: "k \<in> K"
    then obtain e where e: "e \<in> set (entries b)" "e_name e = k" "is_found e" using s by (auto simp: seen_names_def)
    obtain e' where e': "e' \<in> set (entries b)" "e_name e' = k" "is_expected e'"
      using target_expected [OF assms(1)] assms(2) k by metis
    from e e' d have "e' = e" by (auto simp: distinct_map inj_on_def)
    with e e' show "k \<in> e_name ` set (filter (\<lambda>e. is_found e \<and> is_expected e) (entries b))" by auto
  qed
  then have "card K \<le> card (e_name ` set (filter (\<lambda>e. is_found e \<and> is_expected e) (entries b)))"
    by (intro card_mono) simp_all
  also have "\<dots> \<le> length (filter (\<lambda>e. is_found e \<and> is_expected e) (entries b))"
    by (metis card_length length_map set_map)
  finally show "card K \<le> length (filter (\<lambda>e. is_found e \<and> is_expected e) (entries b))" .
qed

lemma arl_begin_wanted:
  assumes f: "arl_for t K b" and K: "\<forall>k \<in> K. t k \<noteq> None" and bg: "arl_begin b = Some b'"
  shows "card K \<le> wanted b'"
proof -
  have ok: "arl_ok b" and t: "arl_target b = t" and w: "card K \<le> wanted b"
    and s: "0 < iteration b \<Longrightarrow> K \<subseteq> seen_names b" using f by (auto simp: arl_for_def)
  note c = card_expected [OF ok, of K]
  let ?wee = "iteration b mod rechecks b = 0"
  have r: "card K \<le> wanted (arl_recheck b)"
  proof (cases "0 < iteration b \<and> (added b \<noteq> 0 \<or> ?wee)")
    case True
    obtain es w' f' where sw: "arl_sweep ?wee [] (entries b) (if ?wee then expected b else 0) (fred b) = (es, w', f')"
      using prod_cases3 by blast
    then have "wanted (arl_recheck b) = w'" using True by (simp add: arl_recheck_def)
    with arl_sweep_wanted [OF sw] c s True K t show ?thesis by (cases ?wee) auto
  next
    case False
    with w show ?thesis by (auto simp: arl_recheck_def)
  qed
  show ?thesis
  proof (cases "entries (arl_recheck b) = []")
    case True
    then have "arl_target (arl_recheck b) = Map.empty" by (simp add: arl_target_def List.map_filter_simps)
    then have "K = {}" using K t arl_recheck_ok(2) [OF ok] by auto
    then show ?thesis by simp
  next
    case False
    with r bg show ?thesis by (auto simp: arl_begin_def Let_def split: if_splits)
  qed
qed

text \<open>One round, when the keywords of the file that have a variable are those of the rounds before:
  it finishes, and every keyword stores its value.\<close>

lemma keyword_round:
  assumes f: "arl_for t K b" and d: "distinct (map fst ls)" and K: "K = {k \<in> fst ` set ls. t k \<noteq> None}"
  obtains b1 b2 where "arl_begin b = Some b1"
    and "scan_lines arl_check b1 ls m = Some (b2, foldl (\<lambda>m (k, v). store_value (t k) k v m) m ls)" and "arl_for t K b2"
proof -
  have ok: "arl_ok b" "0 < iteration b \<longrightarrow> 0 < rechecks b" "arl_target b = t" "0 < rechecks b"
    using f by (auto simp: arl_for_def)
  from arl_begin_Some [OF ok(1,2)] obtain b1 where b1: "arl_begin b = Some b1" "arl_ok b1"
    "next_keyword b1 = Some 0" "found b1 = 0" "arl_target b1 = arl_target b" "rechecks b1 = rechecks b" .
  have "length (filter (\<lambda>(k, v). t k \<noteq> None) ls) = card (fst ` set (filter (\<lambda>(k, v). t k \<noteq> None) ls))"
    using d by (metis (no_types, lifting) distinct_card distinct_map_filter length_map set_map)
  also have "fst ` set (filter (\<lambda>(k, v). t k \<noteq> None) ls) = K" unfolding K by force
  also have "card K \<le> wanted b1" using arl_begin_wanted [OF f _ b1(1)] K by blast
  finally have n: "found b1 + length (filter (\<lambda>(k, v). arl_target b1 k \<noteq> None) ls) \<le> wanted b1"
    using b1(4,5) ok(3) by simp
  have g: "arl_ok b1 \<and> next_keyword b1 \<noteq> None \<and> 0 < rechecks b1" using b1 ok(4) by simp
  from arl_seen.scan_complete [OF g n, of m] obtain b2 where
    b2: "scan_lines arl_check b1 ls m = Some (b2, foldl (\<lambda>m (k, v). store_value (t k) k v m) m ls)"
    "arl_ok b2" "0 < rechecks b2" "arl_target b2 = t" "wanted b2 = wanted b1"
    unfolding b1(5) ok(3) by auto
  have "K \<subseteq> seen_names b2" using arl_seen.scan_seen [OF g n b2(1)] b1(5) ok(3) K by auto
  then have "arl_for t K b2" using b2 \<open>card K \<le> wanted b1\<close> by (simp add: arl_for_def)
  with b1(1) b2(1) that show ?thesis by blast
qed

section \<open>The variables after a round\<close>

definition keyword_value :: "(string \<times> string) list \<Rightarrow> string \<Rightarrow> u64" where
  "keyword_value ls k = (case map_of ls k of None \<Rightarrow> 0 | Some v \<Rightarrow> str2uint64_t v)"

text \<open>The variables whose keyword is not in the file are zero, as they were made.\<close>

definition absent_zero :: "(string \<Rightarrow> (nat \<times> processor) option) \<Rightarrow> string set \<Rightarrow> mem \<Rightarrow> bool" where
  "absent_zero t K m \<longleftrightarrow> (\<forall>k d p. t k = Some (d, p) \<longrightarrow> k \<notin> K \<longrightarrow> m d = 0)"

lemma round_cells:
  assumes t: "plain_targets t" and d: "distinct (map fst ls)" and K: "K = {k \<in> fst ` set ls. t k \<noteq> None}"
    and z: "absent_zero t K m" and k: "t k = Some (a, p)"
  shows "foldl (\<lambda>m (k, v). store_value (t k) k v m) m ls a = keyword_value ls k"
proof (cases "map_of ls k")
  case None
  then have "k \<notin> fst ` set ls" by (simp add: map_of_eq_None_iff)
  then have "m a = 0" using z k K by (auto simp: absent_zero_def)
  moreover have "\<forall>(k', v) \<in> set ls. \<forall>p. t k' \<noteq> Some (a, p)"
  proof safe
    fix k' v p' assume "(k', v) \<in> set ls" "t k' = Some (a, p')"
    moreover from this t k have "k' = k" unfolding plain_targets_def by metis
    ultimately show False using \<open>k \<notin> fst ` set ls\<close> by force
  qed
  ultimately show ?thesis using fold_store_other [OF t] None by (simp add: keyword_value_def)
next
  case (Some v)
  then have "(k, v) \<in> set ls" by (rule map_of_SomeD)
  from fold_store_key [OF t d this k] Some show ?thesis by (simp add: keyword_value_def)
qed

lemma round_absent:
  assumes t: "plain_targets t" and K: "K = {k \<in> fst ` set ls. t k \<noteq> None}" and z: "absent_zero t K m"
  shows "absent_zero t K (foldl (\<lambda>m (k, v). store_value (t k) k v m) m ls)"
  unfolding absent_zero_def
proof (intro allI impI)
  fix k a p assume k: "t k = Some (a, p)" "k \<notin> K"
  have "\<forall>(k', v) \<in> set ls. \<forall>p. t k' \<noteq> Some (a, p)"
  proof safe
    fix k' v p' assume "(k', v) \<in> set ls" "t k' = Some (a, p')"
    moreover from this t k have "k' = k" unfolding plain_targets_def by metis
    ultimately show False using k K by force
  qed
  from fold_store_other [OF t this] z k show "foldl (\<lambda>m (k, v). store_value (t k) k v m) m ls a = 0"
    by (auto simp: absent_zero_def)
qed

section \<open>Lists as the collectors make them\<close>

definition bind_target :: "string list \<Rightarrow> (string \<times> string) list \<Rightarrow> string \<Rightarrow> (nat \<times> processor) option" where
  "bind_target vars kws k = map_option (\<lambda>x. (addr_of vars x, arl_callback_str2ull)) (map_of kws k)"

lemma addr_of_inj: "x \<in> set vars \<Longrightarrow> addr_of vars x = addr_of vars y \<Longrightarrow> x = y"
  by (induction vars) (auto split: if_splits)

definition bind_ok :: "string list \<Rightarrow> (string \<times> string) list \<Rightarrow> bool" where
  "bind_ok vars kws \<longleftrightarrow> distinct (map fst kws) \<and> distinct (map snd kws) \<and> list_all (\<lambda>(k, x). x \<in> set vars) kws"

lemma bind_plain:
  assumes "bind_ok vars kws"
  shows "plain_targets (bind_target vars kws)"
  unfolding plain_targets_def
proof (intro conjI allI impI, goal_cases)
  case (2 k k' d p p')
  then obtain x x' where x: "map_of kws k = Some x" "map_of kws k' = Some x'" "addr_of vars x = addr_of vars x'"
    by (auto simp: bind_target_def)
  then have m: "(k, x) \<in> set kws" "(k', x') \<in> set kws" by (auto dest: map_of_SomeD)
  with assms have "x \<in> set vars" by (auto simp: bind_ok_def list_all_iff)
  then have "x = x'" using x(3) by (rule addr_of_inj)
  moreover have "inj_on snd (set kws)" using assms by (simp add: bind_ok_def distinct_map)
  ultimately have "(k, x) = (k', x')" using m by (metis inj_onD snd_conv)
  then show ?case by simp
qed (auto simp: bind_target_def)

lemma arl_bind_ok:
  "distinct (map fst kws) \<Longrightarrow> let b = arl_bind vars kws (arl_create name None n) in
   arl_ok b \<and> arl_target b = bind_target vars kws \<and> rechecks b = n \<and> iteration b = 0 \<and> wanted b = expected b \<and>
   b_processor b = arl_callback_str2ull \<and> e_name ` set (entries b) = fst ` set kws"
proof (induction kws rule: rev_induct)
  case Nil
  have "arl_target (arl_create name None n) = bind_target vars []"
    by (simp add: fun_eq_iff arl_target_def arl_create_def bind_target_def List.map_filter_simps)
  then show ?case using arl_create_ok [of name None n] by (simp add: arl_bind_def arl_create_def)
next
  case (snoc kx kws)
  obtain k x where kx: "kx = (k, x)" by (cases kx)
  let ?b = "arl_bind vars kws (arl_create name None n)"
  have e: "arl_bind vars (kws @ [kx]) (arl_create name None n) = arl_expect_custom ?b k None (Some (addr_of vars x))"
    by (simp add: arl_bind_def kx arl_expect_def)
  have b: "arl_ok ?b" "arl_target ?b = bind_target vars kws" "rechecks ?b = n" "iteration ?b = 0" "wanted ?b = expected ?b"
    "b_processor ?b = arl_callback_str2ull" "e_name ` set (entries ?b) = fst ` set kws" "k \<notin> e_name ` set (entries ?b)"
    using snoc by (auto simp: Let_def kx)
  note ok = arl_expect_custom_ok [OF b(1,8), of None "Some (addr_of vars x)"]
    arl_target_expect [OF b(1,8), of None "Some (addr_of vars x)"]
  have "map_of kws k = None" using snoc.prems by (simp add: map_of_eq_None_iff kx)
  then have "arl_target (arl_expect_custom ?b k None (Some (addr_of vars x))) = bind_target vars (kws @ [kx])"
    unfolding ok(2) b(2) by (auto simp: fun_eq_iff bind_target_def kx map_add_def b(6) split: option.split)
  with ok(1) b show ?case unfolding e by (simp add: arl_expect_custom_def Let_def kx)
qed

lemma arl_bind_for:
  assumes "bind_ok vars kws" and "0 < n" and "\<forall>k \<in> K. bind_target vars kws k \<noteq> None"
  shows "arl_for (bind_target vars kws) K (arl_bind vars kws (arl_create name None n))"
proof -
  note b = arl_bind_ok [of kws vars name n, unfolded Let_def]
  have "arl_ok (arl_bind vars kws (arl_create name None n))" "arl_target (arl_bind vars kws (arl_create name None n)) = bind_target vars kws"
    "rechecks (arl_bind vars kws (arl_create name None n)) = n" "iteration (arl_bind vars kws (arl_create name None n)) = 0"
    "wanted (arl_bind vars kws (arl_create name None n)) = expected (arl_bind vars kws (arl_create name None n))"
    using b assms(1) by (simp_all add: bind_ok_def)
  with card_expected(1) [of "arl_bind vars kws (arl_create name None n)" K] assms(2,3) show ?thesis
    by (simp add: arl_for_def)
qed

end
