(* ===== verification/XM_Meminfo.thy ===== *)
theory XM_Meminfo
  imports XM_KeywordFiles
begin

text \<open>
  \<^verbatim>\<open>collectors/proc/proc_vmstat.c\<close> and \<^verbatim>\<open>collectors/proc/proc_meminfo.c\<close>: files with a keyword and its
  value on every line. A collector has a keyword list bound to its static variables, the open file and
  the name of the file; a round reads the file, feeds the lines to the list and sets the gauges. The
  number that a gauge is set to is given before its conversion to \<^verbatim>\<open>double\<close>.
\<close>

section \<open>A round over a file with keywords\<close>

record keyword_collector =
  kc_file :: "string option"
  kc_pf :: "proc_file option"
  kc_arl :: ARL_BASE
  kc_vars :: mem

definition new_collector :: "ARL_BASE \<Rightarrow> keyword_collector" where
  "new_collector b = \<lparr>kc_file = None, kc_pf = None, kc_arl = b, kc_vars = (\<lambda>_. 0)\<rparr>"

definition keyword_seps :: string where "keyword_seps = '' '' @ [CHR 0x09, CHR '':'']"

text \<open>What both collectors do before they set the gauges: \<open>conf\<close> is the file of the configuration,
  \<open>def\<close> the default; \<open>-1\<close> is returned when the file cannot be opened or read.\<close>

definition read_keyword_file ::
  "string option \<Rightarrow> string \<Rightarrow> file_io \<Rightarrow> keyword_collector \<Rightarrow> (keyword_collector \<times> int) option" where
  "read_keyword_file conf def io s =
     (let name = monitor_file (kc_file s) conf def; s1 = s\<lparr>kc_file := Some name\<rparr>
      in case open_and_read io name (Some keyword_seps) PROCFILE_FLAG_DEFAULT (kc_pf s) of
           None \<Rightarrow> None
         | Some None \<Rightarrow> Some (s1\<lparr>kc_pf := None\<rparr>, - 1)
         | Some (Some pf) \<Rightarrow>
             (case arl_begin (kc_arl s) of
                None \<Rightarrow> None
              | Some b \<Rightarrow>
                  (case scan_lines arl_check b (line_pairs pf) (kc_vars s) of
                     None \<Rightarrow> None
                   | Some (b', m) \<Rightarrow> Some (s1\<lparr>kc_pf := Some pf, kc_arl := b', kc_vars := m\<rparr>, 0))))"

text \<open>The whole round; \<open>vals\<close> gives the gauges from the variables.\<close>

definition keyword_collect ::
  "string \<Rightarrow> (mem \<Rightarrow> gauge_value list) \<Rightarrow> string option \<Rightarrow> file_io \<Rightarrow> keyword_collector \<Rightarrow>
   (keyword_collector \<times> gauge_value list \<times> int) option" where
  "keyword_collect def vals conf io s =
     (case read_keyword_file conf def io s of
        None \<Rightarrow> None
      | Some (s1, r) \<Rightarrow> Some (s1, if r = 0 then vals (kc_vars s1) else [], r))"

section \<open>\<^verbatim>\<open>/proc/vmstat\<close>\<close>

definition vmstat_vars :: "string list" where
  "vmstat_vars =
     [''__pgfault'', ''__pgmajfault'', ''__pgpgin'', ''__pgpgout'', ''__pswpin'', ''__pswpout'', ''__nr_dirty'',
      ''__nr_writeback'', ''__oom_kill'', ''__numa_hit'', ''__numa_miss'', ''__numa_foreign'',
      ''__numa_interleave'', ''__numa_local'', ''__numa_other'']"

definition vmstat_keywords :: "(string \<times> string) list" where
  "vmstat_keywords =
     [(''pgfault'', ''__pgfault''), (''pgmajfault'', ''__pgmajfault''), (''pgpgin'', ''__pgpgin''),
      (''pgpgout'', ''__pgpgout''), (''pswpin'', ''__pswpin''), (''pswpout'', ''__pswpout''),
      (''nr_dirty'', ''__nr_dirty''), (''nr_writeback'', ''__nr_writeback''), (''oom_kill'', ''__oom_kill''),
      (''numa_foreign'', ''__numa_foreign''), (''numa_interleave'', ''__numa_interleave''),
      (''numa_local'', ''__numa_local''), (''numa_other'', ''__numa_other''), (''numa_hit'', ''__numa_hit''),
      (''numa_miss'', ''__numa_miss'')]"

text \<open>The gauges with their names; all have the label \<^verbatim>\<open>vmstat\<close>.\<close>

definition vmstat_gauges :: "(string \<times> string) list" where
  "vmstat_gauges =
     [(''__metric_pgfault'', ''node_vmstat_pgfaults''), (''__metric_pgmajfault'', ''node_vmstat_pgmajfaults''),
      (''__metric_pgpgin'', ''node_vmstat_pgpgin''), (''__metric_pgpgout'', ''node_vmstat_pgpgout''),
      (''__metric_pswpin'', ''node_vmstat_pswpin''), (''__metric_pswpout'', ''node_vmstat_pswpout''),
      (''__metric_nr_dirty'', ''node_vmstat_nr_dirty''), (''__metric_nr_writeback'', ''node_vmstat_nr_writeback''),
      (''__metric_oom_kill'', ''node_vmstat_oom_kill''), (''__metric_numa_foreign'', ''node_vmstat_numa_foreign''),
      (''__metric_numa_interleave'', ''node_vmstat_numa_interleave''),
      (''__metric_numa_local'', ''node_vmstat_numa_local''), (''__metric_numa_other'', ''node_vmstat_numa_other''),
      (''__metric_numa_miss'', ''node_vmstat_numa_miss''), (''__metric_numa_hit'', ''node_vmstat_numa_hit'')]"

definition init_collector_proc_vmstat :: keyword_collector where
  "init_collector_proc_vmstat =
     new_collector (arl_bind vmstat_vars vmstat_keywords (arl_create ''proc_vmstat'' None 3))"

definition vmstat_values :: "mem \<Rightarrow> gauge_value list" where
  "vmstat_values m =
     (let v = (\<lambda>x. m (addr_of vmstat_vars x))
      in [(''__metric_pgfault'', v ''__pgfault'', ''page''),
          (''__metric_pgmajfault'', v ''__pgmajfault'', ''page''), (''__metric_pgpgin'', v ''__pgpgin'', ''page''),
          (''__metric_pgpgout'', v ''__pgpgout'', ''page''), (''__metric_pswpin'', v ''__pswpin'', ''page''),
          (''__metric_pswpout'', v ''__pswpout'', ''page''), (''__metric_nr_dirty'', v ''__nr_dirty'', ''page''),
          (''__metric_nr_writeback'', v ''__nr_writeback'', ''page''),
          (''__metric_oom_kill'', v ''__oom_kill'', ''oom_kill''),
          (''__metric_numa_foreign'', v ''__numa_foreign'', ''numa''),
          (''__metric_numa_hit'', v ''__numa_hit'', ''numa''),
          (''__metric_numa_miss'', v ''__numa_miss'', ''numa''),
          (''__metric_numa_interleave'', v ''__numa_interleave'', ''numa''),
          (''__metric_numa_local'', v ''__numa_local'', ''numa''),
          (''__metric_numa_other'', v ''__numa_other'', ''numa'')])"

definition collector_proc_vmstat ::
  "string option \<Rightarrow> file_io \<Rightarrow> keyword_collector \<Rightarrow> (keyword_collector \<times> gauge_value list \<times> int) option" where
  "collector_proc_vmstat = keyword_collect ''/proc/vmstat'' vmstat_values"

section \<open>\<^verbatim>\<open>/proc/meminfo\<close>\<close>

definition meminfo_vars :: "string list" where
  "meminfo_vars =
     [''__mem_total'', ''__mem_free'', ''__mem_available'', ''__buffers'', ''__cached'', ''__swap_cached'',
      ''__active'', ''__inactive'', ''__active_anon'', ''__inactive_anon'', ''__active_file'', ''__inactive_file'',
      ''__unevictable'', ''__mlocked'', ''__swap_total'', ''__swap_free'', ''__dirty'', ''__writeback'',
      ''__anon_pages'', ''__mapped'', ''__shmem'', ''__slab'', ''__slab_reclaimble'', ''__slab_unreclaim'',
      ''__kernel_stack'', ''__page_tables'', ''__nfs_unstable'', ''__bounce'', ''__writeback_tmp'',
      ''__commit_limit'', ''__committed_as'', ''__vmalloc_total'', ''__vmalloc_used'', ''__vmalloc_chunk'',
      ''__mem_percpu'', ''__hardware_corrupted'', ''__anon_huge_pages'', ''__shmem_huge_pages'',
      ''__huge_pages_total'', ''__huge_pages_free'', ''__huge_pages_rsvd'', ''__huge_pages_surp'']"

definition meminfo_keywords :: "(string \<times> string) list" where
  "meminfo_keywords =
     [(''MemTotal'', ''__mem_total''), (''MemFree'', ''__mem_free''), (''MemAvailable'', ''__mem_available''),
      (''Buffers'', ''__buffers''), (''Cached'', ''__cached''), (''SwapCached'', ''__swap_cached''),
      (''Active'', ''__active''), (''Inactive'', ''__inactive''), (''Active(anon)'', ''__active_anon''),
      (''Inactive(anon)'', ''__inactive_anon''), (''Active(file)'', ''__active_file''),
      (''Inactive(file)'', ''__inactive_file''), (''Unevictable'', ''__unevictable''),
      (''Mlocked'', ''__mlocked''), (''SwapTotal'', ''__swap_total''), (''SwapFree'', ''__swap_free''),
      (''Dirty'', ''__dirty''), (''Writeback'', ''__writeback''), (''AnonPages'', ''__anon_pages''),
      (''Mapped'', ''__mapped''), (''Shmem'', ''__shmem''), (''Slab'', ''__slab''),
      (''SReclaimable'', ''__slab_reclaimble''), (''SUnreclaim'', ''__slab_unreclaim''),
      (''KernelStack'', ''__kernel_stack''), (''PageTables'', ''__page_tables''),
      (''NFS_Unstable'', ''__nfs_unstable''), (''Bounce'', ''__bounce''), (''WritebackTmp'', ''__writeback_tmp''),
      (''CommitLimit'', ''__commit_limit''), (''Committed_AS'', ''__committed_as''),
      (''VmallocTotal'', ''__vmalloc_total''), (''VmallocUsed'', ''__vmalloc_used''),
      (''VmallocChunk'', ''__vmalloc_chunk''), (''Percpu'', ''__mem_percpu''),
      (''HardwareCorrupted'', ''__hardware_corrupted''), (''AnonHugePages'', ''__anon_huge_pages''),
      (''ShmemHugePages'', ''__shmem_huge_pages''), (''HugePages_Total'', ''__huge_pages_total''),
      (''HugePages_Free'', ''__huge_pages_free''), (''HugePages_Rsvd'', ''__huge_pages_rsvd''),
      (''HugePages_Surp'', ''__huge_pages_surp'')]"

text \<open>The gauges with their names; all have the label \<^verbatim>\<open>meminfo\<close>.\<close>

definition meminfo_gauges :: "(string \<times> string) list" where
  "meminfo_gauges =
     [(''__metric_memtotal'', ''node_memory_MemTotal_kilobytes''),
      (''__metric_memfree'', ''node_memory_MemFree_kilobytes''),
      (''__metric_memused'', ''node_memory_MemUsed_kilobytes''),
      (''__metric_memcached'', ''node_memory_Cached_kilobytes''),
      (''__metric_buffers'', ''node_memory_Buffers_kilobytes''),
      (''__metric_memavailable'', ''node_memory_MemAvailable_kilobytes''),
      (''__metric_active'', ''node_memory_Active_kilobytes''),
      (''__metric_inactive'', ''node_memory_Inactive_kilobytes''),
      (''__metric_active_anon'', ''node_memory_Active_anon_kilobytes''),
      (''__metric_inactive_anon'', ''node_memory_Inactive_anon_kilobytes''),
      (''__metric_active_file'', ''node_memory_Active_file_kilobytes''),
      (''__metric_inactive_file'', ''node_memory_Inactive_file_kilobytes''),
      (''__metric_unevictable'', ''node_memory_Unevictable_kilobytes''),
      (''__metric_mlocked'', ''node_memory_Mlocked_kilobytes''),
      (''__metric_swaptotal'', ''node_memory_SwapTotal_kilobytes''),
      (''__metric_swapused'', ''node_memory_SwapUsed_kilobytes''),
      (''__metric_swapfree'', ''node_memory_SwapFree_kilobytes''),
      (''__metric_hardwarecorrupted'', ''node_memory_HardwareCorrupted_kilobytes''),
      (''__metric_commit_limit'', ''node_memory_CommitLimit_kilobytes''),
      (''__metric_committed_as'', ''node_memory_Committed_AS_kilobytes''),
      (''__metric_dirty'', ''node_memory_Dirty_kilobytes''),
      (''__metric_writeback'', ''node_memory_Writeback_kilobytes''),
      (''__metric_anonpages'', ''node_memory_AnonPages_kilobytes''),
      (''__metric_mapped'', ''node_memory_Mapped_kilobytes''),
      (''__metric_shmem'', ''node_memory_Shmem_kilobytes''),
      (''__metric_writebacktmp'', ''node_memory_WritebackTmp_kilobytes''),
      (''__metric_nfsunstable'', ''node_memory_NFS_Unstable_kilobytes''),
      (''__metric_bounce'', ''node_memory_Bounce_kilobytes''), (''__metric_slab'', ''node_memory_Slab_kilobytes''),
      (''__metric_kernelstack'', ''node_memory_KernelStack_kilobytes''),
      (''__metric_pagetables'', ''node_memory_PageTables_kilobytes''),
      (''__metric_vmallocused'', ''node_memory_VmallocUsed_kilobytes''),
      (''__metric_percpu'', ''node_memory_Percpu_kilobytes''),
      (''__metric_slabreclaimable'', ''node_memory_SReclaimable_kilobytes''),
      (''__metric_slabunreclaim'', ''node_memory_SUnreclaim_kilobytes''),
      (''__metric_hugepagesused'', ''node_memory_HugePages_used''),
      (''__metric_hugepagesfree'', ''node_memory_HugePages_free''),
      (''__metric_hugepagesrsvd'', ''node_memory_HugePages_rsvd''),
      (''__metric_hugepagessurp'', ''node_memory_HugePages_surp''),
      (''__metric_anonhugepages'', ''node_memory_AnonHugePages_kilobytes''),
      (''__metric_shmemhugepages'', ''node_memory_ShmemHugePages_kilobytes'')]"

definition init_collector_proc_meminfo :: keyword_collector where
  "init_collector_proc_meminfo =
     new_collector (arl_bind meminfo_vars meminfo_keywords (arl_create ''proc_meminfo'' None 3))"

definition meminfo_values :: "mem \<Rightarrow> gauge_value list" where
  "meminfo_values m =
     (let v = (\<lambda>x. m (addr_of meminfo_vars x));
          mem_cached = v ''__cached'' + v ''__slab_reclaimble'' - v ''__shmem'';
          mem_used = v ''__mem_total'' - v ''__mem_free'' - mem_cached - v ''__buffers'';
          swap_used = v ''__swap_total'' - v ''__swap_free''
      in [(''__metric_memtotal'', v ''__mem_total'', ''mem''), (''__metric_memfree'', v ''__mem_free'', ''mem''),
          (''__metric_memused'', mem_used, ''mem''), (''__metric_memcached'', mem_cached, ''mem''),
          (''__metric_buffers'', v ''__buffers'', ''mem''),
          (''__metric_memavailable'', v ''__mem_available'', ''mem''),
          (''__metric_active'', v ''__active'', ''mem''), (''__metric_inactive'', v ''__inactive'', ''mem''),
          (''__metric_active_anon'', v ''__active_anon'', ''mem''),
          (''__metric_inactive_anon'', v ''__inactive_anon'', ''mem''),
          (''__metric_active_file'', v ''__active_file'', ''mem''),
          (''__metric_inactive_file'', v ''__inactive_file'', ''mem''),
          (''__metric_unevictable'', v ''__unevictable'', ''mem''),
          (''__metric_mlocked'', v ''__mlocked'', ''mem''), (''__metric_anonpages'', v ''__anon_pages'', ''mem''),
          (''__metric_mapped'', v ''__mapped'', ''mem''), (''__metric_shmem'', v ''__shmem'', ''mem''),
          (''__metric_swaptotal'', v ''__swap_total'', ''swap''), (''__metric_swapused'', swap_used, ''swap''),
          (''__metric_swapfree'', v ''__swap_free'', ''swap''),
          (''__metric_hardwarecorrupted'', v ''__hardware_corrupted'', ''hwcorrupt''),
          (''__metric_commit_limit'', v ''__commit_limit'', ''kernel''),
          (''__metric_committed_as'', v ''__committed_as'', ''kernel''),
          (''__metric_dirty'', v ''__dirty'', ''writeback''),
          (''__metric_writeback'', v ''__writeback'', ''writeback''),
          (''__metric_writebacktmp'', v ''__writeback_tmp'', ''writeback''),
          (''__metric_nfsunstable'', v ''__nfs_unstable'', ''writeback''),
          (''__metric_bounce'', v ''__bounce'', ''writeback''), (''__metric_slab'', v ''__slab'', ''kernel''),
          (''__metric_kernelstack'', v ''__kernel_stack'', ''kernel''),
          (''__metric_pagetables'', v ''__page_tables'', ''kernel''),
          (''__metric_vmallocused'', v ''__vmalloc_used'', ''kernel''),
          (''__metric_percpu'', v ''__mem_percpu'', ''kernel''),
          (''__metric_slabreclaimable'', v ''__slab_reclaimble'', ''slab''),
          (''__metric_slabunreclaim'', v ''__slab_unreclaim'', ''slab''),
          (''__metric_hugepagesused'', v ''__huge_pages_total'' - v ''__huge_pages_free'' - v ''__huge_pages_rsvd'', ''hugepages''),
          (''__metric_hugepagesfree'', v ''__huge_pages_free'', ''hugepages''),
          (''__metric_hugepagesrsvd'', v ''__huge_pages_rsvd'', ''hugepages''),
          (''__metric_hugepagessurp'', v ''__huge_pages_surp'', ''hugepages''),
          (''__metric_anonhugepages'', v ''__anon_huge_pages'', ''transparent_hugepages''),
          (''__metric_shmemhugepages'', v ''__shmem_huge_pages'', ''transparent_hugepages'')])"

definition collector_proc_meminfo ::
  "string option \<Rightarrow> file_io \<Rightarrow> keyword_collector \<Rightarrow> (keyword_collector \<times> gauge_value list \<times> int) option" where
  "collector_proc_meminfo = keyword_collect ''/proc/meminfo'' meminfo_values"

section \<open>Rounds\<close>

text \<open>The keywords of a text with their values, and the names under which the numbers are published.\<close>

definition file_keywords :: "string \<Rightarrow> (string \<times> string) list" where
  "file_keywords c = text_pairs (cut_text (seps_of keyword_seps) c)"

definition published :: "(string \<times> string) list \<Rightarrow> gauge_value list \<Rightarrow> (string option \<times> u64 \<times> string) list" where
  "published gauges ms = map (\<lambda>(g, v, l). (map_of gauges g, v, l)) ms"

text \<open>What a collector of this kind provides: distinct keywords bound to distinct variables, and
  gauges that publish the report \<open>spec\<close> when the variables hold the values of their keywords.\<close>

locale keyword_file =
  fixes vars :: "string list" and kws :: "(string \<times> string) list" and gauges :: "(string \<times> string) list"
    and vals :: "mem \<Rightarrow> gauge_value list" and spec :: "(string \<Rightarrow> u64) \<Rightarrow> gauge_value list" and def :: string
  assumes bound: "bind_ok vars kws"
    and publishes: "(\<And>k x. (k, x) \<in> set kws \<Longrightarrow> m (addr_of vars x) = val k) \<Longrightarrow>
      published gauges (vals m) = map (\<lambda>(n, v, l). (Some n, v, l)) (spec val)"
begin

lemma round_publishes:
  assumes io: "io_file io c" and d: "distinct (map fst (file_keywords c))"
    and K: "K = {k \<in> fst ` set (file_keywords c). map_of kws k \<noteq> None}"
    and inv: "arl_for (bind_target vars kws) K (kc_arl s)" "slot_ok keyword_seps (kc_pf s)"
      "absent_zero (bind_target vars kws) K (kc_vars s)"
  obtains s' ms where "keyword_collect def vals conf io s = Some (s', ms, 0)"
    and "published gauges ms = map (\<lambda>(n, v, l). (Some n, v, l)) (spec (keyword_value (file_keywords c)))"
    and "arl_for (bind_target vars kws) K (kc_arl s')" "slot_ok keyword_seps (kc_pf s')"
      "absent_zero (bind_target vars kws) K (kc_vars s')"
proof -
  let ?t = "bind_target vars kws" and ?ls = "file_keywords c"
  have "\<forall>x \<in> set keyword_seps. code_of x < 128" by (simp add: keyword_seps_def)
  from open_and_read_ok [OF io inv(2) this, of "monitor_file (kc_file s) conf def" PROCFILE_FLAG_DEFAULT]
  obtain pf where pf: "open_and_read io (monitor_file (kc_file s) conf def) (Some keyword_seps) PROCFILE_FLAG_DEFAULT (kc_pf s) =
      Some (Some pf)" "slot_ok keyword_seps (Some pf)" "tables_ok pf" "procfile_contents pf = cut_text (seps_of keyword_seps) c" .
  have ls: "line_pairs pf = ?ls" using line_pairs_contents [OF pf(3)] pf(4) by (simp add: file_keywords_def)
  have K': "K = {k \<in> fst ` set ?ls. ?t k \<noteq> None}" using K by (simp add: bind_target_def)
  let ?m = "foldl (\<lambda>m (k, v). store_value (?t k) k v m) (kc_vars s) ?ls"
  from keyword_round [OF inv(1) d K', of "kc_vars s"] obtain b1 b2 where
    b: "arl_begin (kc_arl s) = Some b1" "scan_lines arl_check b1 ?ls (kc_vars s) = Some (b2, ?m)" "arl_for ?t K b2" .
  have p: "plain_targets ?t" using bound by (rule bind_plain)
  have "?m (addr_of vars x) = keyword_value ?ls k" if kx: "(k, x) \<in> set kws" for k x
  proof -
    have "map_of kws k = Some x" using kx bound by (simp add: bind_ok_def)
    then have "?t k = Some (addr_of vars x, arl_callback_str2ull)" by (simp add: bind_target_def)
    with round_cells [OF p d K' inv(3)] show ?thesis by blast
  qed
  then have "published gauges (vals ?m) =
      map (\<lambda>(n, v, l). (Some n, v, l)) (spec (keyword_value ?ls))" by (rule publishes)
  with pf b round_absent [OF p K' inv(3)] show ?thesis
    by (intro that [of "s\<lparr>kc_file := Some (monitor_file (kc_file s) conf def), kc_pf := Some pf, kc_arl := b2, kc_vars := ?m\<rparr>" "vals ?m"])
      (simp_all add: keyword_collect_def read_keyword_file_def Let_def ls)
qed

lemma rounds_publish:
  assumes "list_all2 io_file ios cs"
    and "\<forall>c \<in> set cs. distinct (map fst (file_keywords c)) \<and> {k \<in> fst ` set (file_keywords c). map_of kws k \<noteq> None} = K"
    and "arl_for (bind_target vars kws) K (kc_arl s)" "slot_ok keyword_seps (kc_pf s)"
      "absent_zero (bind_target vars kws) K (kc_vars s)"
  shows "\<exists>s' outs. run_rounds (keyword_collect def vals conf) ios s = Some (s', outs) \<and>
    map (\<lambda>(ms, r). (published gauges ms, r)) outs =
    map (\<lambda>c. (map (\<lambda>(n, v, l). (Some n, v, l)) (spec (keyword_value (file_keywords c))), 0)) cs"
  using assms
proof (induction ios cs arbitrary: s rule: list_all2_induct)
  case (Cons io ios c cs)
  from Cons.prems(1) have c: "distinct (map fst (file_keywords c))"
    "K = {k \<in> fst ` set (file_keywords c). map_of kws k \<noteq> None}" by auto
  from round_publishes [OF Cons.hyps(1) c Cons.prems(2-4), of conf] obtain s1 ms where
    s1: "keyword_collect def vals conf io s = Some (s1, ms, 0)"
    "published gauges ms = map (\<lambda>(n, v, l). (Some n, v, l)) (spec (keyword_value (file_keywords c)))"
    "arl_for (bind_target vars kws) K (kc_arl s1)" "slot_ok keyword_seps (kc_pf s1)"
      "absent_zero (bind_target vars kws) K (kc_vars s1)" .
  from Cons.IH [OF _ s1(3-5)] Cons.prems(1) obtain s' outs where
    "run_rounds (keyword_collect def vals conf) ios s1 = Some (s', outs)"
    "map (\<lambda>(ms, r). (published gauges ms, r)) outs =
      map (\<lambda>c. (map (\<lambda>(n, v, l). (Some n, v, l)) (spec (keyword_value (file_keywords c))), 0)) cs" by auto
  with s1(1,2) show ?case by auto
qed simp

lemma new_rounds_publish:
  assumes "list_all2 io_file ios cs" and "cs \<noteq> []"
    and K: "\<forall>c \<in> set cs. distinct (map fst (file_keywords c)) \<and> {k \<in> fst ` set (file_keywords c). map_of kws k \<noteq> None} = K"
    and "s = new_collector (arl_bind vars kws (arl_create name None 3))"
  shows "\<exists>s' outs. run_rounds (keyword_collect def vals conf) ios s = Some (s', outs) \<and>
    map (\<lambda>(ms, r). (published gauges ms, r)) outs =
    map (\<lambda>c. (map (\<lambda>(n, v, l). (Some n, v, l)) (spec (keyword_value (file_keywords c))), 0)) cs"
proof (rule rounds_publish [OF assms(1) K])
  have "\<forall>k \<in> K. bind_target vars kws k \<noteq> None"
    using K assms(2) by (cases cs) (auto simp: bind_target_def)
  then show "arl_for (bind_target vars kws) K (kc_arl s)"
    using arl_bind_for [OF bound, of 3 K name] assms(4) by (simp add: new_collector_def)
qed (simp_all add: assms(4) new_collector_def absent_zero_def)

end

section \<open>What is published\<close>

definition vmstat_report :: "(string \<Rightarrow> u64) \<Rightarrow> gauge_value list" where
  "vmstat_report val =
     [(''node_vmstat_pgfaults'', val ''pgfault'', ''page''),
      (''node_vmstat_pgmajfaults'', val ''pgmajfault'', ''page''),
      (''node_vmstat_pgpgin'', val ''pgpgin'', ''page''), (''node_vmstat_pgpgout'', val ''pgpgout'', ''page''),
      (''node_vmstat_pswpin'', val ''pswpin'', ''page''), (''node_vmstat_pswpout'', val ''pswpout'', ''page''),
      (''node_vmstat_nr_dirty'', val ''nr_dirty'', ''page''),
      (''node_vmstat_nr_writeback'', val ''nr_writeback'', ''page''),
      (''node_vmstat_oom_kill'', val ''oom_kill'', ''oom_kill''),
      (''node_vmstat_numa_foreign'', val ''numa_foreign'', ''numa''),
      (''node_vmstat_numa_hit'', val ''numa_hit'', ''numa''),
      (''node_vmstat_numa_miss'', val ''numa_miss'', ''numa''),
      (''node_vmstat_numa_interleave'', val ''numa_interleave'', ''numa''),
      (''node_vmstat_numa_local'', val ''numa_local'', ''numa''),
      (''node_vmstat_numa_other'', val ''numa_other'', ''numa'')]"

definition meminfo_report :: "(string \<Rightarrow> u64) \<Rightarrow> gauge_value list" where
  "meminfo_report val =
     (let cached = val ''Cached'' + val ''SReclaimable'' - val ''Shmem''
      in [(''node_memory_MemTotal_kilobytes'', val ''MemTotal'', ''mem''),
          (''node_memory_MemFree_kilobytes'', val ''MemFree'', ''mem''),
          (''node_memory_MemUsed_kilobytes'', val ''MemTotal'' - val ''MemFree'' - cached - val ''Buffers'', ''mem''),
          (''node_memory_Cached_kilobytes'', cached, ''mem''),
          (''node_memory_Buffers_kilobytes'', val ''Buffers'', ''mem''),
          (''node_memory_MemAvailable_kilobytes'', val ''MemAvailable'', ''mem''),
          (''node_memory_Active_kilobytes'', val ''Active'', ''mem''),
          (''node_memory_Inactive_kilobytes'', val ''Inactive'', ''mem''),
          (''node_memory_Active_anon_kilobytes'', val ''Active(anon)'', ''mem''),
          (''node_memory_Inactive_anon_kilobytes'', val ''Inactive(anon)'', ''mem''),
          (''node_memory_Active_file_kilobytes'', val ''Active(file)'', ''mem''),
          (''node_memory_Inactive_file_kilobytes'', val ''Inactive(file)'', ''mem''),
          (''node_memory_Unevictable_kilobytes'', val ''Unevictable'', ''mem''),
          (''node_memory_Mlocked_kilobytes'', val ''Mlocked'', ''mem''),
          (''node_memory_AnonPages_kilobytes'', val ''AnonPages'', ''mem''),
          (''node_memory_Mapped_kilobytes'', val ''Mapped'', ''mem''),
          (''node_memory_Shmem_kilobytes'', val ''Shmem'', ''mem''),
          (''node_memory_SwapTotal_kilobytes'', val ''SwapTotal'', ''swap''),
          (''node_memory_SwapUsed_kilobytes'', val ''SwapTotal'' - val ''SwapFree'', ''swap''),
          (''node_memory_SwapFree_kilobytes'', val ''SwapFree'', ''swap''),
          (''node_memory_HardwareCorrupted_kilobytes'', val ''HardwareCorrupted'', ''hwcorrupt''),
          (''node_memory_CommitLimit_kilobytes'', val ''CommitLimit'', ''kernel''),
          (''node_memory_Committed_AS_kilobytes'', val ''Committed_AS'', ''kernel''),
          (''node_memory_Dirty_kilobytes'', val ''Dirty'', ''writeback''),
          (''node_memory_Writeback_kilobytes'', val ''Writeback'', ''writeback''),
          (''node_memory_WritebackTmp_kilobytes'', val ''WritebackTmp'', ''writeback''),
          (''node_memory_NFS_Unstable_kilobytes'', val ''NFS_Unstable'', ''writeback''),
          (''node_memory_Bounce_kilobytes'', val ''Bounce'', ''writeback''),
          (''node_memory_Slab_kilobytes'', val ''Slab'', ''kernel''),
          (''node_memory_KernelStack_kilobytes'', val ''KernelStack'', ''kernel''),
          (''node_memory_PageTables_kilobytes'', val ''PageTables'', ''kernel''),
          (''node_memory_VmallocUsed_kilobytes'', val ''VmallocUsed'', ''kernel''),
          (''node_memory_Percpu_kilobytes'', val ''Percpu'', ''kernel''),
          (''node_memory_SReclaimable_kilobytes'', val ''SReclaimable'', ''slab''),
          (''node_memory_SUnreclaim_kilobytes'', val ''SUnreclaim'', ''slab''),
          (''node_memory_HugePages_used'', val ''HugePages_Total'' - val ''HugePages_Free'' - val ''HugePages_Rsvd'', ''hugepages''),
          (''node_memory_HugePages_free'', val ''HugePages_Free'', ''hugepages''),
          (''node_memory_HugePages_rsvd'', val ''HugePages_Rsvd'', ''hugepages''),
          (''node_memory_HugePages_surp'', val ''HugePages_Surp'', ''hugepages''),
          (''node_memory_AnonHugePages_kilobytes'', val ''AnonHugePages'', ''transparent_hugepages''),
          (''node_memory_ShmemHugePages_kilobytes'', val ''ShmemHugePages'', ''transparent_hugepages'')])"

interpretation vmstat: keyword_file vmstat_vars vmstat_keywords vmstat_gauges vmstat_values vmstat_report "''/proc/vmstat''"
proof
  show "bind_ok vmstat_vars vmstat_keywords" by code_simp
  fix m :: mem and val
  assume "\<And>k x. (k, x) \<in> set vmstat_keywords \<Longrightarrow> m (addr_of vmstat_vars x) = val k"
  then have v: "list_all (\<lambda>(k, x). m (addr_of vmstat_vars x) = val k) vmstat_keywords" by (auto simp: list_all_iff)
  define G where "G = vmstat_gauges"
  have g: "list_all (\<lambda>(g, n). map_of G g = Some n) vmstat_gauges" unfolding G_def by code_simp
  from v g have "map (\<lambda>(g, v, l). (map_of G g, v, l)) (vmstat_values m) =
      map (\<lambda>(n, v, l). (Some n, v, l)) (vmstat_report val)"
    unfolding vmstat_keywords_def vmstat_gauges_def vmstat_values_def vmstat_report_def Let_def list.pred_inject list.map prod.case
    by (simp only: simp_thms)
  then show "published vmstat_gauges (vmstat_values m) = map (\<lambda>(n, v, l). (Some n, v, l)) (vmstat_report val)"
    by (simp only: published_def G_def)
qed

interpretation meminfo: keyword_file meminfo_vars meminfo_keywords meminfo_gauges meminfo_values meminfo_report "''/proc/meminfo''"
proof
  show "bind_ok meminfo_vars meminfo_keywords" by code_simp
  fix m :: mem and val
  assume "\<And>k x. (k, x) \<in> set meminfo_keywords \<Longrightarrow> m (addr_of meminfo_vars x) = val k"
  then have v: "list_all (\<lambda>(k, x). m (addr_of meminfo_vars x) = val k) meminfo_keywords" by (auto simp: list_all_iff)
  define G where "G = meminfo_gauges"
  have g: "list_all (\<lambda>(g, n). map_of G g = Some n) meminfo_gauges" unfolding G_def by code_simp
  from v g have "map (\<lambda>(g, v, l). (map_of G g, v, l)) (meminfo_values m) =
      map (\<lambda>(n, v, l). (Some n, v, l)) (meminfo_report val)"
    unfolding meminfo_keywords_def meminfo_gauges_def meminfo_values_def meminfo_report_def Let_def list.pred_inject list.map prod.case
    by (simp only: simp_thms)
  then show "published meminfo_gauges (meminfo_values m) = map (\<lambda>(n, v, l). (Some n, v, l)) (meminfo_report val)"
    by (simp only: published_def G_def)
qed

text \<open>In every round over \<^verbatim>\<open>/proc/vmstat\<close> the gauges show the values of that round.\<close>

lemma vmstat_rounds:
  assumes "list_all2 io_file ios cs" and "cs \<noteq> []"
    and "\<forall>c \<in> set cs. distinct (map fst (file_keywords c)) \<and>
      {k \<in> fst ` set (file_keywords c). map_of vmstat_keywords k \<noteq> None} = K"
  shows "\<exists>s' outs. run_rounds (collector_proc_vmstat conf) ios init_collector_proc_vmstat = Some (s', outs) \<and>
    map (\<lambda>(ms, r). (published vmstat_gauges ms, r)) outs =
    map (\<lambda>c. (map (\<lambda>(n, v, l). (Some n, v, l)) (vmstat_report (keyword_value (file_keywords c))), 0)) cs"
  unfolding collector_proc_vmstat_def
  by (rule vmstat.new_rounds_publish [OF assms, of _ "''proc_vmstat''"]) (simp add: init_collector_proc_vmstat_def)

text \<open>C14: the gauges of \<^verbatim>\<open>/proc/meminfo\<close> in a series of rounds, from the collector as it is made. Whatever
  the texts, how the kernel cuts the reads and in which order the lines come, every round ends without
  an error, and every gauge shows, under its name, what the text of that round says: the value of its
  keyword, the cached memory as \<open>Cached + SReclaimable - Shmem\<close>, the used memory as what is neither free
  nor cached nor in buffers, the used swap and the used huge pages; a keyword that the files do not
  have counts as zero. The files of the rounds have the same expected keywords, each once.\<close>

theorem meminfo_rounds:
  assumes "list_all2 io_file ios cs" and "cs \<noteq> []"
    and "\<forall>c \<in> set cs. distinct (map fst (file_keywords c)) \<and>
      {k \<in> fst ` set (file_keywords c). map_of meminfo_keywords k \<noteq> None} = K"
  shows "\<exists>s' outs. run_rounds (collector_proc_meminfo conf) ios init_collector_proc_meminfo = Some (s', outs) \<and>
    map (\<lambda>(ms, r). (published meminfo_gauges ms, r)) outs =
    map (\<lambda>c. (map (\<lambda>(n, v, l). (Some n, v, l)) (meminfo_report (keyword_value (file_keywords c))), 0)) cs"
  unfolding collector_proc_meminfo_def
  by (rule meminfo.new_rounds_publish [OF assms, of _ "''proc_meminfo''"]) (simp add: init_collector_proc_meminfo_def)

text \<open>The used memory does not wrap around when the parts fit in the whole.\<close>

lemma meminfo_used_exact:
  fixes total free cached reclaimable shmem buffers :: u64
  assumes "uint cached + uint reclaimable - uint shmem + uint free + uint buffers \<le> uint total"
    and "uint shmem \<le> uint cached + uint reclaimable" and "uint cached + uint reclaimable < 2 ^ 64"
  shows "uint (total - free - (cached + reclaimable - shmem) - buffers) =
    uint total - uint free - (uint cached + uint reclaimable - uint shmem) - uint buffers"
proof -
  have c: "uint (cached + reclaimable - shmem) = uint cached + uint reclaimable - uint shmem"
  proof -
    have "0 \<le> uint cached + uint reclaimable - uint shmem" "uint cached + uint reclaimable - uint shmem < 2 ^ 64"
      using assms(2,3) uint_ge_0 [of shmem] by linarith+
    then show ?thesis by (simp add: uint_word_ariths mod_simps)
  qed
  have "uint total < 2 ^ 64" using uint_lt2p [of total] by simp
  then have "0 \<le> uint total - uint free - (uint cached + uint reclaimable - uint shmem) - uint buffers"
    "uint total - uint free - (uint cached + uint reclaimable - uint shmem) - uint buffers < 2 ^ 64"
    using assms(1,2) uint_ge_0 [of free] uint_ge_0 [of buffers] by linarith+
  moreover define x where "x = cached + reclaimable - shmem"
  ultimately have "uint (total - free - x - buffers) =
      uint total - uint free - (uint cached + uint reclaimable - uint shmem) - uint buffers"
    using c by (simp add: uint_word_ariths(2) mod_simps)
  then show ?thesis unfolding x_def .
qed

definition meminfo_example :: "nat \<Rightarrow> string" where
  "meminfo_example n = ''MemTotal:  100 kB'' @ [CHR 0x0A] @ ''Hugetlb: 0 kB'' @ [CHR 0x0A] @ ''MemFree: ''
     @ (if n = 0 then ''40'' else ''70'') @ '' kB'' @ [CHR 0x0A]"

lemma meminfo_example_keywords:
  "file_keywords (meminfo_example 0) = [(''MemTotal'', ''100''), (''Hugetlb'', ''0''), (''MemFree'', ''40'')]"
  "file_keywords (meminfo_example 1) = [(''MemTotal'', ''100''), (''Hugetlb'', ''0''), (''MemFree'', ''70'')]"
  by code_simp+

theorem meminfo_rounds_witness:
  "\<exists>s' a b. run_rounds (collector_proc_meminfo None) [file_of (meminfo_example 0), file_of (meminfo_example 1)]
      init_collector_proc_meminfo = Some (s', [(a, 0), (b, 0)]) \<and>
    take 3 (published meminfo_gauges a) =
      [(Some ''node_memory_MemTotal_kilobytes'', 100, ''mem''), (Some ''node_memory_MemFree_kilobytes'', 40, ''mem''),
       (Some ''node_memory_MemUsed_kilobytes'', 60, ''mem'')] \<and>
    take 3 (published meminfo_gauges b) =
      [(Some ''node_memory_MemTotal_kilobytes'', 100, ''mem''), (Some ''node_memory_MemFree_kilobytes'', 70, ''mem''),
       (Some ''node_memory_MemUsed_kilobytes'', 30, ''mem'')]"
proof -
  let ?cs = "[meminfo_example 0, meminfo_example 1]"
  have f: "list_all2 io_file (map file_of ?cs) ?cs" by (simp add: meminfo_example_def)
  have k: "map_of meminfo_keywords ''MemTotal'' \<noteq> None" "map_of meminfo_keywords ''MemFree'' \<noteq> None"
    "map_of meminfo_keywords ''Hugetlb'' = None" by code_simp+
  have "\<forall>c \<in> set ?cs. distinct (map fst (file_keywords c)) \<and>
      {k \<in> fst ` set (file_keywords c). map_of meminfo_keywords k \<noteq> None} = {''MemTotal'', ''MemFree''}"
    using k by (auto simp: meminfo_example_keywords simp del: One_nat_def)
  from meminfo_rounds [OF f _ this, of None] obtain s' outs where
    "run_rounds (collector_proc_meminfo None) (map file_of ?cs) init_collector_proc_meminfo = Some (s', outs)"
    and o: "map (\<lambda>(ms, r). (published meminfo_gauges ms, r)) outs =
      map (\<lambda>c. (map (\<lambda>(n, v, l). (Some n, v, l)) (meminfo_report (keyword_value (file_keywords c))), 0)) ?cs" by blast
  moreover from o obtain a b where "outs = [(a, 0), (b, 0)]" by (auto simp: map_eq_Cons_conv)
  moreover have "take 3 (meminfo_report (keyword_value (file_keywords (meminfo_example 0)))) =
      [(''node_memory_MemTotal_kilobytes'', 100, ''mem''), (''node_memory_MemFree_kilobytes'', 40, ''mem''),
       (''node_memory_MemUsed_kilobytes'', 60, ''mem'')]"
    "take 3 (meminfo_report (keyword_value (file_keywords (meminfo_example 1)))) =
      [(''node_memory_MemTotal_kilobytes'', 100, ''mem''), (''node_memory_MemFree_kilobytes'', 70, ''mem''),
       (''node_memory_MemUsed_kilobytes'', 30, ''mem'')]" by code_simp+
  ultimately show ?thesis by (auto simp: take_map)
qed

end
