(* ===== verification/XM_Diskstats.thy ===== *)
theory XM_Diskstats
  imports Complex_Main XM_KeywordFiles XM_Os
begin

text \<open>
  \<^verbatim>\<open>collectors/proc/proc_diskstats.c\<close>: the counters and the iostat figures of the block devices. The
  code keeps a list of devices, each with two sets of counters that take turns; the sets that take part
  in the differences are known by \<^verbatim>\<open>curr_stats_id\<close> and \<^verbatim>\<open>prev_stats_id\<close>. A reference keeps one table with
  the last reading of every device. The arithmetic in \<^verbatim>\<open>double\<close> is taken over the reals, without
  rounding; a value is \<open>None\<close> where the code divides by zero. \<^verbatim>\<open>system_read_kb\<close> and \<^verbatim>\<open>system_write_kb\<close> are
  only printed, the fields for flushes are never written; both are left out.
\<close>

section \<open>Devices\<close>

record io_stats =
  rd_ios :: u64
  rd_merges :: u64
  rd_sectors :: u64
  rd_ticks :: u64
  wr_ios :: u64
  wr_merges :: u64
  wr_sectors :: u64
  wr_ticks :: u64
  ios_pgr :: u64
  ios_total_ticks :: u64
  weighted_io_ticks :: u64
  dc_ios :: u64
  dc_merges :: u64
  dc_sectors :: u64
  dc_ticks :: u64

datatype disk_type = DISK_TYPE_UNKNOWN | DISK_TYPE_PHYSICAL | DISK_TYPE_PARTITION | DISK_TYPE_VIRTUAL

record io_device =
  device_name :: string
  dev_major :: u32
  dev_minor :: u32
  device_hash :: u32
  dev_tp :: disk_type
  sector_size :: i32
  dev_stats :: "io_stats list"
  curr_stats_id :: nat
  prev_stats_id :: nat

definition XM_DEV_NAME_MAX :: nat where "XM_DEV_NAME_MAX = 128"

text \<open>The file system: what \<^verbatim>\<open>access\<close> allows to read, the names in a directory, the files that exist and
  their contents.\<close>

record disk_env =
  de_access :: "string \<Rightarrow> bool"
  de_dir :: "string \<Rightarrow> string list option"
  de_exists :: "string \<Rightarrow> bool"
  de_file :: "string \<Rightarrow> file_read"

definition ENOENT :: int where "ENOENT = 2"

text \<open>The result of \<^verbatim>\<open>asprintf\<close>, the length of the path, is what is returned when the file is there but
  cannot be read.\<close>

definition get_block_device_sector_size :: "disk_env \<Rightarrow> string \<Rightarrow> i32" where
  "get_block_device_sector_size e disk =
     (let path = ''/sys/block/'' @ disk @ ''/queue/logical_block_size''
      in if de_exists e path
         then (case read_file_to_int64 (de_file e path) of
                 (r, n) \<Rightarrow> if r = 0 then ucast n else of_nat (length path))
         else of_int (- ENOENT))"

definition get_device_type :: "disk_env \<Rightarrow> string \<Rightarrow> u32 \<Rightarrow> u32 \<Rightarrow> disk_type" where
  "get_device_type e name major minor =
     (let buf = take (XM_DEV_NAME_MAX - 1);
          dev = ''/sys/dev/block/'' @ decimal (unat major) @ '':'' @ decimal (unat minor)
      in if de_access e (buf (''/sys/block/'' @ name)) then DISK_TYPE_PHYSICAL
         else if de_access e (buf (dev @ ''/partition'')) then DISK_TYPE_PARTITION
         else case de_dir e (buf (dev @ ''/slaves'')) of
                None \<Rightarrow> DISK_TYPE_UNKNOWN
              | Some names \<Rightarrow>
                  if list_ex (\<lambda>n. n \<noteq> ''.'' \<and> n \<noteq> ''..'') names then DISK_TYPE_VIRTUAL else DISK_TYPE_UNKNOWN)"

definition zero_stats :: io_stats where
  "zero_stats =
     \<lparr>rd_ios = 0, rd_merges = 0, rd_sectors = 0, rd_ticks = 0, wr_ios = 0, wr_merges = 0, wr_sectors = 0, wr_ticks = 0,
      ios_pgr = 0, ios_total_ticks = 0, weighted_io_ticks = 0, dc_ios = 0, dc_merges = 0, dc_sectors = 0, dc_ticks = 0\<rparr>"

definition new_sector_size :: "disk_env \<Rightarrow> string \<Rightarrow> i32" where
  "new_sector_size e name =
     (let z = get_block_device_sector_size e name in if z <s 0 then 512 else z)"

fun find_device :: "u32 \<Rightarrow> u32 \<Rightarrow> u32 \<Rightarrow> io_device list \<Rightarrow> nat option" where
  "find_device major minor hash [] = None"
| "find_device major minor hash (d # ds) =
     (if dev_major d = major \<and> dev_minor d = minor \<and> device_hash d = hash then Some 0
      else map_option Suc (find_device major minor hash ds))"

text \<open>The list and the position of the device in it.\<close>

definition get_device :: "disk_env \<Rightarrow> string \<Rightarrow> u32 \<Rightarrow> u32 \<Rightarrow> io_device list \<Rightarrow> io_device list \<times> nat" where
  "get_device e name major minor devs =
     (let hash = name_hash name
      in case find_device major minor hash devs of
           Some i \<Rightarrow> (devs, i)
         | None \<Rightarrow>
             (devs @ [\<lparr>device_name = strlcpy_str name XM_DEV_NAME_MAX, dev_major = major, dev_minor = minor,
                       device_hash = hash, dev_tp = get_device_type e name major minor,
                       sector_size = new_sector_size e name, dev_stats = [zero_stats, zero_stats],
                       curr_stats_id = 0, prev_stats_id = 0\<rparr>], length devs))"

section \<open>Metrics\<close>

text \<open>The values given to the metrics library: the metric, the number and the label.\<close>

type_synonym disk_value = "string \<times> real option \<times> string"

text \<open>The counters for the increase \<open>d\<close>, and the gauge for the operations under way.\<close>

definition disk_counters :: "string \<Rightarrow> i32 \<Rightarrow> io_stats \<Rightarrow> u64 \<Rightarrow> disk_value list" where
  "disk_counters name sz d pgr =
     (let num = (\<lambda>x :: u64. Some (real (unat x))); msecs = (\<lambda>x :: u64. Some (real (unat x) * 0.001))
      in [(''__metric_node_disk_reads_completed_total_count'', num (rd_ios d), name),
          (''__metric_node_disk_reads_merged_total_count'', num (rd_merges d), name),
          (''__metric_node_disk_read_total_bytes'', num (rd_sectors d * scast sz), name),
          (''__metric_node_disk_read_spent_total_seconds'', msecs (rd_ticks d), name),
          (''__metric_node_disk_writes_completed_total_count'', num (wr_ios d), name),
          (''__metric_node_disk_writes_merged_total_count'', num (wr_merges d), name),
          (''__metric_node_disk_writes_total_bytes'', num (wr_sectors d * scast sz), name),
          (''__metric_node_disk_write_spent_total_seconds'', msecs (wr_ticks d), name),
          (''__metric_node_disk_io_now'', num pgr, name),
          (''__metric_node_disk_io_spent_total_seconds'', msecs (ios_total_ticks d), name),
          (''__metric_node_disk_io_time_weighted_total_seconds'', msecs (weighted_io_ticks d), name),
          (''__metric_node_disk_discards_completed_total_count'', num (dc_ios d), name),
          (''__metric_node_disk_discards_merged_total_count'', num (dc_merges d), name),
          (''__metric_node_discarded_sectors_total_count'', num (dc_sectors d), name),
          (''__metric_node_disk_discard_spent_total_seconds'', msecs (dc_ticks d), name)])"

definition stats_diff :: "io_stats \<Rightarrow> io_stats \<Rightarrow> io_stats" where
  "stats_diff c p =
     \<lparr>rd_ios = rd_ios c - rd_ios p, rd_merges = rd_merges c - rd_merges p, rd_sectors = rd_sectors c - rd_sectors p,
      rd_ticks = rd_ticks c - rd_ticks p, wr_ios = wr_ios c - wr_ios p, wr_merges = wr_merges c - wr_merges p,
      wr_sectors = wr_sectors c - wr_sectors p, wr_ticks = wr_ticks c - wr_ticks p, ios_pgr = ios_pgr c - ios_pgr p,
      ios_total_ticks = ios_total_ticks c - ios_total_ticks p,
      weighted_io_ticks = weighted_io_ticks c - weighted_io_ticks p, dc_ios = dc_ios c - dc_ios p,
      dc_merges = dc_merges c - dc_merges p, dc_sectors = dc_sectors c - dc_sectors p, dc_ticks = dc_ticks c - dc_ticks p\<rparr>"

text \<open>The figures of iostat for the readings \<open>c\<close> and \<open>p\<close> that are \<open>dt\<close> microseconds apart.\<close>

definition disk_gauges :: "string \<Rightarrow> i32 \<Rightarrow> u64 \<Rightarrow> io_stats \<Rightarrow> io_stats \<Rightarrow> disk_value list" where
  "disk_gauges name sz dt c p =
     (let d = stats_diff c p;
          num = (\<lambda>x :: u64. real (unat x));
          dt_sec = num dt / 1000000;
          rate = (\<lambda>x. if dt_sec = 0 then None else Some (x / dt_sec));
          ratio = (\<lambda>x (n :: u64). if n = 0 then Some 0 else Some (num x / num n));
          half = map_option (\<lambda>x. x / 2);
          kb = (\<lambda>x. num x * real_of_int (sint sz) / 1024);
          curr_nr_ios = rd_ios c + wr_ios c + dc_ios c;
          prev_nr_ios = rd_ios p + wr_ios p + dc_ios p;
          nr = curr_nr_ios - prev_nr_ios
      in [(''__metric_node_disk_iostat_tps'', rate (num (rd_ios c - rd_ios p + wr_ios c - wr_ios p)), name),
          (''__metric_node_disk_iostat_read_requests_per_sec'', rate (num (rd_ios d)), name),
          (''__metric_node_disk_iostat_write_requests_per_sec'', rate (num (wr_ios d)), name),
          (''__metric_node_disk_iostat_read_kilobytes_per_sec'', rate (kb (rd_sectors d)), name),
          (''__metric_node_disk_iostat_write_kilobytes_per_sec'', rate (kb (wr_sectors d)), name),
          (''__metric_node_disk_iostat_read_requests_merged_per_sec'', rate (num (rd_merges d)), name),
          (''__metric_node_disk_iostat_write_requests_merged_per_sec'', rate (num (wr_merges d)), name),
          (''__metric_node_disk_iostat_r_await_msecs'', ratio (rd_ticks d) (rd_ios d), name),
          (''__metric_node_disk_iostat_w_await_msecs'', ratio (wr_ticks d) (wr_ios d), name),
          (''__metric_node_disk_iostat_await_msecs'', ratio (rd_ticks d + wr_ticks d + dc_ticks d) nr, name),
          (''__metric_node_disk_iostat_areq_sz'', half (ratio (rd_sectors d + wr_sectors d) nr), name),
          (''__metric_node_disk_iostat_rareq_sz'', half (ratio (rd_sectors d) (rd_ios d)), name),
          (''__metric_node_disk_iostat_wareq_sz'', half (ratio (wr_sectors d) (wr_ios d)), name),
          (''__metric_node_disk_iostat_aqu_sz'', map_option (\<lambda>x. x / 1000) (rate (num (weighted_io_ticks d))), name),
          (''__metric_node_disk_iostat_util'', map_option (\<lambda>x. x / 10) (rate (num (ios_total_ticks d))), name)])"

section \<open>A round\<close>

record disk_collector =
  dc_file :: "string option"
  dc_pf :: "proc_file option"
  iodev_list :: "io_device list"

definition read_devstats :: "(nat \<Rightarrow> string) \<Rightarrow> io_stats" where
  "read_devstats w =
     \<lparr>rd_ios = str2uint64_t (w 3), rd_merges = str2uint64_t (w 4), rd_sectors = str2uint64_t (w 5),
      rd_ticks = str2uint64_t (w 6), wr_ios = str2uint64_t (w 7), wr_merges = str2uint64_t (w 8),
      wr_sectors = str2uint64_t (w 9), wr_ticks = str2uint64_t (w 10), ios_pgr = str2uint64_t (w 11),
      ios_total_ticks = str2uint64_t (w 12), weighted_io_ticks = str2uint64_t (w 13), dc_ios = str2uint64_t (w 14),
      dc_merges = str2uint64_t (w 15), dc_sectors = str2uint64_t (w 16), dc_ticks = str2uint64_t (w 17)\<rparr>"

text \<open>One line: \<open>w\<close> gives its words.\<close>

definition collect_device ::
  "disk_env \<Rightarrow> u64 \<Rightarrow> (nat \<Rightarrow> string) \<Rightarrow> io_device list \<Rightarrow> io_device list \<times> disk_value list" where
  "collect_device e dt w devs =
     (let name = w 2;
          (devs1, i) = get_device e name (str2uint32_t (w 0)) (str2uint32_t (w 1)) devs;
          dev = devs1 ! i; curr = curr_stats_id dev; prev = prev_stats_id dev;
          st = read_devstats w;
          dev1 = dev\<lparr>dev_stats := (dev_stats dev)[curr := st]\<rparr>
      in if curr = 0 \<and> prev = 0
         then (devs1[i := dev1\<lparr>curr_stats_id := (curr + 1) mod 2\<rparr>], disk_counters name (sector_size dev) st (ios_pgr st))
         else let p = dev_stats dev1 ! prev
              in (devs1[i := dev1\<lparr>prev_stats_id := curr, curr_stats_id := (curr + 1) mod 2\<rparr>],
                  disk_counters name (sector_size dev) (stats_diff st p) (ios_pgr st)
                  @ disk_gauges name (sector_size dev) dt st p))"

fun collect_devices ::
  "disk_env \<Rightarrow> u64 \<Rightarrow> proc_file \<Rightarrow> nat list \<Rightarrow> io_device list \<Rightarrow> io_device list \<times> disk_value list" where
  "collect_devices e dt pf [] devs = (devs, [])"
| "collect_devices e dt pf (l # ls) devs =
     (if procfile_linewords pf l < 14 then collect_devices e dt pf ls devs
      else let (devs1, ms) = collect_device e dt (procfile_lineword pf l) devs;
               (devs2, ms') = collect_devices e dt pf ls devs1
           in (devs2, ms @ ms'))"

definition disk_seps :: string where "disk_seps = '' '' @ [CHR 0x09]"

definition collector_proc_diskstats ::
  "disk_env \<Rightarrow> string option \<Rightarrow> u64 \<times> file_io \<Rightarrow> disk_collector \<Rightarrow> (disk_collector \<times> disk_value list \<times> int) option" where
  "collector_proc_diskstats e conf dio s =
     (case dio of (dt, io) \<Rightarrow>
      let name = monitor_file (dc_file s) conf ''/proc/diskstats''; s1 = s\<lparr>dc_file := Some name\<rparr>
      in case open_and_read io name (Some disk_seps) PROCFILE_FLAG_DEFAULT (dc_pf s) of
           None \<Rightarrow> None
         | Some None \<Rightarrow> Some (s1\<lparr>dc_pf := None\<rparr>, [], - 1)
         | Some (Some pf) \<Rightarrow>
             (case collect_devices e dt pf [0..<procfile_lines pf] (iodev_list s) of
                (devs, ms) \<Rightarrow> Some (s1\<lparr>dc_pf := Some pf, iodev_list := devs\<rparr>, ms, 0)))"

definition init_diskstats :: disk_collector where
  "init_diskstats = \<lparr>dc_file = None, dc_pf = None, iodev_list = []\<rparr>"

section \<open>A table with the last readings\<close>

type_synonym disk_key = "u32 \<times> u32 \<times> u32"

definition row_key :: "string list \<Rightarrow> disk_key" where
  "row_key ws = (str2uint32_t (row_word ws 0), str2uint32_t (row_word ws 1), name_hash (row_word ws 2))"

text \<open>What a row gives: the counters themselves the first time, afterwards their increase since the last
  reading and the figures of iostat.\<close>

definition row_values :: "disk_env \<Rightarrow> u64 \<Rightarrow> string list \<Rightarrow> (io_stats \<times> i32) option \<Rightarrow> i32 \<times> disk_value list" where
  "row_values e dt ws old =
     (let name = row_word ws 2; st = read_devstats (row_word ws)
      in case old of
           None \<Rightarrow> (let sz = new_sector_size e name in (sz, disk_counters name sz st (ios_pgr st)))
         | Some (p, sz) \<Rightarrow> (sz, disk_counters name sz (stats_diff st p) (ios_pgr st) @ disk_gauges name sz dt st p))"

fun disk_spec ::
  "disk_env \<Rightarrow> u64 \<Rightarrow> string list list \<Rightarrow> (disk_key \<rightharpoonup> io_stats \<times> i32) \<Rightarrow> (disk_key \<rightharpoonup> io_stats \<times> i32) \<times> disk_value list" where
  "disk_spec e dt [] tab = (tab, [])"
| "disk_spec e dt (ws # rows) tab =
     (let (sz, ms) = row_values e dt ws (tab (row_key ws));
          (tab', ms') = disk_spec e dt rows (tab(row_key ws \<mapsto> (read_devstats (row_word ws), sz)))
      in (tab', ms @ ms'))"

definition dev_key :: "io_device \<Rightarrow> disk_key" where
  "dev_key d = (dev_major d, dev_minor d, device_hash d)"

definition devs_table :: "io_device list \<Rightarrow> disk_key \<rightharpoonup> io_stats \<times> i32" where
  "devs_table devs = map_of (map (\<lambda>d. (dev_key d, (dev_stats d ! prev_stats_id d, sector_size d))) devs)"

definition turns_ok :: "io_device \<Rightarrow> bool" where
  "turns_ok d \<longleftrightarrow> length (dev_stats d) = 2 \<and> (curr_stats_id d, prev_stats_id d) \<in> {(1, 0), (0, 1)}"

definition devs_ok :: "io_device list \<Rightarrow> bool" where
  "devs_ok devs \<longleftrightarrow> distinct (map dev_key devs) \<and> list_all turns_ok devs"

section \<open>The list of devices implements the table\<close>

lemma find_device_Some:
  "find_device ma mi h devs = Some i \<Longrightarrow> i < length devs \<and> dev_key (devs ! i) = (ma, mi, h)"
  by (induction devs arbitrary: i) (auto simp: dev_key_def split: if_splits)

lemma find_device_None: "find_device ma mi h devs = None \<longleftrightarrow> (ma, mi, h) \<notin> set (map dev_key devs)"
  by (induction devs) (auto simp: dev_key_def)

lemma map_of_list_update:
  "i < length xs \<Longrightarrow> distinct (map fst xs) \<Longrightarrow> fst (xs ! i) = k \<Longrightarrow> map_of (xs[i := (k, v)]) = (map_of xs)(k \<mapsto> v)"
proof (induction xs arbitrary: i)
  case (Cons x xs)
  then show ?case
  proof (cases i)
    case (Suc j)
    then have "k \<noteq> fst x" using Cons.prems by (auto simp: image_iff) (metis nth_mem)
    with Suc Cons show ?thesis by (cases x) (auto simp: fun_eq_iff)
  qed auto
qed simp

lemma devs_table_update:
  assumes "devs_ok devs" and "i < length devs" and "dev_key d = dev_key (devs ! i)" and "turns_ok d"
  shows "devs_ok (devs[i := d])" and "devs_table (devs[i := d]) =
    (devs_table devs)(dev_key d \<mapsto> (dev_stats d ! prev_stats_id d, sector_size d))"
proof -
  have "map dev_key (devs[i := d]) = map dev_key devs"
    using assms(2,3) by (simp add: map_update list_update_same_conv)
  moreover have "list_all turns_ok (devs[i := d])"
    using assms(1,4) by (auto simp: devs_ok_def list_all_iff dest: subsetD [OF set_update_subset_insert])
  ultimately show "devs_ok (devs[i := d])" using assms(1) by (simp add: devs_ok_def)
  show "devs_table (devs[i := d]) = (devs_table devs)(dev_key d \<mapsto> (dev_stats d ! prev_stats_id d, sector_size d))"
    unfolding devs_table_def map_update
    by (rule map_of_list_update) (use assms in \<open>simp_all add: devs_ok_def comp_def\<close>)
qed

lemma devs_table_key:
  assumes "devs_ok devs" and "i < length devs"
  shows "devs_table devs (dev_key (devs ! i)) = Some (dev_stats (devs ! i) ! prev_stats_id (devs ! i), sector_size (devs ! i))"
  unfolding devs_table_def
  by (rule map_of_is_SomeI) (use assms in \<open>auto simp: devs_ok_def comp_def\<close>)

lemma collect_device_ok:
  assumes ok: "devs_ok devs" and c: "collect_device e dt (row_word ws) devs = (devs', ms)"
  shows "devs_ok devs'" and "(devs_table devs', ms) =
    (let (sz, ms) = row_values e dt ws (devs_table devs (row_key ws))
     in ((devs_table devs)(row_key ws \<mapsto> (read_devstats (row_word ws), sz)), ms))"
proof -
  let ?w = "row_word ws" and ?st = "read_devstats (row_word ws)"
  let ?find = "find_device (str2uint32_t (?w 0)) (str2uint32_t (?w 1)) (name_hash (?w 2)) devs"
  have "devs_ok devs' \<and> (devs_table devs', ms) =
    (let (sz, ms) = row_values e dt ws (devs_table devs (row_key ws))
     in ((devs_table devs)(row_key ws \<mapsto> (?st, sz)), ms))"
  proof (cases ?find)
    case None
    let ?d = "\<lparr>device_name = strlcpy_str (?w 2) XM_DEV_NAME_MAX, dev_major = str2uint32_t (?w 0), dev_minor = str2uint32_t (?w 1),
      device_hash = name_hash (?w 2), dev_tp = get_device_type e (?w 2) (str2uint32_t (?w 0)) (str2uint32_t (?w 1)),
      sector_size = new_sector_size e (?w 2), dev_stats = [?st, zero_stats], curr_stats_id = 1, prev_stats_id = 0\<rparr>"
    have k: "row_key ws \<notin> set (map dev_key devs)" using None by (simp add: find_device_None row_key_def)
    have "devs' = devs @ [?d]" "ms = disk_counters (?w 2) (new_sector_size e (?w 2)) ?st (ios_pgr ?st)"
      using c None by (auto simp: collect_device_def get_device_def Let_def)
    moreover have "dev_key ?d = row_key ws" by (simp add: dev_key_def row_key_def)
    moreover have "devs_table devs (row_key ws) = None"
      using k by (simp add: devs_table_def map_of_eq_None_iff image_image)
    ultimately show ?thesis
      using ok k by (auto simp: devs_ok_def turns_ok_def devs_table_def row_values_def Let_def map_add_def fun_eq_iff
          split: option.split)
  next
    case (Some i)
    note i = find_device_Some [OF Some]
    let ?o = "devs ! i"
    let ?d = "?o\<lparr>dev_stats := (dev_stats ?o)[curr_stats_id ?o := ?st], prev_stats_id := curr_stats_id ?o,
      curr_stats_id := (curr_stats_id ?o + 1) mod 2\<rparr>"
    have t: "turns_ok ?o" using ok i by (simp add: devs_ok_def list_all_length)
    then have n: "dev_stats ?o ! prev_stats_id ?o = (dev_stats ?o)[curr_stats_id ?o := ?st] ! prev_stats_id ?o"
      "\<not> (curr_stats_id ?o = 0 \<and> prev_stats_id ?o = 0)" "turns_ok ?d" "dev_stats ?d ! prev_stats_id ?d = ?st"
      by (auto simp: turns_ok_def)
    have k: "dev_key ?d = row_key ws" "dev_key ?o = row_key ws" using i by (auto simp: dev_key_def row_key_def)
    let ?p = "dev_stats ?o ! prev_stats_id ?o"
    have r: "devs' = devs[i := ?d]" "ms = disk_counters (?w 2) (sector_size ?o) (stats_diff ?st ?p) (ios_pgr ?st)
        @ disk_gauges (?w 2) (sector_size ?o) dt ?st ?p"
      using c Some n(1,2) by (auto simp: collect_device_def get_device_def Let_def)
    note u = devs_table_update [OF ok, of i ?d]
    have "devs_table devs (row_key ws) = Some (?p, sector_size ?o)" using devs_table_key [OF ok] i k(2) by metis
    with r u i k n(3,4) show ?thesis by (simp add: row_values_def Let_def)
  qed
  then show "devs_ok devs'" and "(devs_table devs', ms) =
    (let (sz, ms) = row_values e dt ws (devs_table devs (row_key ws))
     in ((devs_table devs)(row_key ws \<mapsto> (?st, sz)), ms))" by blast+
qed

definition disk_rows :: "string list list \<Rightarrow> string list list" where
  "disk_rows ls = filter (\<lambda>ws. 14 \<le> length ws) ls"

lemma collect_devices_ok:
  assumes "tables_ok pf" and "list_all (\<lambda>l. l < procfile_lines pf) ls" and "devs_ok devs"
    and "collect_devices e dt pf ls devs = (devs', ms)"
  shows "devs_ok devs' \<and>
    (devs_table devs', ms) = disk_spec e dt (disk_rows (map ((!) (procfile_contents pf)) ls)) (devs_table devs)"
  using assms(2-4)
proof (induction ls arbitrary: devs devs' ms)
  case (Cons l ls)
  let ?ws = "procfile_contents pf ! l"
  have l: "l < procfile_lines pf" using Cons.prems(1) by simp
  have w: "procfile_linewords pf l = length ?ws" "procfile_lineword pf l = row_word ?ws"
    using procfile_row [OF assms(1) l] .
  show ?case
  proof (cases "length ?ws < 14")
    case True
    with Cons w show ?thesis by (simp add: disk_rows_def)
  next
    case False
    obtain devs1 ms1 where 1: "collect_device e dt (row_word ?ws) devs = (devs1, ms1)" by (cases "collect_device e dt (row_word ?ws) devs")
    obtain devs2 ms2 where 2: "collect_devices e dt pf ls devs1 = (devs2, ms2)" by (cases "collect_devices e dt pf ls devs1")
    note o = collect_device_ok [OF Cons.prems(2) 1]
    have "devs_ok devs2 \<and>
      (devs_table devs2, ms2) = disk_spec e dt (disk_rows (map ((!) (procfile_contents pf)) ls)) (devs_table devs1)"
      using Cons.IH [OF _ o(1) 2] Cons.prems(1) by simp
    moreover have "devs' = devs2" "ms = ms1 @ ms2" using Cons.prems(3) False w 1 2 by auto
    ultimately show ?thesis using False o(2) by (auto simp: disk_rows_def Let_def split: prod.splits)
  qed
qed (simp add: disk_rows_def)

section \<open>What the counters add up to\<close>

text \<open>The counters: the metric, the number of a reading that it follows, and the unit.\<close>

definition disk_counter_table :: "(string \<times> (i32 \<Rightarrow> io_stats \<Rightarrow> u64) \<times> real) list" where
  "disk_counter_table =
     [(''__metric_node_disk_reads_completed_total_count'', \<lambda>_. rd_ios, 1),
      (''__metric_node_disk_reads_merged_total_count'', \<lambda>_. rd_merges, 1),
      (''__metric_node_disk_read_total_bytes'', \<lambda>sz st. rd_sectors st * scast sz, 1),
      (''__metric_node_disk_read_spent_total_seconds'', \<lambda>_. rd_ticks, 0.001),
      (''__metric_node_disk_writes_completed_total_count'', \<lambda>_. wr_ios, 1),
      (''__metric_node_disk_writes_merged_total_count'', \<lambda>_. wr_merges, 1),
      (''__metric_node_disk_writes_total_bytes'', \<lambda>sz st. wr_sectors st * scast sz, 1),
      (''__metric_node_disk_write_spent_total_seconds'', \<lambda>_. wr_ticks, 0.001),
      (''__metric_node_disk_io_spent_total_seconds'', \<lambda>_. ios_total_ticks, 0.001),
      (''__metric_node_disk_io_time_weighted_total_seconds'', \<lambda>_. weighted_io_ticks, 0.001),
      (''__metric_node_disk_discards_completed_total_count'', \<lambda>_. dc_ios, 1),
      (''__metric_node_disk_discards_merged_total_count'', \<lambda>_. dc_merges, 1),
      (''__metric_node_discarded_sectors_total_count'', \<lambda>_. dc_sectors, 1),
      (''__metric_node_disk_discard_spent_total_seconds'', \<lambda>_. dc_ticks, 0.001)]"

definition added_to :: "string \<Rightarrow> string \<Rightarrow> disk_value list \<Rightarrow> real" where
  "added_to M n ms = sum_list (map (\<lambda>(m, v, l). if m = M \<and> l = n then (case v of None \<Rightarrow> 0 | Some x \<Rightarrow> x) else 0) ms)"

lemma added_to_append [simp]: "added_to M n (xs @ ys) = added_to M n xs + added_to M n ys"
  by (simp add: added_to_def)

lemma added_to_other: "M \<notin> set (map fst ms) \<Longrightarrow> added_to M n ms = 0"
  by (induction ms) (auto simp: added_to_def)

lemma added_to_once:
  "distinct (map fst ms) \<Longrightarrow> (M, Some x, l) \<in> set ms \<Longrightarrow> added_to M n ms = (if l = n then x else 0)"
proof (induction ms)
  case (Cons a ms)
  show ?case
  proof (cases "a = (M, Some x, l)")
    case True
    with Cons.prems have "added_to M n ms = 0" by (intro added_to_other) auto
    with True show ?thesis by (simp add: added_to_def)
  next
    case False
    with Cons.prems have m: "(M, Some x, l) \<in> set ms" by auto
    then have "M \<in> fst ` set ms" by force
    with Cons.prems(1) have "fst a \<noteq> M" by auto
    with Cons.IH [OF _ m] Cons.prems(1) show ?thesis by (cases a) (simp add: added_to_def)
  qed
qed simp

lemma disk_counters_names:
  "map fst (disk_counters name sz d pgr) = map fst (disk_counters [] 0 zero_stats 0)"
  by (simp add: disk_counters_def)

lemma disk_gauges_names:
  "map fst (disk_gauges name sz dt c p) = map fst (disk_gauges [] 0 0 zero_stats zero_stats)"
  by (simp add: disk_gauges_def Let_def)

definition counter_names :: "string list" where
  "counter_names = map fst (disk_counters [] 0 zero_stats 0)"

definition gauge_names :: "string list" where
  "gauge_names = map fst (disk_gauges [] 0 0 zero_stats zero_stats)"

lemma disk_names: "distinct counter_names" "list_all (\<lambda>(M, f, sc). M \<notin> set gauge_names) disk_counter_table"
proof -
  have c: "counter_names = [''__metric_node_disk_reads_completed_total_count'',
      ''__metric_node_disk_reads_merged_total_count'', ''__metric_node_disk_read_total_bytes'',
      ''__metric_node_disk_read_spent_total_seconds'', ''__metric_node_disk_writes_completed_total_count'',
      ''__metric_node_disk_writes_merged_total_count'', ''__metric_node_disk_writes_total_bytes'',
      ''__metric_node_disk_write_spent_total_seconds'', ''__metric_node_disk_io_now'',
      ''__metric_node_disk_io_spent_total_seconds'', ''__metric_node_disk_io_time_weighted_total_seconds'',
      ''__metric_node_disk_discards_completed_total_count'', ''__metric_node_disk_discards_merged_total_count'',
      ''__metric_node_discarded_sectors_total_count'', ''__metric_node_disk_discard_spent_total_seconds'']"
    by (simp add: counter_names_def disk_counters_def)
  have "list_all (\<lambda>g. take 25 g = ''__metric_node_disk_iostat'') gauge_names"
    by (simp add: gauge_names_def disk_gauges_def Let_def)
  moreover have "list_all (\<lambda>M. take 25 M \<noteq> ''__metric_node_disk_iostat'') (map fst disk_counter_table)"
    by (simp add: disk_counter_table_def)
  ultimately show "list_all (\<lambda>(M, f, sc). M \<notin> set gauge_names) disk_counter_table"
    by (auto simp: list_all_iff)
  show "distinct counter_names" unfolding c by code_simp
qed

lemma counter_table_values:
  assumes "(M, f, sc) \<in> set disk_counter_table"
  shows "(M, Some (real (unat (f sz d)) * sc), name) \<in> set (disk_counters name sz d pgr)"
    and "f sz (stats_diff c p) = f sz c - f sz p" and "f sz zero_stats = 0"
proof -
  let ?l = "disk_counters name sz d pgr"
  have "map (\<lambda>(M, f, sc). (M, Some (real (unat (f sz d)) * sc), name)) disk_counter_table = take 8 ?l @ drop 9 ?l"
    by (simp add: disk_counter_table_def disk_counters_def)
  moreover have "(M, Some (real (unat (f sz d)) * sc), name) \<in>
      set (map (\<lambda>(M, f, sc). (M, Some (real (unat (f sz d)) * sc), name)) disk_counter_table)"
    using assms by force
  ultimately show "(M, Some (real (unat (f sz d)) * sc), name) \<in> set ?l"
    by (auto dest: in_set_takeD in_set_dropD)
  have "list_all (\<lambda>(M, f, sc). f sz (stats_diff c p) = f sz c - f sz p \<and> f sz zero_stats = 0) disk_counter_table"
    by (simp add: disk_counter_table_def stats_diff_def zero_stats_def algebra_simps)
  with assms show "f sz (stats_diff c p) = f sz c - f sz p" "f sz zero_stats = 0" by (auto simp: list_all_iff)
qed

lemma added_to_row:
  assumes "(M, f, sc) \<in> set disk_counter_table" and "row_values e dt ws old = (sz, ms)"
  shows "added_to M n ms = (if row_word ws 2 = n
    then real (unat (f sz (read_devstats (row_word ws)) - f sz (case old of None \<Rightarrow> zero_stats | Some (p, _) \<Rightarrow> p))) * sc else 0)"
proof -
  have c: "added_to M n (disk_counters name sz d pgr) = (if name = n then real (unat (f sz d)) * sc else 0)" for n name sz d pgr
    by (rule added_to_once [OF _ counter_table_values(1) [OF assms(1)]])
      (use disk_names(1) in \<open>simp add: disk_counters_names [of name] flip: counter_names_def\<close>)
  have "M \<notin> set gauge_names" using disk_names(2) assms(1) by (auto simp: list_all_iff)
  then have g: "added_to M n (disk_gauges name sz dt c p) = 0" for n name sz c p
    by (intro added_to_other) (simp add: disk_gauges_names [of name] gauge_names_def)
  show ?thesis
    using assms(2) counter_table_values(2,3) [OF assms(1)]
    by (auto simp: row_values_def Let_def c g split: option.splits prod.splits)
qed

definition readings :: "disk_key \<Rightarrow> string list list \<Rightarrow> io_stats list" where
  "readings k rows = map (\<lambda>ws. read_devstats (row_word ws)) (filter (\<lambda>ws. row_key ws = k) rows)"

definition last_reading :: "(io_stats \<times> i32) option \<Rightarrow> io_stats" where
  "last_reading old = (case old of None \<Rightarrow> zero_stats | Some (p, _) \<Rightarrow> p)"

definition size_or :: "i32 \<Rightarrow> (io_stats \<times> i32) option \<Rightarrow> i32" where
  "size_or z old = (case old of None \<Rightarrow> z | Some (_, sz) \<Rightarrow> sz)"

definition rises :: "(io_stats \<Rightarrow> u64) \<Rightarrow> io_stats list \<Rightarrow> bool" where
  "rises g sts \<longleftrightarrow> sorted_wrt (\<lambda>a b. unat (g a) \<le> unat (g b)) sts"

lemma rises_append: "rises g (x # xs @ ys) \<Longrightarrow> rises g (x # xs) \<and> rises g (last (x # xs) # ys)"
  unfolding rises_def append_Cons [symmetric] sorted_wrt_append
  by (auto simp: last_in_set)

lemma row_values_size: "fst (row_values e dt ws old) = size_or (new_sector_size e (row_word ws 2)) old"
  by (auto simp: row_values_def size_or_def Let_def split: option.splits)

lemma added_to_spec:
  assumes "(M, f, sc) \<in> set disk_counter_table"
    and "\<forall>ws \<in> set rows. row_word ws 2 = n \<longleftrightarrow> row_key ws = k"
    and "size_or (new_sector_size e n) (tab k) = sz"
    and "rises (f sz) (last_reading (tab k) # readings k rows)"
    and "disk_spec e dt rows tab = (tab', ms)"
  shows "added_to M n ms = (real (unat (f sz (last (last_reading (tab k) # readings k rows)))) - real (unat (f sz (last_reading (tab k))))) * sc \<and>
    last_reading (tab' k) = last (last_reading (tab k) # readings k rows) \<and> size_or (new_sector_size e n) (tab' k) = sz"
  using assms(2-5)
proof (induction rows arbitrary: tab ms)
  case Nil
  then show ?case by (simp add: added_to_def readings_def)
next
  case (Cons ws rows)
  let ?st = "read_devstats (row_word ws)" and ?old = "tab (row_key ws)"
  obtain z ms1 where rv: "row_values e dt ws ?old = (z, ms1)" by (cases "row_values e dt ws ?old")
  let ?tab = "tab(row_key ws \<mapsto> (?st, z))"
  obtain ms2 where sp: "disk_spec e dt rows ?tab = (tab', ms2)" and ms: "ms = ms1 @ ms2"
    using Cons.prems(4) rv by (auto split: prod.splits)
  have a: "added_to M n ms1 = (if row_word ws 2 = n then real (unat (f z ?st - f z (last_reading ?old))) * sc else 0)"
    using added_to_row [OF assms(1) rv] by (simp add: last_reading_def cong: option.case_cong)
  have z: "z = size_or (new_sector_size e (row_word ws 2)) ?old" using row_values_size [of e dt ws ?old] rv by simp
  show ?case
  proof (cases "row_key ws = k")
    case True
    then have n: "row_word ws 2 = n" using Cons.prems(1) by simp
    have zz: "z = sz" using z n True Cons.prems(2) by simp
    have r: "readings k (ws # rows) = ?st # readings k rows" using True by (simp add: readings_def)
    have le: "unat (f sz (last_reading (tab k))) \<le> unat (f sz ?st)" and m: "rises (f sz) (?st # readings k rows)"
      using Cons.prems(3) by (simp_all add: r rises_def)
    have t: "size_or (new_sector_size e n) (?tab k) = sz" "last_reading (?tab k) = ?st"
      using True zz by (simp_all add: size_or_def last_reading_def)
    have ih: "added_to M n ms2 = (real (unat (f sz (last (?st # readings k rows)))) - real (unat (f sz ?st))) * sc"
      "last_reading (tab' k) = last (?st # readings k rows)" "size_or (new_sector_size e n) (tab' k) = sz"
      using Cons.IH [OF _ t(1) _ sp, unfolded t(2)] Cons.prems(1) m by simp_all
    have "added_to M n ms1 = (real (unat (f sz ?st)) - real (unat (f sz (last_reading (tab k))))) * sc"
      using a n zz True le by (simp add: unat_sub word_le_nat_alt of_nat_diff)
    with ih ms r show ?thesis by (simp add: algebra_simps)
  next
    case False
    then have n: "row_word ws 2 \<noteq> n" using Cons.prems(1) by simp
    have r: "readings k (ws # rows) = readings k rows" using False by (simp add: readings_def)
    have t: "?tab k = tab k" using False by simp
    show ?thesis
      using Cons.IH [OF _ _ _ sp, unfolded t] Cons.prems(1-3) a n ms r by simp
  qed
qed

text \<open>The reference over several rounds.\<close>

fun spec_rounds :: "disk_env \<Rightarrow> (u64 \<times> string list list) list \<Rightarrow> (disk_key \<rightharpoonup> io_stats \<times> i32) \<Rightarrow> disk_value list list" where
  "spec_rounds e [] tab = []"
| "spec_rounds e ((dt, rows) # rs) tab = (case disk_spec e dt rows tab of (tab', ms) \<Rightarrow> ms # spec_rounds e rs tab')"

lemma added_to_rounds:
  assumes "(M, f, sc) \<in> set disk_counter_table"
    and "\<forall>(dt, rows) \<in> set rs. \<forall>ws \<in> set rows. row_word ws 2 = n \<longleftrightarrow> row_key ws = k"
    and "size_or (new_sector_size e n) (tab k) = sz"
    and "rises (f sz) (last_reading (tab k) # concat (map (\<lambda>(dt, rows). readings k rows) rs))"
  shows "added_to M n (concat (spec_rounds e rs tab)) =
    (real (unat (f sz (last (last_reading (tab k) # concat (map (\<lambda>(dt, rows). readings k rows) rs)))))
     - real (unat (f sz (last_reading (tab k))))) * sc"
  using assms(2-4)
proof (induction rs arbitrary: tab)
  case Nil
  then show ?case by (simp add: added_to_def)
next
  case (Cons r rs)
  obtain dt rows where r: "r = (dt, rows)" by (cases r)
  obtain tab' ms where sp: "disk_spec e dt rows tab = (tab', ms)" by (cases "disk_spec e dt rows tab")
  let ?rest = "concat (map (\<lambda>(dt, rows). readings k rows) rs)"
  have m: "rises (f sz) (last_reading (tab k) # readings k rows)"
    "rises (f sz) (last (last_reading (tab k) # readings k rows) # ?rest)"
    using Cons.prems(3) rises_append by (auto simp: r)
  have a: "added_to M n ms = (real (unat (f sz (last (last_reading (tab k) # readings k rows)))) - real (unat (f sz (last_reading (tab k))))) * sc"
    "last_reading (tab' k) = last (last_reading (tab k) # readings k rows)" "size_or (new_sector_size e n) (tab' k) = sz"
    using added_to_spec [OF assms(1) _ Cons.prems(2) m(1) sp] Cons.prems(1) r by auto
  have ih: "added_to M n (concat (spec_rounds e rs tab')) =
      (real (unat (f sz (last (last_reading (tab' k) # ?rest)))) - real (unat (f sz (last_reading (tab' k))))) * sc"
    using Cons.IH [of tab'] Cons.prems(1) m(2) a(2,3) by simp
  have "last (last (last_reading (tab k) # readings k rows) # ?rest) = last (last_reading (tab k) # readings k rows @ ?rest)"
    by (simp add: last_append)
  moreover have "added_to M n (concat (spec_rounds e (r # rs) tab)) = added_to M n ms + added_to M n (concat (spec_rounds e rs tab'))"
    by (simp add: r sp)
  moreover have "concat (map (\<lambda>(dt, rows). readings k rows) (r # rs)) = readings k rows @ ?rest" by (simp add: r)
  ultimately show ?case using a(1) ih unfolding a(2) by (simp only: left_diff_distrib)
qed

section \<open>The collector over several rounds\<close>

definition disk_file_rows :: "string \<Rightarrow> string list list" where
  "disk_file_rows c = disk_rows (cut_text (seps_of disk_seps) c)"

lemma collector_round:
  assumes io: "io_file io c" and s: "slot_ok disk_seps (dc_pf s)" "devs_ok (iodev_list s)"
    and sp: "disk_spec e dt (disk_file_rows c) (devs_table (iodev_list s)) = (tab', ms)"
  obtains s' where "collector_proc_diskstats e conf (dt, io) s = Some (s', ms, 0)"
    and "slot_ok disk_seps (dc_pf s')" and "devs_ok (iodev_list s')" and "devs_table (iodev_list s') = tab'"
proof -
  have "\<forall>x \<in> set disk_seps. code_of x < 128" by (simp add: disk_seps_def)
  from open_and_read_ok [OF io s(1) this, of "monitor_file (dc_file s) conf ''/proc/diskstats''" PROCFILE_FLAG_DEFAULT]
  obtain pf where pf: "open_and_read io (monitor_file (dc_file s) conf ''/proc/diskstats'') (Some disk_seps)
      PROCFILE_FLAG_DEFAULT (dc_pf s) = Some (Some pf)" "slot_ok disk_seps (Some pf)" "tables_ok pf"
    "procfile_contents pf = cut_text (seps_of disk_seps) c" .
  obtain devs ms' where c: "collect_devices e dt pf [0..<procfile_lines pf] (iodev_list s) = (devs, ms')"
    by (cases "collect_devices e dt pf [0..<procfile_lines pf] (iodev_list s)")
  have "map ((!) (procfile_contents pf)) [0..<procfile_lines pf] = procfile_contents pf"
    using procfile_lineword_contents(1) [OF pf(3)] by (simp add: map_nth)
  then have "devs_ok devs \<and> (devs_table devs, ms') = (tab', ms)"
    using collect_devices_ok [OF pf(3) _ s(2) c] sp pf(4) by (simp add: disk_file_rows_def list_all_iff)
  with pf c show ?thesis
    by (intro that [of "s\<lparr>dc_file := Some (monitor_file (dc_file s) conf ''/proc/diskstats''), dc_pf := Some pf, iodev_list := devs\<rparr>"])
      (auto simp: collector_proc_diskstats_def Let_def)
qed

lemma collector_rounds:
  assumes "list_all2 (\<lambda>(dt, io) c. io_file io c) dios cs" and "slot_ok disk_seps (dc_pf s)" and "devs_ok (iodev_list s)"
  shows "\<exists>s'. run_rounds (collector_proc_diskstats e conf) dios s =
    Some (s', map (\<lambda>ms. (ms, 0)) (spec_rounds e (zip (map fst dios) (map disk_file_rows cs)) (devs_table (iodev_list s))))"
  using assms
proof (induction dios cs arbitrary: s rule: list_all2_induct)
  case (Cons dio dios c cs)
  obtain dt io where d: "dio = (dt, io)" by (cases dio)
  obtain tab' ms where sp: "disk_spec e dt (disk_file_rows c) (devs_table (iodev_list s)) = (tab', ms)"
    by (cases "disk_spec e dt (disk_file_rows c) (devs_table (iodev_list s))")
  have io: "io_file io c" using Cons.hyps(1) d by simp
  from collector_round [OF io Cons.prems sp, of conf] obtain s1 where
    s1: "collector_proc_diskstats e conf (dt, io) s = Some (s1, ms, 0)"
    "slot_ok disk_seps (dc_pf s1)" "devs_ok (iodev_list s1)" "devs_table (iodev_list s1) = tab'" .
  from Cons.IH [OF s1(2,3)] s1 sp show ?case by (auto simp: d)
qed simp

section \<open>Properties\<close>

text \<open>C13: the counters of a disk follow its readings. From the start and over any number of rounds, whatever
  the files and however the kernel cuts the reads, no round fails, and what has been added to a counter
  (operations, merged operations, bytes, seconds) under the name of a device is exactly the figure of
  the last reading of that device: the first reading counts in full and every later one adds its
  increase, although the readings are kept in two sets that take turns and the device may be missing in
  some of the files. The figures of the device do not fall, and its name belongs to one device number.\<close>

theorem disk_counters_follow:
  assumes files: "list_all2 (\<lambda>(dt, io) c. io_file io c) dios cs"
    and M: "(M, f, sc) \<in> set disk_counter_table"
    and label: "\<forall>c \<in> set cs. \<forall>ws \<in> set (disk_file_rows c). row_word ws 2 = n \<longleftrightarrow> row_key ws = k"
    and rs: "rs = concat (map (\<lambda>c. readings k (disk_file_rows c)) cs)" "rs \<noteq> []"
    and up: "rises (f (new_sector_size e n)) rs"
  shows "\<exists>s' outs. run_rounds (collector_proc_diskstats e conf) dios init_diskstats = Some (s', map (\<lambda>ms. (ms, 0)) outs) \<and>
    added_to M n (concat outs) = real (unat (f (new_sector_size e n) (last rs))) * sc"
proof -
  let ?z = "new_sector_size e n" and ?rounds = "zip (map fst dios) (map disk_file_rows cs)"
  have l: "length dios = length cs" using files by (rule list_all2_lengthD)
  have c: "map (\<lambda>(dt, rows). readings k rows) ?rounds = map (\<lambda>c. readings k (disk_file_rows c)) cs"
    using l by (induction dios cs rule: list_induct2) simp_all
  have "row_word ws 2 = n \<longleftrightarrow> row_key ws = k" if "(dt, rows) \<in> set ?rounds" "ws \<in> set rows" for dt rows ws
  proof -
    have "rows \<in> disk_file_rows ` set cs" using that(1) by (auto dest: set_zip_rightD)
    with that(2) label show ?thesis by blast
  qed
  then have "\<forall>(dt, rows) \<in> set ?rounds. \<forall>ws \<in> set rows. row_word ws 2 = n \<longleftrightarrow> row_key ws = k" by blast
  moreover have "rises (f ?z) (zero_stats # concat (map (\<lambda>(dt, rows). readings k rows) ?rounds))"
    using up rs(1) counter_table_values(3) [OF M] unfolding c by (simp add: rises_def)
  ultimately have "added_to M n (concat (spec_rounds e ?rounds Map.empty)) = real (unat (f ?z (last rs))) * sc"
    using added_to_rounds [OF M, of ?rounds n k e Map.empty ?z] rs(2) counter_table_values(3) [OF M]
    unfolding c rs(1) [symmetric] by (simp add: size_or_def last_reading_def)
  moreover have "devs_table (iodev_list init_diskstats) = Map.empty" by (simp add: init_diskstats_def devs_table_def)
  moreover from collector_rounds [OF files, of init_diskstats e conf] obtain s' where
    "run_rounds (collector_proc_diskstats e conf) dios init_diskstats =
      Some (s', map (\<lambda>ms. (ms, 0)) (spec_rounds e ?rounds (devs_table (iodev_list init_diskstats))))"
    by (auto simp: init_diskstats_def devs_ok_def)
  ultimately show ?thesis by auto
qed

lemma row_values_finite:
  assumes "old = None \<or> dt \<noteq> 0" and "(m, v, l) \<in> set (snd (row_values e dt ws old))"
  shows "v \<noteq> None"
proof -
  have c: "list_all (\<lambda>(m, v, l). v \<noteq> None) (disk_counters name sz d pgr)" for name sz d pgr
    by (simp add: disk_counters_def del: not_None_eq)
  have g: "list_all (\<lambda>(m, v, l). v \<noteq> None) (disk_gauges name sz dt c p)" if "dt \<noteq> 0" for name sz c p
  proof -
    have "unat dt \<noteq> 0" using that by (simp add: unat_eq_0)
    then have "real (unat dt) \<noteq> 0" by (simp only: of_nat_eq_0_iff not_False_eq_True)
    then show ?thesis by (simp add: disk_gauges_def Let_def del: not_None_eq)
  qed
  show ?thesis
    using assms c g by (fastforce simp: row_values_def Let_def list_all_iff split: option.splits prod.splits)
qed

lemma disk_spec_finite:
  "dt \<noteq> 0 \<or> distinct (map row_key rows) \<and> (\<forall>ws \<in> set rows. tab (row_key ws) = None) \<Longrightarrow>
   (m, v, l) \<in> set (snd (disk_spec e dt rows tab)) \<Longrightarrow> v \<noteq> None"
proof (induction rows arbitrary: tab)
  case (Cons ws rows)
  obtain z ms where rv: "row_values e dt ws (tab (row_key ws)) = (z, ms)" by (cases "row_values e dt ws (tab (row_key ws))")
  let ?tab = "tab(row_key ws \<mapsto> (read_devstats (row_word ws), z))"
  have "(m, v, l) \<in> set ms \<or> (m, v, l) \<in> set (snd (disk_spec e dt rows ?tab))"
    using Cons.prems(2) rv by (auto split: prod.splits)
  then show ?case
  proof
    assume "(m, v, l) \<in> set ms"
    then show ?thesis using row_values_finite [of "tab (row_key ws)" dt m v l e ws] rv Cons.prems(1) by auto
  next
    assume "(m, v, l) \<in> set (snd (disk_spec e dt rows ?tab))"
    moreover have "dt \<noteq> 0 \<or> distinct (map row_key rows) \<and> (\<forall>ws \<in> set rows. ?tab (row_key ws) = None)"
      using Cons.prems(1) by (auto simp: image_iff)
    ultimately show ?thesis by (rule Cons.IH [rotated])
  qed
qed simp

lemma spec_rounds_finite:
  "\<forall>(dt, rows) \<in> set rs. dt \<noteq> 0 \<Longrightarrow> (m, v, l) \<in> set (concat (spec_rounds e rs tab)) \<Longrightarrow> v \<noteq> None"
proof (induction rs arbitrary: tab)
  case (Cons r rs)
  obtain dt rows where r: "r = (dt, rows)" by (cases r)
  obtain tab' ms where sp: "disk_spec e dt rows tab = (tab', ms)" by (cases "disk_spec e dt rows tab")
  with Cons.prems r consider "(m, v, l) \<in> set ms" | "(m, v, l) \<in> set (concat (spec_rounds e rs tab'))" by auto
  then show ?case
  proof cases
    case 1
    then show ?thesis using disk_spec_finite [of dt rows tab m v l e] sp Cons.prems(1) r by simp
  next
    case 2
    then show ?thesis using Cons by auto
  qed
qed simp


text \<open>A device that is busy for no longer than the time that has passed is used to at most 100 per cent.\<close>

lemma disk_util_bounded:
  assumes "dt \<noteq> 0" and "1000 * unat (ios_total_ticks c - ios_total_ticks p) \<le> unat dt"
    and "(''__metric_node_disk_iostat_util'', v, l) \<in> set (drop 14 (disk_gauges name sz dt c p))"
  shows "\<exists>x. v = Some x \<and> 0 \<le> x \<and> x \<le> 100"
proof -
  let ?t = "unat (ios_total_ticks c - ios_total_ticks p)"
  have "0 < unat dt" using assms(1) by (simp add: unat_gt_0)
  then have d: "0 < real (unat dt)" by (simp only: of_nat_0_less_iff)
  have "real (1000 * ?t) \<le> real (unat dt)" using assms(2) by (simp only: of_nat_le_iff)
  then have "real ?t / (real (unat dt) / 1000000) / 10 \<le> 100" using d by (simp add: divide_simps)
  moreover have "v = Some (real ?t / (real (unat dt) / 1000000) / 10)"
    using assms(3) d by (simp add: disk_gauges_def stats_diff_def Let_def)
  moreover have "0 \<le> real ?t / (real (unat dt) / 1000000) / 10" by (intro divide_nonneg_nonneg of_nat_0_le_iff) simp_all
  ultimately show ?thesis by blast
qed

section \<open>Example\<close>

definition disk_example :: "string \<Rightarrow> string" where
  "disk_example rd = ''   8       0 sda '' @ rd @ '' 2 3 4 5 6 7 8 9 10 11'' @ [CHR 0x0A]"

definition disk_example_env :: disk_env where
  "disk_example_env = \<lparr>de_access = (\<lambda>_. False), de_dir = (\<lambda>_. None), de_exists = (\<lambda>_. False), de_file = (\<lambda>_ _. None)\<rparr>"

lemma disk_example_rows:
  "disk_file_rows (disk_example ''100'') = [[''8'', ''0'', ''sda'', ''100'', ''2'', ''3'', ''4'', ''5'', ''6'', ''7'', ''8'', ''9'', ''10'', ''11'']]"
  "disk_file_rows (disk_example ''140'') = [[''8'', ''0'', ''sda'', ''140'', ''2'', ''3'', ''4'', ''5'', ''6'', ''7'', ''8'', ''9'', ''10'', ''11'']]"
  by code_simp+

lemma disk_example_files:
  "list_all2 (\<lambda>(dt, io) c. io_file io c) [(0, file_of (disk_example ''100'')), (1000000, file_of (disk_example ''140''))]
     [disk_example ''100'', disk_example ''140'']"
  by (simp add: disk_example_def)

theorem disk_counters_follow_witness:
  "\<exists>s' outs. run_rounds (collector_proc_diskstats disk_example_env None)
      [(0, file_of (disk_example ''100'')), (1000000, file_of (disk_example ''140''))] init_diskstats =
      Some (s', map (\<lambda>ms. (ms, 0)) outs) \<and>
    added_to ''__metric_node_disk_reads_completed_total_count'' ''sda'' (concat outs) = 140"
proof -
  let ?cs = "[disk_example ''100'', disk_example ''140'']" and ?M = "''__metric_node_disk_reads_completed_total_count''"
  let ?k = "row_key [''8'', ''0'', ''sda'']"
  have M: "(?M, \<lambda>_. rd_ios, 1) \<in> set disk_counter_table" unfolding disk_counter_table_def list.set by (rule insertI1)
  have k: "row_key [''8'', ''0'', ''sda'', x, ''2'', ''3'', ''4'', ''5'', ''6'', ''7'', ''8'', ''9'', ''10'', ''11''] = ?k"
    "row_word [''8'', ''0'', ''sda'', x, ''2'', ''3'', ''4'', ''5'', ''6'', ''7'', ''8'', ''9'', ''10'', ''11''] 2 = ''sda''" for x
    by (simp_all add: row_key_def row_word_def)
  have label: "\<forall>c \<in> set ?cs. \<forall>ws \<in> set (disk_file_rows c). row_word ws 2 = ''sda'' \<longleftrightarrow> row_key ws = ?k"
    by (simp add: disk_example_rows k)
  let ?rs = "concat (map (\<lambda>c. readings ?k (disk_file_rows c)) ?cs)"
  have rd: "rd_ios (read_devstats (row_word [''8'', ''0'', ''sda'', ''100'', ''2'', ''3'', ''4'', ''5'', ''6'', ''7'', ''8'', ''9'', ''10'', ''11''])) = 100"
    "rd_ios (read_devstats (row_word [''8'', ''0'', ''sda'', ''140'', ''2'', ''3'', ''4'', ''5'', ''6'', ''7'', ''8'', ''9'', ''10'', ''11''])) = 140"
    by code_simp+
  have rs: "map rd_ios ?rs = [100, 140]" by (simp add: readings_def disk_example_rows k rd)
  have "rises rd_ios ?rs"
  proof -
    have "rises rd_ios ?rs \<longleftrightarrow> sorted_wrt (\<lambda>a b. unat a \<le> unat b) (map rd_ios ?rs)"
      by (simp only: rises_def sorted_wrt_map)
    then show ?thesis unfolding rs by simp
  qed
  moreover have "?rs \<noteq> []" using rs by (metis list.distinct(1) list.simps(8))
  moreover from this have "rd_ios (last ?rs) = 140" using last_map [of ?rs rd_ios] unfolding rs by simp
  ultimately show ?thesis
    using disk_counters_follow [OF disk_example_files M label refl, of disk_example_env None] by simp
qed


text \<open>A file that is there and cannot be read gives the length of its path as the sector size.\<close>

lemma sector_size_of_unreadable:
  assumes "de_exists e (''/sys/block/'' @ disk @ ''/queue/logical_block_size'')"
    and "fst (read_file_to_int64 (de_file e (''/sys/block/'' @ disk @ ''/queue/logical_block_size''))) \<noteq> 0"
  shows "get_block_device_sector_size e disk = of_nat (36 + length disk)"
proof -
  obtain r n where "read_file_to_int64 (de_file e (''/sys/block/'' @ disk @ ''/queue/logical_block_size'')) = (r, n)"
    by (rule prod.exhaust)
  with assms show ?thesis by (simp add: get_block_device_sector_size_def Let_def)
qed

end
