(* ===== verification/XM_Mountinfo.thy ===== *)
theory XM_Mountinfo
  imports XM_KeywordFiles
begin

text \<open>
  \<^verbatim>\<open>utils/mountinfo.c\<close>: the table of mounted file systems from \<^verbatim>\<open>/proc/self/mountinfo\<close>. The linked list of
  entries is a list in its order; a NULL string of an entry is \<open>None\<close>. The two branches on
  \<^verbatim>\<open>do_statvfs\<close> have no effect in the source (one is empty, the other clears what is already zero), so
  the argument is left out. Cutting \<^verbatim>\<open>major:minor\<close> in place does not show: that word is not read again.
\<close>

section \<open>Mount options\<close>

text \<open>\<open>None\<close> is the NULL pointer.\<close>

definition is_readonly :: "string option \<Rightarrow> bool" where
  "is_readonly mount_options =
     (case mount_options of
        None \<Rightarrow> False
      | Some s \<Rightarrow>
          let len = length s
          in if len < 2 then False
             else if len = 2 then s = ''ro''
             else if has_prefix ''ro,'' s then True
             else if take 3 (drop (len - 3) s) = '',ro'' then True
             else strstr s '',ro,'' \<noteq> None)"

section \<open>Octal escapes\<close>

text \<open>\<^verbatim>\<open>c = *s - '0'; c <<= 3; c |= ...; c <<= 3; c |= ...\<close> on an eight-bit \<^verbatim>\<open>char\<close>; the digits 8 and 9 are
  let through.\<close>

definition octal_char :: "char \<Rightarrow> char \<Rightarrow> char \<Rightarrow> char" where
  "octal_char a b d =
     (let v = (\<lambda>c. of_nat (digit_val c) :: u8)
      in char_of (unat (push_bit 3 (push_bit 3 (v a) OR v b) OR v d)))"

text \<open>The loop: the bytes that are written before the final NUL.\<close>

fun decode_octal :: "string \<Rightarrow> string" where
  "decode_octal [] = []"
| "decode_octal (c # s) =
     (if c = CHR 0x5C
      then case s of
             a # b # d # r \<Rightarrow>
               if is_digit a \<and> is_digit b \<and> is_digit d then octal_char a b d # decode_octal r
               else CHR ''_'' # decode_octal s
           | _ \<Rightarrow> CHR ''_'' # decode_octal s
      else c # decode_octal s)"

definition strdup_decoding_octal :: "string \<Rightarrow> string" where
  "strdup_decoding_octal s = cstr (decode_octal s)"

section \<open>Names\<close>

text \<open>\<^verbatim>\<open>basename\<close> of \<^verbatim>\<open>libgen.h\<close>, which \<^verbatim>\<open>common.h\<close> includes: it cuts the slashes at the end off its
  argument, in place. The argument afterwards, and the name.\<close>

definition after_slash :: "string \<Rightarrow> string" where
  "after_slash s = rev (takeWhile (\<lambda>c. c \<noteq> CHR ''/'') (rev s))"

definition basename :: "string \<Rightarrow> string \<times> string" where
  "basename s =
     (if s = [] then (s, ''.'')
      else if last s \<noteq> CHR ''/'' then (s, after_slash s)
      else let t = rev (dropWhile (\<lambda>c. c = CHR ''/'') (rev s))
           in if t = [] then (s, ''/'') else (t, after_slash t))"

text \<open>\<^verbatim>\<open>strtol(s, NULL, 10)\<close>.\<close>

definition strtol :: "string \<Rightarrow> int" where
  "strtol tok =
     (let s = dropWhile is_space tok;
          negative = (s \<noteq> [] \<and> hd s = CHR ''-'');
          s1 = (if s \<noteq> [] \<and> (hd s = CHR ''-'' \<or> hd s = CHR ''+'') then tl s else s);
          v = int (dec_value 0 (takeWhile is_digit s1))
      in if negative then max (- (2 ^ 63)) (- v) else min (2 ^ 63 - 1) v)"

definition ME_REMOTE :: "string \<Rightarrow> string \<Rightarrow> bool" where
  "ME_REMOTE fs_name fs_type \<longleftrightarrow>
     CHR '':'' \<in> set fs_name \<or> has_prefix ''//'' fs_name \<and> (fs_type = ''smbfs'' \<or> fs_type = ''cifs'') \<or>
     ''-hosts'' = fs_name"

definition dummy_types :: "string list" where
  "dummy_types =
     [''autofs'', ''proc'', ''subfs'', ''debugfs'', ''devpts'', ''fusectl'', ''mqueue'', ''rpc_pipefs'', ''sysfs'',
      ''devfs'', ''kernfs'', ''ignore'']"

definition ME_DUMMY :: "string \<Rightarrow> string \<Rightarrow> bool" where
  "ME_DUMMY fs_name fs_type \<longleftrightarrow> fs_type \<in> set dummy_types \<or> fs_type = ''none''"

section \<open>Entries\<close>

definition MOUNTINFO_FLAG_IS_DUMMY :: u32 where "MOUNTINFO_FLAG_IS_DUMMY = 0x01"
definition MOUNTINFO_FLAG_IS_REMOTE :: u32 where "MOUNTINFO_FLAG_IS_REMOTE = 0x02"
definition MOUNTINFO_FLAG_IS_BIND :: u32 where "MOUNTINFO_FLAG_IS_BIND = 0x04"
definition MOUNTINFO_FLAG_READONLY :: u32 where "MOUNTINFO_FLAG_READONLY = 0x40"

record mountinfo =
  mi_id :: i32
  mi_parent_id :: i32
  mi_major :: u32
  mi_minor :: u32
  mi_root :: string
  mi_root_hash :: u32
  mi_mount_point :: string
  mi_mount_point_hash :: u32
  mi_mount_options :: string
  mi_optional_fields_count :: i32
  mi_filesystem :: "string option"
  mi_filesystem_hash :: u32
  mi_mount_source :: "string option"
  mi_mount_source_hash :: u32
  mi_mount_source_name :: "string option"
  mi_mount_source_name_hash :: u32
  mi_super_options :: "string option"
  mi_flags :: u32

text \<open>The loop over the optional fields: the position of the word that ends it, and their number.\<close>

function optional_fields :: "proc_file \<Rightarrow> nat \<Rightarrow> nat \<Rightarrow> i32 \<Rightarrow> nat \<times> i32" where
  "optional_fields pf l w cnt =
     (let s = procfile_lineword pf l w
      in if s \<noteq> [] \<and> hd s \<noteq> CHR ''-'' then optional_fields pf l (w + 1) (cnt + 1) else (w, cnt))"
  by pat_completeness auto
termination
  by (relation "measure (\<lambda>(pf, l, w, cnt). procfile_linewords pf l - w)")
    (auto simp: procfile_lineword_def split: if_splits)

declare optional_fields.simps [simp del]

text \<open>What follows the hyphen: the type, the source and the options of the super block.\<close>

definition read_source :: "proc_file \<Rightarrow> nat \<Rightarrow> nat \<Rightarrow> mountinfo \<Rightarrow> mountinfo" where
  "read_source pf l w mi =
     (let fs = procfile_lineword pf l w;
          source = strdup_decoding_octal (procfile_lineword pf l (w + 1));
          (source', name) = basename source;
          super = procfile_lineword pf l (w + 2);
          f1 = (if is_readonly (Some super) then mi_flags mi OR MOUNTINFO_FLAG_READONLY else mi_flags mi);
          f2 = (if ME_DUMMY source' fs then f1 OR MOUNTINFO_FLAG_IS_DUMMY else f1);
          f3 = (if ME_REMOTE source' fs then f2 OR MOUNTINFO_FLAG_IS_REMOTE else f2)
      in mi\<lparr>mi_filesystem := Some fs, mi_filesystem_hash := name_hash fs,
            mi_mount_source := Some source', mi_mount_source_hash := name_hash source,
            mi_mount_source_name := Some name, mi_mount_source_name_hash := name_hash name,
            mi_super_options := Some super, mi_flags := f3\<rparr>)"

text \<open>One line; \<open>None\<close>: the line is skipped.\<close>

definition read_mount :: "proc_file \<Rightarrow> nat \<Rightarrow> mountinfo option" where
  "read_mount pf l =
     (let wd = procfile_lineword pf l; major = wd 2
      in if procfile_linewords pf l < 5 then None
         else if CHR '':'' \<notin> set major then None
         else
           let minor = tl (dropWhile (\<lambda>c. c \<noteq> CHR '':'') major);
               (w, cnt) = optional_fields pf l 6 0;
               mi = \<lparr>mi_id = word_of_int (strtol (wd 0)), mi_parent_id = word_of_int (strtol (wd 1)),
                 mi_major = str2uint32_t (takeWhile (\<lambda>c. c \<noteq> CHR '':'') major), mi_minor = str2uint32_t minor,
                 mi_root = wd 3, mi_root_hash = name_hash (wd 3),
                 mi_mount_point = wd 4, mi_mount_point_hash = name_hash (wd 4),
                 mi_mount_options = wd 5, mi_optional_fields_count = cnt,
                 mi_filesystem = None, mi_filesystem_hash = 0, mi_mount_source = None, mi_mount_source_hash = 0,
                 mi_mount_source_name = None, mi_mount_source_name_hash = 0, mi_super_options = None,
                 mi_flags = (if is_readonly (Some (wd 5)) then MOUNTINFO_FLAG_READONLY else 0)\<rparr>
           in Some (if wd w \<noteq> [] \<and> hd (wd w) = CHR ''-'' then read_source pf l (w + 1) mi else mi))"

definition mount_seps :: string where "mount_seps = '' '' @ [CHR 0x09]"

text \<open>The outer \<open>None\<close> is undefined behaviour of the reader; a file that cannot be opened or read gives the
  empty list.\<close>

definition mountinfo_read :: "file_io \<Rightarrow> mountinfo list option" where
  "mountinfo_read io =
     (case open_and_read io ''/proc/self/mountinfo'' (Some mount_seps) PROCFILE_FLAG_DEFAULT None of
        None \<Rightarrow> None
      | Some None \<Rightarrow> Some []
      | Some (Some pf) \<Rightarrow> Some (List.map_filter (read_mount pf) [0..<procfile_lines pf]))"

section \<open>Options as a list\<close>

lemma fields_member:
  assumes "\<forall>c \<in> set x. \<not> P c"
  shows "x \<in> set (XM_Strings.fields P s) \<longleftrightarrow>
    (\<exists>u v. s = u @ x @ v \<and> (u = [] \<or> P (last u)) \<and> (v = [] \<or> P (hd v)))"
proof (induction "length s" arbitrary: s rule: less_induct)
  case less
  show ?case
  proof (cases "\<exists>c \<in> set s. P c")
    case False
    then have "XM_Strings.fields P s = [s]" by (subst fields_unfold) (simp add: takeWhile_eq_all_conv [THEN iffD2] dropWhile_eq_Nil_conv [THEN iffD2])
    moreover have "s = u @ x @ v \<and> (u = [] \<or> P (last u)) \<and> (v = [] \<or> P (hd v)) \<longleftrightarrow> s = x \<and> u = [] \<and> v = []" for u v
      using False by (cases u rule: rev_cases; cases v) auto
    ultimately show ?thesis by auto
  next
    case True
    then obtain w p r where s: "s = w @ p # r" "P p" "\<forall>c \<in> set w. \<not> P c" using split_list_first_prop by metis
    have f: "XM_Strings.fields P s = w # XM_Strings.fields P r" using s by (subst fields_unfold) (simp add: takeWhile_tail dropWhile_append3)
    have IH: "x \<in> set (XM_Strings.fields P r) \<longleftrightarrow> (\<exists>u v. r = u @ x @ v \<and> (u = [] \<or> P (last u)) \<and> (v = [] \<or> P (hd v)))"
      using less [of r] s(1) by simp
    show ?thesis
    proof
      assume "x \<in> set (XM_Strings.fields P s)"
      then consider "x = w" | "x \<in> set (XM_Strings.fields P r)" using f by auto
      then show "\<exists>u v. s = u @ x @ v \<and> (u = [] \<or> P (last u)) \<and> (v = [] \<or> P (hd v))"
      proof cases
        case 1
        then show ?thesis using s by (intro exI [of _ "[]"] exI [of _ "p # r"]) simp
      next
        case 2
        then obtain u v where "r = u @ x @ v" "u = [] \<or> P (last u)" "v = [] \<or> P (hd v)" using IH by blast
        then show ?thesis using s by (intro exI [of _ "w @ p # u"] exI [of _ v]) auto
      qed
    next
      assume "\<exists>u v. s = u @ x @ v \<and> (u = [] \<or> P (last u)) \<and> (v = [] \<or> P (hd v))"
      then obtain u v where uv: "w @ p # r = u @ x @ v" "u = [] \<or> P (last u)" "v = [] \<or> P (hd v)" using s(1) by auto
      show "x \<in> set (XM_Strings.fields P s)"
      proof (cases "u = []")
        case True
        then have e: "w @ p # r = x @ v" using uv(1) by simp
        then have "v \<noteq> []" using assms s(2) by (metis append.right_neutral in_set_conv_decomp)
        then obtain q v' where v: "v = q # v'" "P q" using uv(3) by (cases v) auto
        have "takeWhile (\<lambda>c. \<not> P c) (w @ p # r) = w" "takeWhile (\<lambda>c. \<not> P c) (x @ v) = x"
          using s v assms by (simp_all add: takeWhile_tail)
        then show ?thesis using e f by simp
      next
        case False
        then have "P (last u)" using uv(2) by simp
        then have nu: "\<not> (\<exists>z. w = u @ z)" using s(3) False by fastforce
        with uv(1) obtain u' where u': "u = w @ p # u'" "r = u' @ x @ v"
          by (auto simp: append_eq_append_conv2 Cons_eq_append_conv)
        with False \<open>P (last u)\<close> uv(3) have "x \<in> set (XM_Strings.fields P r)" unfolding IH by (metis last_appendR last_ConsR list.discI)
        then show ?thesis using f by simp
      qed
    qed
  qed
qed

lemma is_readonly_iff: "is_readonly (Some s) \<longleftrightarrow> ''ro'' \<in> set (XM_Strings.fields (\<lambda>c. c = CHR '','') s)"
proof -
  have "''ro'' \<in> set (XM_Strings.fields (\<lambda>c. c = CHR '','') s) \<longleftrightarrow>
      (\<exists>u v. s = u @ ''ro'' @ v \<and> (u = [] \<or> last u = CHR '','') \<and> (v = [] \<or> hd v = CHR '',''))"
    by (rule fields_member) simp
  also have "\<dots> \<longleftrightarrow> s = ''ro'' \<or> prefix ''ro,'' s \<or> suffix '',ro'' s \<or> sublist '',ro,'' s"
  proof
    assume "\<exists>u v. s = u @ ''ro'' @ v \<and> (u = [] \<or> last u = CHR '','') \<and> (v = [] \<or> hd v = CHR '','')"
    then obtain u v where uv: "s = u @ ''ro'' @ v" "u = [] \<or> last u = CHR '',''" "v = [] \<or> hd v = CHR '',''" by blast
    then consider "u = []" "v = []" | v' where "u = []" "v = CHR '','' # v'" | u' where "u = u' @ '',''" "v = []"
      | u' v' where "u = u' @ '',''" "v = CHR '','' # v'"
      by (cases u rule: rev_cases; cases v) auto
    then show "s = ''ro'' \<or> prefix ''ro,'' s \<or> suffix '',ro'' s \<or> sublist '',ro,'' s"
      using uv(1) by cases (auto simp: suffix_def sublist_def)
  next
    assume "s = ''ro'' \<or> prefix ''ro,'' s \<or> suffix '',ro'' s \<or> sublist '',ro,'' s"
    then consider "s = ''ro''" | v where "s = ''ro'' @ '','' @ v" | u where "s = (u @ '','') @ ''ro''"
      | u v where "s = (u @ '','') @ ''ro'' @ '','' @ v"
      by (auto simp: prefix_def suffix_def sublist_def)
    then show "\<exists>u v. s = u @ ''ro'' @ v \<and> (u = [] \<or> last u = CHR '','') \<and> (v = [] \<or> hd v = CHR '','')"
    proof cases
      case 1
      then show ?thesis by (intro exI [of _ "[]"]) simp
    next
      case (2 v)
      then show ?thesis by (intro exI [of _ "[]"] exI [of _ "'','' @ v"]) simp
    next
      case (3 u)
      then show ?thesis by (intro exI [of _ "u @ '',''"] exI [of _ "[]"]) simp
    next
      case (4 u v)
      then show ?thesis by (intro exI [of _ "u @ '',''"] exI [of _ "'','' @ v"]) simp
    qed
  qed
  also have "\<dots> \<longleftrightarrow> is_readonly (Some s)"
  proof -
    have "suffix '',ro'' s \<longleftrightarrow> take 3 (drop (length s - 3) s) = '',ro''" if "3 \<le> length s"
      using that by (auto simp: suffix_def) (metis append_take_drop_id)
    moreover have "length s = 2 \<Longrightarrow> \<not> prefix ''ro,'' s \<and> \<not> suffix '',ro'' s \<and> \<not> sublist '',ro,'' s"
      by (auto dest: prefix_length_le suffix_length_le sublist_length_le)
    moreover have "length s < 2 \<Longrightarrow> \<not> prefix ''ro,'' s \<and> \<not> suffix '',ro'' s \<and> \<not> sublist '',ro,'' s \<and> s \<noteq> ''ro''"
      by (auto dest: prefix_length_le suffix_length_le sublist_length_le)
    ultimately show ?thesis
      by (auto simp: is_readonly_def Let_def has_prefix_iff strstr_iff_sublist [symmetric] simp del: sublist_code)
  qed
  finally show ?thesis by simp
qed

section \<open>Escaping and decoding\<close>

text \<open>How the kernel prints a text into the table: the bytes of \<open>E\<close> as a backslash and three octal digits.\<close>

definition octal_escape :: "string \<Rightarrow> string \<Rightarrow> string" where
  "octal_escape E s = concat (map (\<lambda>c. if c \<in> set E
     then [CHR 0x5C, digit_char (code_of c div 64), digit_char (code_of c div 8 mod 8), digit_char (code_of c mod 8)]
     else [c]) s)"

lemma or_low8: "y < 8 \<Longrightarrow> x * 8 OR y = x * 8 + (y :: nat)"
proof -
  assume "y < 8"
  then have "take_bit 3 y = y" by (simp add: take_bit_nat_eq_self)
  then have "push_bit 3 x AND y = take_bit 3 (push_bit 3 x) AND y" by (metis take_bit_and and.commute and.assoc take_bit_eq_mask)
  also have "\<dots> = 0" by (simp add: take_bit_push_bit)
  finally show ?thesis by (simp add: push_bit_eq_mult disjunctive_add_eq_or)
qed

lemma octal_word:
  assumes "x < 32" and "y < 8"
  shows "push_bit 3 (of_nat x :: u8) OR of_nat y = of_nat (x * 8 + y)"
proof -
  have u: "unat (of_nat x :: u8) = x" "unat (of_nat y :: u8) = y" "unat (of_nat (x * 8 + y) :: u8) = x * 8 + y"
    "take_bit 8 (x * 8) = x * 8"
    using assms by (simp_all add: unsigned_of_nat take_bit_nat_eq_self del: of_nat_add of_nat_mult)
  have "unat (push_bit 3 (of_nat x :: u8)) = take_bit 8 (push_bit 3 (unat (of_nat x :: u8)))"
    by (simp add: unsigned_push_bit_eq del: unsigned_of_nat)
  also have "\<dots> = x * 8" using u by (simp add: push_bit_eq_mult)
  finally have "unat (push_bit 3 (of_nat x :: u8) OR of_nat y) = unat (of_nat (x * 8 + y) :: u8)"
    using or_low8 [OF assms(2), of x] by (simp only: unsigned_or_eq u)
  then show ?thesis by (simp add: word_unat_eq_iff)
qed

lemma octal_char_code:
  "octal_char (digit_char (code_of c div 64)) (digit_char (code_of c div 8 mod 8)) (digit_char (code_of c mod 8)) = c"
proof -
  let ?n = "code_of c :: nat"
  have n: "?n < 256" by (rule nat_of_char_less_256)
  have "?n div 64 < 4" by (rule less_mult_imp_div_less) simp
  moreover have "?n div 64 * 8 + ?n div 8 mod 8 = ?n div 8"
    using div_mult2_eq [of ?n 8 8] by (simp add: div_mod_decomp [of "?n div 8" 8, symmetric])
  moreover have "?n div 8 < 32" by (rule less_mult_imp_div_less) simp
  ultimately have "push_bit 3 (push_bit 3 (of_nat (?n div 64) :: u8) OR of_nat (?n div 8 mod 8)) OR of_nat (?n mod 8) = of_nat ?n"
    by (simp add: octal_word del: of_nat_add of_nat_mult)
  moreover have "unat (of_nat ?n :: u8) = ?n" using n by (simp add: unsigned_of_nat take_bit_nat_eq_self)
  ultimately show ?thesis using \<open>?n div 64 < 4\<close> by (simp add: octal_char_def)
qed

lemma decode_octal_escape: "CHR 0x5C \<in> set E \<Longrightarrow> decode_octal (octal_escape E s) = s"
proof (induction s)
  case (Cons c s)
  have "(code_of c :: nat) div 64 < 4" by (rule less_mult_imp_div_less) simp
  then have "(code_of c :: nat) div 64 < 10" by simp
  with Cons show ?case by (auto simp: octal_escape_def octal_char_code)
qed (simp add: octal_escape_def)

lemma octal_escape_NUL: "NUL \<notin> set (octal_escape E s) \<Longrightarrow> NUL \<notin> set s \<or> NUL \<in> set E"
  by (auto simp: octal_escape_def)

lemma strdup_decoding_escape:
  assumes "CHR 0x5C \<in> set E" and "NUL \<notin> set s"
  shows "strdup_decoding_octal (octal_escape E s) = s"
proof -
  have "cstr s = s" using assms(2) by (auto simp: cstr_def takeWhile_eq_all_conv)
  with decode_octal_escape [OF assms(1)] show ?thesis by (simp add: strdup_decoding_octal_def)
qed

section \<open>Lines\<close>

text \<open>The row that the kernel prints for a mounted file system, and the entry that the row should give.\<close>

record mount =
  m_id :: nat
  m_parent :: nat
  m_major :: nat
  m_minor :: nat
  m_root :: string
  m_point :: string
  m_options :: "string list"
  m_optional :: "string list"
  m_fstype :: string
  m_source :: string
  m_super :: "string list"

definition path_escapes :: string where "path_escapes = '' '' @ [CHR 0x09, CHR 0x0A, CHR 0x5C]"
definition source_escapes :: string where "source_escapes = path_escapes @ ''#''"

definition mount_row :: "mount \<Rightarrow> string list" where
  "mount_row m =
     [decimal (m_id m), decimal (m_parent m), decimal (m_major m) @ CHR '':'' # decimal (m_minor m),
      octal_escape path_escapes (m_root m), octal_escape path_escapes (m_point m), join '','' (m_options m)] @
     m_optional m @ [''-'', m_fstype m, octal_escape source_escapes (m_source m), join '','' (m_super m)]"

definition mount_text :: "mount list \<Rightarrow> string" where
  "mount_text ms = table_text (map (\<lambda>m. map (Pair False) (mount_row m)) ms)"

definition mount_ok :: "mount \<Rightarrow> bool" where
  "mount_ok m \<longleftrightarrow> m_id m < 2 ^ 31 \<and> m_parent m < 2 ^ 31 \<and> m_major m < 2 ^ 32 \<and> m_minor m < 2 ^ 32 \<and>
     list_all (\<lambda>w. w \<noteq> [] \<and> list_all (\<lambda>c. seps_of mount_seps c = PF_CHAR_IS_WORD) w) (mount_row m) \<and>
     list_all (\<lambda>w. hd w \<noteq> CHR ''-'') (m_optional m) \<and>
     list_all (\<lambda>o'. CHR '','' \<notin> set o') (m_options m @ m_super m)"

definition mount_flags :: "mount \<Rightarrow> u32" where
  "mount_flags m =
     (if ''ro'' \<in> set (m_options m @ m_super m) then 0x40 else 0) OR
     (if m_fstype m \<in> set (''none'' # dummy_types) then 0x01 else 0) OR
     (if ME_REMOTE (fst (basename (m_source m))) (m_fstype m) then 0x02 else 0)"

definition mount_entry :: "mount \<Rightarrow> mountinfo" where
  "mount_entry m =
     (let point = octal_escape path_escapes (m_point m); root = octal_escape path_escapes (m_root m);
          (source, name) = basename (m_source m)
      in \<lparr>mi_id = of_nat (m_id m), mi_parent_id = of_nat (m_parent m), mi_major = of_nat (m_major m),
          mi_minor = of_nat (m_minor m), mi_root = root, mi_root_hash = name_hash root,
          mi_mount_point = point, mi_mount_point_hash = name_hash point, mi_mount_options = join '','' (m_options m),
          mi_optional_fields_count = of_nat (length (m_optional m)),
          mi_filesystem = Some (m_fstype m), mi_filesystem_hash = name_hash (m_fstype m),
          mi_mount_source = Some source, mi_mount_source_hash = name_hash (m_source m),
          mi_mount_source_name = Some name, mi_mount_source_name_hash = name_hash name,
          mi_super_options = Some (join '','' (m_super m)), mi_flags = mount_flags m\<rparr>)"

lemma fields_join:
  "P d \<Longrightarrow> ws \<noteq> [] \<Longrightarrow> \<forall>w \<in> set ws. \<forall>c \<in> set w. \<not> P c \<Longrightarrow> XM_Strings.fields P (join [d] ws) = ws"
proof (induction ws)
  case (Cons w ws)
  show ?case
  proof (cases "ws = []")
    case True
    with Cons.prems show ?thesis
      by (subst fields_unfold) (simp add: takeWhile_eq_all_conv [THEN iffD2] dropWhile_eq_Nil_conv [THEN iffD2])
  next
    case False
    with Cons show ?thesis by (subst fields_unfold) (simp add: join_Cons takeWhile_tail dropWhile_append3)
  qed
qed simp

lemma is_readonly_join:
  assumes "os \<noteq> []" and "list_all (\<lambda>o'. CHR '','' \<notin> set o') os"
  shows "is_readonly (Some (join '','' os)) \<longleftrightarrow> ''ro'' \<in> set os"
  using assms by (subst is_readonly_iff, subst fields_join) (auto simp: list_all_iff)

lemma strtol_decimal: "n < 2 ^ 63 \<Longrightarrow> strtol (decimal n) = int n"
proof -
  assume "n < 2 ^ 63"
  have h: "hd (decimal n) \<noteq> CHR ''-''" "hd (decimal n) \<noteq> CHR ''+''" "\<not> is_space (hd (decimal n))"
    using hd_decimal_digit [of n] by (auto simp: is_digit_def is_space_def)
  then have "dropWhile is_space (decimal n) = decimal n" by (cases "decimal n") auto
  then show ?thesis using h \<open>n < 2 ^ 63\<close> by (simp add: strtol_def dec_value_decimal)
qed

lemma decimal_no_colon: "CHR '':'' \<notin> set (decimal n)"
  using decimal_digits [of n] by (auto simp: list_all_iff is_digit_def)

lemma optional_fields_row:
  assumes "procfile_lineword pf l = row_word (pre @ opts @ w # rest)"
    and "list_all (\<lambda>w. w \<noteq> [] \<and> hd w \<noteq> CHR ''-'') opts" and "hd w = CHR ''-''"
  shows "optional_fields pf l (length pre) cnt = (length pre + length opts, cnt + of_nat (length opts))"
  using assms
proof (induction opts arbitrary: pre cnt)
  case Nil
  then show ?case by (subst optional_fields.simps) (simp add: row_word_def)
next
  case (Cons o' opts)
  from Cons.prems Cons.IH [of "pre @ [o']" "cnt + 1"] show ?case
    by (subst optional_fields.simps) (simp add: row_word_def add.assoc)
qed

lemma read_mount_row:
  assumes row: "procfile_linewords pf l = length (mount_row m)" "procfile_lineword pf l = row_word (mount_row m)"
    and m: "mount_ok m"
  shows "read_mount pf l = Some (mount_entry m)"
proof -
  have ne: "\<forall>w \<in> set (mount_row m). w \<noteq> []" and np: "\<forall>w \<in> set (m_optional m). hd w \<noteq> CHR ''-''"
    using m by (auto simp: mount_ok_def list_all_iff)
  obtain pre where pre: "length pre = 6" "mount_row m = pre @ m_optional m @
      [''-'', m_fstype m, octal_escape source_escapes (m_source m), join '','' (m_super m)]"
    using that [of "take 6 (mount_row m)"] by (simp add: mount_row_def)
  have opts: "list_all (\<lambda>w. w \<noteq> [] \<and> hd w \<noteq> CHR ''-'') (m_optional m)" using ne np by (auto simp: mount_row_def list_all_iff)
  have o: "optional_fields pf l 6 0 = (6 + length (m_optional m), of_nat (length (m_optional m)))"
    using optional_fields_row [OF row(2) [unfolded pre(2)] opts] unfolding pre(1) by simp
  have wd: "procfile_lineword pf l 0 = decimal (m_id m)" "procfile_lineword pf l 1 = decimal (m_parent m)"
    "procfile_lineword pf l 2 = decimal (m_major m) @ CHR '':'' # decimal (m_minor m)"
    "procfile_lineword pf l 3 = octal_escape path_escapes (m_root m)"
    "procfile_lineword pf l 4 = octal_escape path_escapes (m_point m)"
    "procfile_lineword pf l 5 = join '','' (m_options m)"
    "procfile_lineword pf l (6 + length (m_optional m)) = ''-''"
    "procfile_lineword pf l (7 + length (m_optional m)) = m_fstype m"
    "procfile_lineword pf l (8 + length (m_optional m)) = octal_escape source_escapes (m_source m)"
    "procfile_lineword pf l (9 + length (m_optional m)) = join '','' (m_super m)"
    unfolding row(2) by (simp_all add: mount_row_def row_word_def nth_append numeral_eq_Suc)
  have "m_options m \<noteq> []" "m_super m \<noteq> []" using ne by (auto simp: mount_row_def)
  then have ro: "is_readonly (Some (join '','' (m_options m))) \<longleftrightarrow> ''ro'' \<in> set (m_options m)"
    "is_readonly (Some (join '','' (m_super m))) \<longleftrightarrow> ''ro'' \<in> set (m_super m)"
    using m by (simp_all add: is_readonly_join mount_ok_def)
  have "NUL \<notin> set (m_source m)"
  proof -
    have "seps_of mount_seps NUL \<noteq> PF_CHAR_IS_WORD" by (simp add: seps_of_def mount_seps_def procfile_init_defseps_def is_space_def is_print_def)
    then have "NUL \<notin> set (octal_escape source_escapes (m_source m))" using m by (auto simp: mount_ok_def mount_row_def list_all_iff)
    from octal_escape_NUL [OF this] show ?thesis by (auto simp: source_escapes_def path_escapes_def)
  qed
  then have so: "strdup_decoding_octal (octal_escape source_escapes (m_source m)) = m_source m"
    by (intro strdup_decoding_escape) (simp_all add: source_escapes_def path_escapes_def)
  have id: "word_of_int (strtol (decimal n)) = of_nat n" if "n < 2 ^ 31" for n
    using strtol_decimal [of n] that by simp
  obtain source name where b: "basename (m_source m) = (source, name)" by force
  have n: "\<not> procfile_linewords pf l < 5" using row(1) by (simp add: mount_row_def)
  have tw: "takeWhile (\<lambda>c. c \<noteq> CHR '':'') (decimal x) = decimal x" "dropWhile (\<lambda>c. c \<noteq> CHR '':'') (decimal x) = []" for x
    using decimal_no_colon [of x] by (auto simp: takeWhile_eq_all_conv)
  show ?thesis
    using m n
    by (simp add: read_mount_def Let_def o wd wd(2) [unfolded One_nat_def] tw id read_source_def so b ro mount_entry_def mount_flags_def
        mount_ok_def takeWhile_tail dropWhile_append3 ME_DUMMY_def MOUNTINFO_FLAG_READONLY_def
        MOUNTINFO_FLAG_IS_DUMMY_def MOUNTINFO_FLAG_IS_REMOTE_def)
qed

section \<open>The whole table\<close>

lemma mount_row_fields: "mount_ok m \<Longrightarrow> fields_ok (seps_of mount_seps) (map (Pair False) (mount_row m))"
proof -
  assume m: "mount_ok m"
  have "seps_of mount_seps NUL \<noteq> PF_CHAR_IS_WORD"
    by (simp add: seps_of_def mount_seps_def procfile_init_defseps_def is_space_def is_print_def)
  with m have "list_all (field_ok (seps_of mount_seps)) (map (Pair False) (mount_row m))"
    by (auto simp: mount_ok_def list_all_iff field_ok_def)
  then show ?thesis by (simp add: fields_ok_def last_map) (simp add: mount_row_def)
qed

lemma mount_text_cut:
  assumes "list_all mount_ok ms"
  shows "cut_text (seps_of mount_seps) (mount_text ms) = map mount_row ms @ [[]]" and "NUL \<notin> set (mount_text ms)"
proof -
  have f: "list_all (fields_ok (seps_of mount_seps)) (map (\<lambda>m. map (Pair False) (mount_row m)) ms)"
    using assms mount_row_fields by (auto simp: list_all_iff)
  from cut_table [OF this] show "cut_text (seps_of mount_seps) (mount_text ms) = map mount_row ms @ [[]]"
    by (simp add: mount_text_def comp_def seps_of_def mount_seps_def procfile_init_defseps_def)
  from table_text_no_NUL [OF f] show "NUL \<notin> set (mount_text ms)" by (simp add: mount_text_def)
qed

lemma map_filter_Some: "(\<And>x. x \<in> set xs \<Longrightarrow> f x = Some (g x)) \<Longrightarrow> List.map_filter f xs = map g xs"
  by (induction xs) (simp_all add: List.map_filter_simps)

lemma mountinfo_read_entries:
  assumes "list_all mount_ok ms" and "io_file io (mount_text ms)"
  shows "mountinfo_read io = Some (map mount_entry ms)"
proof -
  have "\<forall>x \<in> set mount_seps. code_of x < 128" by (simp add: mount_seps_def)
  from open_and_read_ok [OF assms(2) slot_ok_None this, of "''/proc/self/mountinfo''" PROCFILE_FLAG_DEFAULT]
  obtain pf where pf: "open_and_read io ''/proc/self/mountinfo'' (Some mount_seps) PROCFILE_FLAG_DEFAULT None = Some (Some pf)"
    "tables_ok pf" "procfile_contents pf = cut_text (seps_of mount_seps) (mount_text ms)" by blast
  have c: "procfile_contents pf = map mount_row ms @ [[]]" using pf(3) mount_text_cut(1) [OF assms(1)] by simp
  then have n: "procfile_lines pf = Suc (length ms)" using procfile_lineword_contents(1) [OF pf(2)] by simp
  have "read_mount pf l = Some (mount_entry (ms ! l))" if "l < length ms" for l
  proof (rule read_mount_row)
    show "procfile_linewords pf l = length (mount_row (ms ! l))" "procfile_lineword pf l = row_word (mount_row (ms ! l))"
      using procfile_row [OF pf(2), of l] that n c by (simp_all add: nth_append)
    show "mount_ok (ms ! l)" using assms(1) that by (simp add: list_all_length)
  qed
  then have "List.map_filter (read_mount pf) [0..<length ms] = map (\<lambda>l. mount_entry (ms ! l)) [0..<length ms]"
    by (intro map_filter_Some) simp
  moreover have "read_mount pf (length ms) = None"
    using procfile_row(1) [OF pf(2), of "length ms"] n c by (simp add: read_mount_def nth_append)
  ultimately have "List.map_filter (read_mount pf) [0..<procfile_lines pf] = map mount_entry ms"
    using arg_cong [OF map_nth [of ms], of "map mount_entry"] by (simp add: n List.map_filter_def comp_def)
  with pf(1) show ?thesis by (simp add: mountinfo_read_def)
qed

text \<open>C12: reading the table of mounts inverts its printing. For every list of mounted file systems whose
  fields print as words, whatever their number of optional fields and however the kernel cuts the
  reads, \<^verbatim>\<open>mountinfo_read\<close> gives one entry per file system, in order, with its numbers and names; the source
  is decoded from its octal escapes (and loses slashes at its end), the read-only flag is set exactly when
  \<^verbatim>\<open>ro\<close> is one of the options of the mount or of the super block, the dummy flag for the listed types, the
  remote flag for the sources of network file systems. Root and mount point keep their escapes.\<close>

theorem mountinfo_read_table:
  assumes "list_all mount_ok ms" and "io_file io (mount_text ms)"
  shows "mountinfo_read io = Some (map mount_entry ms)"
  using assms by (rule mountinfo_read_entries)

definition mount_example :: mount where
  "mount_example = \<lparr>m_id = 36, m_parent = 35, m_major = 98, m_minor = 0, m_root = ''/'', m_point = ''/mnt'',
     m_options = [''rw'', ''noatime''], m_optional = [''master:1''], m_fstype = ''nfs'', m_source = ''host:/a b'',
     m_super = [''ro'', ''errors=continue'']\<rparr>"

lemma mount_example_ok: "mount_ok mount_example"
proof -
  have "m_id mount_example < 2 ^ 31" "m_parent mount_example < 2 ^ 31" "m_major mount_example < 2 ^ 32" "m_minor mount_example < 2 ^ 32"
    by (simp_all add: mount_example_def)
  moreover have "list_all (\<lambda>w. w \<noteq> [] \<and> list_all (\<lambda>c. seps_of mount_seps c = PF_CHAR_IS_WORD) w) (mount_row mount_example)"
    "list_all (\<lambda>w. hd w \<noteq> CHR ''-'') (m_optional mount_example)"
    "list_all (\<lambda>o'. CHR '','' \<notin> set o') (m_options mount_example @ m_super mount_example)" by code_simp+
  ultimately show ?thesis by (simp add: mount_ok_def)
qed

theorem mountinfo_read_table_witness:
  "mountinfo_read (file_of (mount_text [mount_example])) = Some [mount_entry mount_example] \<and>
   mi_flags (mount_entry mount_example) = 0x42"
proof
  have "list_all mount_ok [mount_example]" by (simp add: mount_example_ok)
  moreover from mount_text_cut(2) [OF this] have "io_file (file_of (mount_text [mount_example])) (mount_text [mount_example])"
    by simp
  ultimately show "mountinfo_read (file_of (mount_text [mount_example])) = Some [mount_entry mount_example]"
    using mountinfo_read_table [of "[mount_example]"] by simp
  show "mi_flags (mount_entry mount_example) = 0x42" by code_simp
qed

section \<open>Limits of the reader\<close>

text \<open>No line ever gives the flag for a bind mount, so nothing can be left out because of it.\<close>

lemma read_mount_no_bind: "read_mount pf l = Some mi \<Longrightarrow> mi_flags mi AND MOUNTINFO_FLAG_IS_BIND = 0"
  by (auto simp: read_mount_def read_source_def Let_def MOUNTINFO_FLAG_READONLY_def MOUNTINFO_FLAG_IS_DUMMY_def
      MOUNTINFO_FLAG_IS_REMOTE_def MOUNTINFO_FLAG_IS_BIND_def split: if_splits prod.splits)

text \<open>A source that ends with a slash is shortened after its hash was taken.\<close>

lemma mount_source_shortened:
  assumes "m_source m = s @ ''/''" and "s \<noteq> []" and "last s \<noteq> CHR ''/''"
  shows "mi_mount_source (mount_entry m) = Some s" and "mi_mount_source_hash (mount_entry m) = name_hash (s @ ''/'')"
proof -
  have "dropWhile (\<lambda>c. c = CHR ''/'') (rev s) = rev s" using assms(2,3) by (cases s rule: rev_cases) auto
  then have "basename (m_source m) = (s, after_slash s)" using assms by (simp add: basename_def Let_def)
  then show "mi_mount_source (mount_entry m) = Some s" "mi_mount_source_hash (mount_entry m) = name_hash (s @ ''/'')"
    using assms(1) by (simp_all add: mount_entry_def Let_def)
qed

text \<open>A mount point with a blank is kept with its escape: it is not the path of the mount.\<close>

lemma mount_point_not_decoded:
  assumes "c \<in> set (m_point m)" and "c \<in> set path_escapes"
  shows "mi_mount_point (mount_entry m) \<noteq> m_point m"
proof -
  have le: "length x \<le> length (octal_escape path_escapes x)" for x by (induction x) (auto simp: octal_escape_def)
  have ap: "octal_escape path_escapes (x @ y) = octal_escape path_escapes x @ octal_escape path_escapes y" for x y
    by (simp add: octal_escape_def)
  obtain x y where xy: "m_point m = x @ [c] @ y" using assms(1) by (auto dest: split_list)
  have "length (octal_escape path_escapes [c]) = 4" using assms(2) by (simp add: octal_escape_def)
  then have "length (m_point m) < length (octal_escape path_escapes (m_point m))"
    unfolding xy ap using le [of x] le [of y] by simp
  then show ?thesis by (auto simp: mount_entry_def Let_def split: prod.splits)
qed

end
