(* ===== verification/XM_Diskspace.thy ===== *)
theory XM_Diskspace
  imports XM_Mountinfo XM_Pattern XM_Clocks
begin

text \<open>
  \<^verbatim>\<open>collectors/diskspace/plugin_diskspace.c\<close>: the thread that reports the space of the mounted file systems.
  The clocks, the files, \<^verbatim>\<open>statvfs\<close> and the exit flag, which another thread sets, are inputs of a turn of its
  loop. The number that a gauge is set to is given before its conversion to \<^verbatim>\<open>double\<close>.
\<close>

section \<open>State and settings\<close>

record collector_diskspace =
  ds_update_every :: i32
  ds_check_every :: i32
  ds_excluded_mountpoints :: "simple_pattern list"
  ds_excluded_filesystems :: "simple_pattern list"
  ds_root :: "mountinfo list"
  ds_last_load :: i64

definition DEFAULT_EXCLUDED_PATHS :: string where
  "DEFAULT_EXCLUDED_PATHS = ''/proc/* /sys/* /var/run/user/* /snap/* /var/lib/docker/* /dev/*''"

definition DEFAULT_EXCLUDED_FILESYSTEMS :: string where
  "DEFAULT_EXCLUDED_FILESYSTEMS =
     ''*gvfs *gluster* *s3fs *ipfs *davfs2 *httpfs *sshfs *gdfs *moosefs '' @ ''fusectl autofs *gvfsd*''"

text \<open>The values of the configuration; \<open>None\<close> when an entry is missing.\<close>

record space_config =
  cf_update_every :: "i32 option"
  cf_check_every :: "i32 option"
  cf_exclude_mountpoints :: "string option"
  cf_exclude_filesystems :: "string option"

definition config_or :: "'a \<Rightarrow> 'a option \<Rightarrow> 'a" where
  "config_or d v = (case v of None \<Rightarrow> d | Some x \<Rightarrow> x)"

definition diskspace_routine_init :: "space_config \<Rightarrow> collector_diskspace" where
  "diskspace_routine_init conf =
     \<lparr>ds_update_every = config_or 1 (cf_update_every conf), ds_check_every = config_or 15 (cf_check_every conf),
      ds_excluded_mountpoints =
        simple_pattern_create (Some (config_or DEFAULT_EXCLUDED_PATHS (cf_exclude_mountpoints conf))) None SIMPLE_PATTERN_PREFIX,
      ds_excluded_filesystems =
        simple_pattern_create (Some (config_or DEFAULT_EXCLUDED_FILESYSTEMS (cf_exclude_filesystems conf))) None SIMPLE_PATTERN_EXACT,
      ds_root = [], ds_last_load = 0\<rparr>"

text \<open>The gauges with their names; all have the labels \<^verbatim>\<open>device\<close>, \<^verbatim>\<open>fstype\<close> and \<^verbatim>\<open>mountpoint\<close>.\<close>

definition space_gauges :: "(string \<times> string) list" where
  "space_gauges =
     [(''__metric_node_filesystem_avail_bytes'', ''node_filesystem_avail_bytes''),
      (''__metric_node_filesystem_free_bytes'', ''node_filesystem_free_bytes''),
      (''__metric_node_filesystem_size_bytes'', ''node_filesystem_size_bytes''),
      (''__metric_node_filesystem_files'', ''node_filesystem_files''),
      (''__metric_node_filesystem_files_free'', ''node_filesystem_files_free''),
      (''__metric_node_filesystem_readonly'', ''node_filesystem_readonly''),
      (''__metric_node_filesystem_device_error'', ''node_filesystem_device_error'')]"

section \<open>A turn of the loop\<close>

text \<open>\<open>now - last_load >= check_for_new_mountinfos_every\<close> on 64 bits. Releasing the old list has no
  effect that shows.\<close>

definition reload_mountinfo :: "bool \<Rightarrow> i64 \<Rightarrow> file_io \<Rightarrow> collector_diskspace \<Rightarrow> collector_diskspace option" where
  "reload_mountinfo force now io s =
     (if force \<or> scast (ds_check_every s) <=s now - ds_last_load s
      then map_option (\<lambda>ms. s\<lparr>ds_root := ms, ds_last_load := now\<rparr>) (mountinfo_read io)
      else Some s)"

record vfs_stat =
  f_bsize :: u64
  f_frsize :: u64
  f_blocks :: u64
  f_bfree :: u64
  f_bavail :: u64
  f_files :: u64
  f_ffree :: u64

type_synonym space_value = "string \<times> u64 \<times> string option list"

text \<open>\<open>vfs\<close> is \<^verbatim>\<open>statvfs\<close>, \<open>None\<close> when it fails. The figures that only go into the log are left out.\<close>

definition collector_diskspace_stats ::
  "(string \<Rightarrow> vfs_stat option) \<Rightarrow> collector_diskspace \<Rightarrow> mountinfo \<Rightarrow> space_value list" where
  "collector_diskspace_stats vfs s mi =
     (if simple_pattern_matches (ds_excluded_mountpoints s) (Some (mi_mount_point mi)) then []
      else if simple_pattern_matches (ds_excluded_filesystems s) (mi_filesystem mi) then []
      else
        let (size_bytes, avail_bytes, free_bytes, files, files_free, readonly, device_error) =
              (case vfs (mi_mount_point mi) of
                 None \<Rightarrow> (0, 0, 0, 0, 0, 0, 1)
               | Some v \<Rightarrow>
                   let block_size = (if f_frsize v \<noteq> 0 then f_frsize v else f_bsize v)
                   in (f_blocks v * block_size, f_bavail v * block_size, f_bfree v * block_size, f_files v, f_ffree v,
                       if mi_flags mi AND MOUNTINFO_FLAG_READONLY \<noteq> 0 then 1 else 0, 0));
            labels = [mi_mount_source mi, mi_filesystem mi, Some (mi_mount_point mi)]
        in [(''__metric_node_filesystem_size_bytes'', size_bytes, labels),
            (''__metric_node_filesystem_avail_bytes'', avail_bytes, labels),
            (''__metric_node_filesystem_free_bytes'', free_bytes, labels),
            (''__metric_node_filesystem_files'', files, labels),
            (''__metric_node_filesystem_files_free'', files_free, labels),
            (''__metric_node_filesystem_readonly'', readonly, labels),
            (''__metric_node_filesystem_device_error'', device_error, labels)])"

text \<open>The walk through the list: \<open>stop k\<close> is the exit flag as it is read behind the file system number \<open>k\<close>.\<close>

fun collect_mounts ::
  "(string \<Rightarrow> vfs_stat option) \<Rightarrow> collector_diskspace \<Rightarrow> (nat \<Rightarrow> bool) \<Rightarrow> nat \<Rightarrow> mountinfo list \<Rightarrow> space_value list" where
  "collect_mounts vfs s stop k [] = []"
| "collect_mounts vfs s stop k (mi # ms) =
     (if mi_flags mi AND (MOUNTINFO_FLAG_IS_DUMMY OR MOUNTINFO_FLAG_IS_BIND) \<noteq> 0 then collect_mounts vfs s stop k ms
      else let vs = collector_diskspace_stats vfs s mi
           in if stop k then vs else vs @ collect_mounts vfs s stop (k + 1) ms)"

text \<open>What a turn meets: the exit flag at the head of the loop and behind the heartbeat, and in the walk.\<close>

record space_turn =
  st_exit :: bool
  st_exit_beat :: bool
  st_now :: i64
  st_io :: file_io
  st_vfs :: "string \<Rightarrow> vfs_stat option"
  st_stop :: "nat \<Rightarrow> bool"

text \<open>The loop over turns: the number of the next reading of the clocks, the heartbeat and the collector.
  \<open>None\<close>: a wait that does not end, or undefined behaviour. The values of the turns that came to the walk.\<close>

fun diskspace_routine_start ::
  "(nat \<Rightarrow> timespec \<times> timespec) \<Rightarrow> space_turn list \<Rightarrow> nat \<Rightarrow> heartbeat \<Rightarrow> collector_diskspace \<Rightarrow>
   (collector_diskspace \<times> space_value list list) option" where
  "diskspace_routine_start clk [] i hb s = Some (s, [])"
| "diskspace_routine_start clk (t # ts) i hb s =
     (if st_exit t then Some (s, [])
      else case heartbeat_next clk (step_usecs (ds_update_every s)) i hb of
             None \<Rightarrow> None
           | Some (hb', j, dt) \<Rightarrow>
               if st_exit_beat t then Some (s, [])
               else case reload_mountinfo False (st_now t) (st_io t) s of
                      None \<Rightarrow> None
                    | Some s1 \<Rightarrow>
                        (case diskspace_routine_start clk ts (j + 1) hb' s1 of
                           None \<Rightarrow> None
                         | Some (s2, outs) \<Rightarrow> Some (s2, collect_mounts (st_vfs t) s1 (st_stop t) 0 (ds_root s1) # outs)))"

text \<open>After the thread has ended; the patterns are released and no longer used.\<close>

definition diskspace_routine_stop :: "collector_diskspace \<Rightarrow> collector_diskspace" where
  "diskspace_routine_stop s = s\<lparr>ds_root := []\<rparr>"

section \<open>The default filters\<close>

definition default_path_entries :: "(bool \<times> string) list" where
  "default_path_entries =
     map (Pair False) [''/proc/*'', ''/sys/*'', ''/var/run/user/*'', ''/snap/*'', ''/var/lib/docker/*'', ''/dev/*'']"

definition default_type_entries :: "(bool \<times> string) list" where
  "default_type_entries =
     map (Pair False) [''*gvfs'', ''*gluster*'', ''*s3fs'', ''*ipfs'', ''*davfs2'', ''*httpfs'', ''*sshfs'', ''*gdfs'',
       ''*moosefs'', ''fusectl'', ''autofs'', ''*gvfsd*'']"

lemma default_patterns:
  "simple_pattern_create (Some DEFAULT_EXCLUDED_PATHS) None SIMPLE_PATTERN_PREFIX = map entry_node default_path_entries"
  "simple_pattern_create (Some DEFAULT_EXCLUDED_FILESYSTEMS) None SIMPLE_PATTERN_EXACT = map entry_node default_type_entries"
  by code_simp+

lemma default_entries_ok: "list_all entry_ok default_path_entries" "list_all entry_ok default_type_entries"
  by code_simp+

lemma entries_match:
  assumes "list_all entry_ok es" and "list_all (\<lambda>e. \<not> fst e) es" and "es \<noteq> []" and "s \<noteq> []"
  shows "simple_pattern_matches (map entry_node es) (Some s) \<longleftrightarrow> (\<exists>e \<in> set es. glob (snd e) s)"
proof -
  have "simple_pattern_matches (map entry_node es) (Some s) =
      (case find (\<lambda>e. glob (snd e) s) es of None \<Rightarrow> False | Some e \<Rightarrow> \<not> fst e)"
    using assms(3,4) matches_loop_find [OF assms(1), of s]
    by (simp add: simple_pattern_matches_def simple_pattern_matches_extract_def)
  also have "\<dots> \<longleftrightarrow> (\<exists>e \<in> set es. glob (snd e) s)"
    using assms(2) by (induction es) auto
  finally show ?thesis .
qed

lemma glob_shapes:
  assumes "star \<notin> set q"
  shows "glob q s \<longleftrightarrow> s = q" and "glob (q @ [star]) s \<longleftrightarrow> prefix q s" and "glob (star # q) s \<longleftrightarrow> suffix q s"
    and "glob (star # q @ [star]) s \<longleftrightarrow> sublist q s"
proof -
  show l: "glob q s \<longleftrightarrow> s = q" for s using glob_literal [OF assms, of "[]" s] by auto
  show p: "glob (q @ [star]) s \<longleftrightarrow> prefix q s" for s using glob_literal [OF assms, of "[star]" s] by (auto simp: glob_all prefix_def)
  show "glob (star # q) s \<longleftrightarrow> suffix q s" by (auto simp: glob_star l suffix_def)
  show "glob (star # q @ [star]) s \<longleftrightarrow> sublist q s" by (auto simp: glob_star p sublist_def prefix_def)
qed

definition excluded_paths :: "string list" where
  "excluded_paths = [''/proc/'', ''/sys/'', ''/var/run/user/'', ''/snap/'', ''/var/lib/docker/'', ''/dev/'']"

definition path_excluded :: "string \<Rightarrow> bool" where
  "path_excluded p \<longleftrightarrow> list_ex (\<lambda>q. prefix q p) excluded_paths"

definition type_excluded :: "string \<Rightarrow> bool" where
  "type_excluded t \<longleftrightarrow> t \<in> set [''fusectl'', ''autofs''] \<or> list_ex (\<lambda>q. sublist q t) [''gluster'', ''gvfsd''] \<or>
     list_ex (\<lambda>q. suffix q t) [''gvfs'', ''s3fs'', ''ipfs'', ''davfs2'', ''httpfs'', ''sshfs'', ''gdfs'', ''moosefs'']"

lemma default_path_globs: "map snd default_path_entries = map (\<lambda>q. q @ [star]) excluded_paths"
  by (simp add: default_path_entries_def excluded_paths_def)

lemma default_excluded:
  assumes "s \<noteq> []"
  shows "simple_pattern_matches (map entry_node default_path_entries) (Some s) \<longleftrightarrow> path_excluded s"
    and "simple_pattern_matches (map entry_node default_type_entries) (Some s) \<longleftrightarrow> type_excluded s"
proof -
  have ex: "(\<exists>e \<in> set es. glob (snd e) s) \<longleftrightarrow> list_ex (\<lambda>g. glob g s) (map snd es)" for es :: "(bool \<times> string) list"
    by (simp add: list_ex_iff)
  have "(\<exists>e \<in> set default_path_entries. glob (snd e) s) \<longleftrightarrow> path_excluded s"
  proof -
    have "\<forall>q \<in> set excluded_paths. star \<notin> set q" by (simp add: excluded_paths_def)
    then show ?thesis unfolding ex default_path_globs path_excluded_def by (simp add: list_ex_iff glob_shapes(2))
  qed
  then show "simple_pattern_matches (map entry_node default_path_entries) (Some s) \<longleftrightarrow> path_excluded s"
    using entries_match [OF default_entries_ok(1) _ _ assms] by (simp add: default_path_entries_def)
  have "(\<exists>e \<in> set default_type_entries. glob (snd e) s) \<longleftrightarrow> type_excluded s"
  proof -
    have "glob ''fusectl'' s \<longleftrightarrow> s = ''fusectl''" "glob ''autofs'' s \<longleftrightarrow> s = ''autofs''"
      by (rule glob_shapes(1), simp)+
    moreover have "glob ''*gluster*'' s \<longleftrightarrow> sublist ''gluster'' s" "glob ''*gvfsd*'' s \<longleftrightarrow> sublist ''gvfsd'' s"
      using glob_shapes(4) [of "''gluster''" s] glob_shapes(4) [of "''gvfsd''" s] by simp_all
    moreover have "glob ''*gvfs'' s \<longleftrightarrow> suffix ''gvfs'' s" "glob ''*s3fs'' s \<longleftrightarrow> suffix ''s3fs'' s"
      "glob ''*ipfs'' s \<longleftrightarrow> suffix ''ipfs'' s" "glob ''*davfs2'' s \<longleftrightarrow> suffix ''davfs2'' s"
      "glob ''*httpfs'' s \<longleftrightarrow> suffix ''httpfs'' s" "glob ''*sshfs'' s \<longleftrightarrow> suffix ''sshfs'' s"
      "glob ''*gdfs'' s \<longleftrightarrow> suffix ''gdfs'' s" "glob ''*moosefs'' s \<longleftrightarrow> suffix ''moosefs'' s"
      by (rule glob_shapes(3), simp)+
    ultimately show ?thesis
      unfolding default_type_entries_def type_excluded_def list_ex_iff list.map list.set bex_simps snd_conv insert_iff empty_iff
      by (simp only: simp_thms disj_ac)
  qed
  then show "simple_pattern_matches (map entry_node default_type_entries) (Some s) \<longleftrightarrow> type_excluded s"
    using entries_match [OF default_entries_ok(2) _ _ assms] by (simp add: default_type_entries_def)
qed

section \<open>What is reported\<close>

text \<open>The report of one mounted file system, with the names under which the numbers are published.\<close>

definition space_report :: "(string \<Rightarrow> vfs_stat option) \<Rightarrow> mount \<Rightarrow> (string \<times> u64 \<times> string option list) list" where
  "space_report vfs m =
     (let point = octal_escape path_escapes (m_point m);
          put = (\<lambda>(n, v). (n, v, [Some (fst (basename (m_source m))), Some (m_fstype m), Some point]))
      in map put (case vfs point of
           None \<Rightarrow> [(''node_filesystem_size_bytes'', 0), (''node_filesystem_avail_bytes'', 0),
             (''node_filesystem_free_bytes'', 0), (''node_filesystem_files'', 0), (''node_filesystem_files_free'', 0),
             (''node_filesystem_readonly'', 0), (''node_filesystem_device_error'', 1)]
         | Some v \<Rightarrow>
             let b = (if f_frsize v = 0 then f_bsize v else f_frsize v)
             in [(''node_filesystem_size_bytes'', f_blocks v * b), (''node_filesystem_avail_bytes'', f_bavail v * b),
               (''node_filesystem_free_bytes'', f_bfree v * b), (''node_filesystem_files'', f_files v),
               (''node_filesystem_files_free'', f_ffree v),
               (''node_filesystem_readonly'', if ''ro'' \<in> set (m_options m @ m_super m) then 1 else 0),
               (''node_filesystem_device_error'', 0)]))"

definition reported :: "mount \<Rightarrow> bool" where
  "reported m \<longleftrightarrow> m_fstype m \<notin> set (''none'' # dummy_types) \<and> \<not> path_excluded (octal_escape path_escapes (m_point m)) \<and>
     \<not> type_excluded (m_fstype m)"

text \<open>The abstract collector: the table as it was at the last load, which is repeated when it is due.\<close>

fun space_spec ::
  "i32 \<Rightarrow> (i64 \<times> mount list \<times> (string \<Rightarrow> vfs_stat option)) list \<Rightarrow> mount list \<Rightarrow> i64 \<Rightarrow>
   (string \<times> u64 \<times> string option list) list list" where
  "space_spec every [] tab old = []"
| "space_spec every ((now, ms, vfs) # ts) tab old =
     (let (tab', old') = (if scast every <=s now - old then (ms, now) else (tab, old))
      in concat (map (space_report vfs) (filter reported tab')) # space_spec every ts tab' old')"

definition space_published :: "space_value list \<Rightarrow> (string option \<times> u64 \<times> string option list) list" where
  "space_published vs = map (\<lambda>(g, v, ls). (map_of space_gauges g, v, ls)) vs"

definition named :: "(string \<times> u64 \<times> string option list) list \<Rightarrow> (string option \<times> u64 \<times> string option list) list" where
  "named rs = map (\<lambda>(n, v, ls). (Some n, v, ls)) rs"

lemma published_append [simp]: "space_published (a @ b) = space_published a @ space_published b" "space_published [] = []"
  by (simp_all add: space_published_def)

lemma named_append [simp]: "named (a @ b) = named a @ named b" "named [] = []"
  by (simp_all add: named_def)

lemma mount_flag_bits:
  "mount_flags m AND (MOUNTINFO_FLAG_IS_DUMMY OR MOUNTINFO_FLAG_IS_BIND) \<noteq> 0 \<longleftrightarrow> m_fstype m \<in> set (''none'' # dummy_types)"
  "mount_flags m AND MOUNTINFO_FLAG_READONLY \<noteq> 0 \<longleftrightarrow> ''ro'' \<in> set (m_options m @ m_super m)"
proof -
  have "((if a then 0x40 else 0 :: u32) OR (if b then 0x01 else 0) OR (if c then 0x02 else 0)) AND (0x01 OR 0x04) \<noteq> 0 \<longleftrightarrow> b"
    "((if a then 0x40 else 0 :: u32) OR (if b then 0x01 else 0) OR (if c then 0x02 else 0)) AND 0x40 \<noteq> 0 \<longleftrightarrow> a" for a b c
    by (cases a; cases b; cases c; simp)+
  then show "mount_flags m AND (MOUNTINFO_FLAG_IS_DUMMY OR MOUNTINFO_FLAG_IS_BIND) \<noteq> 0 \<longleftrightarrow> m_fstype m \<in> set (''none'' # dummy_types)"
    "mount_flags m AND MOUNTINFO_FLAG_READONLY \<noteq> 0 \<longleftrightarrow> ''ro'' \<in> set (m_options m @ m_super m)"
    unfolding mount_flags_def MOUNTINFO_FLAG_IS_DUMMY_def MOUNTINFO_FLAG_IS_BIND_def MOUNTINFO_FLAG_READONLY_def by blast+
qed

definition default_filters :: "collector_diskspace \<Rightarrow> bool" where
  "default_filters s \<longleftrightarrow> ds_excluded_mountpoints s = map entry_node default_path_entries \<and>
     ds_excluded_filesystems s = map entry_node default_type_entries"

lemma stats_report:
  assumes "default_filters s" and "mount_ok m" and "m_fstype m \<notin> set (''none'' # dummy_types)"
  shows "space_published (collector_diskspace_stats vfs s (mount_entry m)) =
    (if reported m then named (space_report vfs m) else [])"
proof -
  obtain source name where b: "basename (m_source m) = (source, name)" by force
  have ne: "octal_escape path_escapes (m_point m) \<noteq> []" "m_fstype m \<noteq> []"
    using assms(2) by (auto simp: mount_ok_def mount_row_def)
  have e: "mi_mount_point (mount_entry m) = octal_escape path_escapes (m_point m)" "mi_filesystem (mount_entry m) = Some (m_fstype m)"
    "mi_mount_source (mount_entry m) = Some source" "mi_flags (mount_entry m) = mount_flags m"
    by (simp_all add: mount_entry_def b Let_def)
  note x = default_excluded [OF ne(1)] default_excluded [OF ne(2)]
  show ?thesis
  proof (cases "reported m")
    case True
    then have "\<not> path_excluded (octal_escape path_escapes (m_point m))" "\<not> type_excluded (m_fstype m)" by (simp_all add: reported_def)
    then show ?thesis
      using True assms(1) x
      by (cases "vfs (octal_escape path_escapes (m_point m))")
        (simp_all add: collector_diskspace_stats_def default_filters_def e mount_flag_bits Let_def space_published_def named_def
          space_report_def b space_gauges_def)
  next
    case False
    then have "path_excluded (octal_escape path_escapes (m_point m)) \<or> type_excluded (m_fstype m)" using assms(3) by (auto simp: reported_def)
    then show ?thesis using False assms(1) x by (auto simp: collector_diskspace_stats_def default_filters_def e)
  qed
qed

lemma collect_report:
  assumes "default_filters s" and "list_all mount_ok ms" and "\<And>k. \<not> stop k"
  shows "space_published (collect_mounts vfs s stop k (map mount_entry ms)) = named (concat (map (space_report vfs) (filter reported ms)))"
  using assms(2)
proof (induction ms arbitrary: k)
  case (Cons m ms)
  have f: "mi_flags (mount_entry m) = mount_flags m" by (simp add: mount_entry_def Let_def split: prod.split)
  show ?case
  proof (cases "m_fstype m \<in> set (''none'' # dummy_types)")
    case True
    then have "\<not> reported m" by (simp add: reported_def)
    with True Cons mount_flag_bits(1) [of m] show ?thesis
      by (simp only: list.map collect_mounts.simps f filter.simps if_True if_False list.pred_inject)
  next
    case False
    from Cons.prems have "mount_ok m" by simp
    from stats_report [OF assms(1) this False, of vfs] False Cons mount_flag_bits(1) [of m] assms(3) show ?thesis
      by (simp only: list.map collect_mounts.simps f filter.simps if_False list.pred_inject Let_def not_not) simp
  qed
qed simp

text \<open>A turn in which the exit flag is not set, the clock shows \<open>now\<close> and the kernel prints the table \<open>ms\<close>.\<close>

definition turn_meets :: "space_turn \<Rightarrow> i64 \<times> mount list \<times> (string \<Rightarrow> vfs_stat option) \<Rightarrow> bool" where
  "turn_meets t r \<longleftrightarrow> (case r of (now, ms, vfs) \<Rightarrow> \<not> st_exit t \<and> \<not> st_exit_beat t \<and> (\<forall>k. \<not> st_stop t k) \<and> st_now t = now \<and>
     st_vfs t = vfs \<and> list_all mount_ok ms \<and> io_file (st_io t) (mount_text ms))"

lemma diskspace_turns:
  assumes "list_all2 turn_meets ts rs" and "default_filters s" and "ds_root s = map mount_entry tab" and "list_all mount_ok tab"
    and "beats clk (step_usecs (ds_update_every s)) (length ts) i hb"
  shows "\<exists>s' outs. diskspace_routine_start clk ts i hb s = Some (s', outs) \<and>
    map space_published outs = map named (space_spec (ds_check_every s) rs tab (ds_last_load s))"
  using assms
proof (induction ts rs arbitrary: s tab i hb rule: list_all2_induct)
  case (Cons t ts r rs)
  obtain now ms vfs where r: "r = (now, ms, vfs)" by (cases r)
  have t: "\<not> st_exit t" "\<not> st_exit_beat t" "\<And>k. \<not> st_stop t k" "st_now t = now" "st_vfs t = vfs"
    "list_all mount_ok ms" "io_file (st_io t) (mount_text ms)" using Cons.hyps(1) by (auto simp: turn_meets_def r)
  from Cons.prems(4) obtain hb' j dt where hb: "heartbeat_next clk (step_usecs (ds_update_every s)) i hb = Some (hb', j, dt)"
    "beats clk (step_usecs (ds_update_every s)) (length ts) (j + 1) hb'" by (auto split: option.splits)
  define due where "due \<longleftrightarrow> scast (ds_check_every s) <=s now - ds_last_load s"
  define tab' s1 where "tab' = (if due then ms else tab)"
    and "s1 = (if due then s\<lparr>ds_root := map mount_entry ms, ds_last_load := now\<rparr> else s)"
  have rl: "reload_mountinfo False (st_now t) (st_io t) s = Some s1"
    using mountinfo_read_entries [OF t(6,7)] t(4) by (simp add: reload_mountinfo_def s1_def due_def)
  have s1: "default_filters s1" "ds_root s1 = map mount_entry tab'" "list_all mount_ok tab'"
    "ds_update_every s1 = ds_update_every s" "ds_check_every s1 = ds_check_every s" "ds_last_load s1 = (if due then now else ds_last_load s)"
    using Cons.prems t(6) by (simp_all add: s1_def tab'_def default_filters_def)
  from Cons.IH [OF s1(1-3), of "j + 1" hb'] hb(2) s1(4) obtain s' outs where
    o: "diskspace_routine_start clk ts (j + 1) hb' s1 = Some (s', outs)"
    "map space_published outs = map named (space_spec (ds_check_every s) rs tab' (ds_last_load s1))" by (auto simp: s1(5))
  have "space_spec (ds_check_every s) (r # rs) tab (ds_last_load s) =
      concat (map (space_report vfs) (filter reported tab')) # space_spec (ds_check_every s) rs tab' (ds_last_load s1)"
    by (simp add: r s1(6) tab'_def due_def)
  moreover have "space_published (collect_mounts vfs s1 (st_stop t) 0 (map mount_entry tab')) =
      named (concat (map (space_report vfs) (filter reported tab')))" by (rule collect_report [OF s1(1,3) t(3)])
  ultimately show ?case using o t(1,2,4,5) hb(1) rl by (simp add: s1(2))
qed simp

section \<open>Properties\<close>

text \<open>C11: the collector of disk space follows the table of mounts. With the default filters, over any number of
  turns, with a heartbeat that comes and an exit flag that is not set, no turn fails, and what a turn
  publishes is exactly the report of an abstract collector: the table is the one that the kernel printed at
  the last load, a load happens when the period has passed, and of that table every file system is
  reported, in order, whose type is not a dummy, whose mount point does not start with one of the excluded
  directories and whose type does not match one of the excluded types; sizes are blocks times the fragment
  size (the block size when that is zero), the read-only gauge shows \<^verbatim>\<open>ro\<close>, and a file system that cannot be
  asked is reported with zeros and an error.\<close>

theorem diskspace_follows_mounts:
  assumes "list_all2 turn_meets ts rs" and "cf_exclude_mountpoints conf = None" and "cf_exclude_filesystems conf = None"
    and "beats clk (step_usecs (config_or 1 (cf_update_every conf))) (length ts) 0 heartbeat_init"
  shows "\<exists>s' outs. diskspace_routine_start clk ts 0 heartbeat_init (diskspace_routine_init conf) = Some (s', outs) \<and>
    map space_published outs = map named (space_spec (config_or 15 (cf_check_every conf)) rs [] 0)"
proof -
  let ?s = "diskspace_routine_init conf"
  have "default_filters ?s" using assms(2,3) by (simp add: default_filters_def diskspace_routine_init_def config_or_def default_patterns)
  with diskspace_turns [OF assms(1), of ?s "[]" clk 0 heartbeat_init] assms(4) show ?thesis
    by (simp add: diskspace_routine_init_def)
qed

definition space_example :: "i64 \<Rightarrow> space_turn" where
  "space_example now = \<lparr>st_exit = False, st_exit_beat = False, st_now = now, st_io = file_of (mount_text [mount_example]),
     st_vfs = (\<lambda>p. if p = ''/mnt'' then Some \<lparr>f_bsize = 4096, f_frsize = 512, f_blocks = 100, f_bfree = 50, f_bavail = 40,
       f_files = 9, f_ffree = 3\<rparr> else None), st_stop = (\<lambda>k. False)\<rparr>"

theorem diskspace_follows_mounts_witness:
  "\<exists>s' outs. diskspace_routine_start (\<lambda>i. (Some (of_nat i, 0), Some (7, 0))) [space_example 100] 0 heartbeat_init
      (diskspace_routine_init \<lparr>cf_update_every = None, cf_check_every = None, cf_exclude_mountpoints = None,
         cf_exclude_filesystems = None\<rparr>) = Some (s', outs) \<and>
    map space_published outs = [named (space_report (st_vfs (space_example 100)) mount_example)]"
proof -
  let ?clk = "\<lambda>i. (Some (of_nat i :: u64, 0 :: u64), Some (7 :: u64, 0 :: u64))"
  let ?conf = "\<lparr>cf_update_every = None, cf_check_every = None, cf_exclude_mountpoints = None, cf_exclude_filesystems = None\<rparr>"
  let ?r = "(100, [mount_example], st_vfs (space_example 100))"
  have m: "list_all mount_ok [mount_example]" by (simp add: mount_example_ok)
  have 1: "list_all2 turn_meets [space_example 100] [?r]"
    using m mount_text_cut(2) [OF m] by (simp add: turn_meets_def space_example_def)
  have 2: "beats ?clk (step_usecs (config_or 1 (cf_update_every ?conf))) (length [space_example 100]) 0 heartbeat_init"
  proof -
    have "step_usecs 1 = 1000000" by (simp add: step_usecs_def USEC_PER_SEC_def)
    moreover have "heartbeat_wait ?clk 1000000 0 (read_clocks ?clk 0) = Some (read_clocks ?clk 1, 1)"
      by (subst heartbeat_wait.simps, subst heartbeat_wait.simps) (simp add: read_clocks_def now_usec_def)
    moreover have "monotonic (read_clocks ?clk 0) = 0" by (simp add: read_clocks_def now_usec_def)
    ultimately show ?thesis by (simp add: config_or_def heartbeat_next_def heartbeat_init_def)
  qed
  have "reported mount_example" by code_simp
  then have 3: "space_spec (config_or 15 (cf_check_every ?conf)) [?r] [] 0 = [space_report (st_vfs (space_example 100)) mount_example]"
    by (simp add: config_or_def word_sle_eq)
  from diskspace_follows_mounts [OF 1 _ _ 2] show ?thesis unfolding 3 by simp
qed

section \<open>The exit flag\<close>

text \<open>When the exit flag is seen in the walk, what was reported is a first part of the report.\<close>

lemma collect_mounts_stopped: "prefix (collect_mounts vfs s stop k ms) (collect_mounts vfs s (\<lambda>_. False) k ms)"
  by (induction vfs s stop k ms rule: collect_mounts.induct) (auto simp: Let_def)

end
