(* ===== verification/XM_NetTables.thy ===== *)
theory XM_NetTables
  imports XM_Meminfo
begin

text \<open>
  \<^verbatim>\<open>collectors/proc/proc_net_netstat.c\<close> and \<^verbatim>\<open>collectors/proc/proc_net_snmp.c\<close>: files with two lines per
  protocol, the names of the columns and their values, and one keyword list per protocol. The lists of a
  collector are a function of the first word of their lines. The number that a gauge is set to is given
  before its conversion to \<^verbatim>\<open>double\<close>; a signed variable is its two's complement.
\<close>

section \<open>Lists with signed variables\<close>

definition num_value :: "bool \<Rightarrow> string \<Rightarrow> u64" where
  "num_value sg v = (if sg then fst (str2int64_t v) else str2uint64_t v)"

text \<open>The keywords with their variables; \<open>True\<close>: registered with \<^verbatim>\<open>arl_callback_ssize_t\<close>.\<close>

type_synonym keyword_vars = "(string \<times> string \<times> bool) list"

definition arl_binds :: "string list \<Rightarrow> keyword_vars \<Rightarrow> ARL_BASE \<Rightarrow> ARL_BASE" where
  "arl_binds vars kws b =
     foldl (\<lambda>b (k, x, sg).
       if sg then arl_expect_custom b k (Some arl_callback_ssize_t) (Some (addr_of vars x))
       else arl_expect b k (Some (addr_of vars x))) b kws"

section \<open>A round\<close>

record net_tables =
  nt_file :: "string option"
  nt_pf :: "proc_file option"
  nt_arls :: "string \<Rightarrow> ARL_BASE"
  nt_vars :: mem

definition column_pairs :: "proc_file \<Rightarrow> nat \<Rightarrow> nat \<Rightarrow> nat \<Rightarrow> (string \<times> string) list" where
  "column_pairs pf h l n = map (\<lambda>w. (procfile_lineword pf h w, procfile_lineword pf l w)) [1..<n]"

text \<open>The loop of \<^verbatim>\<open>proc_net_netstat.c\<close>, and that of \<^verbatim>\<open>proc_net_snmp.c\<close>, which starts a round of its list.\<close>

definition row_matching_analysis :: "proc_file \<Rightarrow> nat \<Rightarrow> nat \<Rightarrow> ARL_BASE \<Rightarrow> mem \<Rightarrow> (ARL_BASE \<times> mem) option" where
  "row_matching_analysis pf header_line values_line b m =
     (let header_words = procfile_linewords pf header_line; value_words = procfile_linewords pf values_line;
          n = (if header_words < value_words then header_words else value_words)
      in scan_lines arl_check b (column_pairs pf header_line values_line n) m)"

definition snmp_row :: "proc_file \<Rightarrow> nat \<Rightarrow> nat \<Rightarrow> ARL_BASE \<Rightarrow> mem \<Rightarrow> (ARL_BASE \<times> mem) option" where
  "snmp_row pf h l b m =
     (case arl_begin b of
        None \<Rightarrow> None
      | Some b1 \<Rightarrow> scan_lines arl_check b1 (column_pairs pf h l (procfile_linewords pf l)) m)"

text \<open>The loop over the lines, from line \<open>l\<close> on: \<open>vals\<close> gives the gauges for the first words that are known. A
  known line and its values are two lines; values with less than \<open>minw\<close> words are skipped.\<close>

function table_loop ::
  "(string \<rightharpoonup> mem \<Rightarrow> gauge_value list) \<Rightarrow> nat \<Rightarrow> (proc_file \<Rightarrow> nat \<Rightarrow> nat \<Rightarrow> ARL_BASE \<Rightarrow> mem \<Rightarrow> (ARL_BASE \<times> mem) option) \<Rightarrow>
   proc_file \<Rightarrow> nat \<Rightarrow> (string \<Rightarrow> ARL_BASE) \<Rightarrow> mem \<Rightarrow> ((string \<Rightarrow> ARL_BASE) \<times> mem \<times> gauge_value list) option" where
  "table_loop vals minw row pf l arls m =
     (if procfile_lines pf \<le> l then Some (arls, m, [])
      else
        let key = procfile_lineword pf l 0
        in case vals key of
             None \<Rightarrow> table_loop vals minw row pf (l + 1) arls m
           | Some v \<Rightarrow>
               if procfile_linewords pf (l + 1) < minw then table_loop vals minw row pf (l + 2) arls m
               else case row pf l (l + 1) (arls key) m of
                      None \<Rightarrow> None
                    | Some (b, m1) \<Rightarrow>
                        map_option (\<lambda>(arls', m', gs). (arls', m', v m1 @ gs))
                          (table_loop vals minw row pf (l + 2) (arls(key := b)) m1))"
  by pat_completeness auto
termination
  by (relation "measure (\<lambda>(vals, minw, row, pf, l, arls, m). procfile_lines pf - l)") auto

declare table_loop.simps [simp del]

text \<open>A whole round; \<open>start\<close> is what is done with the lists before the loop.\<close>

definition table_collect ::
  "string \<Rightarrow> ((string \<Rightarrow> ARL_BASE) \<Rightarrow> (string \<Rightarrow> ARL_BASE) option) \<Rightarrow> (string \<rightharpoonup> mem \<Rightarrow> gauge_value list) \<Rightarrow> nat \<Rightarrow>
   (proc_file \<Rightarrow> nat \<Rightarrow> nat \<Rightarrow> ARL_BASE \<Rightarrow> mem \<Rightarrow> (ARL_BASE \<times> mem) option) \<Rightarrow> string option \<Rightarrow> file_io \<Rightarrow> net_tables \<Rightarrow>
   (net_tables \<times> gauge_value list \<times> int) option" where
  "table_collect def start vals minw row conf io s =
     (let name = monitor_file (nt_file s) conf def; s1 = s\<lparr>nt_file := Some name\<rparr>
      in case open_and_read io name (Some keyword_seps) PROCFILE_FLAG_DEFAULT (nt_pf s) of
           None \<Rightarrow> None
         | Some None \<Rightarrow> Some (s1\<lparr>nt_pf := None\<rparr>, [], - 1)
         | Some (Some pf) \<Rightarrow>
             (case start (nt_arls s) of
                None \<Rightarrow> None
              | Some arls \<Rightarrow>
                  (case table_loop vals minw row pf 0 arls (nt_vars s) of
                     None \<Rightarrow> None
                   | Some (arls', m, gs) \<Rightarrow> Some (s1\<lparr>nt_pf := Some pf, nt_arls := arls', nt_vars := m\<rparr>, gs, 0))))"

section \<open>Cells\<close>

definition binds_target :: "string list \<Rightarrow> keyword_vars \<Rightarrow> string \<Rightarrow> (nat \<times> processor) option" where
  "binds_target vars kws k =
     map_option (\<lambda>(x, sg). (addr_of vars x, if sg then arl_callback_ssize_t else arl_callback_str2ull)) (map_of kws k)"

lemma binds_target_None: "binds_target vars kws k = None \<longleftrightarrow> map_of kws k = None"
  by (simp add: binds_target_def)

lemma store_binds:
  "store_value (binds_target vars kws k) k v m =
     (case map_of kws k of None \<Rightarrow> m | Some (x, sg) \<Rightarrow> m(addr_of vars x := num_value sg v))"
  by (auto simp: store_value_def binds_target_def num_value_def arl_callback_ssize_t_def arl_callback_str2ull_def
      split: option.split)

lemma fold_cells:
  assumes "\<And>k k' a. c k = Some a \<Longrightarrow> c k' = Some a \<Longrightarrow> k = k'" and "distinct (map fst ls)" and "c k = Some a"
  shows "foldl (\<lambda>m (k, v). case c k of None \<Rightarrow> m | Some a \<Rightarrow> m(a := f k v)) m ls a =
    (case map_of ls k of None \<Rightarrow> m a | Some v \<Rightarrow> f k v)"
  using assms(2)
proof (induction ls arbitrary: m)
  case (Cons kv ls)
  obtain k' v where kv: "kv = (k', v)" by (cases kv)
  show ?case
  proof (cases "k' = k")
    case True
    then have "map_of ls k = None" using Cons.prems kv by (simp add: map_of_eq_None_iff)
    with True Cons kv assms(3) show ?thesis by simp
  next
    case False
    then have "c k' \<noteq> Some a" using assms(1,3) by blast
    with False Cons kv show ?thesis by (auto split: option.split)
  qed
qed simp

lemma fold_cells_other:
  "(\<And>k. c k \<noteq> Some a) \<Longrightarrow> foldl (\<lambda>m (k, v). case c k of None \<Rightarrow> m | Some a \<Rightarrow> m(a := f k v)) m ls a = m a"
  by (induction ls arbitrary: m) (auto split: option.split)

text \<open>Where the keyword of a list puts its value, and how it reads it.\<close>

definition cell_of :: "string list \<Rightarrow> keyword_vars \<Rightarrow> string \<Rightarrow> nat option" where
  "cell_of vars kws k = map_option (\<lambda>(x, sg). addr_of vars x) (map_of kws k)"

definition read_as :: "keyword_vars \<Rightarrow> string \<Rightarrow> string \<Rightarrow> u64" where
  "read_as kws k v = (case map_of kws k of None \<Rightarrow> 0 | Some (x, sg) \<Rightarrow> num_value sg v)"

definition column_value :: "keyword_vars \<Rightarrow> (string \<times> string) list \<Rightarrow> string \<Rightarrow> u64" where
  "column_value kws ps k = (case map_of ps k of None \<Rightarrow> 0 | Some v \<Rightarrow> read_as kws k v)"

lemma fold_store_binds:
  "foldl (\<lambda>m (k, v). store_value (binds_target vars kws k) k v m) m ls =
   foldl (\<lambda>m (k, v). case cell_of vars kws k of None \<Rightarrow> m | Some a \<Rightarrow> m(a := read_as kws k v)) m ls"
proof -
  have "store_value (binds_target vars kws k) k v m =
      (case cell_of vars kws k of None \<Rightarrow> m | Some a \<Rightarrow> m(a := read_as kws k v))" for k v m
    by (auto simp: store_binds cell_of_def read_as_def split: option.split)
  then show ?thesis by simp
qed

lemma arl_binds_ok:
  "distinct (map fst kws) \<Longrightarrow> let b = arl_binds vars kws (arl_create name None n) in
   arl_ok b \<and> arl_target b = binds_target vars kws \<and> rechecks b = n \<and> iteration b = 0 \<and> wanted b = expected b \<and>
   b_processor b = arl_callback_str2ull \<and> e_name ` set (entries b) = fst ` set kws"
proof (induction kws rule: rev_induct)
  case Nil
  have "arl_target (arl_create name None n) = binds_target vars []"
    by (simp add: fun_eq_iff arl_target_def arl_create_def binds_target_def List.map_filter_simps)
  then show ?case using arl_create_ok [of name None n] by (simp add: arl_binds_def arl_create_def)
next
  case (snoc kx kws)
  obtain k x sg where kx: "kx = (k, x, sg)" by (cases kx)
  let ?b = "arl_binds vars kws (arl_create name None n)" and ?p = "if sg then Some arl_callback_ssize_t else None"
  have e: "arl_binds vars (kws @ [kx]) (arl_create name None n) = arl_expect_custom ?b k ?p (Some (addr_of vars x))"
    by (simp add: arl_binds_def kx arl_expect_def)
  have b: "arl_ok ?b" "arl_target ?b = binds_target vars kws" "rechecks ?b = n" "iteration ?b = 0" "wanted ?b = expected ?b"
    "b_processor ?b = arl_callback_str2ull" "e_name ` set (entries ?b) = fst ` set kws" "k \<notin> e_name ` set (entries ?b)"
    using snoc by (auto simp: Let_def kx)
  note ok = arl_expect_custom_ok [OF b(1,8), of ?p "Some (addr_of vars x)"]
    arl_target_expect [OF b(1,8), of ?p "Some (addr_of vars x)"]
  have "map_of kws k = None" using snoc.prems by (simp add: map_of_eq_None_iff kx)
  then have "arl_target (arl_expect_custom ?b k ?p (Some (addr_of vars x))) = binds_target vars (kws @ [kx])"
    unfolding ok(2) b(2) by (auto simp: fun_eq_iff binds_target_def kx map_add_def b(6) split: option.split)
  with ok(1) b show ?case unfolding e by (simp add: arl_expect_custom_def Let_def kx)
qed

lemma arl_binds_for:
  assumes "distinct (map fst kws)" and "0 < n" and "\<forall>k \<in> K. binds_target vars kws k \<noteq> None"
  shows "arl_for (binds_target vars kws) K (arl_binds vars kws (arl_create name None n))"
  using arl_binds_ok [OF assms(1), of vars name n] card_expected(1) [of "arl_binds vars kws (arl_create name None n)" K] assms(2,3)
  by (simp add: arl_for_def Let_def)

section \<open>The contract of a collector of tables\<close>

text \<open>The tables of a file: the first word of both lines, the columns and their values.\<close>

type_synonym net_table = "string \<times> string list \<times> string list"

definition table_rows :: "net_table list \<Rightarrow> string list list" where
  "table_rows tabs = concat (map (\<lambda>(k, h, v). [k # h, k # v]) tabs) @ [[]]"

definition file_tables :: "string \<Rightarrow> net_table list \<Rightarrow> bool" where
  "file_tables c tabs \<longleftrightarrow> cut_text (seps_of keyword_seps) c = table_rows tabs"

text \<open>Every known table is there once, with distinct columns and one value for each of them.\<close>

definition tabs_ok :: "string list \<Rightarrow> nat \<Rightarrow> net_table list \<Rightarrow> bool" where
  "tabs_ok keys minw tabs \<longleftrightarrow> distinct (map fst tabs) \<and> set keys \<subseteq> fst ` set tabs \<and>
     list_all (\<lambda>(k, h, v). k \<in> set keys \<longrightarrow> length h = length v \<and> distinct h \<and> minw \<le> length v + 1) tabs"

text \<open>The columns of a table that have a variable.\<close>

definition columns_of :: "keyword_vars \<Rightarrow> net_table list \<Rightarrow> string \<Rightarrow> string set" where
  "columns_of kws tabs g = {k. \<exists>h v. (g, h, v) \<in> set tabs \<and> k \<in> set h \<and> map_of kws k \<noteq> None}"

lemma columns_of_headers:
  assumes "map (\<lambda>(k, h, v). (k, h)) tabs = map (\<lambda>(k, h, v). (k, h)) tabs'"
  shows "columns_of kws tabs g = columns_of kws tabs' g"
proof -
  have "(\<exists>v. (g, h, v) \<in> set ts) \<longleftrightarrow> (g, h) \<in> set (map (\<lambda>(k, h, v). (k, h)) ts)" for h and ts :: "net_table list" by force
  with assms have "(\<exists>v. (g, h, v) \<in> set tabs) \<longleftrightarrow> (\<exists>v. (g, h, v) \<in> set tabs')" for h by (simp only:)
  then show ?thesis unfolding columns_of_def by blast
qed

definition cells_distinct :: "string list \<Rightarrow> string list \<Rightarrow> (string \<Rightarrow> keyword_vars) \<Rightarrow> bool" where
  "cells_distinct vars keys kws \<longleftrightarrow> distinct keys \<and> list_all (\<lambda>g. distinct (map fst (kws g))) keys \<and>
     distinct (concat (map (\<lambda>g. map (\<lambda>(k, x, sg). x) (kws g)) keys)) \<and>
     list_all (\<lambda>g. list_all (\<lambda>(k, x, sg). x \<in> set vars) (kws g)) keys"

lemma cells_separate:
  assumes "cells_distinct vars keys kws" and "g \<in> set keys" and "g' \<in> set keys"
    and "cell_of vars (kws g) k = Some a" and "cell_of vars (kws g') k' = Some a"
  shows "g = g' \<and> k = k'"
proof -
  obtain x sg x' sg' where x: "map_of (kws g) k = Some (x, sg)" "map_of (kws g') k' = Some (x', sg')"
    "addr_of vars x = a" "addr_of vars x' = a" using assms(4,5) by (auto simp: cell_of_def)
  then have m: "(k, x, sg) \<in> set (kws g)" "(k', x', sg') \<in> set (kws g')" by (auto dest: map_of_SomeD)
  have "x \<in> set vars" using assms(1,2) m(1) by (auto simp: cells_distinct_def list_all_iff)
  then have e: "x = x'" using addr_of_inj x(3,4) by metis
  define vs where "vs g = map (\<lambda>(k, x, sg). x) (kws g)" for g
  have d: "distinct (concat (map vs keys))" using assms(1) by (simp add: cells_distinct_def vs_def [abs_def])
  have i: "x \<in> set (vs g)" "x \<in> set (vs g')" using m e by (force simp: vs_def)+
  obtain p q where pq: "keys = p @ g # q" using assms(2) by (meson split_list)
  have "g = g'"
  proof (rule ccontr)
    assume "g \<noteq> g'"
    then have "g' \<in> set p \<or> g' \<in> set q" using assms(3) pq by auto
    with i(2) have "x \<in> set (concat (map vs p)) \<or> x \<in> set (concat (map vs q))" by auto
    with d i(1) show False unfolding pq by auto
  qed
  moreover have "distinct (vs g)" using d unfolding pq by simp
  ultimately show ?thesis using m e by (auto simp: distinct_map inj_on_def vs_def)
qed

text \<open>The variables of the columns that the files do not have are zero.\<close>

definition zeros :: "string list \<Rightarrow> string list \<Rightarrow> (string \<Rightarrow> keyword_vars) \<Rightarrow> (string \<Rightarrow> string set) \<Rightarrow> mem \<Rightarrow> bool" where
  "zeros vars keys kws K m \<longleftrightarrow> (\<forall>g \<in> set keys. \<forall>k a. cell_of vars (kws g) k = Some a \<longrightarrow> k \<notin> K g \<longrightarrow> m a = 0)"

text \<open>What a table gives.\<close>

definition table_report ::
  "string list \<Rightarrow> (string \<Rightarrow> keyword_vars) \<Rightarrow> (string \<Rightarrow> (string \<Rightarrow> u64) \<Rightarrow> gauge_value list) \<Rightarrow> net_table \<Rightarrow> gauge_value list" where
  "table_report keys kws spec tab =
     (case tab of (k, h, v) \<Rightarrow> if k \<in> set keys then spec k (column_value (kws k) (zip h v)) else [])"

lemma drop_two:
  assumes "drop l c = a # b # r"
  shows "l + 1 < length c" and "c ! l = a" and "c ! (l + 1) = b" and "drop (l + 2) c = r"
proof -
  have "length (drop l c) = Suc (Suc (length r))" using assms by simp
  then show l: "l + 1 < length c" by simp
  have "c = take l c @ a # b # r" using assms append_take_drop_id [of l c] by simp
  moreover have "length (take l c) = l" using l by simp
  ultimately show "c ! l = a" "c ! (l + 1) = b" "drop (l + 2) c = r"
    by (metis nth_append_length, metis add_diff_cancel_left' nth_append_right le_add1 nth_Cons_Suc nth_Cons_0 One_nat_def,
      metis append_Cons append_Nil append_assoc append_eq_conv_conj length_append list.size(3) list.size(4) One_nat_def Suc_1 add.right_neutral add_Suc_right)
qed

lemma column_pairs_zip:
  assumes "procfile_lineword pf l = row_word (k # h)" and "procfile_lineword pf (l + 1) = row_word (k' # v)"
    and "length h = length v"
  shows "column_pairs pf l (l + 1) (length v + 1) = zip h v"
  using assms by (intro nth_equalityI) (simp_all add: column_pairs_def row_word_def del: upt_Suc)

text \<open>Gauges set from variables; the columns with the names and the labels under which they should appear.\<close>

definition gauge_sets :: "string list \<Rightarrow> (string \<times> string \<times> string) list \<Rightarrow> mem \<Rightarrow> gauge_value list" where
  "gauge_sets vars sets m = map (\<lambda>(g, x, l). (g, m (addr_of vars x), l)) sets"

definition column_report :: "(string \<times> string \<times> string) list \<Rightarrow> (string \<Rightarrow> u64) \<Rightarrow> gauge_value list" where
  "column_report cols val = map (\<lambda>(k, n, l). (n, val k, l)) cols"

definition sets_named ::
  "(string \<times> string) list \<Rightarrow> keyword_vars \<Rightarrow> (string \<times> string \<times> string) list \<Rightarrow> (string \<times> string \<times> string) list \<Rightarrow> bool" where
  "sets_named gauges kws sets cols \<longleftrightarrow>
     map (\<lambda>(g, x, l). (map_of gauges g, Some x, l)) sets = map (\<lambda>(k, n, l). (Some n, map_option fst (map_of kws k), l)) cols"

lemma sets_publish:
  assumes "sets_named gauges kws sets cols" and v: "list_all (\<lambda>(k, x, sg). m (addr_of vars x) = val k) kws"
  shows "published gauges (gauge_sets vars sets m) = map (\<lambda>(n, v, l). (Some n, v, l)) (column_report cols val)"
  using assms(1)
proof (induction sets arbitrary: cols)
  case (Cons s sets)
  obtain g x l where s: "s = (g, x, l)" by (cases s)
  from Cons.prems obtain k n cols' where c: "cols = (k, n, l) # cols'" "map_of gauges g = Some n"
    "map_option fst (map_of kws k) = Some x" "sets_named gauges kws sets cols'"
    by (cases cols) (auto simp: sets_named_def s dest!: sym [of "Some x"])
  then obtain sg where "(k, x, sg) \<in> set kws" by (auto dest: map_of_SomeD)
  with v have "m (addr_of vars x) = val k" by (auto simp: list_all_iff)
  with c Cons.IH show ?case by (simp add: s published_def gauge_sets_def column_report_def)
qed (simp add: sets_named_def published_def gauge_sets_def column_report_def)

text \<open>Both rows store the values of the columns: one in a round that is begun before, one in a round of its own.\<close>

definition begun :: "(string \<Rightarrow> (nat \<times> processor) option) \<Rightarrow> string set \<Rightarrow> ARL_BASE \<Rightarrow> bool" where
  "begun t K b \<longleftrightarrow> (\<exists>b0. arl_for t K b0 \<and> arl_begin b0 = Some b)"

lemma row_matching_analysis_stores:
  assumes "begun t K b" and "procfile_linewords pf h = n" and "procfile_linewords pf l = n"
    and "distinct (map fst (column_pairs pf h l n))" and "K = {k \<in> fst ` set (column_pairs pf h l n). t k \<noteq> None}"
  shows "\<exists>b'. row_matching_analysis pf h l b m =
    Some (b', foldl (\<lambda>m (k, v). store_value (t k) k v m) m (column_pairs pf h l n)) \<and> arl_for t K b'"
proof -
  obtain b0 where b0: "arl_for t K b0" "arl_begin b0 = Some b" using assms(1) by (auto simp: begun_def)
  from keyword_round [OF b0(1) assms(4,5), of m] b0(2) obtain b' where
    "scan_lines arl_check b (column_pairs pf h l n) m =
      Some (b', foldl (\<lambda>m (k, v). store_value (t k) k v m) m (column_pairs pf h l n))" "arl_for t K b'" by auto
  with assms(2,3) show ?thesis by (simp add: row_matching_analysis_def)
qed

lemma snmp_row_stores:
  assumes "arl_for t K b" and "procfile_linewords pf h = n" and "procfile_linewords pf l = n"
    and "distinct (map fst (column_pairs pf h l n))" and "K = {k \<in> fst ` set (column_pairs pf h l n). t k \<noteq> None}"
  shows "\<exists>b'. snmp_row pf h l b m =
    Some (b', foldl (\<lambda>m (k, v). store_value (t k) k v m) m (column_pairs pf h l n)) \<and> arl_for t K b'"
proof -
  from keyword_round [OF assms(1,4,5), of m] obtain b1 b' where "arl_begin b = Some b1"
    "scan_lines arl_check b1 (column_pairs pf h l n) m =
      Some (b', foldl (\<lambda>m (k, v). store_value (t k) k v m) m (column_pairs pf h l n))" "arl_for t K b'" .
  with assms(3) show ?thesis by (simp add: snmp_row_def)
qed

lemma arl_for_begun:
  assumes "arl_for t K b"
  obtains b' where "arl_begin b = Some b'" and "begun t K b'"
proof -
  have "arl_ok b" "0 < iteration b \<longrightarrow> 0 < rechecks b" using assms by (auto simp: arl_for_def)
  then obtain b' where "arl_begin b = Some b'" by (rule arl_begin_Some)
  with assms that show ?thesis unfolding begun_def by blast
qed

text \<open>The parts of a collector of this kind: the variables, the first words of the tables it knows, their
  keywords, the names of the gauges, the gauges from the variables, the report that they should make, what
  is done with a row, and what the lists are like between \<open>start\<close> and their row.\<close>

locale table_file =
  fixes vars keys :: "string list" and kws :: "string \<Rightarrow> keyword_vars" and gauges :: "(string \<times> string) list"
    and vals :: "string \<rightharpoonup> mem \<Rightarrow> gauge_value list" and spec :: "string \<Rightarrow> (string \<Rightarrow> u64) \<Rightarrow> gauge_value list"
    and minw :: nat and row :: "proc_file \<Rightarrow> nat \<Rightarrow> nat \<Rightarrow> ARL_BASE \<Rightarrow> mem \<Rightarrow> (ARL_BASE \<times> mem) option"
    and ready :: "(string \<Rightarrow> (nat \<times> processor) option) \<Rightarrow> string set \<Rightarrow> ARL_BASE \<Rightarrow> bool"
    and start :: "(string \<Rightarrow> ARL_BASE) \<Rightarrow> (string \<Rightarrow> ARL_BASE) option" and def :: string
  assumes cells: "cells_distinct vars keys kws" and known: "dom vals = set keys" and named_keys: "[] \<notin> set keys"
    and publishes: "g \<in> set keys \<Longrightarrow> vals g = Some f \<Longrightarrow> list_all (\<lambda>(k, x, sg). m (addr_of vars x) = val k) (kws g) \<Longrightarrow>
      published gauges (f m) = map (\<lambda>(n, v, l). (Some n, v, l)) (spec g val)"
    and row_stores: "ready t K b \<Longrightarrow> procfile_linewords pf h = n \<Longrightarrow> procfile_linewords pf l = n \<Longrightarrow>
      distinct (map fst (column_pairs pf h l n)) \<Longrightarrow> K = {k \<in> fst ` set (column_pairs pf h l n). t k \<noteq> None} \<Longrightarrow>
      \<exists>b'. row pf h l b m = Some (b', foldl (\<lambda>m (k, v). store_value (t k) k v m) m (column_pairs pf h l n)) \<and> arl_for t K b'"
    and start_ready: "(\<And>g. g \<in> set keys \<Longrightarrow> arl_for (tg g) (Kg g) (arls g)) \<Longrightarrow>
      \<exists>arls'. start arls = Some arls' \<and> (\<forall>g \<in> set keys. ready (tg g) (Kg g) (arls' g))"
begin

lemma row_cells:
  assumes g: "g \<in> set keys" and d: "distinct h" "length h = length v" and K: "K g = {k \<in> set h. binds_target vars (kws g) k \<noteq> None}" and z: "zeros vars keys kws K m"
    and m': "m' = foldl (\<lambda>m (k, v). store_value (binds_target vars (kws g) k) k v m) m (zip h v)"
  shows "list_all (\<lambda>(k, x, sg). m' (addr_of vars x) = column_value (kws g) (zip h v) k) (kws g)" and "zeros vars keys kws K m'"
proof -
  let ?c = "cell_of vars (kws g)"
  have m'': "m' = foldl (\<lambda>m (k, v). case ?c k of None \<Rightarrow> m | Some a \<Rightarrow> m(a := read_as (kws g) k v)) m (zip h v)"
    unfolding m' fold_store_binds ..
  have inj: "?c k = Some a \<Longrightarrow> ?c k' = Some a \<Longrightarrow> k = k'" for k k' a using cells_separate [OF cells g g] by blast
  have dz: "distinct (map fst (zip h v))" and sz: "fst ` set (zip h v) = set h"
    using d map_fst_zip [of h v] by (simp_all flip: set_map)
  have c: "m' a = (case map_of (zip h v) k of None \<Rightarrow> m a | Some v \<Rightarrow> read_as (kws g) k v)" if "?c k = Some a" for k a
    unfolding m'' using fold_cells [of ?c, OF inj dz that] .
  have zg: "m a = 0" if "?c k = Some a" "k \<notin> set h" for k a using z g that K by (auto simp: zeros_def)
  have val: "m' a = column_value (kws g) (zip h v) k" if "?c k = Some a" for k a
  proof (cases "map_of (zip h v) k")
    case None
    then have "k \<notin> set h" by (simp add: map_of_eq_None_iff sz)
    with None zg that c show ?thesis by (simp add: column_value_def)
  next
    case (Some x)
    with c that show ?thesis by (simp add: column_value_def)
  qed
  have "map_of (kws g) k = Some (x, sg)" if "(k, x, sg) \<in> set (kws g)" for k x sg
    using that cells g by (simp add: cells_distinct_def list_all_iff)
  then show "list_all (\<lambda>(k, x, sg). m' (addr_of vars x) = column_value (kws g) (zip h v) k) (kws g)"
    by (auto simp: list_all_iff cell_of_def intro!: val)
  show "zeros vars keys kws K m'"
    unfolding zeros_def
  proof (intro ballI allI impI)
    fix g' k a assume g': "g' \<in> set keys" "cell_of vars (kws g') k = Some a" "k \<notin> K g'"
    then have 0: "m a = 0" using z by (auto simp: zeros_def)
    show "m' a = 0"
    proof (cases "g' = g")
      case True
      then have k: "?c k = Some a" using g' by simp
      then have "binds_target vars (kws g) k \<noteq> None" by (auto simp: binds_target_None cell_of_def)
      then have "k \<notin> set h" using True g'(3) K by simp
      then have "map_of (zip h v) k = None" by (simp add: map_of_eq_None_iff sz)
      with c [OF k] 0 show ?thesis by simp
    next
      case False
      then have n: "?c k' \<noteq> Some a" for k' using cells_separate [OF cells g g'(1) _ g'(2)] by blast
      show ?thesis unfolding m'' using fold_cells_other [of ?c a "read_as (kws g)" m "zip h v", OF n] 0 by (simp only:)
    qed
  qed
qed

lemma loop_tables:
  assumes pf: "tables_ok pf" and "drop l (procfile_contents pf) = table_rows tabs" and "distinct (map fst tabs)"
    and "list_all (\<lambda>(k, h, v). k \<in> set keys \<longrightarrow> length h = length v \<and> distinct h \<and> minw \<le> length v + 1 \<and>
      K k = {c \<in> set h. binds_target vars (kws k) c \<noteq> None}) tabs"
    and "\<forall>g \<in> set keys. if g \<in> fst ` set tabs then ready (binds_target vars (kws g)) (K g) (arls g) else arl_for (binds_target vars (kws g)) (K g) (arls g)"
    and "zeros vars keys kws K m"
  shows "\<exists>arls' m' gs. table_loop vals minw row pf l arls m = Some (arls', m', gs) \<and> zeros vars keys kws K m' \<and>
    (\<forall>g \<in> set keys. arl_for (binds_target vars (kws g)) (K g) (arls' g)) \<and>
    published gauges gs = map (\<lambda>(n, v, l). (Some n, v, l)) (concat (map (table_report keys kws spec) tabs))"
  using assms(2-6)
proof (induction tabs arbitrary: l arls m)
  case Nil
  have d: "drop l (procfile_contents pf) = [[]]" using Nil.prems(1) by (simp add: table_rows_def)
  then have "length (drop l (procfile_contents pf)) = 1" by simp
  then have len: "procfile_lines pf = l + 1" using procfile_lineword_contents(1) [OF pf] by simp
  have "procfile_contents pf ! l = []" using d by (rule nth_via_drop)
  then have "procfile_lineword pf l 0 = []" using procfile_row(2) [OF pf, of l] len by (simp add: row_word_def)
  moreover have "vals [] = None" using known named_keys by (metis domIff)
  ultimately have "table_loop vals minw row pf l arls m = Some (arls, m, [])"
    using len by (subst table_loop.simps, simp, subst table_loop.simps, simp)
  with Nil.prems show ?case by (simp add: published_def)
next
  case (Cons tab tabs)
  obtain k h v where tab: "tab = (k, h, v)" by (cases tab)
  let ?c = "procfile_contents pf"
  have dr: "drop l ?c = (k # h) # (k # v) # table_rows tabs" using Cons.prems(1) by (simp add: table_rows_def tab)
  note d2 = drop_two [OF dr]
  have len: "l + 1 < procfile_lines pf" using d2(1) procfile_lineword_contents(1) [OF pf] by simp
  have w: "procfile_lineword pf l = row_word (k # h)" "procfile_lineword pf (l + 1) = row_word (k # v)"
    "procfile_linewords pf l = length h + 1" "procfile_linewords pf (l + 1) = length v + 1"
    using procfile_row [OF pf, of l] procfile_row [OF pf, of "l + 1"] len d2(2,3) by simp_all
  have r0: "row_word (k # h) 0 = k" "row_word (k # v) 0 = k" by (simp_all add: row_word_def)
  have dt: "distinct (map fst tabs)" "k \<notin> fst ` set tabs" using Cons.prems(2) by (simp_all add: tab)
  have kt: "list_all (\<lambda>(k, h, v). k \<in> set keys \<longrightarrow> length h = length v \<and> distinct h \<and> minw \<le> length v + 1 \<and>
      K k = {c \<in> set h. binds_target vars (kws k) c \<noteq> None}) tabs" using Cons.prems(3) by simp
  show ?case
  proof (cases "k \<in> set keys")
    case False
    then have "vals k = None" using known by (metis domIff)
    then have "table_loop vals minw row pf l arls m = table_loop vals minw row pf (l + 2) arls m"
      using len w r0 by (subst table_loop.simps, simp, subst table_loop.simps, simp)
    moreover have "\<forall>g \<in> set keys. if g \<in> fst ` set tabs then ready (binds_target vars (kws g)) (K g) (arls g)
        else arl_for (binds_target vars (kws g)) (K g) (arls g)"
    proof
      fix g assume "g \<in> set keys"
      moreover from this False have "g \<noteq> k" by auto
      ultimately show "if g \<in> fst ` set tabs then ready (binds_target vars (kws g)) (K g) (arls g)
        else arl_for (binds_target vars (kws g)) (K g) (arls g)" using Cons.prems(4) by (simp add: tab)
    qed
    ultimately show ?thesis
      using Cons.IH [OF d2(4) dt(1) kt _ Cons.prems(5)] False by (simp add: table_report_def tab)
  next
    case True
    have hv: "length h = length v" "distinct h" "minw \<le> length v + 1" "K k = {c \<in> set h. binds_target vars (kws k) c \<noteq> None}"
      using Cons.prems(3) True by (simp_all add: tab)
    note cp = column_pairs_zip [OF w(1,2) hv(1)]
    have rd: "ready (binds_target vars (kws k)) (K k) (arls k)" using Cons.prems(4) True by (auto simp: tab)
    let ?m = "foldl (\<lambda>m (c, x). store_value (binds_target vars (kws k) c) c x m) m (zip h v)"
    have "map fst (zip h v) = h" using hv(1) by simp
    then have "distinct (map fst (zip h v))" "K k = {c \<in> fst ` set (zip h v). binds_target vars (kws k) c \<noteq> None}"
      using hv(2,4) by (simp_all flip: set_map)
    with row_stores [OF rd, of pf l "length v + 1" "l + 1" m] w(3,4) hv(1) obtain b where
      b: "row pf l (l + 1) (arls k) m = Some (b, ?m)" "arl_for (binds_target vars (kws k)) (K k) b" unfolding cp by auto
    note rc = row_cells [OF True hv(2,1,4) Cons.prems(5) refl]
    obtain f where f: "vals k = Some f" using True known by blast
    have "\<forall>g \<in> set keys. if g \<in> fst ` set tabs then ready (binds_target vars (kws g)) (K g) ((arls(k := b)) g)
        else arl_for (binds_target vars (kws g)) (K g) ((arls(k := b)) g)"
      using Cons.prems(4) dt(2) b(2) by (auto simp: tab)
    from Cons.IH [OF d2(4) dt(1) kt this rc(2)] obtain arls' m' gs where
      ih: "table_loop vals minw row pf (l + 2) (arls(k := b)) ?m = Some (arls', m', gs)" "zeros vars keys kws K m'"
      "\<forall>g \<in> set keys. arl_for (binds_target vars (kws g)) (K g) (arls' g)"
      "published gauges gs = map (\<lambda>(n, v, l). (Some n, v, l)) (concat (map (table_report keys kws spec) tabs))" by blast
    have "table_loop vals minw row pf l arls m = Some (arls', m', f ?m @ gs)"
      using len w r0 f hv(3) b(1) ih(1) by (subst table_loop.simps) simp
    moreover have "published gauges (f ?m) = map (\<lambda>(n, v, l). (Some n, v, l)) (table_report keys kws spec tab)"
      using publishes [OF True f rc(1)] True by (simp add: table_report_def tab)
    ultimately show ?thesis using ih by (auto simp: published_def)
  qed
qed

text \<open>What holds of the state of a collector between the rounds, when the files have the columns \<open>K\<close>.\<close>

definition tables_inv :: "(string \<Rightarrow> string set) \<Rightarrow> net_tables \<Rightarrow> bool" where
  "tables_inv K s \<longleftrightarrow> slot_ok keyword_seps (nt_pf s) \<and> zeros vars keys kws K (nt_vars s) \<and>
     (\<forall>g \<in> set keys. arl_for (binds_target vars (kws g)) (K g) (nt_arls s g))"

lemma known_columns:
  assumes "tabs_ok keys minw tabs" and "(g, h, v) \<in> set tabs"
  shows "columns_of (kws g) tabs g = {c \<in> set h. binds_target vars (kws g) c \<noteq> None}"
proof -
  have "h' = h" if "(g, h', v') \<in> set tabs" for h' v'
    using eq_key_imp_eq_value [OF _ that assms(2)] assms(1) by (simp add: tabs_ok_def)
  with assms(2) show ?thesis unfolding columns_of_def binds_target_None by blast
qed

lemma round_tables:
  assumes io: "io_file io c" and t: "file_tables c tabs" "tabs_ok keys minw tabs"
    and K: "\<forall>g \<in> set keys. columns_of (kws g) tabs g = K g" and inv: "tables_inv K s"
  shows "\<exists>s' ms. table_collect def start vals minw row conf io s = Some (s', ms, 0) \<and> tables_inv K s' \<and>
    published gauges ms = map (\<lambda>(n, v, l). (Some n, v, l)) (concat (map (table_report keys kws spec) tabs))"
proof -
  let ?t = "\<lambda>g. binds_target vars (kws g)" and ?n = "monitor_file (nt_file s) conf def"
  have sl: "slot_ok keyword_seps (nt_pf s)" and z: "zeros vars keys kws K (nt_vars s)"
    and fa: "\<And>g. g \<in> set keys \<Longrightarrow> arl_for (?t g) (K g) (nt_arls s g)" using inv by (auto simp: tables_inv_def)
  have "\<forall>x \<in> set keyword_seps. code_of x < 128" by (simp add: keyword_seps_def)
  from open_and_read_ok [OF io sl this, of ?n PROCFILE_FLAG_DEFAULT] obtain pf where
    pf: "open_and_read io ?n (Some keyword_seps) PROCFILE_FLAG_DEFAULT (nt_pf s) = Some (Some pf)"
    "slot_ok keyword_seps (Some pf)" "tables_ok pf" "procfile_contents pf = cut_text (seps_of keyword_seps) c" .
  have dr: "drop 0 (procfile_contents pf) = table_rows tabs" using pf(4) t(1) by (simp add: file_tables_def)
  have dt: "distinct (map fst tabs)" and sub: "set keys \<subseteq> fst ` set tabs"
    and la: "list_all (\<lambda>(k, h, v). k \<in> set keys \<longrightarrow> length h = length v \<and> distinct h \<and> minw \<le> length v + 1) tabs"
    using t(2) by (simp_all add: tabs_ok_def)
  have "K k = {c \<in> set h. ?t k c \<noteq> None}" if "(k, h, v) \<in> set tabs" "k \<in> set keys" for k h v
    using known_columns [OF t(2) that(1)] K that(2) by simp
  with la have kt: "list_all (\<lambda>(k, h, v). k \<in> set keys \<longrightarrow> length h = length v \<and> distinct h \<and> minw \<le> length v + 1 \<and>
      K k = {c \<in> set h. ?t k c \<noteq> None}) tabs" unfolding list_all_iff by blast
  from start_ready [of ?t K "nt_arls s", OF fa] obtain arls where
    st: "start (nt_arls s) = Some arls" "\<forall>g \<in> set keys. ready (?t g) (K g) (arls g)" by blast
  have "\<forall>g \<in> set keys. if g \<in> fst ` set tabs then ready (?t g) (K g) (arls g) else arl_for (?t g) (K g) (arls g)"
    using st(2) sub by auto
  from loop_tables [OF pf(3) dr dt kt this z] obtain arls' m' gs where
    "table_loop vals minw row pf 0 arls (nt_vars s) = Some (arls', m', gs)" "zeros vars keys kws K m'"
    "\<forall>g \<in> set keys. arl_for (?t g) (K g) (arls' g)"
    "published gauges gs = map (\<lambda>(n, v, l). (Some n, v, l)) (concat (map (table_report keys kws spec) tabs))" by blast
  with pf(1,2) st(1) show ?thesis by (simp add: table_collect_def Let_def tables_inv_def)
qed

text \<open>A series of rounds; the texts with their tables.\<close>

lemma rounds_tables:
  assumes "list_all2 (\<lambda>io (c, tabs). io_file io c \<and> file_tables c tabs) ios cs"
    and "\<forall>(c, tabs) \<in> set cs. tabs_ok keys minw tabs \<and> (\<forall>g \<in> set keys. columns_of (kws g) tabs g = K g)"
    and "tables_inv K s"
  shows "\<exists>s' outs. run_rounds (table_collect def start vals minw row conf) ios s = Some (s', outs) \<and>
    map (\<lambda>(ms, r). (published gauges ms, r)) outs =
    map (\<lambda>(c, tabs). (map (\<lambda>(n, v, l). (Some n, v, l)) (concat (map (table_report keys kws spec) tabs)), 0)) cs"
  using assms
proof (induction ios cs arbitrary: s rule: list_all2_induct)
  case (Cons io ios ct cs)
  obtain c tabs where ct: "ct = (c, tabs)" by (cases ct)
  have h: "io_file io c" "file_tables c tabs" "tabs_ok keys minw tabs" "\<forall>g \<in> set keys. columns_of (kws g) tabs g = K g"
    using Cons.hyps(1) Cons.prems(1) ct by auto
  from round_tables [OF h Cons.prems(2)] obtain s1 ms where
    s1: "table_collect def start vals minw row conf io s = Some (s1, ms, 0)" "tables_inv K s1"
    "published gauges ms = map (\<lambda>(n, v, l). (Some n, v, l)) (concat (map (table_report keys kws spec) tabs))" by blast
  from Cons.IH [OF _ s1(2)] Cons.prems(1) obtain s' outs where
    "run_rounds (table_collect def start vals minw row conf) ios s1 = Some (s', outs)"
    "map (\<lambda>(ms, r). (published gauges ms, r)) outs =
      map (\<lambda>(c, tabs). (map (\<lambda>(n, v, l). (Some n, v, l)) (concat (map (table_report keys kws spec) tabs)), 0)) cs" by auto
  with s1(1,3) ct show ?case by auto
qed simp

lemma new_tables:
  assumes "\<forall>g \<in> set keys. arls g = arl_binds vars (kws g) (arl_create (name g) None 3)"
    and "\<forall>g \<in> set keys. columns_of (kws g) tabs g = K g"
  shows "tables_inv K \<lparr>nt_file = None, nt_pf = None, nt_arls = arls, nt_vars = (\<lambda>_. 0)\<rparr>"
proof -
  have "arl_for (binds_target vars (kws g)) (K g) (arls g)" if g: "g \<in> set keys" for g
  proof -
    have "\<forall>k \<in> K g. binds_target vars (kws g) k \<noteq> None" using assms(2) g by (auto simp: columns_of_def binds_target_None)
    moreover have "distinct (map fst (kws g))" using cells g by (simp add: cells_distinct_def list_all_iff)
    ultimately show ?thesis using arl_binds_for [of "kws g" 3 "K g" vars "name g"] assms(1) g by simp
  qed
  then show ?thesis by (simp add: tables_inv_def zeros_def)
qed

end

end
