(* ===== verification/XM_Netstat.thy ===== *)
theory XM_Netstat
  imports XM_NetTables
begin

text \<open>
  The two collectors of tables: \<^verbatim>\<open>collectors/proc/proc_net_netstat.c\<close> and \<^verbatim>\<open>collectors/proc/proc_net_snmp.c\<close>, with
  their variables, keywords, gauges and the order in which the gauges are set.
\<close>

section \<open>\<^verbatim>\<open>/proc/net/netstat\<close>\<close>

definition netstat_vars :: "string list" where
  "netstat_vars =
     [''__ipext_InOctets'', ''__ipext_OutOctets'', ''__ipext_InNoRoutes'', ''__ipext_InTruncatedPkts'',
      ''__ipext_InCsumErrors'', ''__ipext_InMcastOctets'', ''__ipext_OutMcastOctets'', ''__ipext_InMcastPkts'',
      ''__ipext_OutMcastPkts'', ''__ipext_InBcastOctets'', ''__ipext_OutBcastOctets'', ''__ipext_InBcastPkts'',
      ''__ipext_OutBcastPkts'', ''__ipext_InNoECTPkts'', ''__ipext_InECT1Pkts'', ''__ipext_InECT0Pkts'',
      ''__ipext_InCEPkts'', ''__tcpext_TCPRenoReorder'', ''__tcpext_TCPFACKReorder'',
      ''__tcpext_TCPSACKReorder'', ''__tcpext_TCPTSReorder'', ''__tcpext_SyncookiesSent'',
      ''__tcpext_SyncookiesRecv'', ''__tcpext_SyncookiesFailed'', ''__tcpext_TCPOFOQueue'',
      ''__tcpext_TCPOFODrop'', ''__tcpext_TCPOFOMerge'', ''__tcpext_OfoPruned'', ''__tcpext_TCPAbortOnData'',
      ''__tcpext_TCPAbortOnClose'', ''__tcpext_TCPAbortOnMemory'', ''__tcpext_TCPAbortOnTimeout'',
      ''__tcpext_TCPAbortOnLinger'', ''__tcpext_TCPAbortFailed'', ''__tcpext_ListenOverflows'',
      ''__tcpext_ListenDrops'', ''__tcpext_TCPMemoryPressures'', ''__tcpext_TCPReqQFullDrop'',
      ''__tcpext_TCPReqQFullDoCookies'']"

definition ipext_keywords :: "keyword_vars" where
  "ipext_keywords =
     [(''InOctets'', ''__ipext_InOctets'', False), (''OutOctets'', ''__ipext_OutOctets'', False),
      (''InNoRoutes'', ''__ipext_InNoRoutes'', False),
      (''InTruncatedPkts'', ''__ipext_InTruncatedPkts'', False),
      (''InCsumErrors'', ''__ipext_InCsumErrors'', False),
      (''InMcastOctets'', ''__ipext_InMcastOctets'', False),
      (''OutMcastOctets'', ''__ipext_OutMcastOctets'', False),
      (''InMcastPkts'', ''__ipext_InMcastPkts'', False), (''OutMcastPkts'', ''__ipext_OutMcastPkts'', False),
      (''InBcastOctets'', ''__ipext_InBcastOctets'', False),
      (''OutBcastOctets'', ''__ipext_OutBcastOctets'', False),
      (''InBcastPkts'', ''__ipext_InBcastPkts'', False), (''OutBcastPkts'', ''__ipext_OutBcastPkts'', False),
      (''InNoECTPkts'', ''__ipext_InNoECTPkts'', False), (''InECT1Pkts'', ''__ipext_InECT1Pkts'', False),
      (''InECT0Pkts'', ''__ipext_InECT0Pkts'', False), (''InCEPkts'', ''__ipext_InCEPkts'', False)]"

definition tcpext_keywords :: "keyword_vars" where
  "tcpext_keywords =
     [(''TCPFACKReorder'', ''__tcpext_TCPFACKReorder'', False),
      (''TCPRenoReorder'', ''__tcpext_TCPRenoReorder'', False),
      (''TCPSACKReorder'', ''__tcpext_TCPSACKReorder'', False),
      (''TCPTSReorder'', ''__tcpext_TCPTSReorder'', False),
      (''SyncookiesSent'', ''__tcpext_SyncookiesSent'', False),
      (''SyncookiesRecv'', ''__tcpext_SyncookiesRecv'', False),
      (''SyncookiesFailed'', ''__tcpext_SyncookiesFailed'', False),
      (''TCPOFOQueue'', ''__tcpext_TCPOFOQueue'', False), (''TCPOFODrop'', ''__tcpext_TCPOFODrop'', False),
      (''TCPOFOMerge'', ''__tcpext_TCPOFOMerge'', False), (''OfoPruned'', ''__tcpext_OfoPruned'', False),
      (''TCPAbortOnData'', ''__tcpext_TCPAbortOnData'', False),
      (''TCPAbortOnClose'', ''__tcpext_TCPAbortOnClose'', False),
      (''TCPAbortOnMemory'', ''__tcpext_TCPAbortOnMemory'', False),
      (''TCPAbortOnTimeout'', ''__tcpext_TCPAbortOnTimeout'', False),
      (''TCPAbortOnLinger'', ''__tcpext_TCPAbortOnLinger'', False),
      (''TCPAbortFailed'', ''__tcpext_TCPAbortFailed'', False),
      (''ListenOverflows'', ''__tcpext_ListenOverflows'', False),
      (''ListenDrops'', ''__tcpext_ListenDrops'', False),
      (''TCPMemoryPressures'', ''__tcpext_TCPMemoryPressures'', False),
      (''TCPReqQFullDrop'', ''__tcpext_TCPReqQFullDrop'', False),
      (''TCPReqQFullDoCookies'', ''__tcpext_TCPReqQFullDoCookies'', False)]"

text \<open>The gauges with their names.\<close>

definition netstat_gauges :: "(string \<times> string) list" where
  "netstat_gauges =
     [(''__metric_ipext_InOctets'', ''node_netstat_IpExt_InOctets''),
      (''__metric_ipext_OutOctets'', ''node_netstat_IpExt_OutOctets''),
      (''__metric_ipext_InNoRoutes'', ''node_netstat_IpExt_InNoRoutes''),
      (''__metric_ipext_InTruncatedPkts'', ''node_netstat_IpExt_inTruncatedPkts''),
      (''__metric_ipext_InCsumErrors'', ''node_netstat_IpExt_InCsumErrors''),
      (''__metric_ipext_InMcastOctets'', ''node_netstat_IpExt_InMcastOctets''),
      (''__metric_ipext_OutMcastOctets'', ''node_netstat_IpExt_OutMcastOctets''),
      (''__metric_ipext_InMcastPkts'', ''node_netstat_IpExt_InMcastPkts''),
      (''__metric_ipext_OutMcastPkts'', ''node_netstat_IpExt_OutMcastPkts''),
      (''__metric_ipext_InBcastOctets'', ''node_netstat_IpExt_InBcastOctets''),
      (''__metric_ipext_OutBcastOctets'', ''node_netstat_IpExt_OutBcastOctets''),
      (''__metric_ipext_InBcastPkts'', ''node_netstat_IpExt_InBcastPkts''),
      (''__metric_ipext_OutBcastPkts'', ''node_netstat_IpExt_OutBcastPkts''),
      (''__metric_ipext_InNoECTPkts'', ''node_netstat_IpExt_InNoECTPkts''),
      (''__metric_ipext_InECT1Pkts'', ''node_netstat_IpExt_InECT1Pkts''),
      (''__metric_ipext_InECT0Pkts'', ''node_netstat_IpExt_InECT0Pkts''),
      (''__metric_ipext_InCEPkts'', ''node_netstat_IpExt_InCEPkts''),
      (''__metric_tcpext_TCPRenoReorder'', ''node_netstat_TcpExt_TCPRenoReorder''),
      (''__metric_tcpext_TCPFACKReorder'', ''node_netstat_TcpExt_TCPFACKReorder''),
      (''__metric_tcpext_TCPSACKReorder'', ''node_netstat_TcpExt_TCPSACKReorder''),
      (''__metric_tcpext_TCPTSReorder'', ''node_netstat_TcpExt_TCPTSReorder''),
      (''__metric_tcpext_SyncookiesSent'', ''node_netstat_TcpExt_SyncookiesSent''),
      (''__metric_tcpext_SyncookiesRecv'', ''node_netstat_TcpExt_SyncookiesRecv''),
      (''__metric_tcpext_SyncookiesFailed'', ''node_netstat_TcpExt_SyncookiesFailed''),
      (''__metric_tcpext_TCPOFOQueue'', ''node_netstat_TcpExt_TCPOFOQueue''),
      (''__metric_tcpext_TCPOFODrop'', ''node_netstat_TcpExt_TCPOFODrop''),
      (''__metric_tcpext_TCPOFOMerge'', ''node_netstat_TcpExt_TCPOFOMerge''),
      (''__metric_tcpext_OfoPruned'', ''node_netstat_TcpExt_OfoPruned''),
      (''__metric_tcpext_TCPAbortOnData'', ''node_netstat_TcpExt_TCPAbortOnData''),
      (''__metric_tcpext_TCPAbortOnClose'', ''node_netstat_TcpExt_TCPAbortOnClose''),
      (''__metric_tcpext_TCPAbortOnMemory'', ''node_netstat_TcpExt_TCPAbortOnMemory''),
      (''__metric_tcpext_TCPAbortOnTimeout'', ''node_netstat_TcpExt_TCPAbortOnTimeout''),
      (''__metric_tcpext_TCPAbortOnLinger'', ''node_netstat_TcpExt_TCPAbortOnLinger''),
      (''__metric_tcpext_TCPAbortFailed'', ''node_netstat_TcpExt_TCPAbortFailed''),
      (''__metric_tcpext_ListenOverflows'', ''node_netstat_TcpExt_TCPAcceptQueueOverflows''),
      (''__metric_tcpext_ListenDrops'', ''node_netstat_TcpExt_TCPAcceptQueueDrop''),
      (''__metric_tcpext_TCPMemoryPressures'', ''node_netstat_TcpExt_TCPMemoryPressures''),
      (''__metric_tcpext_TCPReqQFullDrop'', ''node_netstat_TcpExt_TCPBacklogDrop''),
      (''__metric_tcpext_TCPReqQFullDoCookies'', ''node_netstat_TcpExt_TCPBacklogDoCookies'')]"

text \<open>The gauges that are set after a row, in the order of the code, with their variables and labels.\<close>

definition ipext_sets :: "(string \<times> string \<times> string) list" where
  "ipext_sets =
     [(''__metric_ipext_InOctets'', ''__ipext_InOctets'', ''ipext''),
      (''__metric_ipext_OutOctets'', ''__ipext_OutOctets'', ''ipext''),
      (''__metric_ipext_InNoRoutes'', ''__ipext_InNoRoutes'', ''ipext''),
      (''__metric_ipext_InTruncatedPkts'', ''__ipext_InTruncatedPkts'', ''ipext''),
      (''__metric_ipext_InCsumErrors'', ''__ipext_InCsumErrors'', ''ipext''),
      (''__metric_ipext_InMcastOctets'', ''__ipext_InMcastOctets'', ''ipext''),
      (''__metric_ipext_OutMcastOctets'', ''__ipext_OutMcastOctets'', ''ipext''),
      (''__metric_ipext_InMcastPkts'', ''__ipext_InMcastPkts'', ''ipext''),
      (''__metric_ipext_OutMcastPkts'', ''__ipext_OutMcastPkts'', ''ipext''),
      (''__metric_ipext_InBcastOctets'', ''__ipext_InBcastOctets'', ''ipext''),
      (''__metric_ipext_OutBcastOctets'', ''__ipext_OutBcastOctets'', ''ipext''),
      (''__metric_ipext_InBcastPkts'', ''__ipext_InBcastPkts'', ''ipext''),
      (''__metric_ipext_OutBcastPkts'', ''__ipext_OutBcastPkts'', ''ipext''),
      (''__metric_ipext_InNoECTPkts'', ''__ipext_InNoECTPkts'', ''ipext''),
      (''__metric_ipext_InECT1Pkts'', ''__ipext_InECT1Pkts'', ''ipext''),
      (''__metric_ipext_InECT0Pkts'', ''__ipext_InECT0Pkts'', ''ipext''),
      (''__metric_ipext_InCEPkts'', ''__ipext_InCEPkts'', ''ipext'')]"

definition tcpext_sets :: "(string \<times> string \<times> string) list" where
  "tcpext_sets =
     [(''__metric_tcpext_TCPRenoReorder'', ''__tcpext_TCPRenoReorder'', ''tcp''),
      (''__metric_tcpext_TCPSACKReorder'', ''__tcpext_TCPSACKReorder'', ''tcp''),
      (''__metric_tcpext_TCPTSReorder'', ''__tcpext_TCPTSReorder'', ''tcp''),
      (''__metric_tcpext_TCPFACKReorder'', ''__tcpext_TCPFACKReorder'', ''tcp''),
      (''__metric_tcpext_SyncookiesSent'', ''__tcpext_SyncookiesSent'', ''tcp''),
      (''__metric_tcpext_SyncookiesRecv'', ''__tcpext_SyncookiesRecv'', ''tcp''),
      (''__metric_tcpext_SyncookiesFailed'', ''__tcpext_SyncookiesFailed'', ''tcp''),
      (''__metric_tcpext_TCPOFOQueue'', ''__tcpext_TCPOFOQueue'', ''tcp''),
      (''__metric_tcpext_TCPOFODrop'', ''__tcpext_TCPOFODrop'', ''tcp''),
      (''__metric_tcpext_TCPOFOMerge'', ''__tcpext_TCPOFOMerge'', ''tcp''),
      (''__metric_tcpext_OfoPruned'', ''__tcpext_OfoPruned'', ''tcp''),
      (''__metric_tcpext_TCPAbortOnData'', ''__tcpext_TCPAbortOnData'', ''tcp''),
      (''__metric_tcpext_TCPAbortOnClose'', ''__tcpext_TCPAbortOnClose'', ''tcp''),
      (''__metric_tcpext_TCPAbortOnMemory'', ''__tcpext_TCPAbortOnMemory'', ''tcp''),
      (''__metric_tcpext_TCPAbortOnTimeout'', ''__tcpext_TCPAbortOnTimeout'', ''tcp''),
      (''__metric_tcpext_TCPAbortOnLinger'', ''__tcpext_TCPAbortOnLinger'', ''tcp''),
      (''__metric_tcpext_TCPAbortFailed'', ''__tcpext_TCPAbortFailed'', ''tcp''),
      (''__metric_tcpext_ListenOverflows'', ''__tcpext_ListenOverflows'', ''tcp''),
      (''__metric_tcpext_ListenDrops'', ''__tcpext_ListenDrops'', ''tcp''),
      (''__metric_tcpext_TCPMemoryPressures'', ''__tcpext_TCPMemoryPressures'', ''tcp''),
      (''__metric_tcpext_TCPReqQFullDrop'', ''__tcpext_TCPReqQFullDrop'', ''tcp''),
      (''__metric_tcpext_TCPReqQFullDoCookies'', ''__tcpext_TCPReqQFullDoCookies'', ''tcp'')]"

definition netstat_keywords :: "string \<Rightarrow> keyword_vars" where
  "netstat_keywords key = (if key = ''IpExt'' then ipext_keywords else tcpext_keywords)"

definition netstat_sets :: "string \<Rightarrow> (string \<times> string \<times> string) list" where
  "netstat_sets key = (if key = ''IpExt'' then ipext_sets else tcpext_sets)"

definition init_collector_proc_netstat :: net_tables where
  "init_collector_proc_netstat =
     \<lparr>nt_file = None, nt_pf = None,
      nt_arls = (\<lambda>key. arl_binds netstat_vars (netstat_keywords key)
        (arl_create (if key = ''IpExt'' then ''proc_ipext'' else ''proc_tcpext'') None 3)),
      nt_vars = (\<lambda>_. 0)\<rparr>"

text \<open>Both lists begin a round before the lines are read.\<close>

definition netstat_begin :: "(string \<Rightarrow> ARL_BASE) \<Rightarrow> (string \<Rightarrow> ARL_BASE) option" where
  "netstat_begin arls =
     (case arl_begin (arls ''IpExt'') of
        None \<Rightarrow> None
      | Some ip \<Rightarrow>
          (case arl_begin (arls ''TcpExt'') of
             None \<Rightarrow> None
           | Some tcp \<Rightarrow> Some (arls(''IpExt'' := ip, ''TcpExt'' := tcp))))"

definition netstat_values :: "string \<rightharpoonup> (mem \<Rightarrow> gauge_value list)" where
  "netstat_values key =
     (if key = ''IpExt'' \<or> key = ''TcpExt'' then Some (gauge_sets netstat_vars (netstat_sets key)) else None)"

definition collector_proc_netstat ::
  "string option \<Rightarrow> file_io \<Rightarrow> net_tables \<Rightarrow> (net_tables \<times> gauge_value list \<times> int) option" where
  "collector_proc_netstat = table_collect ''/proc/net/netstat'' netstat_begin netstat_values 2 row_matching_analysis"

section \<open>\<^verbatim>\<open>/proc/net/snmp\<close>\<close>

definition snmp_vars :: "string list" where
  "snmp_vars =
     [''__tcp_MaxConn'', ''__ip_DefaultTTL'', ''__ip_InReceives'', ''__ip_InHdrErrors'', ''__ip_InAddrErrors'',
      ''__ip_ForwDatagrams'', ''__ip_InUnknownProtos'', ''__ip_InDiscards'', ''__ip_InDelivers'',
      ''__ip_OutRequests'', ''__ip_OutDiscards'', ''__ip_OutNoRoutes'', ''__ip_ReasmTimeout'',
      ''__ip_ReasmReqds'', ''__ip_ReasmOKs'', ''__ip_ReasmFails'', ''__ip_FragOKs'', ''__ip_FragFails'',
      ''__ip_FragCreates'', ''__tcp_ActiveOpens'', ''__tcp_PassiveOpens'', ''__tcp_AttemptFails'',
      ''__tcp_EstabResets'', ''__tcp_CurrEstab'', ''__tcp_InSegs'', ''__tcp_OutSegs'', ''__tcp_RetransSegs'',
      ''__tcp_InErrs'', ''__tcp_OutRsts'', ''__tcp_InCsumErrors'', ''__udp_InDatagrams'', ''__udp_NoPorts'',
      ''__udp_InErrors'', ''__udp_OutDatagrams'', ''__udp_RcvbufErrors'', ''__udp_SndbufErrors'',
      ''__udp_InCsumErrors'', ''__udp_IgnoredMulti'']"

definition snmp_ip_keywords :: "keyword_vars" where
  "snmp_ip_keywords =
     [(''DefaultTTL'', ''__ip_DefaultTTL'', False), (''InReceives'', ''__ip_InReceives'', False),
      (''InHdrErrors'', ''__ip_InHdrErrors'', False), (''InAddrErrors'', ''__ip_InAddrErrors'', False),
      (''ForwDatagrams'', ''__ip_ForwDatagrams'', False),
      (''InUnknownProtos'', ''__ip_InUnknownProtos'', False), (''InDiscards'', ''__ip_InDiscards'', False),
      (''InDelivers'', ''__ip_InDelivers'', False), (''OutRequests'', ''__ip_OutRequests'', False),
      (''OutDiscards'', ''__ip_OutDiscards'', False), (''OutNoRoutes'', ''__ip_OutNoRoutes'', False),
      (''ReasmTimeout'', ''__ip_ReasmTimeout'', False), (''ReasmReqds'', ''__ip_ReasmReqds'', False),
      (''ReasmOKs'', ''__ip_ReasmOKs'', False), (''ReasmFails'', ''__ip_ReasmFails'', False),
      (''FragOKs'', ''__ip_FragOKs'', False), (''FragFails'', ''__ip_FragFails'', False),
      (''FragCreates'', ''__ip_FragCreates'', False)]"

definition snmp_tcp_keywords :: "keyword_vars" where
  "snmp_tcp_keywords =
     [(''MaxConn'', ''__tcp_MaxConn'', True), (''ActiveOpens'', ''__tcp_ActiveOpens'', False),
      (''PassiveOpens'', ''__tcp_PassiveOpens'', False), (''AttemptFails'', ''__tcp_AttemptFails'', False),
      (''EstabResets'', ''__tcp_EstabResets'', False), (''CurrEstab'', ''__tcp_CurrEstab'', False),
      (''InSegs'', ''__tcp_InSegs'', False), (''OutSegs'', ''__tcp_OutSegs'', False),
      (''RetransSegs'', ''__tcp_RetransSegs'', False), (''InErrs'', ''__tcp_InErrs'', False),
      (''OutRsts'', ''__tcp_OutRsts'', False), (''InCsumErrors'', ''__tcp_InCsumErrors'', False)]"

definition snmp_udp_keywords :: "keyword_vars" where
  "snmp_udp_keywords =
     [(''InDatagrams'', ''__udp_InDatagrams'', False), (''NoPorts'', ''__udp_NoPorts'', False),
      (''InErrors'', ''__udp_InErrors'', False), (''OutDatagrams'', ''__udp_OutDatagrams'', False),
      (''RcvbufErrors'', ''__udp_RcvbufErrors'', False), (''SndbufErrors'', ''__udp_SndbufErrors'', False),
      (''InCsumErrors'', ''__udp_InCsumErrors'', False), (''IgnoredMulti'', ''__udp_IgnoredMulti'', False)]"

definition snmp_gauges :: "(string \<times> string) list" where
  "snmp_gauges =
     [(''__metric_netstat_ip_defaultttl'', ''node_netstat_Ip_DefaultTTL''),
      (''__metric_netstat_ip_inreceives'', ''node_netstat_Ip_InReceives''),
      (''__metric_netstat_ip_inhdrerrors'', ''node_netstat_Ip_InHdrErrors''),
      (''__metric_netstat_ip_inaddrerrors'', ''node_netstat_Ip_InAddrErrors''),
      (''__metric_netstat_ip_forwdatagrams'', ''node_netstat_Ip_ForwDatagrams''),
      (''__metric_netstat_ip_inunknownprotos'', ''node_netstat_Ip_InUnknownProtos''),
      (''__metric_netstat_ip_indiscards'', ''node_netstat_Ip_InDiscards''),
      (''__metric_netstat_ip_indelivers'', ''node_netstat_Ip_InDelivers''),
      (''__metric_netstat_ip_outrequests'', ''node_netstat_Ip_OutRequests''),
      (''__metric_netstat_ip_outdiscards'', ''node_netstat_Ip_OutDiscards''),
      (''__metric_netstat_ip_outnoroutes'', ''node_netstat_Ip_OutNoRoutes''),
      (''__metric_netstat_ip_reasmtimeout'', ''node_netstat_Ip_ReasmTimeout''),
      (''__metric_netstat_ip_reasmreqds'', ''node_netstat_Ip_ReasmReqds''),
      (''__metric_netstat_ip_reasmoks'', ''node_netstat_Ip_ReasmOKs''),
      (''__metric_netstat_ip_reasmfails'', ''node_netstat_Ip_ReasmFails''),
      (''__metric_netstat_ip_fragoks'', ''node_netstat_Ip_FragOKs''),
      (''__metric_netstat_ip_fragfails'', ''node_netstat_Ip_FragFails''),
      (''__metric_netstat_ip_fragcreates'', ''node_netstat_Ip_FragCreates''),
      (''__metric_netstat_tcp_maxconn'', ''node_netstat_Tcp_MaxConn''),
      (''__metric_netstat_tcp_activeopens'', ''node_netstat_Tcp_ActiveOpens''),
      (''__metric_netstat_tcp_passiveopens'', ''node_netstat_Tcp_PassiveOpens''),
      (''__metric_netstat_tcp_attemptfails'', ''node_netstat_Tcp_AttemptFails''),
      (''__metric_netstat_tcp_estabresets'', ''node_netstat_Tcp_EstabResets''),
      (''__metric_netstat_tcp_currestab'', ''node_netstat_Tcp_CurrEstab''),
      (''__metric_netstat_tcp_insegs'', ''node_netstat_Tcp_InSegs''),
      (''__metric_netstat_tcp_outsegs'', ''node_netstat_Tcp_OutSegs''),
      (''__metric_netstat_tcp_retranssegs'', ''node_netstat_Tcp_RetransSegs''),
      (''__metric_netstat_tcp_inerrs'', ''node_netstat_Tcp_InErrs''),
      (''__metric_netstat_tcp_outrsts'', ''node_netstat_Tcp_OutRsts''),
      (''__metric_netstat_tcp_incsumerrors'', ''node_netstat_Tcp_InCsumErrors''),
      (''__metric_netstat_udp_indatagrams'', ''node_netstat_Udp_InDatagrams''),
      (''__metric_netstat_udp_noports'', ''node_netstat_Udp_NoPorts''),
      (''__metric_netstat_udp_inerrors'', ''node_netstat_Udp_InErrors''),
      (''__metric_netstat_udp_outdatagrams'', ''node_netstat_Udp_OutDatagrams''),
      (''__metric_netstat_udp_rcvbuferrors'', ''node_netstat_Udp_RcvbufErrors''),
      (''__metric_netstat_udp_sndbuferrors'', ''node_netstat_Udp_SndbufErrors''),
      (''__metric_netstat_udp_incsumerrors'', ''node_netstat_udp_InCsumErrors''),
      (''__metric_netstat_udp_ignoredmulti'', ''node_netstat_udp_IgnoredMulti'')]"

definition snmp_ip_sets :: "(string \<times> string \<times> string) list" where
  "snmp_ip_sets =
     [(''__metric_netstat_ip_defaultttl'', ''__ip_DefaultTTL'', ''Ip''),
      (''__metric_netstat_ip_inreceives'', ''__ip_InReceives'', ''Ip''),
      (''__metric_netstat_ip_inhdrerrors'', ''__ip_InHdrErrors'', ''Ip''),
      (''__metric_netstat_ip_inaddrerrors'', ''__ip_InAddrErrors'', ''Ip''),
      (''__metric_netstat_ip_forwdatagrams'', ''__ip_ForwDatagrams'', ''Ip''),
      (''__metric_netstat_ip_inunknownprotos'', ''__ip_InUnknownProtos'', ''Ip''),
      (''__metric_netstat_ip_indiscards'', ''__ip_InDiscards'', ''Ip''),
      (''__metric_netstat_ip_indelivers'', ''__ip_InDelivers'', ''Ip''),
      (''__metric_netstat_ip_outrequests'', ''__ip_OutRequests'', ''Ip''),
      (''__metric_netstat_ip_outdiscards'', ''__ip_OutDiscards'', ''Ip''),
      (''__metric_netstat_ip_outnoroutes'', ''__ip_OutNoRoutes'', ''Ip''),
      (''__metric_netstat_ip_reasmtimeout'', ''__ip_ReasmTimeout'', ''Ip''),
      (''__metric_netstat_ip_reasmreqds'', ''__ip_ReasmReqds'', ''Ip''),
      (''__metric_netstat_ip_reasmoks'', ''__ip_ReasmOKs'', ''Ip''),
      (''__metric_netstat_ip_reasmfails'', ''__ip_ReasmFails'', ''Ip''),
      (''__metric_netstat_ip_fragoks'', ''__ip_FragOKs'', ''Ip''),
      (''__metric_netstat_ip_fragfails'', ''__ip_FragFails'', ''Ip''),
      (''__metric_netstat_ip_fragcreates'', ''__ip_FragCreates'', ''Ip'')]"

definition snmp_tcp_sets :: "(string \<times> string \<times> string) list" where
  "snmp_tcp_sets =
     [(''__metric_netstat_tcp_maxconn'', ''__tcp_MaxConn'', ''Tcp''),
      (''__metric_netstat_tcp_activeopens'', ''__tcp_ActiveOpens'', ''Tcp''),
      (''__metric_netstat_tcp_passiveopens'', ''__tcp_PassiveOpens'', ''Tcp''),
      (''__metric_netstat_tcp_attemptfails'', ''__tcp_AttemptFails'', ''Tcp''),
      (''__metric_netstat_tcp_estabresets'', ''__tcp_EstabResets'', ''Tcp''),
      (''__metric_netstat_tcp_currestab'', ''__tcp_CurrEstab'', ''Tcp''),
      (''__metric_netstat_tcp_insegs'', ''__tcp_InSegs'', ''Tcp''),
      (''__metric_netstat_tcp_outsegs'', ''__tcp_OutSegs'', ''Tcp''),
      (''__metric_netstat_tcp_retranssegs'', ''__tcp_RetransSegs'', ''Tcp''),
      (''__metric_netstat_tcp_inerrs'', ''__tcp_InErrs'', ''Tcp''),
      (''__metric_netstat_tcp_outrsts'', ''__tcp_OutRsts'', ''Tcp''),
      (''__metric_netstat_tcp_incsumerrors'', ''__tcp_InCsumErrors'', ''Tcp'')]"

definition snmp_udp_sets :: "(string \<times> string \<times> string) list" where
  "snmp_udp_sets =
     [(''__metric_netstat_udp_indatagrams'', ''__udp_InDatagrams'', ''Udp''),
      (''__metric_netstat_udp_noports'', ''__udp_NoPorts'', ''Udp''),
      (''__metric_netstat_udp_inerrors'', ''__udp_InErrors'', ''Udp''),
      (''__metric_netstat_udp_outdatagrams'', ''__udp_OutDatagrams'', ''Udp''),
      (''__metric_netstat_udp_rcvbuferrors'', ''__udp_RcvbufErrors'', ''Udp''),
      (''__metric_netstat_udp_sndbuferrors'', ''__udp_SndbufErrors'', ''Udp''),
      (''__metric_netstat_udp_incsumerrors'', ''__udp_InCsumErrors'', ''Udp''),
      (''__metric_netstat_udp_ignoredmulti'', ''__udp_IgnoredMulti'', ''Udp'')]"

definition snmp_keywords :: "string \<Rightarrow> keyword_vars" where
  "snmp_keywords key =
     (if key = ''Ip'' then snmp_ip_keywords else if key = ''Tcp'' then snmp_tcp_keywords else snmp_udp_keywords)"

definition snmp_sets :: "string \<Rightarrow> (string \<times> string \<times> string) list" where
  "snmp_sets key = (if key = ''Ip'' then snmp_ip_sets else if key = ''Tcp'' then snmp_tcp_sets else snmp_udp_sets)"

definition init_collector_proc_net_snmp :: net_tables where
  "init_collector_proc_net_snmp =
     \<lparr>nt_file = None, nt_pf = None,
      nt_arls = (\<lambda>key. arl_binds snmp_vars (snmp_keywords key)
        (arl_create (if key = ''Ip'' then ''proc_snmp_ip'' else if key = ''Tcp'' then ''proc_snmp_tcp'' else ''proc_snmp_udp'') None 3)),
      nt_vars = (\<lambda>_. 0)\<rparr>"

definition snmp_values :: "string \<rightharpoonup> (mem \<Rightarrow> gauge_value list)" where
  "snmp_values key =
     (if key = ''Ip'' \<or> key = ''Tcp'' \<or> key = ''Udp'' then Some (gauge_sets snmp_vars (snmp_sets key)) else None)"

definition collector_proc_net_snmp ::
  "string option \<Rightarrow> file_io \<Rightarrow> net_tables \<Rightarrow> (net_tables \<times> gauge_value list \<times> int) option" where
  "collector_proc_net_snmp = table_collect ''/proc/net/snmp'' Some snmp_values 3 snmp_row"

section \<open>What is published\<close>

text \<open>The name of a gauge is that of its table and its column, but for a few columns.\<close>

definition netstat_alias :: "(string \<times> string) list" where
  "netstat_alias =
     [(''InTruncatedPkts'', ''inTruncatedPkts''), (''ListenOverflows'', ''TCPAcceptQueueOverflows''),
      (''ListenDrops'', ''TCPAcceptQueueDrop''), (''TCPReqQFullDrop'', ''TCPBacklogDrop''),
      (''TCPReqQFullDoCookies'', ''TCPBacklogDoCookies'')]"

definition netstat_columns :: "string \<Rightarrow> string list" where
  "netstat_columns key =
     (if key = ''IpExt'' then map fst ipext_keywords
      else
        [''TCPRenoReorder'', ''TCPSACKReorder'', ''TCPTSReorder'', ''TCPFACKReorder'', ''SyncookiesSent'',
         ''SyncookiesRecv'', ''SyncookiesFailed'', ''TCPOFOQueue'', ''TCPOFODrop'', ''TCPOFOMerge'',
         ''OfoPruned'', ''TCPAbortOnData'', ''TCPAbortOnClose'', ''TCPAbortOnMemory'', ''TCPAbortOnTimeout'',
         ''TCPAbortOnLinger'', ''TCPAbortFailed'', ''ListenOverflows'', ''ListenDrops'',
         ''TCPMemoryPressures'', ''TCPReqQFullDrop'', ''TCPReqQFullDoCookies''])"

definition netstat_names :: "string \<Rightarrow> (string \<times> string \<times> string) list" where
  "netstat_names key =
     map (\<lambda>c. (c, ''node_netstat_'' @ key @ ''_'' @ (case map_of netstat_alias c of None \<Rightarrow> c | Some n \<Rightarrow> n),
       if key = ''IpExt'' then ''ipext'' else ''tcp'')) (netstat_columns key)"

definition snmp_names :: "string \<Rightarrow> (string \<times> string \<times> string) list" where
  "snmp_names key =
     map (\<lambda>c. (c, ''node_netstat_'' @ (if key = ''Udp'' \<and> c \<in> set [''InCsumErrors'', ''IgnoredMulti''] then ''udp'' else key)
       @ ''_'' @ c, key)) (map fst (snmp_keywords key))"

definition netstat_keys :: "string list" where "netstat_keys = [''IpExt'', ''TcpExt'']"

definition snmp_keys :: "string list" where "snmp_keys = [''Ip'', ''Tcp'', ''Udp'']"

lemma netstat_named: "list_all (\<lambda>g. sets_named netstat_gauges (netstat_keywords g) (netstat_sets g) (netstat_names g)) netstat_keys"
  by code_simp

lemma snmp_named: "list_all (\<lambda>g. sets_named snmp_gauges (snmp_keywords g) (snmp_sets g) (snmp_names g)) snmp_keys"
  by code_simp

interpretation netstat: table_file netstat_vars netstat_keys netstat_keywords netstat_gauges netstat_values
  "\<lambda>g. column_report (netstat_names g)" 2 row_matching_analysis begun netstat_begin "''/proc/net/netstat''"
proof
  show "cells_distinct netstat_vars netstat_keys netstat_keywords" by code_simp
  show "dom netstat_values = set netstat_keys" by (auto simp: netstat_values_def netstat_keys_def split: if_splits)
  show "[] \<notin> set netstat_keys" by (simp add: netstat_keys_def)
next
  fix g f and m :: mem and val
  assume g: "g \<in> set netstat_keys" and "netstat_values g = Some f"
    and v: "list_all (\<lambda>(k, x, sg). m (addr_of netstat_vars x) = val k) (netstat_keywords g)"
  then have "f = gauge_sets netstat_vars (netstat_sets g)" by (auto simp: netstat_values_def split: if_splits)
  moreover have "sets_named netstat_gauges (netstat_keywords g) (netstat_sets g) (netstat_names g)"
    using netstat_named g by (simp add: list_all_iff)
  ultimately show "published netstat_gauges (f m) = map (\<lambda>(n, v, l). (Some n, v, l)) (column_report (netstat_names g) val)"
    using sets_publish [OF _ v] by simp
next
  fix tg Kg arls
  assume a: "\<And>g. g \<in> set netstat_keys \<Longrightarrow> arl_for (tg g) (Kg g) (arls g)"
  obtain ip where ip: "arl_begin (arls ''IpExt'') = Some ip" "begun (tg ''IpExt'') (Kg ''IpExt'') ip"
    using arl_for_begun a by (metis netstat_keys_def list.set_intros(1))
  obtain tcp where "arl_begin (arls ''TcpExt'') = Some tcp" "begun (tg ''TcpExt'') (Kg ''TcpExt'') tcp"
    using arl_for_begun a by (metis netstat_keys_def list.set_intros)
  with ip show "\<exists>arls'. netstat_begin arls = Some arls' \<and> (\<forall>g \<in> set netstat_keys. begun (tg g) (Kg g) (arls' g))"
    by (simp add: netstat_begin_def netstat_keys_def)
qed (rule row_matching_analysis_stores)

interpretation snmp: table_file snmp_vars snmp_keys snmp_keywords snmp_gauges snmp_values
  "\<lambda>g. column_report (snmp_names g)" 3 snmp_row arl_for Some "''/proc/net/snmp''"
proof
  show "cells_distinct snmp_vars snmp_keys snmp_keywords" by code_simp
  show "dom snmp_values = set snmp_keys" by (auto simp: snmp_values_def snmp_keys_def split: if_splits)
  show "[] \<notin> set snmp_keys" by (simp add: snmp_keys_def)
next
  fix g f and m :: mem and val
  assume g: "g \<in> set snmp_keys" and "snmp_values g = Some f"
    and v: "list_all (\<lambda>(k, x, sg). m (addr_of snmp_vars x) = val k) (snmp_keywords g)"
  then have "f = gauge_sets snmp_vars (snmp_sets g)" by (auto simp: snmp_values_def split: if_splits)
  moreover have "sets_named snmp_gauges (snmp_keywords g) (snmp_sets g) (snmp_names g)"
    using snmp_named g by (simp add: list_all_iff)
  ultimately show "published snmp_gauges (f m) = map (\<lambda>(n, v, l). (Some n, v, l)) (column_report (snmp_names g) val)"
    using sets_publish [OF _ v] by simp
qed (auto intro: snmp_row_stores)

section \<open>Rounds\<close>

lemma netstat_new:
  "\<forall>g \<in> set netstat_keys. columns_of (netstat_keywords g) tabs g = K g \<Longrightarrow> netstat.tables_inv K init_collector_proc_netstat"
  unfolding init_collector_proc_netstat_def by (rule netstat.new_tables [OF ballI [OF refl]])

lemma snmp_new:
  "\<forall>g \<in> set snmp_keys. columns_of (snmp_keywords g) tabs g = K g \<Longrightarrow> snmp.tables_inv K init_collector_proc_net_snmp"
  unfolding init_collector_proc_net_snmp_def by (rule snmp.new_tables [OF ballI [OF refl]])

lemma netstat_rounds:
  assumes "list_all2 (\<lambda>io (c, tabs). io_file io c \<and> file_tables c tabs) ios cs" and "cs \<noteq> []"
    and "\<forall>(c, tabs) \<in> set cs. tabs_ok netstat_keys 2 tabs \<and> (\<forall>g \<in> set netstat_keys. columns_of (netstat_keywords g) tabs g = K g)"
  shows "\<exists>s' outs. run_rounds (collector_proc_netstat conf) ios init_collector_proc_netstat = Some (s', outs) \<and>
    map (\<lambda>(ms, r). (published netstat_gauges ms, r)) outs =
    map (\<lambda>(c, tabs). (map (\<lambda>(n, v, l). (Some n, v, l))
      (concat (map (table_report netstat_keys netstat_keywords (\<lambda>g. column_report (netstat_names g))) tabs)), 0)) cs"
proof -
  obtain c tabs where "(c, tabs) \<in> set cs" using assms(2) by (cases cs) auto
  then have "\<forall>g \<in> set netstat_keys. columns_of (netstat_keywords g) tabs g = K g" using assms(3) by blast
  then have "netstat.tables_inv K init_collector_proc_netstat" by (rule netstat_new)
  from netstat.rounds_tables [OF assms(1,3) this] show ?thesis by (simp add: collector_proc_netstat_def)
qed

text \<open>C15: the gauges of \<^verbatim>\<open>/proc/net/snmp\<close> in a series of rounds, from the collector as it is made. A file has two
  lines per table, the names of the columns and their values; the tables may come in any order and others
  may stand between them. However the kernel cuts the reads and in whatever order the columns come, every
  round ends without an error and sets, table by table, every gauge of the three known tables to the value
  of its column in that round, under the name of the table and the column (\<open>MaxConn\<close>, which may be
  negative, as a signed number); a column that the files do not have counts as zero. The files of the
  rounds have the same expected columns, each once, and a value for every column of the known tables.\<close>

theorem snmp_rounds:
  assumes "list_all2 (\<lambda>io (c, tabs). io_file io c \<and> file_tables c tabs) ios cs" and "cs \<noteq> []"
    and "\<forall>(c, tabs) \<in> set cs. tabs_ok snmp_keys 3 tabs \<and> (\<forall>g \<in> set snmp_keys. columns_of (snmp_keywords g) tabs g = K g)"
  shows "\<exists>s' outs. run_rounds (collector_proc_net_snmp conf) ios init_collector_proc_net_snmp = Some (s', outs) \<and>
    map (\<lambda>(ms, r). (published snmp_gauges ms, r)) outs =
    map (\<lambda>(c, tabs). (map (\<lambda>(n, v, l). (Some n, v, l))
      (concat (map (table_report snmp_keys snmp_keywords (\<lambda>g. column_report (snmp_names g))) tabs)), 0)) cs"
proof -
  obtain c tabs where "(c, tabs) \<in> set cs" using assms(2) by (cases cs) auto
  then have "\<forall>g \<in> set snmp_keys. columns_of (snmp_keywords g) tabs g = K g" using assms(3) by blast
  then have "snmp.tables_inv K init_collector_proc_net_snmp" by (rule snmp_new)
  from snmp.rounds_tables [OF assms(1,3) this] show ?thesis by (simp add: collector_proc_net_snmp_def)
qed

text \<open>Two rounds with a table that is not known between the others.\<close>

definition snmp_example :: "nat \<Rightarrow> string \<times> net_table list" where
  "snmp_example n =
     (let line = (\<lambda>k ws. k @ '':'' @ concat (map (\<lambda>w. '' '' @ w) ws) @ [CHR 0x0A]);
          tabs = [(''Ip'', [''Forwarding'', ''DefaultTTL''], [''1'', ''64'']), (''Icmp'', [''InMsgs''], [''9'']),
            (''Tcp'', [''MaxConn'', ''InSegs''], [''-1'', if n = 0 then ''7'' else ''12'']),
            (''Udp'', [''NoPorts'', ''InDatagrams''], [''3'', if n = 0 then ''4'' else ''8''])]
      in (concat (map (\<lambda>(k, h, v). line k h @ line k v) tabs), tabs))"

lemma snmp_example_ok:
  "file_tables (fst (snmp_example 0)) (snd (snmp_example 0))" "file_tables (fst (snmp_example 1)) (snd (snmp_example 1))"
  "tabs_ok snmp_keys 3 (snd (snmp_example 0))" "tabs_ok snmp_keys 3 (snd (snmp_example 1))"
  "NUL \<notin> set (fst (snmp_example 0))" "NUL \<notin> set (fst (snmp_example 1))"
  by code_simp+

lemma snmp_example_columns:
  "columns_of (snmp_keywords g) (snd (snmp_example 1)) g = columns_of (snmp_keywords g) (snd (snmp_example 0)) g"
  by (rule columns_of_headers) code_simp

theorem snmp_rounds_witness:
  "\<exists>s' a b. run_rounds (collector_proc_net_snmp None) [file_of (fst (snmp_example 0)), file_of (fst (snmp_example 1))]
      init_collector_proc_net_snmp = Some (s', [(a, 0), (b, 0)]) \<and>
    published snmp_gauges a ! 18 = (Some ''node_netstat_Tcp_MaxConn'', - 1, ''Tcp'') \<and>
    published snmp_gauges a ! 24 = (Some ''node_netstat_Tcp_InSegs'', 7, ''Tcp'') \<and>
    published snmp_gauges b ! 24 = (Some ''node_netstat_Tcp_InSegs'', 12, ''Tcp'') \<and>
    published snmp_gauges b ! 30 = (Some ''node_netstat_Udp_InDatagrams'', 8, ''Udp'')"
proof -
  let ?cs = "[snmp_example 0, snmp_example 1]" and ?R = "\<lambda>n. concat (map (table_report snmp_keys snmp_keywords
    (\<lambda>g. column_report (snmp_names g))) (snd (snmp_example n)))"
  have f: "list_all2 (\<lambda>io (c, tabs). io_file io c \<and> file_tables c tabs) (map (\<lambda>(c, t). file_of c) ?cs) ?cs"
    using snmp_example_ok by (simp add: case_prod_beta)
  have k: "\<forall>(c, tabs) \<in> set ?cs. tabs_ok snmp_keys 3 tabs \<and>
      (\<forall>g \<in> set snmp_keys. columns_of (snmp_keywords g) tabs g = columns_of (snmp_keywords g) (snd (snmp_example 0)) g)"
    using snmp_example_ok snmp_example_columns by (auto simp: case_prod_beta simp del: One_nat_def)
  from snmp_rounds [OF f _ k, of None] obtain s' outs where
    "run_rounds (collector_proc_net_snmp None) (map (\<lambda>(c, t). file_of c) ?cs) init_collector_proc_net_snmp = Some (s', outs)"
    and o: "map (\<lambda>(ms, r). (published snmp_gauges ms, r)) outs =
      map (\<lambda>n. (map (\<lambda>(n, v, l). (Some n, v, l)) (?R n), 0)) [0, 1]" by (auto simp: case_prod_beta)
  moreover from o obtain a b where "outs = [(a, 0), (b, 0)]" by (auto simp: map_eq_Cons_conv)
  moreover have "length (?R 0) = 38" "length (?R 1) = 38" "?R 0 ! 18 = (''node_netstat_Tcp_MaxConn'', - 1, ''Tcp'')"
    "?R 0 ! 24 = (''node_netstat_Tcp_InSegs'', 7, ''Tcp'')" "?R 1 ! 24 = (''node_netstat_Tcp_InSegs'', 12, ''Tcp'')"
    "?R 1 ! 30 = (''node_netstat_Udp_InDatagrams'', 8, ''Udp'')" by code_simp+
  ultimately show ?thesis by (auto simp: case_prod_beta)
qed

end
