(* ===== verification/XM_Sockstat.thy ===== *)
theory XM_Sockstat
  imports XM_NetTables XM_Os
begin

text \<open>
  \<^verbatim>\<open>collectors/proc/proc_net_sockstat.c\<close>, with \<^verbatim>\<open>read_tcp_mem\<close> and \<^verbatim>\<open>read_tcp_max_orphans\<close> of \<^verbatim>\<open>utils/os.c\<close>: one line per
  protocol, with names and values in turn, and a keyword list per protocol that is chosen by the first
  letters of the line. The number that a gauge is set to is given before its conversion to \<^verbatim>\<open>double\<close>.
\<close>

section \<open>Thresholds of the kernel\<close>

text \<open>\<^verbatim>\<open>strtoull(s, &end, 10)\<close>: the number and the text at \<^verbatim>\<open>end\<close>.\<close>

definition strtoull :: "string \<Rightarrow> u64 \<times> string" where
  "strtoull tok =
     (let s = dropWhile is_space tok;
          negative = (s \<noteq> [] \<and> hd s = CHR ''-'');
          s1 = (if s \<noteq> [] \<and> (hd s = CHR ''-'' \<or> hd s = CHR ''+'') then tl s else s);
          ds = takeWhile is_digit s1;
          v = dec_value 0 ds
      in if ds = [] then (0, tok)
         else (if 2 ^ 64 \<le> v then - 1 else if negative then - of_nat v else of_nat v, dropWhile is_digit s1))"

definition read_tcp_mem :: "file_read \<Rightarrow> (u64 \<times> u64 \<times> u64) \<Rightarrow> int \<times> (u64 \<times> u64 \<times> u64)" where
  "read_tcp_mem f old =
     (let (ret, buf) = read_file f 1023
      in if ret < 0 then (ret, old)
         else let (low, s1) = strtoull (cstr buf); (pressure, s2) = strtoull s1; (high, s3) = strtoull s2
              in (0, (low, pressure, high)))"

definition read_tcp_max_orphans :: "file_read \<Rightarrow> int \<times> u64" where
  "read_tcp_max_orphans f = (let (r, n) = read_file_to_uint64 f in (if r < 0 then - 1 else 0, n))"

section \<open>Lists, variables and gauges\<close>

definition sockstat_vars :: "string list" where
  "sockstat_vars =
     [''sockets_used'', ''tcp_inuse'', ''tcp_orphan'', ''tcp_tw'', ''tcp_alloc'', ''tcp_mem'', ''udp_inuse'', ''udp_mem'',
      ''raw_inuse'', ''frag_inuse'', ''frag_memory'', ''tcp_mem_low_threshold'', ''tcp_mem_pressure_threshold'',
      ''tcp_mem_high_threshold'', ''tcp_max_orphans'']"

text \<open>The lists go by the words that their lines begin with.\<close>

definition sockstat_keywords :: "string \<Rightarrow> keyword_vars" where
  "sockstat_keywords g =
     (if g = ''sockets'' then [(''used'', ''sockets_used'', False)]
      else if g = ''TCP'' then
        [(''inuse'', ''tcp_inuse'', False), (''orphan'', ''tcp_orphan'', False), (''tw'', ''tcp_tw'', False),
         (''alloc'', ''tcp_alloc'', False), (''mem'', ''tcp_mem'', False)]
      else if g = ''UDP'' then [(''inuse'', ''udp_inuse'', False), (''mem'', ''udp_mem'', False)]
      else if g = ''RAW'' then [(''inuse'', ''raw_inuse'', False)]
      else if g = ''FRAG'' then [(''inuse'', ''frag_inuse'', False), (''memory'', ''frag_memory'', False)]
      else [])"

definition sockstat_arl_name :: "string \<Rightarrow> string" where
  "sockstat_arl_name g =
     (if g = ''sockets'' then ''sockstat/sockets'' else if g = ''TCP'' then ''sockstat/tcp''
      else if g = ''UDP'' then ''sockstat/udp'' else if g = ''UDPLITE'' then ''sockstat/udplite''
      else if g = ''RAW'' then ''sockstat/raw'' else ''sockstat/frag'')"

definition sockstat_gauges :: "(string \<times> string) list" where
  "sockstat_gauges =
     [(''__metric_sockstat_sockets_used'', ''node_sockstat_sockets_used''),
      (''__metric_sockstat_tcp_inuse'', ''node_sockstat_TCP_inuse''),
      (''__metric_sockstat_tcp_orphan'', ''node_sockstat_TCP_orphan''),
      (''__metric_sockstat_tcp_tw'', ''node_sockstat_TCP_tw''),
      (''__metric_sockstat_tcp_alloc'', ''node_sockstat_TCP_alloc''),
      (''__metric_sockstat_tcp_mem'', ''node_sockstat_TCP_mem''),
      (''__metric_sockstat_udp_inuse'', ''node_sockstat_UDP_inuse''),
      (''__metric_sockstat_udp_mem'', ''node_sockstat_UDP_mem''),
      (''__metric_sockstat_raw_inuse'', ''node_sockstat_RAW_inuse''),
      (''__metric_sockstat_frag_memory'', ''node_sockstat_FRAG_memory''),
      (''__metric_sockstat_frag_inuse'', ''node_sockstat_FRAG_inuse''),
      (''__metric_sockstat_tcp_mem_low_threshold'', ''tcp_mem_low_threshold''),
      (''__metric_sockstat_tcp_mem_high_threshold'', ''tcp_mem_high_threshold''),
      (''__metric_sockstat_tcp_mem_pressure_threshold'', ''node_tcp_mem_pressure_threshold''),
      (''__metric_sockstat_tcp_max_orphans'', ''node_tcp_max_orphans'')]"

text \<open>The page size in kilobytes, from \<^verbatim>\<open>sysconf(_SC_PAGESIZE)\<close>, as a factor of an unsigned number.\<close>

definition get_pgsize_kb :: "int \<Rightarrow> u64" where
  "get_pgsize_kb page_size = scast (word_of_int (page_size div 1024) :: i32)"

definition init_collector_proc_net_sockstat ::
  "int \<Rightarrow> file_read \<Rightarrow> file_read \<Rightarrow> net_tables \<times> gauge_value list" where
  "init_collector_proc_net_sockstat page_size tcp_mem orphans =
     (let (r, low, pressure, high) = read_tcp_mem tcp_mem (0, 0, 0);
          (r', max_orphans) = read_tcp_max_orphans orphans;
          at = addr_of sockstat_vars;
          pg = get_pgsize_kb page_size
      in (\<lparr>nt_file = None, nt_pf = None,
           nt_arls = (\<lambda>g. arl_binds sockstat_vars (sockstat_keywords g) (arl_create (sockstat_arl_name g) None 3)),
           nt_vars = (\<lambda>_. 0)(at ''tcp_mem_low_threshold'' := low, at ''tcp_mem_pressure_threshold'' := pressure,
             at ''tcp_mem_high_threshold'' := high, at ''tcp_max_orphans'' := max_orphans)\<rparr>,
          [(''__metric_sockstat_tcp_mem_low_threshold'', low * pg, ''tcp''),
           (''__metric_sockstat_tcp_mem_pressure_threshold'', pressure * pg, ''tcp''),
           (''__metric_sockstat_tcp_mem_high_threshold'', high * pg, ''tcp''),
           (''__metric_sockstat_tcp_max_orphans'', max_orphans, ''tcp'')]))"

section \<open>A round\<close>

definition sockstat_list :: "string \<Rightarrow> string option" where
  "sockstat_list key =
     (if has_prefix ''sockets'' key then Some ''sockets'' else if has_prefix ''TCP'' key then Some ''TCP''
      else if has_prefix ''UDP'' key then Some ''UDP'' else if has_prefix ''RAW'' key then Some ''RAW''
      else if has_prefix ''FRAG'' key then Some ''FRAG'' else if has_prefix ''UDPLITE'' key then Some ''UDPLITE''
      else None)"

function value_pairs :: "proc_file \<Rightarrow> nat \<Rightarrow> nat \<Rightarrow> nat \<Rightarrow> (string \<times> string) list" where
  "value_pairs pf l n w =
     (if w + 1 < n then (procfile_lineword pf l w, procfile_lineword pf l (w + 1)) # value_pairs pf l n (w + 2) else [])"
  by pat_completeness auto
termination
  by (relation "measure (\<lambda>(pf, l, n, w). n - w)") auto

declare value_pairs.simps [simp del]

fun begin_lists :: "string list \<Rightarrow> (string \<Rightarrow> ARL_BASE) \<Rightarrow> (string \<Rightarrow> ARL_BASE) option" where
  "begin_lists [] arls = Some arls"
| "begin_lists (g # gs) arls =
     (case arl_begin (arls g) of None \<Rightarrow> None | Some b \<Rightarrow> begin_lists gs (arls(g := b)))"

function sockstat_loop ::
  "proc_file \<Rightarrow> nat \<Rightarrow> (string \<Rightarrow> ARL_BASE) \<Rightarrow> mem \<Rightarrow> ((string \<Rightarrow> ARL_BASE) \<times> mem) option" where
  "sockstat_loop pf l arls m =
     (if procfile_lines pf \<le> l then Some (arls, m)
      else case sockstat_list (procfile_lineword pf l 0) of
             None \<Rightarrow> sockstat_loop pf (l + 1) arls m
           | Some g \<Rightarrow>
               (case scan_lines arl_check (arls g) (value_pairs pf l (procfile_linewords pf l) 1) m of
                  None \<Rightarrow> None
                | Some (b, m1) \<Rightarrow> sockstat_loop pf (l + 1) (arls(g := b)) m1))"
  by pat_completeness auto
termination
  by (relation "measure (\<lambda>(pf, l, arls, m). procfile_lines pf - l)") auto

declare sockstat_loop.simps [simp del]

definition sockstat_values :: "u64 \<Rightarrow> mem \<Rightarrow> gauge_value list" where
  "sockstat_values pg m =
     (let v = (\<lambda>x. m (addr_of sockstat_vars x))
      in [(''__metric_sockstat_sockets_used'', v ''sockets_used'', ''sockets''),
          (''__metric_sockstat_tcp_inuse'', v ''tcp_inuse'', ''tcp''),
          (''__metric_sockstat_tcp_orphan'', v ''tcp_orphan'', ''tcp''),
          (''__metric_sockstat_tcp_tw'', v ''tcp_tw'', ''tcp''),
          (''__metric_sockstat_tcp_alloc'', v ''tcp_alloc'', ''tcp''),
          (''__metric_sockstat_tcp_mem'', v ''tcp_mem'' * pg, ''tcp''),
          (''__metric_sockstat_udp_inuse'', v ''udp_inuse'', ''udp''),
          (''__metric_sockstat_udp_mem'', v ''udp_mem'' * pg, ''udp''),
          (''__metric_sockstat_raw_inuse'', v ''raw_inuse'', ''raw_sockets''),
          (''__metric_sockstat_frag_inuse'', v ''frag_inuse'', ''frag_sockets''),
          (''__metric_sockstat_frag_memory'', v ''frag_memory'' * pg, ''frag_sockets'')])"

definition collector_proc_net_sockstat ::
  "int \<Rightarrow> string option \<Rightarrow> file_io \<Rightarrow> net_tables \<Rightarrow> (net_tables \<times> gauge_value list \<times> int) option" where
  "collector_proc_net_sockstat page_size conf io s =
     (let name = monitor_file (nt_file s) conf ''/proc/net/sockstat''; s1 = s\<lparr>nt_file := Some name\<rparr>
      in case open_and_read io name (Some keyword_seps) PROCFILE_FLAG_DEFAULT (nt_pf s) of
           None \<Rightarrow> None
         | Some None \<Rightarrow> Some (s1\<lparr>nt_pf := None\<rparr>, [], - 1)
         | Some (Some pf) \<Rightarrow>
             (case begin_lists [''sockets'', ''TCP'', ''UDP'', ''RAW'', ''FRAG'', ''UDPLITE''] (nt_arls s) of
                None \<Rightarrow> None
              | Some arls \<Rightarrow>
                  (case sockstat_loop pf 0 arls (nt_vars s) of
                     None \<Rightarrow> None
                   | Some (arls', m) \<Rightarrow>
                       Some (s1\<lparr>nt_pf := Some pf, nt_arls := arls', nt_vars := m\<rparr>,
                         sockstat_values (get_pgsize_kb page_size) m, 0))))"

section \<open>The thresholds\<close>

lemma strtoull_number:
  assumes "n < 2 ^ 64" and "list_all is_space ws" and "r = [] \<or> \<not> is_digit (hd r)"
  shows "strtoull (ws @ decimal n @ r) = (of_nat n, r)"
proof -
  have h: "hd (decimal n) \<noteq> CHR ''-''" "hd (decimal n) \<noteq> CHR ''+''" "\<not> is_space (hd (decimal n))"
    using hd_decimal_digit [of n] by (auto simp: is_digit_def is_space_def)
  have d: "list_all is_digit (decimal n)" "decimal n \<noteq> []" by (simp_all add: decimal_digits decimal_not_Nil)
  have "dropWhile is_space (ws @ decimal n @ r) = decimal n @ r"
    using assms(2) h(3) d(2) by (cases "decimal n") (auto simp: list_all_iff dropWhile_append)
  moreover have "takeWhile is_digit (decimal n @ r) = decimal n" "dropWhile is_digit (decimal n @ r) = r"
    using d(1) assms(3) by (cases r; auto simp: list_all_iff takeWhile_append dropWhile_append)+
  ultimately show ?thesis using h d(2) assms(1) by (simp add: strtoull_def dec_value_decimal)
qed

text \<open>The three thresholds of the kernel's file, separated by tabs, are read in their order.\<close>

lemma read_tcp_mem_numbers:
  assumes "a < 2 ^ 64" and "b < 2 ^ 64" and "c < 2 ^ 64"
    and "f 1023 = Some (decimal a @ [CHR 0x09] @ decimal b @ [CHR 0x09] @ decimal c @ [CHR 0x0A])"
  shows "read_tcp_mem f old = (0, of_nat a, of_nat b, of_nat c)"
proof -
  let ?t = "decimal a @ [CHR 0x09] @ decimal b @ [CHR 0x09] @ decimal c @ [CHR 0x0A]"
  have "NUL \<notin> set (decimal n)" for n using decimal_digits [of n] by (auto simp: list_all_iff is_digit_def)
  then have "cstr ?t = ?t" by (auto simp: cstr_def takeWhile_eq_all_conv)
  moreover have "strtoull ?t = (of_nat a, [CHR 0x09] @ decimal b @ [CHR 0x09] @ decimal c @ [CHR 0x0A])"
    using strtoull_number [OF assms(1), of "[]" "[CHR 0x09] @ decimal b @ [CHR 0x09] @ decimal c @ [CHR 0x0A]"] by (simp add: is_digit_def)
  moreover have "strtoull ([CHR 0x09] @ decimal b @ [CHR 0x09] @ decimal c @ [CHR 0x0A]) = (of_nat b, [CHR 0x09] @ decimal c @ [CHR 0x0A])"
    using strtoull_number [OF assms(2), of "[CHR 0x09]" "[CHR 0x09] @ decimal c @ [CHR 0x0A]"] by (simp add: is_digit_def is_space_def)
  moreover have "strtoull ([CHR 0x09] @ decimal c @ [CHR 0x0A]) = (of_nat c, [CHR 0x0A])"
    using strtoull_number [OF assms(3), of "[CHR 0x09]" "[CHR 0x0A]"] by (simp add: is_digit_def is_space_def)
  ultimately show ?thesis using assms(4) by (simp add: read_tcp_mem_def read_file_def)
qed

section \<open>The lists in a round\<close>

lemma scan_next_keyword:
  "arl_ok b \<Longrightarrow> next_keyword b \<noteq> None \<Longrightarrow> scan_lines arl_check b ls m = Some (b', m') \<Longrightarrow> next_keyword b' \<noteq> None"
proof (induction ls arbitrary: b m)
  case (Cons kv ls)
  obtain k v where kv: "kv = (k, v)" by (cases kv)
  from arl_check_total [OF Cons.prems(1,2)] obtain b1 where b1: "arl_check_post b k b1"
    "arl_check b k v m = Some (b1, store_value (arl_target b k) k v m, found b1 = wanted b1)" .
  with Cons kv show ?case by (auto simp: arl_check_post_def split: if_splits)
qed simp

lemma arl_begin_for:
  assumes "arl_for t K b0" and "arl_begin b0 = Some b"
  shows "arl_ok b" and "next_keyword b \<noteq> None" and "arl_target b = t" and "0 < rechecks b"
proof -
  have "arl_ok b0" "0 < iteration b0 \<longrightarrow> 0 < rechecks b0" using assms(1) by (auto simp: arl_for_def)
  from arl_begin_Some [OF this] obtain b' where b': "arl_begin b0 = Some b'" "arl_ok b'" "next_keyword b' = Some 0"
    "arl_target b' = arl_target b0" "rechecks b' = rechecks b0" .
  moreover have "b' = b" using b'(1) assms(2) by simp
  ultimately show "arl_ok b" "next_keyword b \<noteq> None" "arl_target b = t" "0 < rechecks b"
    using assms(1) by (simp_all add: arl_for_def)
qed

text \<open>A line of a list in its round stores its values; another line of one pair stores its own on top.\<close>

lemma begun_line:
  assumes "begun t K b" and "distinct (map fst ls)" and "K = {k \<in> fst ` set ls. t k \<noteq> None}"
  shows "\<exists>b'. scan_lines arl_check b ls m = Some (b', foldl (\<lambda>m (k, v). store_value (t k) k v m) m ls) \<and>
    arl_for t K b' \<and> next_keyword b' \<noteq> None"
proof -
  obtain b0 where b0: "arl_for t K b0" "arl_begin b0 = Some b" using assms(1) by (auto simp: begun_def)
  from keyword_round [OF b0(1) assms(2,3), of m] b0(2) obtain b' where
    b': "scan_lines arl_check b ls m = Some (b', foldl (\<lambda>m (k, v). store_value (t k) k v m) m ls)" "arl_for t K b'" by auto
  from scan_next_keyword [OF arl_begin_for(1,2) [OF b0] b'(1)] b' show ?thesis by blast
qed

lemma another_pair:
  assumes "arl_for t K b" and "next_keyword b \<noteq> None"
  shows "\<exists>b'. scan_lines arl_check b [(k, v)] m = Some (b', store_value (t k) k v m) \<and> arl_for t K b'"
proof -
  have ok: "arl_ok b" "arl_target b = t" using assms(1) by (simp_all add: arl_for_def)
  from arl_check_total [OF ok(1) assms(2)] obtain b1 where b1: "arl_check_post b k b1"
    "arl_check b k v m = Some (b1, store_value (t k) k v m, found b1 = wanted b1)" unfolding ok(2) .
  have "seen_names b1 = insert k (seen_names b)" using arl_check_seen [OF ok(1) assms(2) b1(2)] .
  then have "arl_for t K b1" using assms(1) b1(1) by (auto simp: arl_for_def arl_check_post_def)
  with b1(2) show ?thesis by auto
qed

lemma begun_idle:
  assumes "begun t {} b"
  shows "arl_for t {} b"
proof -
  obtain b0 where b0: "arl_for t {} b0" "arl_begin b0 = Some b" using assms by (auto simp: begun_def)
  from arl_begin_for [OF this] show ?thesis by (simp add: arl_for_def)
qed

lemma begin_lists_begun:
  assumes "distinct gs" and "\<forall>g \<in> set gs. arl_for (tg g) (Kg g) (arls g)"
  shows "\<exists>arls'. begin_lists gs arls = Some arls' \<and> (\<forall>g \<in> set gs. begun (tg g) (Kg g) (arls' g)) \<and> (\<forall>g. g \<notin> set gs \<longrightarrow> arls' g = arls g)"
  using assms
proof (induction gs arbitrary: arls)
  case (Cons g gs)
  then obtain b where b: "arl_begin (arls g) = Some b" "begun (tg g) (Kg g) b" by (meson arl_for_begun list.set_intros(1))
  have "\<forall>x \<in> set gs. arl_for (tg x) (Kg x) ((arls(g := b)) x)" using Cons.prems by auto
  moreover have "distinct gs" using Cons.prems(1) by simp
  ultimately obtain arls' where
    i: "begin_lists gs (arls(g := b)) = Some arls'" "\<forall>g \<in> set gs. begun (tg g) (Kg g) (arls' g)"
    "\<forall>x. x \<notin> set gs \<longrightarrow> arls' x = (arls(g := b)) x" using Cons.IH by blast
  with b Cons.prems(1) show ?case by auto
qed simp

section \<open>What is published\<close>

text \<open>The lines that the kernel writes, with their names; \<open>v k c\<close> is the value of \<open>c\<close> in the line \<open>k\<close>.\<close>

definition sockstat_layout :: "(string \<times> string list) list" where
  "sockstat_layout =
     [(''sockets'', [''used'']), (''TCP'', [''inuse'', ''orphan'', ''tw'', ''alloc'', ''mem'']), (''UDP'', [''inuse'', ''mem'']),
      (''UDPLITE'', [''inuse'']), (''RAW'', [''inuse'']), (''FRAG'', [''inuse'', ''memory''])]"

definition sockstat_row :: "(string \<Rightarrow> string \<Rightarrow> string) \<Rightarrow> string \<times> string list \<Rightarrow> string list" where
  "sockstat_row v line = (case line of (k, cs) \<Rightarrow> k # concat (map (\<lambda>c. [c, v k c]) cs))"

definition sockstat_file :: "string \<Rightarrow> (string \<Rightarrow> string \<Rightarrow> string) \<Rightarrow> bool" where
  "sockstat_file c v \<longleftrightarrow> cut_text (seps_of keyword_seps) c = map (sockstat_row v) sockstat_layout @ [[]]"

definition sockstat_report :: "u64 \<Rightarrow> (string \<Rightarrow> string \<Rightarrow> u64) \<Rightarrow> gauge_value list" where
  "sockstat_report pg n =
     [(''node_sockstat_sockets_used'', n ''sockets'' ''used'', ''sockets''), (''node_sockstat_TCP_inuse'', n ''TCP'' ''inuse'', ''tcp''),
      (''node_sockstat_TCP_orphan'', n ''TCP'' ''orphan'', ''tcp''), (''node_sockstat_TCP_tw'', n ''TCP'' ''tw'', ''tcp''),
      (''node_sockstat_TCP_alloc'', n ''TCP'' ''alloc'', ''tcp''), (''node_sockstat_TCP_mem'', n ''TCP'' ''mem'' * pg, ''tcp''),
      (''node_sockstat_UDP_inuse'', n ''UDPLITE'' ''inuse'', ''udp''), (''node_sockstat_UDP_mem'', n ''UDP'' ''mem'' * pg, ''udp''),
      (''node_sockstat_RAW_inuse'', n ''RAW'' ''inuse'', ''raw_sockets''),
      (''node_sockstat_FRAG_inuse'', n ''FRAG'' ''inuse'', ''frag_sockets''),
      (''node_sockstat_FRAG_memory'', n ''FRAG'' ''memory'' * pg, ''frag_sockets'')]"

definition sockstat_keys :: "string list" where
  "sockstat_keys = [''sockets'', ''TCP'', ''UDP'', ''RAW'', ''FRAG'', ''UDPLITE'']"

abbreviation sock_target :: "string \<Rightarrow> string \<Rightarrow> (nat \<times> processor) option" where
  "sock_target g \<equiv> binds_target sockstat_vars (sockstat_keywords g)"

abbreviation sock_names :: "string \<Rightarrow> string set" where
  "sock_names g \<equiv> set (map fst (sockstat_keywords g))"

definition sockstat_inv :: "net_tables \<Rightarrow> bool" where
  "sockstat_inv s \<longleftrightarrow> slot_ok keyword_seps (nt_pf s) \<and>
     (\<forall>g \<in> set sockstat_keys. arl_for (sock_target g) (sock_names g) (nt_arls s g))"

text \<open>The values of a row, in turn with their names.\<close>

lemma value_pairs_row:
  assumes "procfile_lineword pf l = row_word (pre @ concat (map (\<lambda>c. [c, f c]) cs))"
  shows "value_pairs pf l (length pre + 2 * length cs) (length pre) = map (\<lambda>c. (c, f c)) cs"
  using assms
proof (induction cs arbitrary: pre)
  case (Cons c cs)
  let ?r = "pre @ c # f c # concat (map (\<lambda>c. [c, f c]) cs)"
  have "row_word ?r (length pre) = c" "row_word ?r (length pre + 1) = f c"
    by (simp_all add: row_word_def nth_append)
  moreover have "value_pairs pf l (length pre + 2 + 2 * length cs) (length pre + 2) = map (\<lambda>c. (c, f c)) cs"
    using Cons.IH [of "pre @ [c, f c]"] Cons.prems by simp
  ultimately show ?case using Cons.prems by (subst value_pairs.simps) simp
qed (simp add: value_pairs.simps)

lemma length_sockstat_row: "length (sockstat_row v (k, cs)) = 1 + 2 * length cs"
  by (simp add: sockstat_row_def) (induction cs; simp)

text \<open>A line of the loop.\<close>

lemma sockstat_loop_line:
  assumes "tables_ok pf" and "l < length (procfile_contents pf)" and "procfile_contents pf ! l = sockstat_row v (k, cs)"
    and "sockstat_list k = Some g" and "scan_lines arl_check (arls g) (map (\<lambda>c. (c, v k c)) cs) m = Some (b, m1)"
  shows "sockstat_loop pf l arls m = sockstat_loop pf (l + 1) (arls(g := b)) m1"
proof -
  have len: "l < procfile_lines pf" using assms(2) procfile_lineword_contents(1) [OF assms(1)] by simp
  have w: "procfile_linewords pf l = length [k] + 2 * length cs" "procfile_lineword pf l = row_word ([k] @ concat (map (\<lambda>c. [c, v k c]) cs))"
    using procfile_row [OF assms(1) len] assms(3) length_sockstat_row [of v k cs] by (simp_all add: sockstat_row_def)
  have "procfile_lineword pf l 0 = k" using w(2) by (simp add: row_word_def)
  moreover have "value_pairs pf l (procfile_linewords pf l) 1 = map (\<lambda>c. (c, v k c)) cs"
    using value_pairs_row [OF w(2)] w(1) by simp
  ultimately show ?thesis using len assms(4,5) by (subst sockstat_loop.simps) simp
qed

lemma fold_store_names:
  assumes "distinct (map fst kws)"
  shows "foldl (\<lambda>m (k, v). store_value (binds_target vars kws k) k v m) m (map (\<lambda>c. (c, f c)) (map fst kws)) =
    foldl (\<lambda>m (k, x, sg). m(addr_of vars x := num_value sg (f k))) m kws"
  using assms by (auto simp: foldl_map store_binds split: option.split intro!: foldl_cong)

text \<open>What a line leaves in the variables of its list.\<close>

definition sock_store :: "string \<Rightarrow> (string \<Rightarrow> string) \<Rightarrow> mem \<Rightarrow> mem" where
  "sock_store g f m = foldl (\<lambda>m (k, x, sg). m(addr_of sockstat_vars x := num_value sg (f k))) m (sockstat_keywords g)"

lemma sock_line_stores:
  assumes "g \<in> set sockstat_keys" and "begun (sock_target g) (sock_names g) b"
  shows "\<exists>b'. scan_lines arl_check b (map (\<lambda>c. (c, f c)) (map fst (sockstat_keywords g))) m = Some (b', sock_store g f m) \<and>
    arl_for (sock_target g) (sock_names g) b' \<and> next_keyword b' \<noteq> None"
proof -
  have "list_all (\<lambda>g. distinct (map fst (sockstat_keywords g))) sockstat_keys" by code_simp
  then have d: "distinct (map fst (sockstat_keywords g))" using assms(1) by (simp add: list_all_iff)
  let ?ls = "map (\<lambda>c. (c, f c)) (map fst (sockstat_keywords g))"
  have f: "map fst ?ls = map fst (sockstat_keywords g)" by (simp add: comp_def)
  have "sock_names g = {k \<in> fst ` set ?ls. sock_target g k \<noteq> None}"
    unfolding set_map [symmetric] f by (auto simp: binds_target_None map_of_eq_None_iff simp del: not_None_eq)
  moreover have "distinct (map fst ?ls)" unfolding f by (rule d)
  ultimately show ?thesis
    using begun_line [OF assms(2), of ?ls m] unfolding fold_store_names [OF d] sock_store_def by blast
qed

lemma sockstat_loop_begun:
  assumes "tables_ok pf" and "l < length (procfile_contents pf)"
    and "procfile_contents pf ! l = sockstat_row v (g, map fst (sockstat_keywords g))"
    and "sockstat_list g = Some g" and "g \<in> set sockstat_keys" and "begun (sock_target g) (sock_names g) (arls g)"
  obtains b where "sockstat_loop pf l arls m = sockstat_loop pf (l + 1) (arls(g := b)) (sock_store g (v g) m)"
    and "arl_for (sock_target g) (sock_names g) b" and "next_keyword b \<noteq> None"
  using sock_line_stores [OF assms(5,6), of "v g" m] sockstat_loop_line [OF assms(1-4)] by blast

lemma sockstat_loop_again:
  assumes "tables_ok pf" and "l < length (procfile_contents pf)" and "procfile_contents pf ! l = sockstat_row v (k, [c])"
    and "sockstat_list k = Some g" and "arl_for (sock_target g) (sock_names g) (arls g)" and "next_keyword (arls g) \<noteq> None"
  obtains b where "sockstat_loop pf l arls m = sockstat_loop pf (l + 1) (arls(g := b)) (store_value (sock_target g c) c (v k c) m)"
    and "arl_for (sock_target g) (sock_names g) b"
  using another_pair [OF assms(5,6), of c "v k c" m] sockstat_loop_line [OF assms(1-4)] by auto

text \<open>The lines of the file: that of \<^verbatim>\<open>UDPLITE\<close> goes to the list of \<^verbatim>\<open>UDP\<close>.\<close>

definition sockstat_stores :: "(string \<Rightarrow> string \<Rightarrow> string) \<Rightarrow> mem \<Rightarrow> mem" where
  "sockstat_stores v m =
     (let m1 = sock_store ''UDP'' (v ''UDP'') (sock_store ''TCP'' (v ''TCP'') (sock_store ''sockets'' (v ''sockets'') m));
          m2 = m1(addr_of sockstat_vars ''udp_inuse'' := str2uint64_t (v ''UDPLITE'' ''inuse''))
      in sock_store ''FRAG'' (v ''FRAG'') (sock_store ''RAW'' (v ''RAW'') m2))"

lemma sockstat_rows:
  "map (sockstat_row v) sockstat_layout @ [[]] =
   (let k = \<lambda>g. sockstat_row v (g, map fst (sockstat_keywords g))
    in [k ''sockets'', k ''TCP'', k ''UDP'', sockstat_row v (''UDPLITE'', [''inuse'']), k ''RAW'', k ''FRAG'', []])"
proof -
  let ?k = "\<lambda>g. map fst (sockstat_keywords g)"
  have k: "?k ''sockets'' = [''used'']" "?k ''TCP'' = [''inuse'', ''orphan'', ''tw'', ''alloc'', ''mem'']" "?k ''UDP'' = [''inuse'', ''mem'']"
    "?k ''RAW'' = [''inuse'']" "?k ''FRAG'' = [''inuse'', ''memory'']" by code_simp+
  show ?thesis unfolding sockstat_layout_def Let_def k by simp
qed

lemma sockstat_lists:
  "sockstat_list ''sockets'' = Some ''sockets''" "sockstat_list ''TCP'' = Some ''TCP''" "sockstat_list ''UDP'' = Some ''UDP''"
  "sockstat_list ''UDPLITE'' = Some ''UDP''" "sockstat_list ''RAW'' = Some ''RAW''" "sockstat_list ''FRAG'' = Some ''FRAG''"
  "sockstat_list [] = None"
  by code_simp+

lemma sockstat_known:
  "''sockets'' \<in> set sockstat_keys" "''TCP'' \<in> set sockstat_keys" "''UDP'' \<in> set sockstat_keys" "''RAW'' \<in> set sockstat_keys"
  "''FRAG'' \<in> set sockstat_keys" "''UDPLITE'' \<in> set sockstat_keys"
  by code_simp+

lemma sockstat_loop_file:
  assumes pf: "tables_ok pf" "procfile_contents pf = map (sockstat_row v) sockstat_layout @ [[]]"
    and b: "\<forall>g \<in> set sockstat_keys. begun (sock_target g) (sock_names g) (arls g)"
  shows "\<exists>arls'. sockstat_loop pf 0 arls m = Some (arls', sockstat_stores v m) \<and>
    (\<forall>g \<in> set sockstat_keys. arl_for (sock_target g) (sock_names g) (arls' g))"
proof -
  note c = pf(2) [unfolded sockstat_rows Let_def] and ls = sockstat_lists and ks = sockstat_known
  note bg = b [rule_format]
  obtain b1 where 1: "sockstat_loop pf 0 arls m = sockstat_loop pf 1 (arls(''sockets'' := b1)) (sock_store ''sockets'' (v ''sockets'') m)"
    "arl_for (sock_target ''sockets'') (sock_names ''sockets'') b1"
    by (rule sockstat_loop_begun [OF pf(1) _ _ ls(1) ks(1), of 0 v arls m]) (use c bg [OF ks(1)] in auto)
  let ?a1 = "arls(''sockets'' := b1)" and ?m1 = "sock_store ''sockets'' (v ''sockets'') m"
  obtain b2 where 2: "sockstat_loop pf 1 ?a1 ?m1 = sockstat_loop pf 2 (?a1(''TCP'' := b2)) (sock_store ''TCP'' (v ''TCP'') ?m1)"
    "arl_for (sock_target ''TCP'') (sock_names ''TCP'') b2"
    by (rule sockstat_loop_begun [OF pf(1) _ _ ls(2) ks(2), of 1 v ?a1 ?m1]) (use c bg [OF ks(2)] in \<open>auto simp flip: numeral_2_eq_2\<close>)
  let ?a2 = "?a1(''TCP'' := b2)" and ?m2 = "sock_store ''TCP'' (v ''TCP'') ?m1"
  obtain b3 where 3: "sockstat_loop pf 2 ?a2 ?m2 = sockstat_loop pf 3 (?a2(''UDP'' := b3)) (sock_store ''UDP'' (v ''UDP'') ?m2)"
    "arl_for (sock_target ''UDP'') (sock_names ''UDP'') b3" "next_keyword b3 \<noteq> None"
    by (rule sockstat_loop_begun [OF pf(1) _ _ ls(3) ks(3), of 2 v ?a2 ?m2]) (use c bg [OF ks(3)] in auto)
  let ?a3 = "?a2(''UDP'' := b3)" and ?m3 = "sock_store ''UDP'' (v ''UDP'') ?m2"
  obtain b4 where 4: "sockstat_loop pf 3 ?a3 ?m3 = sockstat_loop pf 4 (?a3(''UDP'' := b4))
      (store_value (sock_target ''UDP'' ''inuse'') ''inuse'' (v ''UDPLITE'' ''inuse'') ?m3)"
    "arl_for (sock_target ''UDP'') (sock_names ''UDP'') b4"
    by (rule sockstat_loop_again [OF pf(1) _ _ ls(4), of 3 v "''inuse''" ?a3 ?m3]) (use c 3 in auto)
  have u: "store_value (sock_target ''UDP'' ''inuse'') ''inuse'' x m = m(addr_of sockstat_vars ''udp_inuse'' := str2uint64_t x)" for x m
    by (simp add: store_binds sockstat_keywords_def num_value_def)
  let ?a4 = "?a3(''UDP'' := b4)" and ?m4 = "?m3(addr_of sockstat_vars ''udp_inuse'' := str2uint64_t (v ''UDPLITE'' ''inuse''))"
  obtain b5 where 5: "sockstat_loop pf 4 ?a4 ?m4 = sockstat_loop pf 5 (?a4(''RAW'' := b5)) (sock_store ''RAW'' (v ''RAW'') ?m4)"
    "arl_for (sock_target ''RAW'') (sock_names ''RAW'') b5"
    by (rule sockstat_loop_begun [OF pf(1) _ _ ls(5) ks(4), of 4 v ?a4 ?m4]) (use c bg [OF ks(4)] in auto)
  let ?a5 = "?a4(''RAW'' := b5)" and ?m5 = "sock_store ''RAW'' (v ''RAW'') ?m4"
  obtain b6 where 6: "sockstat_loop pf 5 ?a5 ?m5 = sockstat_loop pf 6 (?a5(''FRAG'' := b6)) (sock_store ''FRAG'' (v ''FRAG'') ?m5)"
    "arl_for (sock_target ''FRAG'') (sock_names ''FRAG'') b6"
    by (rule sockstat_loop_begun [OF pf(1) _ _ ls(6) ks(5), of 5 v ?a5 ?m5]) (use c bg [OF ks(5)] in auto)
  have len: "procfile_lines pf = 7" using procfile_lineword_contents(1) [OF pf(1)] c by simp
  then have "procfile_lineword pf 6 0 = []" using procfile_row(2) [OF pf(1), of 6] c by (simp add: row_word_def)
  then have 7: "sockstat_loop pf 6 a x = Some (a, x)" for a x
    using ls(7) len by (subst sockstat_loop.simps, simp, subst sockstat_loop.simps, simp)
  have "sock_names ''UDPLITE'' = {}" by (simp add: sockstat_keywords_def)
  then have "arl_for (sock_target ''UDPLITE'') (sock_names ''UDPLITE'') (arls ''UDPLITE'')" using begun_idle bg [OF ks(6)] by metis
  then have "\<forall>g \<in> set sockstat_keys. arl_for (sock_target g) (sock_names g) ((?a5(''FRAG'' := b6)) g)"
    using 1(2) 2(2) 4(2) 5(2) 6(2) by (simp add: sockstat_keys_def del: set_map)
  moreover have "sockstat_loop pf 0 arls m = Some (?a5(''FRAG'' := b6), sockstat_stores v m)"
    unfolding 1(1) 2(1) 3(1) 4(1) u 5(1) 6(1) 7 by (simp add: sockstat_stores_def)
  ultimately show ?thesis by blast
qed

text \<open>The gauges show the cells.\<close>

lemma sockstat_cells:
  "published sockstat_gauges (sockstat_values pg (sockstat_stores v m)) =
   map (\<lambda>(n, x, l). (Some n, x, l)) (sockstat_report pg (\<lambda>k c. str2uint64_t (v k c)))"
proof -
  define G where "G = sockstat_gauges"
  have "list_all (\<lambda>(g, n). map_of G g = Some n) sockstat_gauges" unfolding G_def by code_simp
  note g = this [unfolded sockstat_gauges_def list.pred_inject prod.case]
  have a: "map (addr_of sockstat_vars) sockstat_vars = [0, 1, 2, 3, 4, 5, 6, 7, 8, 9, 10, 11, 12, 13, 14]" by code_simp
  let ?m = "sockstat_stores v m" and ?n = "\<lambda>k c. str2uint64_t (v k c)"
  have "map ?m [0, 1, 2, 3, 4, 5, 6, 7, 8, 9, 10] = [?n ''sockets'' ''used'', ?n ''TCP'' ''inuse'', ?n ''TCP'' ''orphan'',
      ?n ''TCP'' ''tw'', ?n ''TCP'' ''alloc'', ?n ''TCP'' ''mem'', ?n ''UDPLITE'' ''inuse'', ?n ''UDP'' ''mem'', ?n ''RAW'' ''inuse'',
      ?n ''FRAG'' ''inuse'', ?n ''FRAG'' ''memory'']"
    using a unfolding sockstat_stores_def sock_store_def sockstat_keywords_def
    by (simp add: num_value_def sockstat_vars_def del: addr_of.simps)
  with a g show ?thesis
    unfolding published_def G_def [symmetric] sockstat_values_def sockstat_report_def Let_def
    by (simp add: sockstat_vars_def del: addr_of.simps)
qed

section \<open>Rounds\<close>

lemma sockstat_init_ok: "sockstat_inv (fst (init_collector_proc_net_sockstat page_size tcp_mem orphans))"
proof -
  have "list_all (\<lambda>g. distinct (map fst (sockstat_keywords g))) sockstat_keys" by code_simp
  then have "arl_for (sock_target g) (sock_names g) (arl_binds sockstat_vars (sockstat_keywords g) (arl_create (sockstat_arl_name g) None 3))"
    if "g \<in> set sockstat_keys" for g
    using that by (intro arl_binds_for) (auto simp: list_all_iff binds_target_None map_of_eq_None_iff simp del: not_None_eq)
  then show ?thesis by (auto simp: sockstat_inv_def init_collector_proc_net_sockstat_def Let_def split: prod.split)
qed

lemma sockstat_round:
  assumes io: "io_file io c" "sockstat_file c v" and inv: "sockstat_inv s"
  shows "\<exists>s' ms. collector_proc_net_sockstat page_size conf io s = Some (s', ms, 0) \<and> sockstat_inv s' \<and>
    published sockstat_gauges ms = map (\<lambda>(n, x, l). (Some n, x, l))
      (sockstat_report (get_pgsize_kb page_size) (\<lambda>k c. str2uint64_t (v k c)))"
proof -
  let ?n = "monitor_file (nt_file s) conf ''/proc/net/sockstat''"
  have sl: "slot_ok keyword_seps (nt_pf s)" and fa: "\<forall>g \<in> set sockstat_keys. arl_for (sock_target g) (sock_names g) (nt_arls s g)"
    using inv by (simp_all add: sockstat_inv_def del: set_map)
  have "\<forall>x \<in> set keyword_seps. code_of x < 128" by (simp add: keyword_seps_def)
  from open_and_read_ok [OF io(1) sl this, of ?n PROCFILE_FLAG_DEFAULT] obtain pf where
    pf: "open_and_read io ?n (Some keyword_seps) PROCFILE_FLAG_DEFAULT (nt_pf s) = Some (Some pf)"
    "slot_ok keyword_seps (Some pf)" "tables_ok pf" "procfile_contents pf = cut_text (seps_of keyword_seps) c" .
  have "distinct sockstat_keys" by code_simp
  from begin_lists_begun [OF this fa] obtain arls where
    a: "begin_lists sockstat_keys (nt_arls s) = Some arls" "\<forall>g \<in> set sockstat_keys. begun (sock_target g) (sock_names g) (arls g)" by blast
  from sockstat_loop_file [OF pf(3) _ a(2), of v "nt_vars s"] pf(4) io(2) obtain arls' where
    l: "sockstat_loop pf 0 arls (nt_vars s) = Some (arls', sockstat_stores v (nt_vars s))"
    "\<forall>g \<in> set sockstat_keys. arl_for (sock_target g) (sock_names g) (arls' g)" unfolding sockstat_file_def by metis
  with pf(1,2) a(1) show ?thesis
    by (simp add: collector_proc_net_sockstat_def Let_def sockstat_inv_def sockstat_cells sockstat_keys_def del: set_map)
qed

lemma sockstat_series:
  assumes "list_all2 (\<lambda>io (c, v). io_file io c \<and> sockstat_file c v) ios cs" and "sockstat_inv s"
  shows "\<exists>s' outs. run_rounds (collector_proc_net_sockstat page_size conf) ios s = Some (s', outs) \<and>
    map (\<lambda>(ms, r). (published sockstat_gauges ms, r)) outs =
    map (\<lambda>(c, v). (map (\<lambda>(n, x, l). (Some n, x, l))
      (sockstat_report (get_pgsize_kb page_size) (\<lambda>k c. str2uint64_t (v k c))), 0)) cs"
  using assms
proof (induction ios cs arbitrary: s rule: list_all2_induct)
  case (Cons io ios cv cs)
  obtain c v where cv: "cv = (c, v)" by (cases cv)
  have "io_file io c" "sockstat_file c v" using Cons.hyps(1) cv by simp_all
  from sockstat_round [OF this Cons.prems, of page_size conf] obtain s1 ms where
    s1: "collector_proc_net_sockstat page_size conf io s = Some (s1, ms, 0)" "sockstat_inv s1"
    "published sockstat_gauges ms = map (\<lambda>(n, x, l). (Some n, x, l))
      (sockstat_report (get_pgsize_kb page_size) (\<lambda>k c. str2uint64_t (v k c)))" by blast
  from Cons.IH [OF s1(2)] s1(1,3) cv show ?case by auto
qed simp

lemma read_max_orphans_number:
  assumes "n < 2 ^ 64" and "f 31 = Some (decimal n @ [CHR 0x0A])"
  shows "read_tcp_max_orphans f = (0, of_nat n)"
proof -
  have "NUL \<notin> set (decimal n)" using decimal_digits [of n] by (auto simp: list_all_iff is_digit_def)
  then have "cstr (decimal n @ [CHR 0x0A]) = decimal n @ [CHR 0x0A]" by (auto simp: cstr_def takeWhile_eq_all_conv)
  moreover have "str2uint64_t (decimal n @ [CHR 0x0A]) = of_nat n"
    using takeWhile_append_stop [OF decimal_digits, of "[CHR 0x0A]" n]
    by (simp add: str2uint64_t_def dec_value_decimal is_digit_def)
  ultimately show ?thesis using assms(2)
    by (simp add: read_tcp_max_orphans_def read_file_to_uint64_def read_file_def XM_NUMBER_BUFFER_SIZE_def)
qed

lemma sockstat_thresholds:
  assumes "low < 2 ^ 64" and "pressure < 2 ^ 64" and "high < 2 ^ 64" and "most < 2 ^ 64"
    and "tcp_mem 1023 = Some (decimal low @ [CHR 0x09] @ decimal pressure @ [CHR 0x09] @ decimal high @ [CHR 0x0A])"
    and "orphans 31 = Some (decimal most @ [CHR 0x0A])"
    and "init_collector_proc_net_sockstat page_size tcp_mem orphans = (s, ths)"
  shows "published sockstat_gauges ths = map (\<lambda>(n, x). (Some n, x, ''tcp''))
      [(''tcp_mem_low_threshold'', of_nat low * get_pgsize_kb page_size),
       (''node_tcp_mem_pressure_threshold'', of_nat pressure * get_pgsize_kb page_size),
       (''tcp_mem_high_threshold'', of_nat high * get_pgsize_kb page_size), (''node_tcp_max_orphans'', of_nat most)]"
proof -
  define G where "G = sockstat_gauges"
  have "list_all (\<lambda>(g, n). map_of G g = Some n) sockstat_gauges" unfolding G_def by code_simp
  note g = this [unfolded sockstat_gauges_def list.pred_inject prod.case]
  from assms(7) g show ?thesis unfolding published_def G_def [symmetric]
    by (auto simp: init_collector_proc_net_sockstat_def read_tcp_mem_numbers [of low pressure high tcp_mem, OF assms(1-3,5)]
        read_max_orphans_number [of most orphans, OF assms(4,6)] Let_def)
qed


text \<open>The file of a host with 12 UDP sockets and no UDP-Lite socket.\<close>

definition sockstat_example :: "string \<Rightarrow> string \<Rightarrow> string" where
  "sockstat_example k c =
     (if k = ''UDP'' \<and> c = ''inuse'' then ''12'' else if k = ''TCP'' \<and> c = ''mem'' then ''3''
      else if k = ''sockets'' then ''290'' else ''0'')"

definition sockstat_text :: "(string \<Rightarrow> string \<Rightarrow> string) \<Rightarrow> string" where
  "sockstat_text v = concat (map (\<lambda>(k, cs). k @ '':'' @ concat (map (\<lambda>c. '' '' @ c @ '' '' @ v k c) cs) @ [CHR 0x0A]) sockstat_layout)"


end
