(* ===== verification/XM_ProcPlugin.thy ===== *)
theory XM_ProcPlugin
  imports XM_Netstat XM_Sockstat XM_Clocks
begin

text \<open>
  \<^verbatim>\<open>collectors/proc/plugin_proc.c\<close>: the array of collectors of \<^verbatim>\<open>/proc\<close> and the thread that runs them. An element of
  the array has the functions of its collector; the static variables of a collector's file are reached by
  its functions only, so the state of the plugin maps the name of a collector to its variables.
\<close>

section \<open>The array\<close>

text \<open>\<open>'a\<close>: the variables of a file, \<open>'io\<close>: what the files of the system hold in a turn.\<close>

record ('a, 'io) proc_metric_collector =
  pmc_name :: string
  pmc_enabled :: bool
  pmc_init :: "('a \<Rightarrow> 'a \<times> gauge_value list \<times> int) option"
  pmc_do :: "i32 \<Rightarrow> u64 \<Rightarrow> string \<Rightarrow> 'io \<Rightarrow> 'a \<Rightarrow> ('a \<times> gauge_value list \<times> int) option"
  pmc_fini :: "('a \<Rightarrow> 'a) option"

definition XM_CONFIG_NAME_MAX :: nat where "XM_CONFIG_NAME_MAX = 128"

definition module_config_path :: "string \<Rightarrow> string" where
  "module_config_path name = take (XM_CONFIG_NAME_MAX - 1) (''collector_plugin_proc.'' @ name)"

text \<open>The loop of the initialisation; \<open>enable\<close> is the look-up of \<^verbatim>\<open>enable\<close> in the configuration.\<close>

fun init_collectors ::
  "(string \<Rightarrow> bool) \<Rightarrow> ('a, 'io) proc_metric_collector list \<Rightarrow> (string \<Rightarrow> 'a) \<Rightarrow>
   ('a, 'io) proc_metric_collector list \<times> (string \<Rightarrow> 'a) \<times> (string \<times> gauge_value list) list \<times> int" where
  "init_collectors enable [] s = ([], s, [], 0)"
| "init_collectors enable (pmc # cs) s =
     (let pmc1 = pmc\<lparr>pmc_enabled := enable (module_config_path (pmc_name pmc))\<rparr>; n = pmc_name pmc
      in case (if pmc_enabled pmc1 then pmc_init pmc1 else None) of
           None \<Rightarrow> (let (cs', s', ms, r) = init_collectors enable cs s in (pmc1 # cs', s', ms, r))
         | Some f \<Rightarrow>
             (let (a, m, r) = f (s n)
              in if r \<noteq> 0 then (pmc1 # cs, s(n := a), [(n, m)], - 1)
                 else let (cs', s', ms, r') = init_collectors enable cs (s(n := a)) in (pmc1 # cs', s', (n, m) # ms, r')))"

text \<open>\<open>rdset\<close>: what \<^verbatim>\<open>init_proc_rdset\<close> returns, which allocates.\<close>

definition proc_routine_init ::
  "int \<Rightarrow> (string \<Rightarrow> bool) \<Rightarrow> ('a, 'io) proc_metric_collector list \<Rightarrow> (string \<Rightarrow> 'a) \<Rightarrow>
   ('a, 'io) proc_metric_collector list \<times> (string \<Rightarrow> 'a) \<times> (string \<times> gauge_value list) list \<times> int" where
  "proc_routine_init rdset enable cs s = (if rdset < 0 then (cs, s, [], - 1) else init_collectors enable cs s)"

section \<open>The thread\<close>

text \<open>A turn of the loop: the exit flag before and after the heartbeat and after the collector at an index
  of the array, and the files.\<close>

record 'io proc_turn =
  pt_exit :: bool
  pt_exit_beat :: bool
  pt_stop :: "nat \<Rightarrow> bool"
  pt_io :: 'io

fun run_collectors ::
  "i32 \<Rightarrow> u64 \<Rightarrow> 'io proc_turn \<Rightarrow> nat \<Rightarrow> ('a, 'io) proc_metric_collector list \<Rightarrow> (string \<Rightarrow> 'a) \<Rightarrow>
   ((string \<Rightarrow> 'a) \<times> (string \<times> gauge_value list \<times> int) list) option" where
  "run_collectors upd dt t k [] s = Some (s, [])"
| "run_collectors upd dt t k (pmc # cs) s =
     (if \<not> pmc_enabled pmc then run_collectors upd dt t (k + 1) cs s
      else let n = pmc_name pmc
           in case pmc_do pmc upd dt (module_config_path n) (pt_io t) (s n) of
                None \<Rightarrow> None
              | Some (a, out) \<Rightarrow>
                  if pt_stop t k then Some (s(n := a), [(n, out)])
                  else map_option (\<lambda>(s', outs). (s', (n, out) # outs)) (run_collectors upd dt t (k + 1) cs (s(n := a))))"

fun proc_routine_start ::
  "(nat \<Rightarrow> timespec \<times> timespec) \<Rightarrow> i32 \<Rightarrow> ('a, 'io) proc_metric_collector list \<Rightarrow> 'io proc_turn list \<Rightarrow> nat \<Rightarrow>
   heartbeat \<Rightarrow> (string \<Rightarrow> 'a) \<Rightarrow> ((string \<Rightarrow> 'a) \<times> (string \<times> gauge_value list \<times> int) list list) option" where
  "proc_routine_start clk upd cs [] i hb s = Some (s, [])"
| "proc_routine_start clk upd cs (t # ts) i hb s =
     (if pt_exit t then Some (s, [])
      else case heartbeat_next clk (step_usecs upd) i hb of
             None \<Rightarrow> None
           | Some (hb', j, dt) \<Rightarrow>
               if pt_exit_beat t then Some (s, [])
               else case run_collectors upd dt t 0 cs s of
                      None \<Rightarrow> None
                    | Some (s1, out) \<Rightarrow>
                        map_option (\<lambda>(s2, outs). (s2, out # outs)) (proc_routine_start clk upd cs ts (j + 1) hb' s1))"

text \<open>After the thread has ended.\<close>

fun fini_collectors :: "('a, 'io) proc_metric_collector list \<Rightarrow> (string \<Rightarrow> 'a) \<Rightarrow> (string \<Rightarrow> 'a)" where
  "fini_collectors [] s = s"
| "fini_collectors (pmc # cs) s =
     fini_collectors cs
       (case (if pmc_enabled pmc then pmc_fini pmc else None) of None \<Rightarrow> s | Some f \<Rightarrow> s(pmc_name pmc := f (s (pmc_name pmc))))"

definition proc_routine_stop :: "('a, 'io) proc_metric_collector list \<Rightarrow> (string \<Rightarrow> 'a) \<Rightarrow> (string \<Rightarrow> 'a)" where
  "proc_routine_stop = fini_collectors"

section \<open>What a collector promises the plugin\<close>

definition on_names :: "('a, 'io) proc_metric_collector list \<Rightarrow> (string \<Rightarrow> bool) \<Rightarrow> string list" where
  "on_names cs en = filter en (map pmc_name cs)"

text \<open>The array with the switches \<open>en\<close>.\<close>

definition switched :: "('a, 'io) proc_metric_collector list \<Rightarrow> (string \<Rightarrow> bool) \<Rightarrow> ('a, 'io) proc_metric_collector list" where
  "switched cs en = map (\<lambda>pmc. pmc\<lparr>pmc_enabled := en (pmc_name pmc)\<rparr>) cs"

text \<open>\<open>inv\<close>: the state of a collector between its rounds, \<open>meets\<close>: the files of a turn say \<open>x\<close>, \<open>says\<close>: the
  output is right for \<open>x\<close>, \<open>ready\<close>: the collectors whose initialisation succeeds.\<close>

locale round_contract =
  fixes cs :: "('a, 'io) proc_metric_collector list" and inv :: "string \<Rightarrow> 'a \<Rightarrow> bool"
    and meets :: "string \<Rightarrow> 'io \<Rightarrow> 'x \<Rightarrow> bool" and says :: "string \<Rightarrow> 'x \<Rightarrow> gauge_value list \<times> int \<Rightarrow> bool"
    and ready :: "string \<Rightarrow> bool"
  assumes names: "distinct (map pmc_name cs)"
    and start: "pmc \<in> set cs \<Longrightarrow> ready (pmc_name pmc) \<Longrightarrow>
      \<exists>f. pmc_init pmc = Some f \<and> (\<forall>a. \<exists>a' ms. f a = (a', ms, 0) \<and> inv (pmc_name pmc) a')"
    and meets_ready: "meets n io x \<Longrightarrow> ready n"
    and round: "pmc \<in> set cs \<Longrightarrow> inv (pmc_name pmc) a \<Longrightarrow> meets (pmc_name pmc) io x \<Longrightarrow>
      \<exists>a' out. pmc_do pmc upd dt p io a = Some (a', out) \<and> inv (pmc_name pmc) a' \<and> says (pmc_name pmc) x out"
begin

lemma run_collectors_say:
  assumes "set ds \<subseteq> set cs" and "distinct (map pmc_name ds)" and "\<forall>k. \<not> pt_stop t k"
    and "\<forall>pmc \<in> set ds. en (pmc_name pmc) \<longrightarrow> inv (pmc_name pmc) (s (pmc_name pmc)) \<and> meets (pmc_name pmc) (pt_io t) x"
  shows "\<exists>s' outs. run_collectors upd dt t k (map (\<lambda>pmc. pmc\<lparr>pmc_enabled := en (pmc_name pmc)\<rparr>) ds) s = Some (s', outs) \<and>
    map fst outs = filter en (map pmc_name ds) \<and> (\<forall>(n, out) \<in> set outs. says n x out) \<and>
    (\<forall>pmc \<in> set ds. en (pmc_name pmc) \<longrightarrow> inv (pmc_name pmc) (s' (pmc_name pmc))) \<and>
    (\<forall>n. n \<notin> set (map pmc_name ds) \<longrightarrow> s' n = s n)"
  using assms
proof (induction ds arbitrary: s k)
  case (Cons pmc ds)
  let ?n = "pmc_name pmc"
  have ds: "set ds \<subseteq> set cs" "distinct (map pmc_name ds)" "\<forall>pmc' \<in> set ds. pmc_name pmc' \<noteq> ?n"
    using Cons.prems(1,2) by (auto simp: image_iff)
  show ?case
  proof (cases "en ?n")
    case True
    then obtain a out where a: "pmc_do pmc upd dt (module_config_path ?n) (pt_io t) (s ?n) = Some (a, out)" "inv ?n a" "says ?n x out"
      using round [of pmc "s ?n" "pt_io t" x] Cons.prems(1,4) by force
    have "\<forall>pmc' \<in> set ds. en (pmc_name pmc') \<longrightarrow> inv (pmc_name pmc') ((s(?n := a)) (pmc_name pmc')) \<and> meets (pmc_name pmc') (pt_io t) x"
      using Cons.prems(4) ds(3) by auto
    from Cons.IH [OF ds(1,2) Cons.prems(3) this, of "k + 1"] obtain s' outs where
      ih: "run_collectors upd dt t (k + 1) (map (\<lambda>pmc. pmc\<lparr>pmc_enabled := en (pmc_name pmc)\<rparr>) ds) (s(?n := a)) = Some (s', outs)"
      "map fst outs = filter en (map pmc_name ds)" "\<forall>(n, out) \<in> set outs. says n x out"
      "\<forall>pmc \<in> set ds. en (pmc_name pmc) \<longrightarrow> inv (pmc_name pmc) (s' (pmc_name pmc))"
      "\<forall>n. n \<notin> set (map pmc_name ds) \<longrightarrow> s' n = (s(?n := a)) n" by blast
    have "?n \<notin> set (map pmc_name ds)" using Cons.prems(2) by simp
    then have "inv ?n (s' ?n)" using ih(5) a(2) by simp
    with True a Cons.prems(3) ih show ?thesis by auto
  next
    case False
    with Cons.IH [OF ds(1,2) Cons.prems(3), of s "k + 1"] Cons.prems(4) show ?thesis by auto
  qed
qed simp

lemma init_collectors_ready:
  assumes "set ds \<subseteq> set cs" and "distinct (map pmc_name ds)" and en: "\<And>n. en n = enable (module_config_path n)"
    and "\<forall>pmc \<in> set ds. en (pmc_name pmc) \<longrightarrow> ready (pmc_name pmc)"
  shows "\<exists>s' ms. init_collectors enable ds s = (map (\<lambda>pmc. pmc\<lparr>pmc_enabled := en (pmc_name pmc)\<rparr>) ds, s', ms, 0) \<and>
    (\<forall>pmc \<in> set ds. en (pmc_name pmc) \<longrightarrow> inv (pmc_name pmc) (s' (pmc_name pmc))) \<and>
    (\<forall>n. n \<notin> set (map pmc_name ds) \<longrightarrow> s' n = s n)"
  using assms(1,2,4)
proof (induction ds arbitrary: s)
  case (Cons pmc ds)
  let ?n = "pmc_name pmc"
  have ds: "set ds \<subseteq> set cs" "distinct (map pmc_name ds)" "?n \<notin> set (map pmc_name ds)"
    "\<forall>pmc \<in> set ds. en (pmc_name pmc) \<longrightarrow> ready (pmc_name pmc)" using Cons.prems by auto
  show ?case
  proof (cases "en ?n")
    case True
    then obtain f a ms where f: "pmc_init pmc = Some f" "f (s ?n) = (a, ms, 0)" "inv ?n a"
      using start [of pmc] Cons.prems(1,3) by force
    from Cons.IH [OF ds(1,2,4), of "s(?n := a)"] obtain s' ms' where
      ih: "init_collectors enable ds (s(?n := a)) = (map (\<lambda>pmc. pmc\<lparr>pmc_enabled := en (pmc_name pmc)\<rparr>) ds, s', ms', 0)"
      "\<forall>pmc \<in> set ds. en (pmc_name pmc) \<longrightarrow> inv (pmc_name pmc) (s' (pmc_name pmc))"
      "\<forall>n. n \<notin> set (map pmc_name ds) \<longrightarrow> s' n = (s(?n := a)) n" by blast
    have "init_collectors enable (pmc # ds) s =
        (map (\<lambda>pmc. pmc\<lparr>pmc_enabled := en (pmc_name pmc)\<rparr>) (pmc # ds), s', (?n, ms) # ms', 0)"
      using True f(1,2) ih(1) en [of ?n] by (simp add: Let_def)
    moreover have "inv ?n (s' ?n)" using ih(3) ds(3) f(3) by simp
    ultimately show ?thesis using ih(2,3) by auto
  next
    case False
    from Cons.IH [OF ds(1,2,4), of s] False en [of ?n] show ?thesis by (auto simp: Let_def)
  qed
qed simp

text \<open>Turns without an exit: every collector that is switched on is run once in every turn, in the order of
  the array, and its output is right for what the files say in that turn.\<close>

lemma start_says:
  assumes "list_all2 (\<lambda>t x. \<not> pt_exit t \<and> \<not> pt_exit_beat t \<and> (\<forall>k. \<not> pt_stop t k) \<and> (\<forall>n \<in> set (on_names cs en). meets n (pt_io t) x)) ts xs"
    and "\<forall>n \<in> set (on_names cs en). inv n (s n)" and "beats clk (step_usecs upd) (length ts) i hb"
  shows "\<exists>s' outs. proc_routine_start clk upd (switched cs en) ts i hb s = Some (s', outs) \<and>
    list_all2 (\<lambda>x out. map fst out = on_names cs en \<and> (\<forall>(n, q) \<in> set out. says n x q)) xs outs"
  using assms
proof (induction ts xs arbitrary: s i hb rule: list_all2_induct)
  case (Cons t ts x xs)
  have t: "\<not> pt_exit t" "\<not> pt_exit_beat t" "\<forall>k. \<not> pt_stop t k" "\<forall>n \<in> set (on_names cs en). meets n (pt_io t) x"
    using Cons.hyps(1) by auto
  from Cons.prems(2) obtain hb' j dt where hb: "heartbeat_next clk (step_usecs upd) i hb = Some (hb', j, dt)"
    "beats clk (step_usecs upd) (length ts) (j + 1) hb'" by (auto split: option.splits)
  have "\<forall>pmc \<in> set cs. en (pmc_name pmc) \<longrightarrow> inv (pmc_name pmc) (s (pmc_name pmc)) \<and> meets (pmc_name pmc) (pt_io t) x"
    using Cons.prems(1) t(4) by (auto simp: on_names_def)
  from run_collectors_say [OF subset_refl names t(3) this, of upd dt 0] obtain s1 out where
    s1: "run_collectors upd dt t 0 (switched cs en) s = Some (s1, out)" "map fst out = on_names cs en"
    "\<forall>(n, q) \<in> set out. says n x q" "\<forall>pmc \<in> set cs. en (pmc_name pmc) \<longrightarrow> inv (pmc_name pmc) (s1 (pmc_name pmc))"
    unfolding switched_def on_names_def by blast
  from s1(4) have "\<forall>n \<in> set (on_names cs en). inv n (s1 n)" by (auto simp: on_names_def)
  from Cons.IH [OF this hb(2)] s1 t hb(1) show ?case by auto
qed simp

lemma plugin_says:
  assumes "list_all2 (\<lambda>t x. \<not> pt_exit t \<and> \<not> pt_exit_beat t \<and> (\<forall>k. \<not> pt_stop t k) \<and> (\<forall>n \<in> set (on_names cs en). meets n (pt_io t) x)) ts xs"
    and "ts \<noteq> []" and en: "\<And>n. en n = enable (module_config_path n)" and "0 \<le> rdset"
    and "beats clk (step_usecs upd) (length ts) 0 heartbeat_init"
  shows "\<exists>ds s1 ms s' outs. proc_routine_init rdset enable cs s = (ds, s1, ms, 0) \<and>
    proc_routine_start clk upd ds ts 0 heartbeat_init s1 = Some (s', outs) \<and>
    list_all2 (\<lambda>x out. map fst out = on_names cs en \<and> (\<forall>(n, q) \<in> set out. says n x q)) xs outs"
proof -
  obtain t ts' x xs' where "ts = t # ts'" "xs = x # xs'" using assms(1,2) by (cases ts; cases xs) auto
  then have "\<forall>n \<in> set (on_names cs en). ready n" using assms(1) meets_ready by auto
  then have "\<forall>pmc \<in> set cs. en (pmc_name pmc) \<longrightarrow> ready (pmc_name pmc)" by (auto simp: on_names_def)
  from init_collectors_ready [OF subset_refl names en this, of s] obtain s1 ms where
    s1: "init_collectors enable cs s = (switched cs en, s1, ms, 0)"
    "\<forall>pmc \<in> set cs. en (pmc_name pmc) \<longrightarrow> inv (pmc_name pmc) (s1 (pmc_name pmc))" unfolding switched_def by blast
  from s1(2) have "\<forall>n \<in> set (on_names cs en). inv n (s1 n)" by (auto simp: on_names_def)
  from start_says [OF assms(1) this assms(5)] s1(1) assms(4) show ?thesis by (auto simp: proc_routine_init_def)
qed

end

section \<open>The collectors of the program\<close>

text \<open>The variables of a file: those of the collectors with keywords, of the collectors with a list per line, and
  of the others, which are not looked into. What the plugin reads besides the monitored files.\<close>

datatype 'x module_vars = Keyword_vars keyword_collector | Table_vars net_tables | Other_vars 'x

record proc_env =
  pe_page_size :: int
  pe_tcp_mem :: file_read
  pe_max_orphans :: file_read
  pe_monitor_file :: "string \<Rightarrow> string option"

text \<open>The files that the collectors monitor, by the name of the collector.\<close>

type_synonym proc_files = "string \<Rightarrow> file_io"

type_synonym 'x proc_module = "('x module_vars, proc_files) proc_metric_collector"

definition keyword_module ::
  "string \<Rightarrow> keyword_collector \<Rightarrow> (string option \<Rightarrow> file_io \<Rightarrow> keyword_collector \<Rightarrow> (keyword_collector \<times> gauge_value list \<times> int) option) \<Rightarrow>
   proc_env \<Rightarrow> 'x proc_module" where
  "keyword_module n new coll e =
     \<lparr>pmc_name = n, pmc_enabled = True, pmc_init = Some (\<lambda>a. (Keyword_vars new, [], 0)),
      pmc_do = (\<lambda>upd dt path io a. case a of
          Keyword_vars k \<Rightarrow> map_option (\<lambda>(k', out). (Keyword_vars k', out)) (coll (pe_monitor_file e path) (io n) k)
        | _ \<Rightarrow> None),
      pmc_fini = Some (\<lambda>a. case a of Keyword_vars k \<Rightarrow> Keyword_vars (k\<lparr>kc_pf := None\<rparr>) | _ \<Rightarrow> a)\<rparr>"

definition table_module ::
  "string \<Rightarrow> net_tables \<times> gauge_value list \<Rightarrow> (string option \<Rightarrow> file_io \<Rightarrow> net_tables \<Rightarrow> (net_tables \<times> gauge_value list \<times> int) option) \<Rightarrow>
   proc_env \<Rightarrow> 'x proc_module" where
  "table_module n new coll e =
     \<lparr>pmc_name = n, pmc_enabled = True, pmc_init = Some (\<lambda>a. (Table_vars (fst new), snd new, 0)),
      pmc_do = (\<lambda>upd dt path io a. case a of
          Table_vars s \<Rightarrow> map_option (\<lambda>(s', out). (Table_vars s', out)) (coll (pe_monitor_file e path) (io n) s)
        | _ \<Rightarrow> None),
      pmc_fini = Some (\<lambda>a. case a of Table_vars s \<Rightarrow> Table_vars (s\<lparr>nt_pf := None\<rparr>) | _ \<Rightarrow> a)\<rparr>"

text \<open>The array, in its order; \<open>other\<close> gives the functions of the collectors that are not looked into.\<close>

definition proc_collectors :: "proc_env \<Rightarrow> (string \<Rightarrow> 'x proc_module) \<Rightarrow> 'x proc_module list" where
  "proc_collectors e other =
     (let oth = (\<lambda>n. (other n)\<lparr>pmc_name := n, pmc_enabled := True\<rparr>)
      in [oth ''diskstats'', oth ''loadavg'', oth ''stat'', oth ''pressure'',
          keyword_module ''meminfo'' init_collector_proc_meminfo collector_proc_meminfo e,
          keyword_module ''vmstat'' init_collector_proc_vmstat collector_proc_vmstat e,
          table_module ''netstat'' (init_collector_proc_netstat, []) collector_proc_netstat e,
          table_module ''net_snmp'' (init_collector_proc_net_snmp, []) collector_proc_net_snmp e,
          oth ''net_dev'',
          table_module ''net_sockstat'' (init_collector_proc_net_sockstat (pe_page_size e) (pe_tcp_mem e) (pe_max_orphans e))
            (collector_proc_net_sockstat (pe_page_size e)) e,
          oth ''net_stat_conntrack'', oth ''cgroups'', oth ''schedstat''])"

section \<open>What the files say and what is published\<close>

datatype file_said = Said_keywords string | Said_tables string "net_table list" | Said_lines string "string \<Rightarrow> string \<Rightarrow> string"

definition keyword_meets :: "(string \<times> string) list \<Rightarrow> string set \<Rightarrow> file_io \<Rightarrow> file_said \<Rightarrow> bool" where
  "keyword_meets kws K io said \<longleftrightarrow> (case said of
     Said_keywords c \<Rightarrow> io_file io c \<and> distinct (map fst (file_keywords c)) \<and>
       K = {k \<in> fst ` set (file_keywords c). map_of kws k \<noteq> None}
   | _ \<Rightarrow> False)"

definition table_meets ::
  "string list \<Rightarrow> (string \<Rightarrow> keyword_vars) \<Rightarrow> nat \<Rightarrow> (string \<Rightarrow> string set) \<Rightarrow> file_io \<Rightarrow> file_said \<Rightarrow> bool" where
  "table_meets keys kws minw K io said \<longleftrightarrow> (case said of
     Said_tables c tabs \<Rightarrow> io_file io c \<and> file_tables c tabs \<and> tabs_ok keys minw tabs \<and>
       (\<forall>g \<in> set keys. columns_of (kws g) tabs g = K g)
   | _ \<Rightarrow> False)"

definition line_meets :: "file_io \<Rightarrow> file_said \<Rightarrow> bool" where
  "line_meets io said \<longleftrightarrow> (case said of Said_lines c v \<Rightarrow> io_file io c \<and> sockstat_file c v | _ \<Rightarrow> False)"

text \<open>\<open>K\<close>: the keywords with a variable that the files of a collector have, for every table.\<close>

definition proc_meets :: "(string \<Rightarrow> string \<Rightarrow> string set) \<Rightarrow> string \<Rightarrow> proc_files \<Rightarrow> (string \<Rightarrow> file_said) \<Rightarrow> bool" where
  "proc_meets K n io x \<longleftrightarrow>
     n = ''meminfo'' \<and> keyword_meets meminfo_keywords (K n []) (io n) (x n) \<or>
     n = ''vmstat'' \<and> keyword_meets vmstat_keywords (K n []) (io n) (x n) \<or>
     n = ''netstat'' \<and> table_meets netstat_keys netstat_keywords 2 (K n) (io n) (x n) \<or>
     n = ''net_snmp'' \<and> table_meets snmp_keys snmp_keywords 3 (K n) (io n) (x n) \<or>
     n = ''net_sockstat'' \<and> line_meets (io n) (x n)"

definition proc_gauges :: "string \<Rightarrow> (string \<times> string) list" where
  "proc_gauges n =
     (if n = ''meminfo'' then meminfo_gauges else if n = ''vmstat'' then vmstat_gauges
      else if n = ''netstat'' then netstat_gauges else if n = ''net_snmp'' then snmp_gauges else sockstat_gauges)"

definition proc_report :: "u64 \<Rightarrow> string \<Rightarrow> file_said \<Rightarrow> gauge_value list" where
  "proc_report pg n said = (case said of
     Said_keywords c \<Rightarrow> (if n = ''meminfo'' then meminfo_report else vmstat_report) (keyword_value (file_keywords c))
   | Said_tables c tabs \<Rightarrow>
       concat (map (if n = ''netstat'' then table_report netstat_keys netstat_keywords (\<lambda>g. column_report (netstat_names g))
         else table_report snmp_keys snmp_keywords (\<lambda>g. column_report (snmp_names g))) tabs)
   | Said_lines c v \<Rightarrow> sockstat_report pg (\<lambda>k c. str2uint64_t (v k c)))"

definition proc_says :: "u64 \<Rightarrow> string \<Rightarrow> (string \<Rightarrow> file_said) \<Rightarrow> gauge_value list \<times> int \<Rightarrow> bool" where
  "proc_says pg n x out \<longleftrightarrow> snd out = 0 \<and>
     published (proc_gauges n) (fst out) = map (\<lambda>(n, v, l). (Some n, v, l)) (proc_report pg n (x n))"

text \<open>The states of the collectors between their rounds, and the keywords that their files can have.\<close>

definition keyword_inv :: "string list \<Rightarrow> (string \<times> string) list \<Rightarrow> string set \<Rightarrow> 'x module_vars \<Rightarrow> bool" where
  "keyword_inv vars kws K a \<longleftrightarrow> (case a of
     Keyword_vars k \<Rightarrow> arl_for (bind_target vars kws) K (kc_arl k) \<and> slot_ok keyword_seps (kc_pf k) \<and>
       absent_zero (bind_target vars kws) K (kc_vars k)
   | _ \<Rightarrow> False)"

definition table_inv :: "(net_tables \<Rightarrow> bool) \<Rightarrow> 'x module_vars \<Rightarrow> bool" where
  "table_inv P a \<longleftrightarrow> (case a of Table_vars s \<Rightarrow> P s | _ \<Rightarrow> False)"

definition proc_inv :: "(string \<Rightarrow> string \<Rightarrow> string set) \<Rightarrow> string \<Rightarrow> 'x module_vars \<Rightarrow> bool" where
  "proc_inv K n a \<longleftrightarrow>
     n = ''meminfo'' \<and> keyword_inv meminfo_vars meminfo_keywords (K n []) a \<or>
     n = ''vmstat'' \<and> keyword_inv vmstat_vars vmstat_keywords (K n []) a \<or>
     n = ''netstat'' \<and> table_inv (netstat.tables_inv (K n)) a \<or> n = ''net_snmp'' \<and> table_inv (snmp.tables_inv (K n)) a \<or>
     n = ''net_sockstat'' \<and> table_inv sockstat_inv a"

definition proc_ready :: "(string \<Rightarrow> string \<Rightarrow> string set) \<Rightarrow> string \<Rightarrow> bool" where
  "proc_ready K n \<longleftrightarrow> (\<exists>io x. proc_meets K n io x)"

lemma keyword_start:
  assumes "bind_ok vars kws" and "keyword_meets kws K io said"
  shows "keyword_inv vars kws K (Keyword_vars (new_collector (arl_bind vars kws (arl_create name None 3))))"
proof -
  have "\<forall>k \<in> K. bind_target vars kws k \<noteq> None" using assms(2) by (auto simp: keyword_meets_def bind_target_def split: file_said.splits)
  with arl_bind_for [OF assms(1), of 3 K name] show ?thesis
    by (simp add: keyword_inv_def new_collector_def absent_zero_def)
qed

lemma netstat_start:
  assumes "table_meets netstat_keys netstat_keywords minw K io said"
  shows "netstat.tables_inv K init_collector_proc_netstat"
proof -
  obtain tabs where "\<forall>g \<in> set netstat_keys. columns_of (netstat_keywords g) tabs g = K g"
    using assms by (auto simp: table_meets_def split: file_said.splits)
  then show ?thesis by (rule netstat_new)
qed

lemma snmp_start:
  assumes "table_meets snmp_keys snmp_keywords minw K io said"
  shows "snmp.tables_inv K init_collector_proc_net_snmp"
proof -
  obtain tabs where "\<forall>g \<in> set snmp_keys. columns_of (snmp_keywords g) tabs g = K g"
    using assms by (auto simp: table_meets_def split: file_said.splits)
  then show ?thesis by (rule snmp_new)
qed

context keyword_file
begin

lemma module_round:
  assumes "keyword_inv vars kws K a" and "keyword_meets kws K io said"
  shows "\<exists>k c k' ms. a = Keyword_vars k \<and> said = Said_keywords c \<and> keyword_collect def vals conf io k = Some (k', ms, 0) \<and>
    keyword_inv vars kws K (Keyword_vars k') \<and>
    published gauges ms = map (\<lambda>(n, v, l). (Some n, v, l)) (spec (keyword_value (file_keywords c)))"
proof -
  obtain k where k: "a = Keyword_vars k" "arl_for (bind_target vars kws) K (kc_arl k)" "slot_ok keyword_seps (kc_pf k)"
    "absent_zero (bind_target vars kws) K (kc_vars k)" using assms(1) by (auto simp: keyword_inv_def split: module_vars.splits)
  obtain c where c: "said = Said_keywords c" "io_file io c" "distinct (map fst (file_keywords c))"
    "K = {k \<in> fst ` set (file_keywords c). map_of kws k \<noteq> None}" using assms(2) by (auto simp: keyword_meets_def split: file_said.splits)
  from round_publishes [OF c(2-4) k(2-4), of conf] obtain k' ms where "keyword_collect def vals conf io k = Some (k', ms, 0)"
    "published gauges ms = map (\<lambda>(n, v, l). (Some n, v, l)) (spec (keyword_value (file_keywords c)))"
    "arl_for (bind_target vars kws) K (kc_arl k')" "slot_ok keyword_seps (kc_pf k')" "absent_zero (bind_target vars kws) K (kc_vars k')" .
  with k(1) c(1) show ?thesis by (simp add: keyword_inv_def)
qed

end

context table_file
begin

lemma module_round:
  assumes "table_inv (tables_inv K) a" and "table_meets keys kws minw K io said"
  shows "\<exists>s c tabs s' ms. a = Table_vars s \<and> said = Said_tables c tabs \<and> table_collect def start vals minw row conf io s = Some (s', ms, 0) \<and>
    tables_inv K s' \<and> published gauges ms = map (\<lambda>(n, v, l). (Some n, v, l)) (concat (map (table_report keys kws spec) tabs))"
proof -
  obtain s where s: "a = Table_vars s" "tables_inv K s" using assms(1) by (auto simp: table_inv_def split: module_vars.splits)
  obtain c tabs where c: "said = Said_tables c tabs" "io_file io c" "file_tables c tabs" "tabs_ok keys minw tabs"
    "\<forall>g \<in> set keys. columns_of (kws g) tabs g = K g" using assms(2) by (auto simp: table_meets_def split: file_said.splits)
  from round_tables [OF c(2-5) s(2), of conf] s(1) c(1) show ?thesis by blast
qed

end

lemma sockstat_module_round:
  assumes "table_inv sockstat_inv a" and "line_meets io said"
  shows "\<exists>s c v s' ms. a = Table_vars s \<and> said = Said_lines c v \<and> collector_proc_net_sockstat page_size conf io s = Some (s', ms, 0) \<and>
    sockstat_inv s' \<and> published sockstat_gauges ms =
      map (\<lambda>(n, x, l). (Some n, x, l)) (sockstat_report (get_pgsize_kb page_size) (\<lambda>k c. str2uint64_t (v k c)))"
proof -
  obtain s where s: "a = Table_vars s" "sockstat_inv s" using assms(1) by (auto simp: table_inv_def split: module_vars.splits)
  obtain c v where c: "said = Said_lines c v" "io_file io c" "sockstat_file c v"
    using assms(2) by (auto simp: line_meets_def split: file_said.splits)
  from sockstat_round [OF c(2,3) s(2), of page_size conf] s(1) c(1) show ?thesis by blast
qed

text \<open>The elements of the array.\<close>

lemma proc_collector_named:
  assumes "pmc \<in> set (proc_collectors e other)"
  shows "pmc_name pmc = ''meminfo'' \<Longrightarrow> pmc = keyword_module ''meminfo'' init_collector_proc_meminfo collector_proc_meminfo e"
    and "pmc_name pmc = ''vmstat'' \<Longrightarrow> pmc = keyword_module ''vmstat'' init_collector_proc_vmstat collector_proc_vmstat e"
    and "pmc_name pmc = ''netstat'' \<Longrightarrow> pmc = table_module ''netstat'' (init_collector_proc_netstat, []) collector_proc_netstat e"
    and "pmc_name pmc = ''net_snmp'' \<Longrightarrow> pmc = table_module ''net_snmp'' (init_collector_proc_net_snmp, []) collector_proc_net_snmp e"
    and "pmc_name pmc = ''net_sockstat'' \<Longrightarrow> pmc = table_module ''net_sockstat''
      (init_collector_proc_net_sockstat (pe_page_size e) (pe_tcp_mem e) (pe_max_orphans e)) (collector_proc_net_sockstat (pe_page_size e)) e"
  using assms by (auto simp: proc_collectors_def keyword_module_def table_module_def Let_def)

lemma proc_meets_cases:
  assumes "proc_meets K n io x"
  obtains (meminfo) "n = ''meminfo''" and "keyword_meets meminfo_keywords (K n []) (io n) (x n)"
    | (vmstat) "n = ''vmstat''" and "keyword_meets vmstat_keywords (K n []) (io n) (x n)"
    | (netstat) "n = ''netstat''" and "table_meets netstat_keys netstat_keywords 2 (K n) (io n) (x n)"
    | (net_snmp) "n = ''net_snmp''" and "table_meets snmp_keys snmp_keywords 3 (K n) (io n) (x n)"
    | (net_sockstat) "n = ''net_sockstat''" and "line_meets (io n) (x n)"
  using assms unfolding proc_meets_def by metis

lemma proc_collector_starts:
  assumes "pmc \<in> set (proc_collectors e other)" and "proc_ready K (pmc_name pmc)"
  shows "\<exists>f. pmc_init pmc = Some f \<and> (\<forall>a. \<exists>a' ms. f a = (a', ms, 0) \<and> proc_inv K (pmc_name pmc) a')"
proof -
  note pmc = proc_collector_named [OF assms(1)]
  obtain io x where "proc_meets K (pmc_name pmc) io x" using assms(2) by (auto simp: proc_ready_def)
  then show ?thesis
  proof (cases rule: proc_meets_cases)
    case meminfo
    with keyword_start [OF meminfo.bound meminfo(2)] pmc(1) show ?thesis
      by (simp add: proc_inv_def keyword_module_def init_collector_proc_meminfo_def)
  next
    case vmstat
    with keyword_start [OF vmstat.bound vmstat(2)] pmc(2) show ?thesis
      by (simp add: proc_inv_def keyword_module_def init_collector_proc_vmstat_def)
  next
    case netstat
    with netstat_start [OF netstat(2)] pmc(3) show ?thesis by (simp add: proc_inv_def table_module_def table_inv_def)
  next
    case net_snmp
    with snmp_start [OF net_snmp(2)] pmc(4) show ?thesis by (simp add: proc_inv_def table_module_def table_inv_def)
  next
    case net_sockstat
    with sockstat_init_ok pmc(5) show ?thesis by (simp add: proc_inv_def table_module_def table_inv_def)
  qed
qed

lemma proc_collector_round:
  assumes "pmc \<in> set (proc_collectors e other)" and inv: "proc_inv K (pmc_name pmc) a" and m: "proc_meets K (pmc_name pmc) io x"
  shows "\<exists>a' out. pmc_do pmc upd dt p io a = Some (a', out) \<and> proc_inv K (pmc_name pmc) a' \<and>
    proc_says (get_pgsize_kb (pe_page_size e)) (pmc_name pmc) x out"
  using m
proof (cases rule: proc_meets_cases)
  case meminfo
  then have "keyword_inv meminfo_vars meminfo_keywords (K ''meminfo'' []) a" using inv by (simp add: proc_inv_def)
  from meminfo.module_round [OF this, of "io ''meminfo''" "x ''meminfo''" "pe_monitor_file e p"] meminfo
    proc_collector_named(1) [OF assms(1)] show ?thesis
    by (auto simp: keyword_module_def collector_proc_meminfo_def proc_inv_def proc_says_def proc_gauges_def proc_report_def)
next
  case vmstat
  then have "keyword_inv vmstat_vars vmstat_keywords (K ''vmstat'' []) a" using inv by (simp add: proc_inv_def)
  from vmstat.module_round [OF this, of "io ''vmstat''" "x ''vmstat''" "pe_monitor_file e p"] vmstat
    proc_collector_named(2) [OF assms(1)] show ?thesis
    by (auto simp: keyword_module_def collector_proc_vmstat_def proc_inv_def proc_says_def proc_gauges_def proc_report_def)
next
  case netstat
  then have "table_inv (netstat.tables_inv (K ''netstat'')) a" using inv by (simp add: proc_inv_def)
  from netstat.module_round [OF this, of "io ''netstat''" "x ''netstat''" "pe_monitor_file e p"] netstat
    proc_collector_named(3) [OF assms(1)] show ?thesis
    by (auto simp: table_module_def collector_proc_netstat_def proc_inv_def table_inv_def proc_says_def proc_gauges_def proc_report_def)
next
  case net_snmp
  then have "table_inv (snmp.tables_inv (K ''net_snmp'')) a" using inv by (simp add: proc_inv_def)
  from snmp.module_round [OF this, of "io ''net_snmp''" "x ''net_snmp''" "pe_monitor_file e p"] net_snmp
    proc_collector_named(4) [OF assms(1)] show ?thesis
    by (auto simp: table_module_def collector_proc_net_snmp_def proc_inv_def table_inv_def proc_says_def proc_gauges_def proc_report_def)
next
  case net_sockstat
  then have "table_inv sockstat_inv a" using inv by (simp add: proc_inv_def)
  from sockstat_module_round [OF this, of "io ''net_sockstat''" "x ''net_sockstat''" "pe_page_size e" "pe_monitor_file e p"] net_sockstat
    proc_collector_named(5) [OF assms(1)] show ?thesis
    by (auto simp: table_module_def proc_inv_def table_inv_def proc_says_def proc_gauges_def proc_report_def)
qed

definition proc_names :: "string list" where
  "proc_names = [''diskstats'', ''loadavg'', ''stat'', ''pressure'', ''meminfo'', ''vmstat'', ''netstat'', ''net_snmp'', ''net_dev'',
     ''net_sockstat'', ''net_stat_conntrack'', ''cgroups'', ''schedstat'']"

lemma proc_collectors_names: "map pmc_name (proc_collectors e other) = proc_names"
  by (simp add: proc_collectors_def proc_names_def keyword_module_def table_module_def)

interpretation proc: round_contract "proc_collectors e other" "proc_inv K" "proc_meets K"
  "proc_says (get_pgsize_kb (pe_page_size e))" "proc_ready K" for e other K
proof
  show "distinct (map pmc_name (proc_collectors e other))" unfolding proc_collectors_names by code_simp
  show "proc_ready K n" if "proc_meets K n io x" for n io x using that by (auto simp: proc_ready_def)
qed (rule proc_collector_starts proc_collector_round; assumption)+

section \<open>The plugin\<close>

text \<open>When the exit flag is set, the collector that runs is the last one.\<close>

lemma run_collectors_stopped:
  "\<forall>j. pt_stop t j \<Longrightarrow> run_collectors upd dt t k cs s = Some (s', outs) \<Longrightarrow> length outs \<le> 1"
  by (induction upd dt t k cs s rule: run_collectors.induct) (auto simp: Let_def split: if_splits option.splits)

lemma proc_says_all:
  assumes "map fst out = ns" and "\<forall>(n, q) \<in> set out. proc_says pg n x q"
  shows "map (\<lambda>(n, gs, r). (n, published (proc_gauges n) gs, r)) out =
    map (\<lambda>n. (n, map (\<lambda>(n, v, l). (Some n, v, l)) (proc_report pg n (x n)), 0)) ns"
  unfolding assms(1) [symmetric] using assms(2) by (auto simp: proc_says_def)

text \<open>C10: the plugin of the collectors of \<^verbatim>\<open>/proc\<close>, from its initialisation with the switches of the configuration,
  over turns in which the exit flag is not set and the heartbeat comes. When the collectors that are
  switched on are among those of the memory, the network tables and the socket figures, the
  initialisation succeeds, the thread does not hang, and in every turn every collector that is switched on
  is run once, in the order of the array, and publishes, under the names of its gauges, what its file says
  in that turn. What the others of the array would do does not matter.\<close>

theorem proc_plugin_publishes:
  assumes "list_all2 (\<lambda>t x. \<not> pt_exit t \<and> \<not> pt_exit_beat t \<and> (\<forall>k. \<not> pt_stop t k) \<and>
      (\<forall>n \<in> set (filter (\<lambda>n. enable (module_config_path n)) proc_names). proc_meets K n (pt_io t) x)) ts xs"
    and "ts \<noteq> []" and "0 \<le> rdset" and "beats clk (step_usecs upd) (length ts) 0 heartbeat_init"
  shows "\<exists>ds s1 ms s' outs. proc_routine_init rdset enable (proc_collectors e other) s = (ds, s1, ms, 0) \<and>
    proc_routine_start clk upd ds ts 0 heartbeat_init s1 = Some (s', outs) \<and>
    list_all2 (\<lambda>x out. map (\<lambda>(n, gs, r). (n, published (proc_gauges n) gs, r)) out =
      map (\<lambda>n. (n, map (\<lambda>(n, v, l). (Some n, v, l)) (proc_report (get_pgsize_kb (pe_page_size e)) n (x n)), 0))
        (filter (\<lambda>n. enable (module_config_path n)) proc_names)) xs outs"
proof -
  let ?en = "\<lambda>n. enable (module_config_path n)"
  have on: "on_names (proc_collectors e other) ?en = filter ?en proc_names" by (simp add: on_names_def proc_collectors_names)
  from proc.plugin_says [where e = e and other = other and s = s, OF assms(1) [folded on] assms(2) refl assms(3,4)]
  obtain ds s1 ms s' outs where "proc_routine_init rdset enable (proc_collectors e other) s = (ds, s1, ms, 0)"
    "proc_routine_start clk upd ds ts 0 heartbeat_init s1 = Some (s', outs)"
    and l: "list_all2 (\<lambda>x out. map fst out = filter ?en proc_names \<and>
      (\<forall>(n, q) \<in> set out. proc_says (get_pgsize_kb (pe_page_size e)) n x q)) xs outs" unfolding on by blast
  moreover from l have "list_all2 (\<lambda>x out. map (\<lambda>(n, gs, r). (n, published (proc_gauges n) gs, r)) out =
      map (\<lambda>n. (n, map (\<lambda>(n, v, l). (Some n, v, l)) (proc_report (get_pgsize_kb (pe_page_size e)) n (x n)), 0))
        (filter ?en proc_names)) xs outs"
    by (rule list_all2_mono) (blast intro: proc_says_all)
  ultimately show ?thesis by blast
qed

text \<open>Two turns with the memory and the socket figures switched on.\<close>

definition proc_turn_example :: "nat \<Rightarrow> proc_files proc_turn" where
  "proc_turn_example i = \<lparr>pt_exit = False, pt_exit_beat = False, pt_stop = (\<lambda>k. False),
     pt_io = (\<lambda>n. if n = ''meminfo'' then file_of (meminfo_example i) else file_of (sockstat_text sockstat_example))\<rparr>"

definition proc_said_example :: "nat \<Rightarrow> string \<Rightarrow> file_said" where
  "proc_said_example i n =
     (if n = ''meminfo'' then Said_keywords (meminfo_example i) else Said_lines (sockstat_text sockstat_example) sockstat_example)"

definition idle_module :: "string \<Rightarrow> unit proc_module" where
  "idle_module n = \<lparr>pmc_name = n, pmc_enabled = True, pmc_init = None, pmc_do = (\<lambda>upd dt path io a. Some (a, [], 0)), pmc_fini = None\<rparr>"

definition enable_example :: "string \<Rightarrow> bool" where
  "enable_example p \<longleftrightarrow> p = ''collector_plugin_proc.meminfo'' \<or> p = ''collector_plugin_proc.net_sockstat''"

lemma enable_example_names: "filter (\<lambda>n. enable_example (module_config_path n)) proc_names = [''meminfo'', ''net_sockstat'']"
  by code_simp

lemma proc_example_meets:
  assumes "i = 0 \<or> i = 1"
  shows "proc_meets (\<lambda>n t. {''MemTotal'', ''MemFree''}) ''meminfo'' (pt_io (proc_turn_example i)) (proc_said_example i)"
    and "proc_meets (\<lambda>n t. {''MemTotal'', ''MemFree''}) ''net_sockstat'' (pt_io (proc_turn_example i)) (proc_said_example i)"
proof -
  have k: "map_of meminfo_keywords ''MemTotal'' \<noteq> None" "map_of meminfo_keywords ''MemFree'' \<noteq> None"
    "map_of meminfo_keywords ''Hugetlb'' = None" by code_simp+
  have "NUL \<notin> set (meminfo_example 0)" "NUL \<notin> set (meminfo_example 1)" by code_simp+
  then show "proc_meets (\<lambda>n t. {''MemTotal'', ''MemFree''}) ''meminfo'' (pt_io (proc_turn_example i)) (proc_said_example i)"
    using k assms meminfo_example_keywords
    by (auto simp: proc_meets_def keyword_meets_def proc_turn_example_def proc_said_example_def simp del: One_nat_def)
  have "NUL \<notin> set (sockstat_text sockstat_example)" "sockstat_file (sockstat_text sockstat_example) sockstat_example" by code_simp+
  then show "proc_meets (\<lambda>n t. {''MemTotal'', ''MemFree''}) ''net_sockstat'' (pt_io (proc_turn_example i)) (proc_said_example i)"
    by (simp add: proc_meets_def line_meets_def proc_turn_example_def proc_said_example_def)
qed

theorem proc_plugin_publishes_witness:
  "\<exists>ds s1 ms s' a b. proc_routine_init 0 enable_example
      (proc_collectors \<lparr>pe_page_size = 4096, pe_tcp_mem = (\<lambda>n. None), pe_max_orphans = (\<lambda>n. None), pe_monitor_file = (\<lambda>p. None)\<rparr>
        idle_module) (\<lambda>n. Other_vars ()) = (ds, s1, ms, 0) \<and>
    proc_routine_start (\<lambda>i. (Some (of_nat i, 0), Some (7, 0))) 1 ds [proc_turn_example 0, proc_turn_example 1] 0 heartbeat_init s1 =
      Some (s', [a, b]) \<and>
    map fst a = [''meminfo'', ''net_sockstat''] \<and>
    published meminfo_gauges (fst (snd (a ! 0))) ! 1 = (Some ''node_memory_MemFree_kilobytes'', 40, ''mem'') \<and>
    published meminfo_gauges (fst (snd (b ! 0))) ! 1 = (Some ''node_memory_MemFree_kilobytes'', 70, ''mem'') \<and>
    published sockstat_gauges (fst (snd (b ! 1))) ! 0 = (Some ''node_sockstat_sockets_used'', 290, ''sockets'')"
proof -
  let ?e = "\<lparr>pe_page_size = 4096, pe_tcp_mem = (\<lambda>n. None), pe_max_orphans = (\<lambda>n. None), pe_monitor_file = (\<lambda>p. None)\<rparr>"
    and ?clk = "\<lambda>i. (Some (of_nat i :: u64, 0 :: u64), Some (7 :: u64, 0 :: u64))"
    and ?ts = "[proc_turn_example 0, proc_turn_example 1]" and ?xs = "[proc_said_example 0, proc_said_example 1]"
  define P where "P i n = map (\<lambda>(n, v, l). (Some n, v, l)) (proc_report (get_pgsize_kb (pe_page_size ?e)) n (proc_said_example i n))" for i n
  have t: "list_all2 (\<lambda>t x. \<not> pt_exit t \<and> \<not> pt_exit_beat t \<and> (\<forall>k. \<not> pt_stop t k) \<and>
      (\<forall>n \<in> set (filter (\<lambda>n. enable_example (module_config_path n)) proc_names).
        proc_meets (\<lambda>n t. {''MemTotal'', ''MemFree''}) n (pt_io t) x)) ?ts ?xs"
    using proc_example_meets unfolding enable_example_names by (simp add: proc_turn_example_def del: One_nat_def)
  have b: "beats ?clk (step_usecs 1) (length ?ts) 0 heartbeat_init" by code_simp
  from proc_plugin_publishes [OF t _ _ b, of 0 ?e idle_module "\<lambda>n. Other_vars ()"]
  obtain ds s1 ms s' outs where
    1: "proc_routine_init 0 enable_example (proc_collectors ?e idle_module) (\<lambda>n. Other_vars ()) = (ds, s1, ms, 0)"
    "proc_routine_start ?clk 1 ds ?ts 0 heartbeat_init s1 = Some (s', outs)"
    and l: "list_all2 (\<lambda>x out. map (\<lambda>(n, gs, r). (n, published (proc_gauges n) gs, r)) out =
      map (\<lambda>n. (n, map (\<lambda>(n, v, l). (Some n, v, l)) (proc_report (get_pgsize_kb (pe_page_size ?e)) n (x n)), 0))
        [''meminfo'', ''net_sockstat'']) ?xs outs" unfolding enable_example_names by auto
  from l obtain a b where ab: "outs = [a, b]"
    "map (\<lambda>(n, gs, r). (n, published (proc_gauges n) gs, r)) a = [(''meminfo'', P 0 ''meminfo'', 0), (''net_sockstat'', P 0 ''net_sockstat'', 0)]"
    "map (\<lambda>(n, gs, r). (n, published (proc_gauges n) gs, r)) b = [(''meminfo'', P 1 ''meminfo'', 0), (''net_sockstat'', P 1 ''net_sockstat'', 0)]"
    unfolding P_def by (auto simp: list_all2_Cons1 simp del: One_nat_def)
  have p: "P 0 ''meminfo'' ! 1 = (Some ''node_memory_MemFree_kilobytes'', 40, ''mem'')"
    "P 1 ''meminfo'' ! 1 = (Some ''node_memory_MemFree_kilobytes'', 70, ''mem'')"
    "P 1 ''net_sockstat'' ! 0 = (Some ''node_sockstat_sockets_used'', 290, ''sockets'')" unfolding P_def by code_simp+
  have g: "proc_gauges ''meminfo'' = meminfo_gauges" "proc_gauges ''net_sockstat'' = sockstat_gauges" by (simp_all add: proc_gauges_def)
  from ab(2,3) 1 ab(1) p show ?thesis by (auto simp: map_eq_Cons_conv g)
qed

end
