(* ===== verification/Spec2Isabelle.thy ===== *)
theory Spec2Isabelle
  imports XM_Strings XM_Numbers XM_Base64 XM_Backoff XM_Pattern XM_ARL XM_Procfile XM_Mempool XM_Os
    XM_Sock XM_Process XM_FilterRule XM_Apps XM_AppUsage XM_AppPlugin XM_Cgroups XM_Clocks XM_KeywordFiles
    XM_Meminfo XM_Diskstats XM_Mountinfo XM_Diskspace XM_Netstat XM_Sockstat XM_ProcPlugin
begin

text \<open>
  Verification of x-monitor, a monitoring agent for Linux hosts.

  \<^bold>\<open>The program.\<close> Plugins run in threads and wake up with a heartbeat (\<^verbatim>\<open>utils/clocks.c\<close>). A plugin reads
  files of \<^verbatim>\<open>/proc\<close> or \<^verbatim>\<open>/sys\<close> through a line and word reader (\<^verbatim>\<open>utils/procfile.c\<close>), turns words into
  numbers (\<^verbatim>\<open>utils/strings.c\<close>), picks the lines it knows with a keyword list that adapts to their order
  (\<^verbatim>\<open>utils/adaptive_resortable_list.c\<close>) and sets gauges and counters of a metrics library. The process
  plugin (\<^verbatim>\<open>collectors/application\<close>, \<^verbatim>\<open>collectors/process\<close>, \<^verbatim>\<open>collectors/proc_sock\<close>) assigns processes to
  applications by configured rules, sums up what their processes use and counts their sockets by
  looking the inodes of open files up in a table of sockets; its records come from a memory pool
  (\<^verbatim>\<open>utils/mempool.c\<close>). The cgroup plugin (\<^verbatim>\<open>plugin_cgroups\<close>) discovers control groups in one thread and
  collects from them in another.

  \<^bold>\<open>The theories,\<close> each for the files it opens with, below \<^verbatim>\<open>src/\<close>:

  \<^item> \<open>XM_Prelude\<close>: machine types, character classes, decimal numbers, the collections of simplification
    facts that all components share.
  \<^item> \<open>XM_Strings\<close>, \<open>XM_Numbers\<close>, \<open>XM_Base64\<close>, \<open>XM_Backoff\<close>: number parsers and printers, hashes, bounded copy and
    splitting, the codec and the retry delays. A buffer is a list of characters or bytes with its
    length, an integer a word of its width. Round trips, bounds, equality with reference definitions.
  \<^item> \<open>XM_Pattern\<close>: \<^verbatim>\<open>simple_pattern.c\<close>; the chain of nodes is a list of trees, and a filter is equal to the
    wildcard semantics of its text.
  \<^item> \<open>XM_ARL\<close>: the keyword list; the doubly linked list is a list and a position, destinations are cells.
    The locale \<open>keyword_list\<close> is what collectors rely on, interpreted on the list. \<open>XM_KeywordFiles\<close> extends it
    by \<open>seeing_list\<close> (which keywords were met since the last sweep) and proves what a series of rounds
    leaves in the variables.
  \<^item> \<open>XM_Procfile\<close>: the reader; buffer, word table and line table of \<^verbatim>\<open>struct proc_file\<close>, refined to a
    reference parser on the text of the file.
  \<^item> \<open>XM_Mempool\<close>: blocks with their chains of free units; units handed out are distinct, and a unit that is
    returned can be had again.
  \<^item> \<open>XM_Os\<close>: whole files, \<^verbatim>\<open>smaps\<close> and descendants of a process (\<^verbatim>\<open>utils/os.c\<close>, \<^verbatim>\<open>utils/files.c\<close>).
  \<^item> \<open>XM_Sock\<close>: the table of sockets (\<^verbatim>\<open>proc_sock/impl\<close>), over a contract of the concurrent hash table.
  \<^item> \<open>XM_Process\<close>: the record of a process and its five collectors.
  \<^item> \<open>XM_FilterRule\<close>, \<open>XM_Apps\<close>, \<open>XM_AppUsage\<close>, \<open>XM_AppPlugin\<close>: rules, applications and their processes, a round of
    collecting, and the loop of the plugin, where the theories above meet.
  \<^item> \<open>XM_Cgroups\<close>: objects of control groups, the walk over directories, and both threads as the step
    relation \<open>cg_step\<close> with the mutex and the condition variable.
  \<^item> \<open>XM_Clocks\<close>: heartbeat and calendar.
  \<^item> \<open>XM_Meminfo\<close>, \<open>XM_Diskstats\<close>: collectors of \<^verbatim>\<open>collectors/proc\<close>. Static variables are cells at the position
    of their declaration; the locale \<open>keyword_file\<close> is the contract of a collector with keywords,
    interpreted for \<^verbatim>\<open>vmstat\<close> and \<^verbatim>\<open>meminfo\<close>.

  \<^bold>\<open>Conventions.\<close> An operation takes the state it changes and returns it. A result \<open>None\<close> at the outside
  means that the code is undefined there (it writes through NULL, divides by zero, leaves a buffer) or
  does not return; error codes and NULL results are values inside. What the program only calls (system
  calls, the configuration, allocation, PCRE2, the hash tables of Collections-C and liburcu, the metrics
  library) is an argument of the definitions; where a theorem needs it to behave, that is a named
  hypothesis, and the witness of the theorem gives an instance for which it holds. Log lines are left
  out, and so is the release of memory where nothing depends on it.

  \<^bold>\<open>Loops.\<close> Loops that always end are functions with a termination proof; the loops of \<open>simple_pattern\<close>'s name
  test, of splitting, of reading files, of descendants and of the heartbeat may not end and are
  partial functions into \<open>option\<close>, for which it is proved when they return. The one fuel argument is the
  number of bytes in \<open>parser_loop\<close>, which the reader steps through one by one; it is set to the length
  of the text and is therefore enough.

  \<^bold>\<open>Numbers.\<close> Unsigned and signed integers keep their width and wrap around. Floating point is used in
  \<open>XM_Diskstats\<close> only and is taken over the reals; a division by zero is a value of its own there.

  \<^bold>\<open>Not modelled.\<close> Process control and start (\<^verbatim>\<open>main.c\<close>, \<^verbatim>\<open>utils/daemon.c\<close>, \<^verbatim>\<open>utils/popen.c\<close>, \<^verbatim>\<open>plugins.d\<close>), the
  configuration reader, HTTP and JSON, logging: they are sequences of system or library calls. Dynamic
  strings, hashing, the ring buffer and JSON are third-party code. The remaining collectors of
  \<^verbatim>\<open>collectors/proc\<close>, the disk space plugin and the figures of the cgroup controllers follow the pattern
  of what is modelled and are still to come. The eBPF programs run in the kernel.
\<close>

end
